(* ===== verification/Mina_Prelude.thy ===== *)
theory Mina_Prelude
  imports Main
    "HOL-Library.Word"
    "HOL-Library.Multiset"
    "HOL-Library.Char_ord"
    "HOL-Library.List_Lexorder"
    "HOL-Library.Product_Lexorder"
    "HOL-Library.Option_ord"
begin

text \<open>
  Shared vocabulary of the development.  Machine integers keep their width (\<open>u32\<close>, \<open>u64\<close>); the
  overflow behaviour is that of the release build (no overflow checks, so \<open>+\<close> and \<open>*\<close> wrap) except
  where the source calls a saturating operation.  A Rust panic (\<open>assert!\<close>, \<open>unwrap\<close>, \<open>unreachable!\<close>,
  an index out of range) is a value \<open>Inl p\<close> of the type \<open>'a run\<close>; a run that does not panic is
  \<open>Inr x\<close>.  The combinators \<open>bind_ok\<close>, \<open>fold_ok\<close> and \<open>traverse_ok\<close> sequence such runs; their
  inversion lemmas carry the component proofs.
\<close>

named_theorems run_simps \<open>inversion rules for runs that may panic\<close>

type_synonym u8 = "8 word"
type_synonym u32 = "32 word"
type_synonym u64 = "64 word"

datatype panic =
    AssertionFailed
  | UnreachableCode
  | IndexOutOfBounds
  | UnwrapNone
  | DivideByZero
  | PanicCall

type_synonym 'a run = "panic + 'a"

section \<open>Sequencing runs\<close>

fun bind_ok :: "'e + 'a \<Rightarrow> ('a \<Rightarrow> 'e + 'b) \<Rightarrow> 'e + 'b" where
  "bind_ok (Inl e) f = Inl e"
| "bind_ok (Inr x) f = f x"

definition map_ok :: "('a \<Rightarrow> 'b) \<Rightarrow> 'e + 'a \<Rightarrow> 'e + 'b" where
  "map_ok f m = bind_ok m (\<lambda>x. Inr (f x))"

text \<open>A \<open>for\<close> loop over a mutable state that stops at the first panic.\<close>

fun fold_ok :: "('a \<Rightarrow> 's \<Rightarrow> 'e + 's) \<Rightarrow> 'a list \<Rightarrow> 's \<Rightarrow> 'e + 's" where
  "fold_ok f [] s = Inr s"
| "fold_ok f (x # xs) s = bind_ok (f x s) (fold_ok f xs)"

text \<open>\<open>iter().map(f).collect()\<close> for an \<open>f\<close> that may panic.\<close>

fun traverse_ok :: "('a \<Rightarrow> 'e + 'b) \<Rightarrow> 'a list \<Rightarrow> 'e + 'b list" where
  "traverse_ok f [] = Inr []"
| "traverse_ok f (x # xs) = bind_ok (f x) (\<lambda>y. bind_ok (traverse_ok f xs) (\<lambda>ys. Inr (y # ys)))"

text \<open>\<open>Option::expect\<close> and \<open>Option::unwrap\<close>.\<close>

definition unwrap :: "'a option \<Rightarrow> 'a run" where
  "unwrap x = (case x of None \<Rightarrow> Inl UnwrapNone | Some y \<Rightarrow> Inr y)"

text \<open>\<open>Option::unwrap_or\<close>.\<close>

definition unwrap_or :: "'a option \<Rightarrow> 'a \<Rightarrow> 'a" where
  "unwrap_or x y = (case x of Some a \<Rightarrow> a | None \<Rightarrow> y)"

lemma unwrap_or_simps [simp]: "unwrap_or (Some a) y = a" "unwrap_or None y = y"
  by (simp_all add: unwrap_or_def)

text \<open>\<open>xs[i]\<close> on a slice.\<close>

definition index_ok :: "'a list \<Rightarrow> nat \<Rightarrow> 'a run" where
  "index_ok xs i = (if i < length xs then Inr (xs ! i) else Inl IndexOutOfBounds)"

text \<open>\<open>xs[i] = v\<close> on a slice.\<close>

definition update_ok :: "'a list \<Rightarrow> nat \<Rightarrow> 'a \<Rightarrow> 'a list run" where
  "update_ok xs i v = (if i < length xs then Inr (xs[i := v]) else Inl IndexOutOfBounds)"

lemma bind_ok_Inr_iff [run_simps]:
  "bind_ok m f = Inr y \<longleftrightarrow> (\<exists>x. m = Inr x \<and> f x = Inr y)"
  by (cases m) auto

lemma bind_ok_Inl_iff [run_simps]:
  "bind_ok m f = Inl e \<longleftrightarrow> m = Inl e \<or> (\<exists>x. m = Inr x \<and> f x = Inl e)"
  by (cases m) auto

lemma map_ok_Inr_iff [run_simps]: "map_ok f m = Inr y \<longleftrightarrow> (\<exists>x. m = Inr x \<and> f x = y)"
  by (auto simp: map_ok_def run_simps)

lemma map_ok_simps [simp]: "map_ok f (Inr x) = Inr (f x)" "map_ok f (Inl e) = Inl e"
  by (simp_all add: map_ok_def)

lemma unwrap_Inr_iff [run_simps]: "unwrap x = Inr y \<longleftrightarrow> x = Some y"
  by (auto simp: unwrap_def split: option.splits)

lemma unwrap_simps [simp]: "unwrap (Some x) = Inr x" "unwrap None = Inl UnwrapNone"
  by (simp_all add: unwrap_def)

lemma index_ok_Inr_iff [run_simps]: "index_ok xs i = Inr y \<longleftrightarrow> i < length xs \<and> xs ! i = y"
  by (auto simp: index_ok_def)

lemma update_ok_Inr_iff [run_simps]:
  "update_ok xs i v = Inr ys \<longleftrightarrow> i < length xs \<and> ys = xs[i := v]"
  by (auto simp: update_ok_def)

lemma fold_ok_append: "fold_ok f (xs @ ys) s = bind_ok (fold_ok f xs s) (fold_ok f ys)"
proof (induction xs arbitrary: s)
  case (Cons x xs)
  then show ?case by (cases "f x s") simp_all
qed simp

lemma bind_ok_right [simp]: "bind_ok m Inr = m"
  by (cases m) simp_all

lemma fold_ok_single: "fold_ok f [x] = f x"
proof (rule ext)
  fix s
  have "fold_ok f [] = (Inr :: 'a \<Rightarrow> 'b + 'a)" for f :: "'c \<Rightarrow> 'a \<Rightarrow> 'b + 'a" by (rule ext) simp
  then show "fold_ok f [x] s = f x s" by simp
qed

lemma fold_ok_invariant:
  assumes "fold_ok f xs s = Inr t" and "P s"
    and "\<And>x s t. x \<in> set xs \<Longrightarrow> P s \<Longrightarrow> f x s = Inr t \<Longrightarrow> P t"
  shows "P t"
  using assms
proof (induction xs arbitrary: s)
  case (Cons x xs)
  from Cons.prems(1) obtain u where "f x s = Inr u" "fold_ok f xs u = Inr t"
    by (auto simp: run_simps)
  with Cons show ?case by (metis list.set_intros)
qed simp

lemma fold_ok_total:
  assumes "P s" and "\<And>x s. x \<in> set xs \<Longrightarrow> P s \<Longrightarrow> \<exists>t. f x s = Inr t \<and> P t"
  shows "\<exists>t. fold_ok f xs s = Inr t \<and> P t"
  using assms
proof (induction xs arbitrary: s)
  case (Cons x xs)
  then obtain u where "f x s = Inr u" "P u" by (meson list.set_intros(1))
  with Cons show ?case by simp
qed simp

lemma traverse_ok_Inr_iff [run_simps]:
  "traverse_ok f xs = Inr ys \<longleftrightarrow> list_all2 (\<lambda>x y. f x = Inr y) xs ys"
proof (induction xs arbitrary: ys)
  case (Cons x xs)
  show ?case by (cases ys) (auto simp: run_simps Cons.IH)
qed auto

lemma traverse_ok_total: "(\<And>x. x \<in> set xs \<Longrightarrow> f x = Inr (g x)) \<Longrightarrow> traverse_ok f xs = Inr (map g xs)"
  by (induction xs) auto

lemma traverse_ok_in: "traverse_ok f xs = Inr ys \<Longrightarrow> y \<in> set ys \<Longrightarrow> \<exists>x\<in>set xs. f x = Inr y"
  by (induction xs arbitrary: ys) (auto simp: bind_ok_Inr_iff)

lemma traverse_ok_ex:
  assumes "\<And>x. x \<in> set xs \<Longrightarrow> \<exists>y. f x = Inr y \<and> P y"
  shows "\<exists>ys. traverse_ok f xs = Inr ys \<and> (\<forall>y\<in>set ys. P y)"
  using assms
proof (induction xs)
  case (Cons x xs)
  obtain y where "f x = Inr y" "P y" using Cons.prems[of x] by auto
  moreover obtain ys where "traverse_ok f xs = Inr ys" "\<forall>y\<in>set ys. P y"
    using Cons.IH Cons.prems by auto
  ultimately show ?case by simp
qed simp

lemma sum_list_mset_eq:
  fixes f :: "'a \<Rightarrow> 'b::comm_monoid_add"
  assumes "mset xs = mset ys"
  shows "sum_list (map f xs) = sum_list (map f ys)"
  using assms by (metis mset_map sum_mset_sum_list)

lemma filter_distinct_key:
  assumes "distinct (map f xs)" "x \<in> set xs"
  shows "filter (\<lambda>y. f y = f x) xs = [x]"
  using assms by (induction xs) (auto simp: filter_empty_conv image_iff)

section \<open>Saturating arithmetic\<close>

definition sat_add :: "'a::len word \<Rightarrow> 'a word \<Rightarrow> 'a word" where
  "sat_add a b = (if a \<le> a + b then a + b else - 1)"

definition sat_sub :: "'a::len word \<Rightarrow> 'a word \<Rightarrow> 'a word" where
  "sat_sub a b = (if b \<le> a then a - b else 0)"

lemma unat_sat_sub: "unat (sat_sub a b) = unat a - unat b"
  by (auto simp: sat_sub_def unat_sub word_le_nat_alt)

lemma unat_max_word: "unat (- 1 :: 'a::len word) = 2 ^ LENGTH('a) - 1"
  by (simp add: unsigned_minus_1_eq_mask mask_eq_exp_minus_1)

lemma unat_sat_add:
  fixes a b :: "'a::len word"
  shows "unat (sat_add a b) = min (unat a + unat b) (2 ^ LENGTH('a) - 1)"
proof (cases "unat a + unat b < 2 ^ LENGTH('a)")
  case True
  then have "unat (a + b) = unat a + unat b" by (rule unat_add_lem [THEN iffD1])
  with True show ?thesis by (auto simp: sat_add_def word_le_nat_alt)
next
  case False
  then have "\<not> a \<le> a + b" by (simp add: no_olen_add_nat)
  with False show ?thesis by (simp add: sat_add_def unat_max_word)
qed

lemma unat_add_exact:
  fixes a b :: "'a::len word"
  shows "unat a + unat b < 2 ^ LENGTH('a) \<Longrightarrow> unat (a + b) = unat a + unat b"
  by (rule unat_add_lem [THEN iffD1])

lemma sat_sub_add_cancel [simp]: "sat_sub (a + b) b = a" if "a \<le> a + b" for a b :: "'a::len word"
proof -
  have "unat a + unat b < 2 ^ LENGTH('a)" using that by (simp add: no_olen_add_nat)
  then have "b \<le> a + b" by (simp add: word_le_nat_alt unat_add_exact)
  then show ?thesis by (simp add: sat_sub_def)
qed

lemma sat_sub_cancel_add: "b \<le> a \<Longrightarrow> sat_sub a b + b = a"
  by (simp add: sat_sub_def)

lemma sat_add_sub_cancel: "sat_sub (sat_add a 1) 1 = a" if "a < - 1" for a :: "'a::len word"
proof -
  have "unat a < 2 ^ LENGTH('a) - 1"
    using that by (simp add: word_less_nat_alt unat_max_word)
  then have *: "unat a + 1 < 2 ^ LENGTH('a)" by simp
  have u1: "unat (1 :: 'a word) = 1" by simp
  have "unat (sat_sub (sat_add a 1) 1) = unat a"
    unfolding unat_sat_sub unat_sat_add u1 using * by simp
  then show ?thesis by (rule word_unat_eq_iff [THEN iffD2])
qed

section \<open>Comparisons\<close>

text \<open>\<open>std::cmp::Ordering\<close> and \<open>Ord::cmp\<close> of a totally ordered type.\<close>

datatype ordering = Less | Equal | Greater

definition cmp :: "'a::linorder \<Rightarrow> 'a \<Rightarrow> ordering" where
  "cmp a b = (if a < b then Less else if a = b then Equal else Greater)"

lemma cmp_iff [simp]:
  "cmp a b = Less \<longleftrightarrow> a < b"
  "cmp a b = Equal \<longleftrightarrow> a = b"
  "cmp a b = Greater \<longleftrightarrow> b < a"
  by (auto simp: cmp_def)

section \<open>Comparators\<close>

text \<open>
  \<open>Ordering::reverse\<close>, the stable \<open>slice::sort_by\<close> and \<open>Iterator::min_by\<close>, which keeps the first of
  equal minima.
\<close>

fun reverse_ordering :: "ordering \<Rightarrow> ordering" where
  "reverse_ordering Less = Greater"
| "reverse_ordering Equal = Equal"
| "reverse_ordering Greater = Less"

fun insert_by :: "('a \<Rightarrow> 'a \<Rightarrow> ordering) \<Rightarrow> 'a \<Rightarrow> 'a list \<Rightarrow> 'a list" where
  "insert_by compare x [] = [x]"
| "insert_by compare x (y # ys) =
     (if compare x y = Greater then y # insert_by compare x ys else x # y # ys)"

definition sort_by :: "('a \<Rightarrow> 'a \<Rightarrow> ordering) \<Rightarrow> 'a list \<Rightarrow> 'a list" where
  "sort_by compare xs = foldr (insert_by compare) xs []"

fun min_by :: "('a \<Rightarrow> 'a \<Rightarrow> ordering) \<Rightarrow> 'a list \<Rightarrow> 'a option" where
  "min_by compare [] = None"
| "min_by compare (x # xs) = Some (fold (\<lambda>y m. if compare m y = Greater then y else m) xs x)"

lemma mset_insert_by: "mset (insert_by compare x xs) = add_mset x (mset xs)"
  by (induction xs) auto

lemma mset_sort_by: "mset (sort_by compare xs) = mset xs"
  by (induction xs) (auto simp: sort_by_def mset_insert_by)

lemma set_sort_by [simp]: "set (sort_by compare xs) = set xs"
  by (metis mset_sort_by set_mset_mset)

lemma insert_by_insort:
  "(\<And>y. y \<in> set xs \<Longrightarrow> compare x y = Greater \<longleftrightarrow> f y < f x) \<Longrightarrow> insert_by compare x xs = insort_key f x xs"
  by (induction xs) (auto simp: not_less)

lemma sort_by_key:
  "(\<And>x y. x \<in> set xs \<Longrightarrow> y \<in> set xs \<Longrightarrow> compare x y = Greater \<longleftrightarrow> f y < f x) \<Longrightarrow>
    sort_by compare xs = sort_key f xs"
proof (induction xs)
  case (Cons x xs)
  then have "sort_by compare xs = sort_key f xs" by simp
  moreover have "insert_by compare x (sort_key f xs) = insort_key f x (sort_key f xs)"
    by (rule insert_by_insort) (use Cons.prems in simp)
  ultimately show ?case by (simp add: sort_by_def)
qed (simp add: sort_by_def)

lemma min_by_in: "min_by compare xs = Some x \<Longrightarrow> x \<in> set xs"
proof (cases xs)
  case (Cons y ys)
  have "fold (\<lambda>y m. if compare m y = Greater then y else m) ys y \<in> set (y # ys)"
    by (induction ys arbitrary: y) auto
  then show "min_by compare xs = Some x \<Longrightarrow> ?thesis" using Cons by auto
qed simp

section \<open>Runs and words of the loops\<close>

lemma fold_ok_cong:
  "(\<And>x s. x \<in> set xs \<Longrightarrow> f x s = g x s) \<Longrightarrow> fold_ok f xs s = fold_ok g xs s"
proof (induction xs arbitrary: s)
  case (Cons x xs)
  then show ?case by (cases "g x s") auto
qed simp

lemma unat_plus_one: "unat w + 1 < 2 ^ LENGTH('a) \<Longrightarrow> unat (w + 1 :: 'a::len word) = unat w + 1"
  by (simp add: unat_word_ariths)

lemma unat_u32_less: "unat (w :: u32) < 4294967296"
  by (rule order_less_le_trans[OF unsigned_less]) simp

lemma sum_list_partition:
  "sum_list (map f (filter P xs)) + sum_list (map f (filter (\<lambda>x. \<not> P x) xs)) = (sum_list (map f xs) :: 'a multiset)"
  by (induction xs) (auto simp: add.assoc add.left_commute)

end
