(* ===== verification/Base_Types.thy ===== *)
theory Base_Types
  imports Mina_Prelude
begin

text \<open>
  The indexer's base value types: the constants of \<open>constants.rs\<close>, \<open>Amount\<close> and \<open>Nonce\<close> of
  \<open>base/\<close>, the validated string types \<open>PublicKey\<close>, \<open>StateHash\<close> and \<open>TokenAddress\<close>.  A newtype
  around a string is the string itself; Rust strings are bytes and so are HOL's \<open>char\<close>s, so
  \<open>length\<close> is \<open>str::len\<close> and the order of \<open>List_Lexorder\<close> over \<open>Char_ord\<close> is the derived \<open>Ord\<close>.
\<close>

section \<open>Constants\<close>

definition MINA_SCALE :: u64 where
  "MINA_SCALE = 1000000000"

definition MAINNET_ACCOUNT_CREATION_FEE :: u64 where
  "MAINNET_ACCOUNT_CREATION_FEE = 1000000000"

definition MAINNET_COINBASE_REWARD :: u64 where
  "MAINNET_COINBASE_REWARD = 720000000000"

definition BLOCK_REPORTING_FREQ_NUM :: nat where
  "BLOCK_REPORTING_FREQ_NUM = 1000"

definition PRUNE_INTERVAL_DEFAULT :: nat where
  "PRUNE_INTERVAL_DEFAULT = 10"

definition CANONICAL_UPDATE_THRESHOLD :: nat where
  "CANONICAL_UPDATE_THRESHOLD = PRUNE_INTERVAL_DEFAULT div 5"

definition MAINNET_CANONICAL_THRESHOLD :: nat where
  "MAINNET_CANONICAL_THRESHOLD = 10"

definition MAINNET_TRANSITION_FRONTIER_K :: nat where
  "MAINNET_TRANSITION_FRONTIER_K = 290"

definition LEDGER_CADENCE :: nat where
  "LEDGER_CADENCE = 100"

definition ZKAPP_STATE_FIELD_ELEMENTS_NUM :: nat where
  "ZKAPP_STATE_FIELD_ELEMENTS_NUM = 8"

definition MINA_TOKEN_ADDRESS :: string where
  "MINA_TOKEN_ADDRESS = ''wSHV2S4qX9jFsLjQo8r1BsMLH2ZRKsZx6EJd1sbozGPieEC4Jf''"

definition MAINNET_GENESIS_HASH :: string where
  "MAINNET_GENESIS_HASH = ''3NKeMoncuHab5ScarV5ViyF16cJPT4taWNSaTLS64Dp67wuXigPZ''"

definition HARDFORK_GENESIS_HASH :: string where
  "HARDFORK_GENESIS_HASH = ''3NK4BpDSekaqsG6tx8Nse2zJchRft2JpnbvMiog55WCr5xJZaKeP''"

definition MAINNET_GENESIS_TIMESTAMP :: u64 where
  "MAINNET_GENESIS_TIMESTAMP = 1615939200000"

definition MAINNET_BLOCK_SLOT_TIME_MILLIS :: u64 where
  "MAINNET_BLOCK_SLOT_TIME_MILLIS = 180000"

definition NAME_SERVICE_MEMO_PREFIX :: string where
  "NAME_SERVICE_MEMO_PREFIX = ''Name: ''"

definition MINA_EXPLORER_NAME_SERVICE_ADDRESS :: string where
  "MINA_EXPLORER_NAME_SERVICE_ADDRESS = ''B62qjzJvc59DdG9ahht9rwxkEz7GedKuUMsnaVTuXFUeANKqfBeWpRE''"

definition MINA_SEARCH_NAME_SERVICE_ADDRESS :: string where
  "MINA_SEARCH_NAME_SERVICE_ADDRESS = ''B62qjMINASEARCHMINASEARCHMINASEARCHMINASEARCHMINASEARCH''"

text \<open>
  \<open>millis as u64 - GENESIS\<close> wraps in a release build, and the final \<open>as u32\<close> keeps the low 32 bits.
\<close>

definition millis_to_global_slot :: "u64 \<Rightarrow> u32" where
  "millis_to_global_slot millis =
     ucast ((millis - MAINNET_GENESIS_TIMESTAMP) div MAINNET_BLOCK_SLOT_TIME_MILLIS)"

section \<open>Amounts and nonces\<close>

type_synonym amount = u64
type_synonym nonce = u32
type_synonym global_slot = u32

definition amount_new :: "u64 \<Rightarrow> amount" where
  "amount_new a = a * MINA_SCALE"

definition amount_add :: "amount \<Rightarrow> amount \<Rightarrow> amount" where
  "amount_add a b = a + b"

definition amount_add_i64 :: "amount \<Rightarrow> 64 word \<Rightarrow> amount" where
  "amount_add_i64 a b = a + b"

definition amount_sub :: "amount \<Rightarrow> amount \<Rightarrow> amount" where
  "amount_sub a b = sat_sub a b"

definition nonce_add :: "nonce \<Rightarrow> u32 \<Rightarrow> nonce" where
  "nonce_add n k = sat_add n k"

definition nonce_sub :: "nonce \<Rightarrow> u32 \<Rightarrow> nonce" where
  "nonce_sub n k = sat_sub n k"

text \<open>\<open>Nonce + i32\<close>: the argument is read as two's complement, \<open>unsigned_abs\<close> is its magnitude.\<close>

definition nonce_add_i32 :: "nonce \<Rightarrow> 32 word \<Rightarrow> nonce" where
  "nonce_add_i32 n other =
     (let a = (word_of_int \<bar>sint other\<bar> :: u32)
      in if 0 < sint other then sat_add n a else sat_sub n a)"

lemma unat_amount_sub: "unat (amount_sub a b) = unat a - unat b"
  by (simp add: amount_sub_def unat_sat_sub)

lemma unat_amount_add: "unat a + unat b < 2 ^ 64 \<Longrightarrow> unat (amount_add a b) = unat a + unat b"
  unfolding amount_add_def by (rule unat_add_exact) simp

lemma amount_sub_add_cancel: "unat a + unat b < 2 ^ 64 \<Longrightarrow> amount_sub (amount_add a b) b = a"
  by (simp add: word_unat_eq_iff unat_amount_sub unat_amount_add)

lemma amount_add_sub_cancel: "b \<le> a \<Longrightarrow> amount_add (amount_sub a b) b = a"
  by (simp add: amount_add_def amount_sub_def sat_sub_cancel_add)

lemma nonce_sub_add_cancel: "n < - 1 \<Longrightarrow> nonce_sub (nonce_add n 1) 1 = n"
  by (simp add: nonce_add_def nonce_sub_def sat_add_sub_cancel)

lemma nonce_add_pos: "0 < nonce_add n 1"
  by (simp add: word_less_nat_alt nonce_add_def unat_sat_add)

section \<open>Validated string types\<close>

type_synonym public_key = string
type_synonym state_hash = string
type_synonym ledger_hash = string
type_synonym token_address = string
type_synonym token_symbol = string
type_synonym username = string

definition starts_with :: "string \<Rightarrow> string \<Rightarrow> bool" where
  "starts_with s p \<longleftrightarrow> take (length p) s = p"

definition public_key_is_valid :: "string \<Rightarrow> bool" where
  "public_key_is_valid pk \<longleftrightarrow> starts_with pk ''B62q'' \<and> length pk = 55"

definition public_key_from_str :: "string \<Rightarrow> public_key option" where
  "public_key_from_str s = (if public_key_is_valid s then Some s else None)"

definition public_key_upper_bound :: public_key where
  "public_key_upper_bound = ''B62qZZZZZZZZZZZZZZZZZZZZZZZZZZZZZZZZZZZZZZZZZZZZZZZZZZZ''"

definition public_key_lower_bound :: public_key where
  "public_key_lower_bound = ''B62q000000000000000000000000000000000000000000000000000''"

definition public_key_default :: public_key where
  "public_key_default = ''B62qDEFAULTDEFAULTDEFAULTDEFAULTDEFAULTDEFAULTDEFAULTPK''"

definition state_hash_is_valid :: "string \<Rightarrow> bool" where
  "state_hash_is_valid h \<longleftrightarrow> starts_with h ''3N'' \<and> length h = 52"

definition state_hash_from_str :: "string \<Rightarrow> state_hash option" where
  "state_hash_from_str s = (if state_hash_is_valid s then Some s else None)"

definition state_hash_default :: state_hash where
  "state_hash_default = ''3NLDEFAULTDEFAULTDEFAULTDEFAULTDEFAULTDEFAULTDEFAULT''"

definition ledger_hash_is_valid :: "string \<Rightarrow> bool" where
  "ledger_hash_is_valid h \<longleftrightarrow> length h = 51 \<and> take 2 h \<in> {''jx'', ''jw'', ''jy'', ''jz''}"

definition ledger_hash_new :: "string \<Rightarrow> ledger_hash option" where
  "ledger_hash_new s = (if ledger_hash_is_valid s then Some s else None)"

definition ledger_hash_default :: ledger_hash where
  "ledger_hash_default = ''jxDEFAULTDEFAULTDEFAULTDEFAULTDEFAULTDEFAULTDEFAULT''"

definition token_address_new :: "string \<Rightarrow> token_address option" where
  "token_address_new s = (if length s = 50 then Some s else None)"

definition token_address_default :: token_address where
  "token_address_default = MINA_TOKEN_ADDRESS"

definition token_symbol_default :: token_symbol where
  "token_symbol_default = ''MINA''"

end
