(* ===== verification/Block_Types.thy ===== *)
theory Block_Types
  imports Base_Types
begin

text \<open>
  The data carried by a precomputed block: the zkapp values and account structures of
  \<open>mina_blocks/v2\<close>, the V2 staged ledger diff with its signed and zkapp commands, and the V1 staged
  ledger diff of \<open>protocol/serialization_types/staged_ledger_diff.rs\<close>.  The version wrappers
  \<open>Versioned<T>\<close> of the V1 types are transparent (the source reads through them with \<open>.t\<close>), and the
  V1 keys are held in the address form that \<open>PublicKey::from\<close> gives them.  Fields that no modelled
  operation reads (proofs, signatures' curve points, zkapp preconditions) are left out.
\<close>

section \<open>Zkapp values\<close>

type_synonym app_state = string
type_synonym action_state = string
type_synonym zkapp_event = string
type_synonym uri = string

text \<open>The three 32-byte hex types share one conversion: two assertions, then the string itself.\<close>

definition hex32_from :: "string \<Rightarrow> string run" where
  "hex32_from s =
     (if \<not> starts_with s ''0x'' then Inl AssertionFailed
      else if length s \<noteq> 66 then Inl AssertionFailed
      else Inr s)"

definition app_state_from :: "string \<Rightarrow> app_state run" where
  "app_state_from s = hex32_from s"

definition action_state_from :: "string \<Rightarrow> action_state run" where
  "action_state_from s = hex32_from s"

definition zkapp_event_from :: "string \<Rightarrow> zkapp_event run" where
  "zkapp_event_from s = hex32_from s"

definition app_state_default :: app_state where
  "app_state_default = ''0x0000000000000000000000000000000000000000000000000000000000000000''"

definition action_state_default :: action_state where
  "action_state_default = ''0x3772BC5435B957F81F86F752E93F2E29E886AC24580B3D1EC879C1DAD26965F9''"

record verification_key =
  vk_data :: string
  vk_hash :: string

definition verification_key_default :: verification_key where
  "verification_key_default = \<lparr>vk_data = [], vk_hash = []\<rparr>"

record zkapp_account =
  za_app_state :: "app_state list"
  za_action_state :: "action_state list"
  za_verification_key :: verification_key
  za_proved_state :: bool
  za_zkapp_uri :: uri
  za_zkapp_version :: u32
  za_last_action_slot :: u32

text \<open>The array sizes \<open>[AppState; 8]\<close> and \<open>[ActionState; 5]\<close> are part of the Rust type.\<close>

definition zkapp_account_wf :: "zkapp_account \<Rightarrow> bool" where
  "zkapp_account_wf z \<longleftrightarrow>
     length (za_app_state z) = ZKAPP_STATE_FIELD_ELEMENTS_NUM \<and> length (za_action_state z) = 5"

definition zkapp_account_default :: zkapp_account where
  "zkapp_account_default = \<lparr>
     za_app_state = replicate ZKAPP_STATE_FIELD_ELEMENTS_NUM app_state_default,
     za_action_state = replicate 5 action_state_default,
     za_verification_key = verification_key_default,
     za_proved_state = False,
     za_zkapp_uri = [],
     za_zkapp_version = 0,
     za_last_action_slot = 0\<rparr>"

definition zkapp_account_from_proved_state :: "bool \<Rightarrow> zkapp_account" where
  "zkapp_account_from_proved_state proved_state =
     zkapp_account_default\<lparr>za_proved_state := proved_state\<rparr>"

lemma zkapp_account_wf_from_proved_state [simp]:
  "zkapp_account_wf (zkapp_account_from_proved_state p)"
  by (simp add: zkapp_account_wf_def zkapp_account_from_proved_state_def zkapp_account_default_def)

section \<open>Permissions and timing\<close>

datatype permission = NonePerm | EitherPerm | ProofPerm | SignaturePerm | ImpossiblePerm

record permissions =
  edit_state :: permission
  access :: permission
  send :: permission
  receive :: permission
  set_delegate :: permission
  set_permissions :: permission
  set_verification_key :: "permission \<times> string"
  set_zkapp_uri :: permission
  edit_action_state :: permission
  set_token_symbol :: permission
  increment_nonce :: permission
  set_voting_for :: permission
  set_timing :: permission

record timing =
  cliff_time :: u32
  vesting_period :: u32
  cliff_amount :: u64
  vesting_increment :: u64
  initial_minimum_balance :: u64

section \<open>V2 account updates\<close>

text \<open>
  \<open>UpdateKind\<close>, \<open>UpdateVerificationKey\<close>, \<open>UpdatePermissions\<close> and \<open>UpdateTiming\<close> differ only in the
  payload of \<open>Set\<close>.
\<close>

datatype 'a update_kind = Keep string | SetTo string 'a

fun update_to_option :: "'a update_kind \<Rightarrow> 'a option" where
  "update_to_option (Keep _) = None"
| "update_to_option (SetTo _ x) = Some x"

record zkapp_update =
  up_app_state :: "string update_kind list"
  up_delegate :: "string update_kind"
  up_verification_key :: "verification_key update_kind"
  up_permissions :: "permissions update_kind"
  up_zkapp_uri :: "string update_kind"
  up_token_symbol :: "string update_kind"
  up_timing :: "timing update_kind"
  up_voting_for :: "string update_kind"

datatype supply_adjustment_sign = Pos | Neg

record supply_adjustment =
  sa_magnitude :: u64
  sa_sgn :: supply_adjustment_sign

datatype proof_or_signature = ProofKind | SignatureKind

datatype authorization =
    AuthNoneGiven string
  | AuthEither string
  | AuthProofTagged proof_or_signature string
  | AuthProof string
  | AuthSignatureTagged proof_or_signature string
  | AuthSignature string

record account_update_body =
  aub_public_key :: public_key
  aub_token_id :: token_address
  aub_update :: zkapp_update
  aub_balance_change :: supply_adjustment
  aub_increment_nonce :: bool
  aub_events :: "string list list"
  aub_actions :: "string list list"
  aub_implicit_account_creation_fee :: bool
  aub_authorization_kind :: authorization

datatype elt = Elt (elt_body: account_update_body) (elt_calls: "elt list")

record zkapp_fee_payer =
  fp_public_key :: public_key
  fp_fee :: amount
  fp_nonce :: nonce

record zkapp_command_data =
  zc_memo :: string
  zc_fee_payer :: zkapp_fee_payer
  zc_account_updates :: "elt list"

section \<open>V2 commands\<close>

datatype signed_body_v2 =
    PaymentV2 public_key u64
  | StakeDelegationV2 public_key

record signed_command_v2 =
  sc2_signer :: public_key
  sc2_memo :: string
  sc2_fee :: amount
  sc2_fee_payer_pk :: public_key
  sc2_nonce :: nonce
  sc2_body :: signed_body_v2

datatype user_command_data =
    SignedCommandData signed_command_v2
  | ZkappCommandData zkapp_command_data

datatype status_kind = AppliedKind | FailedKind

type_synonym failed_type = string

datatype status_v2 =
    StatusV2 status_kind
  | StatusAndFailureV2 status_kind failed_type

record user_command_v2 =
  uc2_data :: user_command_data
  uc2_status :: status_v2

record completed_work =
  cw_fee :: amount
  cw_prover :: public_key

record coinbase_payload =
  cp_receiver_pk :: public_key
  cp_fee :: amount

datatype coinbase_v2 =
    ZeroV2
  | OneV2 "coinbase_payload option"
  | TwoV2 "(coinbase_payload \<times> coinbase_payload option) option"

record diff_v2 =
  d2_completed_works :: "completed_work list"
  d2_commands :: "user_command_v2 list"
  d2_coinbase :: coinbase_v2

section \<open>V1 commands\<close>

datatype signed_body_v1 =
    PaymentPayloadV1 public_key public_key u64
  | SetDelegateV1 public_key public_key

record signed_command_v1 =
  sc1_signer :: public_key
  sc1_memo :: "u8 list"
  sc1_fee :: u64
  sc1_fee_payer_pk :: public_key
  sc1_nonce :: u32
  sc1_body :: signed_body_v1

record transaction_status_auxiliary_data =
  fee_payer_account_creation_fee_paid_field :: "u64 option"
  receiver_account_creation_fee_paid_field :: "u64 option"
  created_token_field :: "u64 option"

record transaction_status_balance_data =
  fee_payer_balance_field :: "u64 option"
  source_balance_field :: "u64 option"
  receiver_balance_field :: "u64 option"

datatype transaction_status_v1 =
    AppliedV1 transaction_status_auxiliary_data transaction_status_balance_data
  | FailedV1 "failed_type list" transaction_status_balance_data

record user_command_v1 =
  uc1_data :: signed_command_v1
  uc1_status :: transaction_status_v1

datatype coinbase_v1 =
    NoneCb
  | CoinbaseCb "coinbase_payload option"
  | CoinbaseAndFeeTransferViaCoinbase "coinbase_payload option" "coinbase_payload option"

datatype internal_command_balance_v1 =
    CoinBaseBalance u64
  | FeeTransferBalance u64 "u64 option"

record diff_v1 =
  d1_completed_works :: "completed_work list"
  d1_commands :: "user_command_v1 list"
  d1_coinbase :: coinbase_v1
  d1_internal_command_balances :: "internal_command_balance_v1 list"

end
