(* ===== verification/Commands.thy ===== *)
theory Commands
  imports Block_Types
begin

text \<open>
  User commands (\<open>command/mod.rs\<close>): the status view \<open>CommandStatusData\<close>, the command sum
  \<open>UserCommandWithStatus\<close> over V1 and V2, the accessors of the trait \<open>UserCommandWithStatusT\<close>, the
  normalised \<open>Command\<close>, and the memo codec.
\<close>

section \<open>Command status\<close>

datatype command_status_data =
    Applied "transaction_status_auxiliary_data option" "transaction_status_balance_data option"
  | Failed "failed_type list" "transaction_status_balance_data option"

fun status_is_applied :: "command_status_data \<Rightarrow> bool" where
  "status_is_applied (Applied _ _) = True"
| "status_is_applied (Failed _ _) = False"

fun status_balance_data :: "command_status_data \<Rightarrow> transaction_status_balance_data option" where
  "status_balance_data (Applied _ b) = b"
| "status_balance_data (Failed _ _) = None"

fun status_auxiliary_data :: "command_status_data \<Rightarrow> transaction_status_auxiliary_data option" where
  "status_auxiliary_data (Applied a _) = a"
| "status_auxiliary_data (Failed _ _) = None"

definition fee_payer_balance :: "command_status_data \<Rightarrow> u64 option" where
  "fee_payer_balance s = Option.bind (status_balance_data s) fee_payer_balance_field"

definition receiver_balance :: "command_status_data \<Rightarrow> u64 option" where
  "receiver_balance s = Option.bind (status_balance_data s) receiver_balance_field"

definition source_balance :: "command_status_data \<Rightarrow> u64 option" where
  "source_balance s = Option.bind (status_balance_data s) source_balance_field"

definition fee_payer_account_creation_fee_paid :: "command_status_data \<Rightarrow> u64 option" where
  "fee_payer_account_creation_fee_paid s =
     Option.bind (status_auxiliary_data s) fee_payer_account_creation_fee_paid_field"

definition receiver_account_creation_fee_paid :: "command_status_data \<Rightarrow> u64 option" where
  "receiver_account_creation_fee_paid s =
     Option.bind (status_auxiliary_data s) receiver_account_creation_fee_paid_field"

definition created_token :: "command_status_data \<Rightarrow> u64 option" where
  "created_token s = Option.bind (status_auxiliary_data s) created_token_field"

fun from_transaction_status_v1 :: "transaction_status_v1 \<Rightarrow> command_status_data" where
  "from_transaction_status_v1 (AppliedV1 a b) = Applied (Some a) (Some b)"
| "from_transaction_status_v1 (FailedV1 fails b) = Failed fails (Some b)"

fun from_transaction_status_v2 :: "status_v2 \<Rightarrow> command_status_data" where
  "from_transaction_status_v2 (StatusV2 _) = Applied None None"
| "from_transaction_status_v2 (StatusAndFailureV2 _ fails) = Failed [fails] None"

section \<open>Commands\<close>

datatype user_command_with_status =
    UcV1 user_command_v1
  | UcV2 user_command_v2

record payment =
  pay_source :: public_key
  pay_nonce :: nonce
  pay_amount :: amount
  pay_receiver :: public_key
  pay_is_new_receiver_account :: bool

record delegation =
  del_delegator :: public_key
  del_nonce :: nonce
  del_delegate :: public_key

datatype command =
    PaymentCmd payment
  | DelegationCmd delegation
  | ZkappCmd zkapp_command_data

fun uc_status_data :: "user_command_with_status \<Rightarrow> command_status_data" where
  "uc_status_data (UcV1 c) = from_transaction_status_v1 (uc1_status c)"
| "uc_status_data (UcV2 c) = from_transaction_status_v2 (uc2_status c)"

definition uc_is_applied :: "user_command_with_status \<Rightarrow> bool" where
  "uc_is_applied c = status_is_applied (uc_status_data c)"

fun uc_is_zkapp_command :: "user_command_with_status \<Rightarrow> bool" where
  "uc_is_zkapp_command (UcV1 c) = False"
| "uc_is_zkapp_command (UcV2 c) =
     (case uc2_data c of ZkappCommandData _ \<Rightarrow> True | SignedCommandData _ \<Rightarrow> False)"

definition uc_receiver_account_creation_fee_paid :: "user_command_with_status \<Rightarrow> bool" where
  "uc_receiver_account_creation_fee_paid c =
     (receiver_account_creation_fee_paid (uc_status_data c) \<noteq> None)"

fun uc_sender :: "user_command_with_status \<Rightarrow> public_key" where
  "uc_sender (UcV1 c) =
     (case sc1_body (uc1_data c) of
        PaymentPayloadV1 source _ _ \<Rightarrow> source
      | SetDelegateV1 delegator _ \<Rightarrow> delegator)"
| "uc_sender (UcV2 c) =
     (case uc2_data c of
        SignedCommandData d \<Rightarrow> sc2_fee_payer_pk d
      | ZkappCommandData d \<Rightarrow> fp_public_key (zc_fee_payer d))"

fun uc_receiver :: "user_command_with_status \<Rightarrow> public_key list" where
  "uc_receiver (UcV1 c) =
     (case sc1_body (uc1_data c) of
        PaymentPayloadV1 _ receiver _ \<Rightarrow> [receiver]
      | SetDelegateV1 _ new_delegate \<Rightarrow> [new_delegate])"
| "uc_receiver (UcV2 c) =
     (case uc2_data c of
        SignedCommandData d \<Rightarrow>
          (case sc2_body d of
             PaymentV2 receiver _ \<Rightarrow> [receiver]
           | StakeDelegationV2 new_delegate \<Rightarrow> [new_delegate])
      | ZkappCommandData d \<Rightarrow> map (\<lambda>u. aub_public_key (elt_body u)) (zc_account_updates d))"

fun uc_fee_payer_pk :: "user_command_with_status \<Rightarrow> public_key" where
  "uc_fee_payer_pk (UcV1 c) = sc1_fee_payer_pk (uc1_data c)"
| "uc_fee_payer_pk (UcV2 c) =
     (case uc2_data c of
        SignedCommandData d \<Rightarrow> sc2_fee_payer_pk d
      | ZkappCommandData d \<Rightarrow> fp_public_key (zc_fee_payer d))"

fun uc_fee :: "user_command_with_status \<Rightarrow> u64" where
  "uc_fee (UcV1 c) = sc1_fee (uc1_data c)"
| "uc_fee (UcV2 c) =
     (case uc2_data c of
        SignedCommandData d \<Rightarrow> sc2_fee d
      | ZkappCommandData d \<Rightarrow> fp_fee (zc_fee_payer d))"

fun uc_nonce :: "user_command_with_status \<Rightarrow> nonce" where
  "uc_nonce (UcV1 c) = sc1_nonce (uc1_data c)"
| "uc_nonce (UcV2 c) =
     (case uc2_data c of
        SignedCommandData d \<Rightarrow> sc2_nonce d
      | ZkappCommandData d \<Rightarrow> fp_nonce (zc_fee_payer d))"

text \<open>For a V1 command the source returns the fee, not the amount.\<close>

fun uc_amount :: "user_command_with_status \<Rightarrow> u64" where
  "uc_amount (UcV1 c) = sc1_fee (uc1_data c)"
| "uc_amount (UcV2 c) =
     (case uc2_data c of
        SignedCommandData d \<Rightarrow>
          (case sc2_body d of PaymentV2 _ amount \<Rightarrow> amount | StakeDelegationV2 _ \<Rightarrow> 0)
      | ZkappCommandData _ \<Rightarrow> 0)"

fun uc_signer :: "user_command_with_status \<Rightarrow> public_key" where
  "uc_signer (UcV1 c) = sc1_signer (uc1_data c)"
| "uc_signer (UcV2 c) =
     (case uc2_data c of
        SignedCommandData d \<Rightarrow> sc2_signer d
      | ZkappCommandData d \<Rightarrow> fp_public_key (zc_fee_payer d))"

fun to_command :: "user_command_with_status \<Rightarrow> command" where
  "to_command (UcV1 c) =
     (case sc1_body (uc1_data c) of
        PaymentPayloadV1 source receiver amount \<Rightarrow>
          PaymentCmd \<lparr>pay_source = source, pay_nonce = uc_nonce (UcV1 c), pay_amount = amount,
            pay_receiver = receiver,
            pay_is_new_receiver_account = uc_receiver_account_creation_fee_paid (UcV1 c)\<rparr>
      | SetDelegateV1 delegator new_delegate \<Rightarrow>
          DelegationCmd \<lparr>del_delegator = delegator, del_nonce = uc_nonce (UcV1 c),
            del_delegate = new_delegate\<rparr>)"
| "to_command (UcV2 c) =
     (case uc2_data c of
        SignedCommandData d \<Rightarrow>
          (case sc2_body d of
             PaymentV2 receiver amount \<Rightarrow>
               PaymentCmd \<lparr>pay_source = uc_fee_payer_pk (UcV2 c), pay_nonce = uc_nonce (UcV2 c),
                 pay_amount = amount, pay_receiver = receiver,
                 pay_is_new_receiver_account = uc_receiver_account_creation_fee_paid (UcV2 c)\<rparr>
           | StakeDelegationV2 new_delegate \<Rightarrow>
               DelegationCmd \<lparr>del_delegator = uc_sender (UcV2 c), del_nonce = uc_nonce (UcV2 c),
                 del_delegate = new_delegate\<rparr>)
      | ZkappCommandData d \<Rightarrow> ZkappCmd d)"

text \<open>\<open>Command::from_precomputed\<close> normalises the applied commands by its own copy of that match.\<close>

definition command_from_user_command :: "user_command_with_status \<Rightarrow> command" where
  "command_from_user_command cmd =
     (case cmd of
        UcV1 c \<Rightarrow>
          (case sc1_body (uc1_data c) of
             PaymentPayloadV1 source receiver amount \<Rightarrow>
               PaymentCmd \<lparr>pay_source = source, pay_nonce = uc_nonce cmd, pay_amount = amount,
                 pay_receiver = receiver,
                 pay_is_new_receiver_account = uc_receiver_account_creation_fee_paid cmd\<rparr>
           | SetDelegateV1 delegator new_delegate \<Rightarrow>
               DelegationCmd \<lparr>del_delegator = delegator, del_nonce = uc_nonce cmd,
                 del_delegate = new_delegate\<rparr>)
      | UcV2 c \<Rightarrow>
          (case uc2_data c of
             SignedCommandData d \<Rightarrow>
               (case sc2_body d of
                  PaymentV2 receiver amount \<Rightarrow>
                    PaymentCmd \<lparr>pay_source = uc_fee_payer_pk cmd, pay_nonce = uc_nonce cmd,
                      pay_amount = amount, pay_receiver = receiver,
                      pay_is_new_receiver_account = uc_receiver_account_creation_fee_paid cmd\<rparr>
                | StakeDelegationV2 new_delegate \<Rightarrow>
                    DelegationCmd \<lparr>del_delegator = uc_sender cmd, del_nonce = uc_nonce cmd,
                      del_delegate = new_delegate\<rparr>)
           | ZkappCommandData d \<Rightarrow> ZkappCmd d))"

definition commands_from_user_commands :: "user_command_with_status list \<Rightarrow> command list" where
  "commands_from_user_commands cmds = map command_from_user_command (filter uc_is_applied cmds)"

section \<open>Memos\<close>

text \<open>\<open>String::from_utf8\<close>: well-formed UTF-8 as the standard library checks it.\<close>

fun utf8_cont :: "u8 \<Rightarrow> bool" where
  "utf8_cont b \<longleftrightarrow> 128 \<le> b \<and> b \<le> 191"

fun utf8_valid :: "u8 list \<Rightarrow> bool" where
  "utf8_valid [] = True"
| "utf8_valid (b # bs) =
     (if b \<le> 127 then utf8_valid bs
      else case bs of
        [] \<Rightarrow> False
      | b1 # bs1 \<Rightarrow>
          if 194 \<le> b \<and> b \<le> 223 then utf8_cont b1 \<and> utf8_valid bs1
          else case bs1 of
            [] \<Rightarrow> False
          | b2 # bs2 \<Rightarrow>
              if 224 \<le> b \<and> b \<le> 239
              then (if b = 224 then 160 \<le> b1 \<and> b1 \<le> 191
                    else if b = 237 then 128 \<le> b1 \<and> b1 \<le> 159
                    else utf8_cont b1) \<and> utf8_cont b2 \<and> utf8_valid bs2
              else case bs2 of
                [] \<Rightarrow> False
              | b3 # bs3 \<Rightarrow>
                  240 \<le> b \<and> b \<le> 244 \<and>
                  (if b = 240 then 144 \<le> b1 \<and> b1 \<le> 191
                   else if b = 244 then 128 \<le> b1 \<and> b1 \<le> 143
                   else utf8_cont b1) \<and> utf8_cont b2 \<and> utf8_cont b3 \<and> utf8_valid bs3)"

definition string_of_bytes :: "u8 list \<Rightarrow> string" where
  "string_of_bytes bs = map (\<lambda>b. char_of (unat b)) bs"

definition bytes_of_string :: "string \<Rightarrow> u8 list" where
  "bytes_of_string s = map (\<lambda>c. word_of_nat (of_char c)) s"

definition decode_memo :: "u8 list \<Rightarrow> string run" where
  "decode_memo encoded =
     bind_ok (index_ok encoded 1) (\<lambda>len.
       let value = drop 2 (take (min (unat len + 2) (length encoded)) encoded)
       in Inr (if utf8_valid value then string_of_bytes value else []))"

text \<open>\<open>impl From<String> for SignedCommandMemo\<close>: version byte, length byte, then the bytes.\<close>

definition memo_of_string :: "string \<Rightarrow> u8 list" where
  "memo_of_string s =
     (let bytes = bytes_of_string s in 1 # word_of_nat (length bytes) # bytes)"

fun uc_memo :: "user_command_with_status \<Rightarrow> string run" where
  "uc_memo (UcV1 c) = decode_memo (sc1_memo (uc1_data c))"
| "uc_memo (UcV2 c) =
     (case uc2_data c of
        SignedCommandData d \<Rightarrow> decode_memo (bytes_of_string (sc2_memo d))
      | ZkappCommandData d \<Rightarrow> decode_memo (bytes_of_string (zc_memo d)))"

section \<open>Properties\<close>

lemma string_of_bytes_of_string [simp]: "string_of_bytes (bytes_of_string s) = s"
proof -
  have "char_of (unat (word_of_nat (of_char c) :: u8)) = c" for c :: char
  proof -
    have "of_char c < (256 :: nat)" by simp
    then have "unat (word_of_nat (of_char c) :: u8) = of_char c"
      by (simp add: unat_of_nat)
    then show ?thesis by simp
  qed
  then show ?thesis by (simp add: string_of_bytes_def bytes_of_string_def map_idI)
qed

lemma length_bytes_of_string [simp]: "length (bytes_of_string s) = length s"
  by (simp add: bytes_of_string_def)

text \<open>
  A memo built from a valid UTF-8 string of fewer than 256 bytes decodes to that string.
\<close>

lemma memo_roundtrip:
  assumes "length s < 256" "utf8_valid (bytes_of_string s)"
  shows "decode_memo (memo_of_string s) = Inr s"
proof -
  have "unat (word_of_nat (length s) :: u8) = length s"
    using assms(1) by (simp add: unat_of_nat)
  then show ?thesis
    using assms(2) by (simp add: decode_memo_def memo_of_string_def Let_def index_ok_def)
qed

theorem memo_roundtrip_witness: "decode_memo (memo_of_string ''E2E'') = Inr ''E2E''"
  by (rule memo_roundtrip) (simp_all add: bytes_of_string_def)

text \<open>
  The normalisation of the applied commands of a block agrees, command by command, with the
  command each of them converts to.
\<close>

lemma commands_agree:
  "commands_from_user_commands cmds = map to_command (filter uc_is_applied cmds)"
proof -
  have "command_from_user_command c = to_command c" for c
    by (cases c) (simp_all add: command_from_user_command_def)
  then show ?thesis by (simp add: commands_from_user_commands_def)
qed

end
