(* ===== verification/Precomputed.thy ===== *)
theory Precomputed
  imports Commands
begin

text \<open>
  Precomputed blocks (\<open>block/precomputed/\<close>): the V1 and V2 block structures and the accessors the
  indexer reads them through.  V1 hashes are held in their string form.  Three conversions belong to
  libraries and are arguments of the accessors that use them: \<open>blake2b\<close> (the 32-byte digest of a
  V1 VRF output), \<open>base64\<close> (its URL-safe encoding) and \<open>parse_amount\<close> (the decimal parser behind
  \<open>Amount::from_str\<close>, \<open>None\<close> when it fails).  A V2 staged ledger diff is a vector that the accessors
  index at 0 and 1, so a shorter vector panics.
\<close>

section \<open>Block data\<close>

record epoch_data =
  ed_total_currency :: u64
  ed_ledger_hash :: ledger_hash
  ed_seed :: string
  ed_start_checkpoint :: state_hash
  ed_lock_checkpoint :: state_hash
  ed_epoch_length :: u32

record consensus_state =
  cs_epoch_count :: u32
  cs_min_window_density :: u32
  cs_global_slot_since_genesis :: u32
  cs_last_vrf_output :: "u8 list"
  cs_total_currency :: u64
  cs_staking_epoch_data :: epoch_data
  cs_next_epoch_data :: epoch_data
  cs_has_ancestor_in_same_checkpoint_window :: bool
  cs_block_stake_winner :: public_key
  cs_block_creator :: public_key
  cs_coinbase_receiver :: public_key
  cs_supercharge_coinbase :: bool

record protocol_state =
  ps_previous_state_hash :: state_hash
  ps_genesis_state_hash :: state_hash
  ps_timestamp :: u64
  ps_staged_ledger_hash :: ledger_hash
  ps_consensus_state :: consensus_state

record account_accessed_v2 =
  aa_balance :: u64
  aa_nonce :: nonce
  aa_public_key :: public_key
  aa_receipt_chain_hash :: string
  aa_delegate :: "public_key option"
  aa_token_id :: token_address
  aa_token_symbol :: token_symbol
  aa_voting_for :: string
  aa_permissions :: permissions
  aa_timing :: "timing option"
  aa_zkapp :: "zkapp_account option"

type_synonym account_created_v2 = "(public_key \<times> token_address) \<times> string"
type_synonym token_used_v2 = "token_address \<times> (public_key \<times> token_address) option"

record precomputed_block_v1 =
  b1_network :: string
  b1_state_hash :: state_hash
  b1_blockchain_length :: u32
  b1_protocol_state :: protocol_state
  b1_snarked_ledger_hash :: ledger_hash
  b1_pre_diff :: diff_v1
  b1_post_diff :: "diff_v1 option"

record precomputed_block_v2 =
  b2_network :: string
  b2_state_hash :: state_hash
  b2_blockchain_length :: u32
  b2_protocol_state :: protocol_state
  b2_diff :: "diff_v2 option list"
  b2_tokens_used :: "token_used_v2 list"
  b2_accounts_accessed :: "(u64 \<times> account_accessed_v2) list"
  b2_accounts_created :: "account_created_v2 list"

datatype precomputed_block =
    V1 precomputed_block_v1
  | V2 precomputed_block_v2

datatype pcb_version = PcbV1 | PcbV2

text \<open>\<open>block/post_hardfork\<close>: the post-hardfork data in the indexer's form.\<close>

record account_created =
  ac_public_key :: public_key
  ac_token :: token_address
  ac_creation_fee :: amount

definition account_created_from ::
    "(string \<Rightarrow> amount option) \<Rightarrow> account_created_v2 \<Rightarrow> account_created run" where
  "account_created_from parse_amount v =
     map_ok (\<lambda>fee. \<lparr>ac_public_key = fst (fst v), ac_token = snd (fst v), ac_creation_fee = fee\<rparr>)
       (unwrap (parse_amount (snd v)))"

record token_used =
  tu_used_token :: token_address
  tu_token_owner :: "public_key option"
  tu_payment_token :: "token_address option"

definition token_used_from :: "token_used_v2 \<Rightarrow> token_used" where
  "token_used_from v =
     \<lparr>tu_used_token = fst v, tu_token_owner = map_option fst (snd v),
      tu_payment_token = map_option snd (snd v)\<rparr>"

section \<open>Metadata and protocol state\<close>

fun protocol_state_of :: "precomputed_block \<Rightarrow> protocol_state" where
  "protocol_state_of (V1 b) = b1_protocol_state b"
| "protocol_state_of (V2 b) = b2_protocol_state b"

definition consensus_state_of :: "precomputed_block \<Rightarrow> consensus_state" where
  "consensus_state_of b = ps_consensus_state (protocol_state_of b)"

fun state_hash_of :: "precomputed_block \<Rightarrow> state_hash" where
  "state_hash_of (V1 b) = b1_state_hash b"
| "state_hash_of (V2 b) = b2_state_hash b"

fun blockchain_length :: "precomputed_block \<Rightarrow> u32" where
  "blockchain_length (V1 b) = b1_blockchain_length b"
| "blockchain_length (V2 b) = b2_blockchain_length b"

fun network :: "precomputed_block \<Rightarrow> string" where
  "network (V1 b) = b1_network b"
| "network (V2 b) = b2_network b"

fun version_of :: "precomputed_block \<Rightarrow> pcb_version" where
  "version_of (V1 _) = PcbV1"
| "version_of (V2 _) = PcbV2"

definition previous_state_hash :: "precomputed_block \<Rightarrow> state_hash" where
  "previous_state_hash b = ps_previous_state_hash (protocol_state_of b)"

definition genesis_state_hash :: "precomputed_block \<Rightarrow> state_hash" where
  "genesis_state_hash b = ps_genesis_state_hash (protocol_state_of b)"

definition timestamp :: "precomputed_block \<Rightarrow> u64" where
  "timestamp b = ps_timestamp (protocol_state_of b)"

fun snarked_ledger_hash :: "precomputed_block \<Rightarrow> ledger_hash option" where
  "snarked_ledger_hash (V1 b) = Some (b1_snarked_ledger_hash b)"
| "snarked_ledger_hash (V2 _) = None"

definition staged_ledger_hash :: "precomputed_block \<Rightarrow> ledger_hash" where
  "staged_ledger_hash b = ps_staged_ledger_hash (protocol_state_of b)"

definition total_currency :: "precomputed_block \<Rightarrow> u64" where
  "total_currency b = cs_total_currency (consensus_state_of b)"

definition block_creator :: "precomputed_block \<Rightarrow> public_key" where
  "block_creator b = cs_block_creator (consensus_state_of b)"

definition block_stake_winner :: "precomputed_block \<Rightarrow> public_key" where
  "block_stake_winner b = cs_block_stake_winner (consensus_state_of b)"

definition has_ancestor_in_same_checkpoint_window :: "precomputed_block \<Rightarrow> bool" where
  "has_ancestor_in_same_checkpoint_window b =
     cs_has_ancestor_in_same_checkpoint_window (consensus_state_of b)"

definition coinbase_receiver :: "precomputed_block \<Rightarrow> public_key" where
  "coinbase_receiver b = cs_coinbase_receiver (consensus_state_of b)"

definition supercharge_coinbase :: "precomputed_block \<Rightarrow> bool" where
  "supercharge_coinbase b = cs_supercharge_coinbase (consensus_state_of b)"

definition global_slot_since_genesis :: "precomputed_block \<Rightarrow> u32" where
  "global_slot_since_genesis b = cs_global_slot_since_genesis (consensus_state_of b)"

definition min_window_density :: "precomputed_block \<Rightarrow> u32" where
  "min_window_density b = cs_min_window_density (consensus_state_of b)"

definition epoch_count :: "precomputed_block \<Rightarrow> u32" where
  "epoch_count b = cs_epoch_count (consensus_state_of b)"

definition next_epoch_seed :: "precomputed_block \<Rightarrow> string" where
  "next_epoch_seed b = ed_seed (cs_next_epoch_data (consensus_state_of b))"

definition next_epoch_ledger_hash :: "precomputed_block \<Rightarrow> ledger_hash" where
  "next_epoch_ledger_hash b = ed_ledger_hash (cs_next_epoch_data (consensus_state_of b))"

definition next_epoch_length :: "precomputed_block \<Rightarrow> u32" where
  "next_epoch_length b = ed_epoch_length (cs_next_epoch_data (consensus_state_of b))"

definition next_epoch_total_currency :: "precomputed_block \<Rightarrow> u64" where
  "next_epoch_total_currency b = ed_total_currency (cs_next_epoch_data (consensus_state_of b))"

definition next_epoch_start_checkpoint :: "precomputed_block \<Rightarrow> state_hash" where
  "next_epoch_start_checkpoint b = ed_start_checkpoint (cs_next_epoch_data (consensus_state_of b))"

definition next_epoch_lock_checkpoint :: "precomputed_block \<Rightarrow> state_hash" where
  "next_epoch_lock_checkpoint b = ed_lock_checkpoint (cs_next_epoch_data (consensus_state_of b))"

text \<open>\<open>staking_epoch_length\<close> reads the next epoch's data, unlike its five siblings.\<close>

definition staking_epoch_length :: "precomputed_block \<Rightarrow> u32" where
  "staking_epoch_length b = ed_epoch_length (cs_next_epoch_data (consensus_state_of b))"

definition staking_epoch_ledger_hash :: "precomputed_block \<Rightarrow> ledger_hash" where
  "staking_epoch_ledger_hash b = ed_ledger_hash (cs_staking_epoch_data (consensus_state_of b))"

definition staking_epoch_seed :: "precomputed_block \<Rightarrow> string" where
  "staking_epoch_seed b = ed_seed (cs_staking_epoch_data (consensus_state_of b))"

definition staking_epoch_total_currency :: "precomputed_block \<Rightarrow> u64" where
  "staking_epoch_total_currency b =
     ed_total_currency (cs_staking_epoch_data (consensus_state_of b))"

definition staking_epoch_start_checkpoint :: "precomputed_block \<Rightarrow> state_hash" where
  "staking_epoch_start_checkpoint b =
     ed_start_checkpoint (cs_staking_epoch_data (consensus_state_of b))"

definition staking_epoch_lock_checkpoint :: "precomputed_block \<Rightarrow> state_hash" where
  "staking_epoch_lock_checkpoint b =
     ed_lock_checkpoint (cs_staking_epoch_data (consensus_state_of b))"

definition last_vrf_output :: "(u8 list \<Rightarrow> string) \<Rightarrow> precomputed_block \<Rightarrow> string" where
  "last_vrf_output base64 b = base64 (cs_last_vrf_output (consensus_state_of b))"

fun hash_last_vrf_output :: "(u8 list \<Rightarrow> u8 list) \<Rightarrow> precomputed_block \<Rightarrow> u8 list" where
  "hash_last_vrf_output blake2b (V1 b) =
     blake2b (cs_last_vrf_output (ps_consensus_state (b1_protocol_state b)))"
| "hash_last_vrf_output blake2b (V2 b) =
     cs_last_vrf_output (ps_consensus_state (b2_protocol_state b))"

section \<open>Staged ledger diff\<close>

record coinbase_fee_transfer =
  cft_receiver_pk :: public_key
  cft_fee :: u64

datatype coinbase_kind =
    CbZero
  | CbOne "coinbase_fee_transfer option"
  | CbTwo "coinbase_fee_transfer option" "coinbase_fee_transfer option"

definition coinbase_fee_transfer_from :: "coinbase_payload \<Rightarrow> coinbase_fee_transfer" where
  "coinbase_fee_transfer_from p = \<lparr>cft_receiver_pk = cp_receiver_pk p, cft_fee = cp_fee p\<rparr>"

fun coinbase_kind_from_v1 :: "coinbase_v1 \<Rightarrow> coinbase_kind" where
  "coinbase_kind_from_v1 NoneCb = CbZero"
| "coinbase_kind_from_v1 (CoinbaseCb cb) = CbOne (map_option coinbase_fee_transfer_from cb)"
| "coinbase_kind_from_v1 (CoinbaseAndFeeTransferViaCoinbase fst_cb snd_cb) =
     CbTwo (map_option coinbase_fee_transfer_from fst_cb)
           (map_option coinbase_fee_transfer_from snd_cb)"

fun coinbase_kind_from_v2 :: "coinbase_v2 \<Rightarrow> coinbase_kind" where
  "coinbase_kind_from_v2 ZeroV2 = CbZero"
| "coinbase_kind_from_v2 (OneV2 one) = CbOne (map_option coinbase_fee_transfer_from one)"
| "coinbase_kind_from_v2 (TwoV2 None) = CbTwo None None"
| "coinbase_kind_from_v2 (TwoV2 (Some (fst_cb, snd_cb))) =
     CbTwo (Some (coinbase_fee_transfer_from fst_cb))
           (map_option coinbase_fee_transfer_from snd_cb)"

fun commands_pre_diff :: "precomputed_block \<Rightarrow> user_command_with_status list run" where
  "commands_pre_diff (V1 b) = Inr (map UcV1 (d1_commands (b1_pre_diff b)))"
| "commands_pre_diff (V2 b) =
     map_ok (\<lambda>d. case d of None \<Rightarrow> [] | Some diff \<Rightarrow> map UcV2 (d2_commands diff))
       (index_ok (b2_diff b) 0)"

fun commands_post_diff :: "precomputed_block \<Rightarrow> user_command_with_status list run" where
  "commands_post_diff (V1 b) =
     Inr (case b1_post_diff b of None \<Rightarrow> [] | Some diff \<Rightarrow> map UcV1 (d1_commands diff))"
| "commands_post_diff (V2 b) =
     map_ok (\<lambda>d. case d of None \<Rightarrow> [] | Some diff \<Rightarrow> map UcV2 (d2_commands diff))
       (index_ok (b2_diff b) 1)"

definition commands :: "precomputed_block \<Rightarrow> user_command_with_status list run" where
  "commands b =
     bind_ok (commands_pre_diff b) (\<lambda>pre. map_ok (\<lambda>post. pre @ post) (commands_post_diff b))"

fun completed_works_pre_diff :: "precomputed_block \<Rightarrow> completed_work list run" where
  "completed_works_pre_diff (V1 b) = Inr (d1_completed_works (b1_pre_diff b))"
| "completed_works_pre_diff (V2 b) =
     bind_ok (index_ok (b2_diff b) 0) (\<lambda>d. map_ok d2_completed_works (unwrap d))"

fun completed_works_post_diff :: "precomputed_block \<Rightarrow> completed_work list option run" where
  "completed_works_post_diff (V1 b) = Inr (map_option d1_completed_works (b1_post_diff b))"
| "completed_works_post_diff (V2 b) =
     map_ok (map_option d2_completed_works) (index_ok (b2_diff b) 1)"

definition completed_works :: "precomputed_block \<Rightarrow> completed_work list run" where
  "completed_works b =
     bind_ok (completed_works_post_diff b) (\<lambda>post.
       map_ok (\<lambda>pre. (case post of None \<Rightarrow> [] | Some works \<Rightarrow> works) @ pre)
         (completed_works_pre_diff b))"

definition tx_fees :: "precomputed_block \<Rightarrow> u64 run" where
  "tx_fees b = map_ok (\<lambda>cmds. sum_list (map uc_fee cmds)) (commands b)"

definition snark_fees :: "precomputed_block \<Rightarrow> u64 run" where
  "snark_fees b = map_ok (\<lambda>works. sum_list (map cw_fee works)) (completed_works b)"

fun pre_diff_coinbase :: "precomputed_block \<Rightarrow> coinbase_kind run" where
  "pre_diff_coinbase (V1 b) = Inr (coinbase_kind_from_v1 (d1_coinbase (b1_pre_diff b)))"
| "pre_diff_coinbase (V2 b) =
     bind_ok (index_ok (b2_diff b) 0) (\<lambda>d.
       map_ok (\<lambda>diff. coinbase_kind_from_v2 (d2_coinbase diff)) (unwrap d))"

fun post_diff_coinbase :: "precomputed_block \<Rightarrow> coinbase_kind option run" where
  "post_diff_coinbase (V1 b) =
     Inr (map_option (\<lambda>diff. coinbase_kind_from_v1 (d1_coinbase diff)) (b1_post_diff b))"
| "post_diff_coinbase (V2 b) =
     map_ok (map_option (\<lambda>diff. coinbase_kind_from_v2 (d2_coinbase diff))) (index_ok (b2_diff b) 1)"

fun first_coinbase_balance :: "internal_command_balance_v1 list \<Rightarrow> u64 option" where
  "first_coinbase_balance [] = None"
| "first_coinbase_balance (CoinBaseBalance bal # _) = Some bal"
| "first_coinbase_balance (FeeTransferBalance _ _ # rest) = first_coinbase_balance rest"

fun coinbase_receiver_balance :: "precomputed_block \<Rightarrow> u64 option" where
  "coinbase_receiver_balance (V1 b) =
     first_coinbase_balance (d1_internal_command_balances (b1_pre_diff b))"
| "coinbase_receiver_balance (V2 _) = None"

fun internal_command_balances :: "precomputed_block \<Rightarrow> internal_command_balance_v1 list" where
  "internal_command_balances (V1 b) = d1_internal_command_balances (b1_pre_diff b)"
| "internal_command_balances (V2 _) = []"

definition fee_transfer_balances :: "precomputed_block \<Rightarrow> (u64 \<times> u64 option) list" where
  "fee_transfer_balances b =
     concat (map (\<lambda>bal. case bal of
        FeeTransferBalance r1 r2 \<Rightarrow> [(r1, r2)]
      | CoinBaseBalance _ \<Rightarrow> []) (internal_command_balances b))"

section \<open>Post-hardfork data and created accounts\<close>

fun accounts_created_v2 ::
    "(string \<Rightarrow> amount option) \<Rightarrow> precomputed_block \<Rightarrow> account_created list run" where
  "accounts_created_v2 parse_amount (V1 _) = Inr []"
| "accounts_created_v2 parse_amount (V2 b) =
     traverse_ok (account_created_from parse_amount) (b2_accounts_created b)"

fun tokens_used :: "precomputed_block \<Rightarrow> token_used list" where
  "tokens_used (V1 _) = []"
| "tokens_used (V2 b) = map token_used_from (b2_tokens_used b)"

type_synonym pk_balances = "public_key \<rightharpoonup> (token_address \<rightharpoonup> u64)"

definition created_from_command ::
    "user_command_with_status \<Rightarrow> pk_balances \<Rightarrow> pk_balances run" where
  "created_from_command cmd bals =
     (let status = uc_status_data cmd in
      if fee_payer_account_creation_fee_paid status \<noteq> None
      then Inr (bals(uc_fee_payer_pk cmd \<mapsto>
             [token_address_default \<mapsto> case fee_payer_balance status of None \<Rightarrow> 0 | Some v \<Rightarrow> v]))
      else if receiver_account_creation_fee_paid status \<noteq> None
      then (case uc_receiver cmd of
              [] \<Rightarrow> Inl UnwrapNone
            | r # _ \<Rightarrow> Inr (bals(r \<mapsto>
                [token_address_default \<mapsto> case receiver_balance status of None \<Rightarrow> 0 | Some v \<Rightarrow> v])))
      else Inr bals)"

definition created_from_v2 :: "account_created \<Rightarrow> pk_balances \<Rightarrow> pk_balances" where
  "created_from_v2 a bals =
     (case bals (ac_public_key a) of
        Some fees \<Rightarrow> bals(ac_public_key a \<mapsto> fees(ac_token a \<mapsto> ac_creation_fee a))
      | None \<Rightarrow> bals(ac_public_key a \<mapsto> [ac_token a \<mapsto> ac_creation_fee a]))"

definition new_coinbase_balances :: "u64 list" where
  "new_coinbase_balances =
     [MAINNET_COINBASE_REWARD - MAINNET_ACCOUNT_CREATION_FEE,
      2 * MAINNET_COINBASE_REWARD - MAINNET_ACCOUNT_CREATION_FEE]"

definition accounts_created ::
    "(string \<Rightarrow> amount option) \<Rightarrow> precomputed_block \<Rightarrow> (pk_balances \<times> public_key option) run" where
  "accounts_created parse_amount b =
     (let (balances, new_coinbase_receiver) =
        (case coinbase_receiver_balance b of
           Some bal \<Rightarrow>
             if bal \<in> set new_coinbase_balances
             then ([coinbase_receiver b \<mapsto> [token_address_default \<mapsto> bal]], Some (coinbase_receiver b))
             else (Map.empty, None)
         | None \<Rightarrow> (Map.empty, None))
      in map_ok (\<lambda>bals. (bals, new_coinbase_receiver))
        (case b of
           V1 _ \<Rightarrow> bind_ok (commands b) (\<lambda>cmds. fold_ok created_from_command cmds balances)
         | V2 _ \<Rightarrow> map_ok (\<lambda>created. fold created_from_v2 created balances)
                     (accounts_created_v2 parse_amount b)))"

section \<open>Public keys and usernames\<close>

text \<open>A \<open>HashSet\<close> is a set; collecting it into a vector and sorting it gives the sorted list.\<close>

definition consensus_public_keys :: "precomputed_block \<Rightarrow> public_key set" where
  "consensus_public_keys b = {block_creator b, coinbase_receiver b, block_stake_winner b}"

definition command_keys :: "user_command_with_status \<Rightarrow> public_key set" where
  "command_keys cmd = set ([uc_sender cmd, uc_fee_payer_pk cmd, uc_signer cmd] @ uc_receiver cmd)"

definition all_command_public_keys :: "precomputed_block \<Rightarrow> public_key list run" where
  "all_command_public_keys b =
     map_ok (\<lambda>cmds. sorted_list_of_set
              (fold (\<lambda>cmd keys. keys \<union> command_keys cmd) cmds (consensus_public_keys b)))
       (commands b)"

definition prover_keys :: "precomputed_block \<Rightarrow> public_key list run" where
  "prover_keys b =
     map_ok (\<lambda>works. sorted_list_of_set
              (fold (\<lambda>work keys. insert (cw_prover work) keys) works (consensus_public_keys b)))
       (completed_works b)"

definition all_public_keys :: "precomputed_block \<Rightarrow> public_key list run" where
  "all_public_keys b =
     bind_ok (all_command_public_keys b) (\<lambda>cmd_keys.
       map_ok (\<lambda>provers. sorted_list_of_set (set cmd_keys \<union> set provers)) (prover_keys b))"

definition username_update ::
    "user_command_with_status \<Rightarrow> (public_key \<rightharpoonup> username) \<Rightarrow> (public_key \<rightharpoonup> username) run" where
  "username_update cmd updates =
     (if \<not> uc_is_applied cmd then Inr updates
      else case uc_receiver cmd of
        [] \<Rightarrow> Inl UnwrapNone
      | receiver # _ \<Rightarrow>
          map_ok (\<lambda>memo.
            if starts_with memo NAME_SERVICE_MEMO_PREFIX \<and>
               (receiver = MINA_EXPLORER_NAME_SERVICE_ADDRESS \<or>
                receiver = MINA_SEARCH_NAME_SERVICE_ADDRESS)
            then updates(uc_sender cmd \<mapsto> drop (length NAME_SERVICE_MEMO_PREFIX) memo)
            else updates) (uc_memo cmd))"

definition username_updates :: "precomputed_block \<Rightarrow> (public_key \<rightharpoonup> username) run" where
  "username_updates b =
     bind_ok (commands b) (\<lambda>cmds. fold_ok username_update cmds Map.empty)"

section \<open>An example block\<close>

text \<open>
  A V1 block with one payment of \<open>alice\<close> to \<open>bob\<close>, one completed work of \<open>dave\<close> and a coinbase for
  \<open>carol\<close>; the concrete input of the evaluations below.
\<close>

definition example_command :: user_command_v1 where
  "example_command = \<lparr>
     uc1_data = \<lparr>sc1_signer = ''alice'', sc1_memo = [], sc1_fee = 10, sc1_fee_payer_pk = ''alice'',
       sc1_nonce = 3, sc1_body = PaymentPayloadV1 ''alice'' ''bob'' 30\<rparr>,
     uc1_status = AppliedV1
       \<lparr>fee_payer_account_creation_fee_paid_field = None,
        receiver_account_creation_fee_paid_field = None, created_token_field = None\<rparr>
       \<lparr>fee_payer_balance_field = None, source_balance_field = None,
        receiver_balance_field = None\<rparr>\<rparr>"

definition example_epoch :: epoch_data where
  "example_epoch = \<lparr>ed_total_currency = 0, ed_ledger_hash = ''j'', ed_seed = [],
     ed_start_checkpoint = ''3N'', ed_lock_checkpoint = ''3N'', ed_epoch_length = 1\<rparr>"

definition example_state :: protocol_state where
  "example_state = \<lparr>ps_previous_state_hash = ''3N0'', ps_genesis_state_hash = ''3N'',
     ps_timestamp = 0, ps_staged_ledger_hash = ''j'',
     ps_consensus_state = \<lparr>cs_epoch_count = 0, cs_min_window_density = 0,
       cs_global_slot_since_genesis = 0, cs_last_vrf_output = [], cs_total_currency = 0,
       cs_staking_epoch_data = example_epoch, cs_next_epoch_data = example_epoch\<lparr>ed_epoch_length := 2\<rparr>,
       cs_has_ancestor_in_same_checkpoint_window = True, cs_block_stake_winner = ''carol'',
       cs_block_creator = ''carol'', cs_coinbase_receiver = ''carol'',
       cs_supercharge_coinbase = False\<rparr>\<rparr>"

definition example_block :: precomputed_block where
  "example_block = V1 \<lparr>b1_network = ''mainnet'', b1_state_hash = ''3N1'', b1_blockchain_length = 2,
     b1_protocol_state = example_state, b1_snarked_ledger_hash = ''j'',
     b1_pre_diff = \<lparr>d1_completed_works = [\<lparr>cw_fee = 4, cw_prover = ''dave''\<rparr>],
       d1_commands = [example_command], d1_coinbase = CoinbaseCb None,
       d1_internal_command_balances = []\<rparr>,
     b1_post_diff = None\<rparr>"

lemma example_command_simps [simp]:
  "sc1_fee (uc1_data example_command) = 10" "sc1_nonce (uc1_data example_command) = 3"
  "sc1_fee_payer_pk (uc1_data example_command) = ''alice''"
  "sc1_body (uc1_data example_command) = PaymentPayloadV1 ''alice'' ''bob'' 30"
  "uc_is_applied (UcV1 example_command)"
  by (simp_all add: example_command_def uc_is_applied_def)

lemma example_block_simps [simp]:
  "commands_pre_diff example_block = Inr [UcV1 example_command]"
  "commands_post_diff example_block = Inr []"
  "commands example_block = Inr [UcV1 example_command]"
  "completed_works example_block = Inr [\<lparr>cw_fee = 4, cw_prover = ''dave''\<rparr>]"
  "coinbase_receiver example_block = ''carol''"
  by (simp_all add: example_block_def commands_def completed_works_def coinbase_receiver_def
      consensus_state_of_def example_state_def)

end
