(* ===== verification/Account_Diffs.thy ===== *)
theory Account_Diffs
  imports Precomputed
begin

text \<open>
  Account diffs (\<open>ledger/diff/account.rs\<close>): the diff structures, the diffs of a user command, the
  aggregated zkapp diff of an account update and its expansion into elementary diffs, and the diffs'
  keys, tokens and amounts.
\<close>

section \<open>Diff structures\<close>

datatype update_type =
    Debit "nonce option"
  | Credit

record payment_diff =
  pd_update_type :: update_type
  pd_public_key :: public_key
  pd_amount :: amount
  pd_token :: token_address

record delegation_diff =
  dd_nonce :: nonce
  dd_delegator :: public_key
  dd_delegate :: public_key

record zkapp_increment_nonce =
  zin_public_key :: public_key
  zin_token :: token_address

record zkapp_account_creation_fee =
  zcf_public_key :: public_key
  zcf_token :: token_address
  zcf_amount :: amount

datatype zkapp_payment_diff =
    ZkPayment payment_diff
  | ZkIncrementNonce zkapp_increment_nonce
  | ZkAccountCreationFee zkapp_account_creation_fee

record zkapp_diff =
  zd_nonce :: nonce
  zd_token :: token_address
  zd_public_key :: public_key
  zd_increment_nonce :: bool
  zd_payment_diffs :: "zkapp_payment_diff list"
  zd_proved_state :: bool
  zd_app_state_diff :: "app_state option list"
  zd_delegate :: "public_key option"
  zd_verification_key :: "verification_key option"
  zd_permissions :: "permissions option"
  zd_zkapp_uri :: "uri option"
  zd_token_symbol :: "token_symbol option"
  zd_timing :: "timing option"
  zd_voting_for :: "state_hash option"
  zd_actions :: "action_state list"
  zd_events :: "zkapp_event list"

text \<open>The target account and the payload of each elementary zkapp diff.\<close>

record zkapp_target =
  zt_token :: token_address
  zt_public_key :: public_key

record zkapp_state_diff = zkapp_target +
  zs_proved_state :: bool
  zs_diffs :: "app_state option list"

record zkapp_verification_key_diff = zkapp_target +
  zv_proved_state :: bool
  zv_verification_key :: verification_key

record zkapp_permissions_diff = zkapp_target +
  zp_permissions :: permissions

record zkapp_uri_diff = zkapp_target +
  zu_proved_state :: bool
  zu_zkapp_uri :: uri

record zkapp_token_symbol_diff = zkapp_target +
  zts_token_symbol :: token_symbol

record zkapp_timing_diff = zkapp_target +
  ztd_timing :: timing

record zkapp_voting_for_diff = zkapp_target +
  zvf_voting_for :: state_hash

record zkapp_actions_diff = zkapp_target +
  zac_proved_state :: bool
  zac_actions :: "action_state list"

record zkapp_events_diff = zkapp_target +
  zev_events :: "zkapp_event list"

record coinbase_diff =
  cd_public_key :: public_key
  cd_amount :: amount

record failed_transaction_nonce_diff =
  fd_public_key :: public_key
  fd_nonce :: nonce

datatype account_diff =
    Payment payment_diff
  | Delegation delegation_diff
  | CoinbaseD coinbase_diff
  | FeeTransfer payment_diff
  | FeeTransferViaCoinbase payment_diff
  | FailedTransactionNonce failed_transaction_nonce_diff
  | Zkapp zkapp_diff
  | ZkappStateDiff zkapp_state_diff
  | ZkappPermissionsDiff zkapp_permissions_diff
  | ZkappVerificationKeyDiff zkapp_verification_key_diff
  | ZkappUriDiff zkapp_uri_diff
  | ZkappTokenSymbolDiff zkapp_token_symbol_diff
  | ZkappTimingDiff zkapp_timing_diff
  | ZkappVotingForDiff zkapp_voting_for_diff
  | ZkappActionsDiff zkapp_actions_diff
  | ZkappEventsDiff zkapp_events_diff
  | ZkappIncrementNonce zkapp_increment_nonce
  | ZkappAccountCreationFee zkapp_account_creation_fee

section \<open>Key, token and amount of a diff\<close>

fun diff_token_address :: "account_diff \<Rightarrow> token_address" where
  "diff_token_address (Payment d) = pd_token d"
| "diff_token_address _ = token_address_default"

fun diff_public_key :: "account_diff \<Rightarrow> public_key" where
  "diff_public_key (Payment d) = pd_public_key d"
| "diff_public_key (Delegation d) = dd_delegator d"
| "diff_public_key (CoinbaseD d) = cd_public_key d"
| "diff_public_key (FeeTransfer d) = pd_public_key d"
| "diff_public_key (FeeTransferViaCoinbase d) = pd_public_key d"
| "diff_public_key (FailedTransactionNonce d) = fd_public_key d"
| "diff_public_key (Zkapp d) = zd_public_key d"
| "diff_public_key (ZkappStateDiff d) = zt_public_key d"
| "diff_public_key (ZkappPermissionsDiff d) = zt_public_key d"
| "diff_public_key (ZkappVerificationKeyDiff d) = zt_public_key d"
| "diff_public_key (ZkappUriDiff d) = zt_public_key d"
| "diff_public_key (ZkappTokenSymbolDiff d) = zt_public_key d"
| "diff_public_key (ZkappTimingDiff d) = zt_public_key d"
| "diff_public_key (ZkappVotingForDiff d) = zt_public_key d"
| "diff_public_key (ZkappActionsDiff d) = zt_public_key d"
| "diff_public_key (ZkappEventsDiff d) = zt_public_key d"
| "diff_public_key (ZkappIncrementNonce d) = zin_public_key d"
| "diff_public_key (ZkappAccountCreationFee d) = zcf_public_key d"

text \<open>The \<open>i64\<close> amount is the 64-bit word; \<open>sint\<close> reads it.\<close>

definition payment_amount :: "payment_diff \<Rightarrow> 64 word" where
  "payment_amount d =
     (case pd_update_type d of Credit \<Rightarrow> pd_amount d | Debit _ \<Rightarrow> 0 - pd_amount d)"

fun diff_amount :: "account_diff \<Rightarrow> 64 word run" where
  "diff_amount (Delegation _) = Inr 0"
| "diff_amount (FailedTransactionNonce _) = Inr 0"
| "diff_amount (CoinbaseD d) = Inr (cd_amount d)"
| "diff_amount (FeeTransfer d) = Inr (payment_amount d)"
| "diff_amount (FeeTransferViaCoinbase d) = Inr (payment_amount d)"
| "diff_amount (Payment d) = Inr (payment_amount d)"
| "diff_amount (ZkappAccountCreationFee d) = Inr (zcf_amount d)"
| "diff_amount _ = Inl UnreachableCode"

section \<open>Expansion of a zkapp diff\<close>

fun expand_payment_diff :: "zkapp_payment_diff \<Rightarrow> account_diff" where
  "expand_payment_diff (ZkPayment d) = Payment d"
| "expand_payment_diff (ZkIncrementNonce d) = ZkappIncrementNonce d"
| "expand_payment_diff (ZkAccountCreationFee d) = ZkappAccountCreationFee d"

definition expand_app_state_diff ::
    "token_address \<Rightarrow> public_key \<Rightarrow> bool \<Rightarrow> app_state option list \<Rightarrow> account_diff list" where
  "expand_app_state_diff token pk proved_state app_state_diff =
     (if \<not> list_all (\<lambda>state. state = None) app_state_diff
      then [ZkappStateDiff \<lparr>zt_token = token, zt_public_key = pk,
              zs_proved_state = proved_state, zs_diffs = app_state_diff\<rparr>]
      else [])"

definition expand_delegate_diff ::
    "public_key \<Rightarrow> nonce \<Rightarrow> public_key option \<Rightarrow> account_diff list" where
  "expand_delegate_diff pk nonce delegate =
     (case delegate of
        Some del \<Rightarrow> [Delegation \<lparr>dd_nonce = nonce, dd_delegator = pk, dd_delegate = del\<rparr>]
      | None \<Rightarrow> [])"

definition expand_verification_key_diff ::
    "token_address \<Rightarrow> public_key \<Rightarrow> bool \<Rightarrow> verification_key option \<Rightarrow> account_diff list" where
  "expand_verification_key_diff token pk proved_state vk =
     (case vk of
        Some key \<Rightarrow> [ZkappVerificationKeyDiff \<lparr>zt_token = token, zt_public_key = pk,
          zv_proved_state = proved_state, zv_verification_key = key\<rparr>]
      | None \<Rightarrow> [])"

definition expand_permissions_diff ::
    "token_address \<Rightarrow> public_key \<Rightarrow> permissions option \<Rightarrow> account_diff list" where
  "expand_permissions_diff token pk permissions =
     (case permissions of
        Some p \<Rightarrow> [ZkappPermissionsDiff \<lparr>zt_token = token, zt_public_key = pk, zp_permissions = p\<rparr>]
      | None \<Rightarrow> [])"

definition expand_uri_diff ::
    "token_address \<Rightarrow> public_key \<Rightarrow> bool \<Rightarrow> uri option \<Rightarrow> account_diff list" where
  "expand_uri_diff token pk proved_state uri =
     (case uri of
        Some u \<Rightarrow> [ZkappUriDiff \<lparr>zt_token = token, zt_public_key = pk,
          zu_proved_state = proved_state, zu_zkapp_uri = u\<rparr>]
      | None \<Rightarrow> [])"

definition expand_symbol_diff ::
    "token_address \<Rightarrow> public_key \<Rightarrow> token_symbol option \<Rightarrow> account_diff list" where
  "expand_symbol_diff token pk symbol =
     (case symbol of
        Some s \<Rightarrow> [ZkappTokenSymbolDiff \<lparr>zt_token = token, zt_public_key = pk, zts_token_symbol = s\<rparr>]
      | None \<Rightarrow> [])"

definition expand_timing_diff ::
    "token_address \<Rightarrow> public_key \<Rightarrow> timing option \<Rightarrow> account_diff list" where
  "expand_timing_diff token pk timing =
     (case timing of
        Some t \<Rightarrow> [ZkappTimingDiff \<lparr>zt_token = token, zt_public_key = pk, ztd_timing = t\<rparr>]
      | None \<Rightarrow> [])"

definition expand_voting_for_diff ::
    "token_address \<Rightarrow> public_key \<Rightarrow> state_hash option \<Rightarrow> account_diff list" where
  "expand_voting_for_diff token pk voting_for =
     (case voting_for of
        Some h \<Rightarrow> [ZkappVotingForDiff \<lparr>zt_token = token, zt_public_key = pk, zvf_voting_for = h\<rparr>]
      | None \<Rightarrow> [])"

definition expand_actions_diff ::
    "token_address \<Rightarrow> public_key \<Rightarrow> bool \<Rightarrow> action_state list \<Rightarrow> account_diff list" where
  "expand_actions_diff token pk proved_state actions =
     (if actions \<noteq> []
      then [ZkappActionsDiff \<lparr>zt_token = token, zt_public_key = pk,
              zac_proved_state = proved_state, zac_actions = actions\<rparr>]
      else [])"

definition expand_events_diff ::
    "token_address \<Rightarrow> public_key \<Rightarrow> zkapp_event list \<Rightarrow> account_diff list" where
  "expand_events_diff token pk events =
     (if events \<noteq> []
      then [ZkappEventsDiff \<lparr>zt_token = token, zt_public_key = pk, zev_events = events\<rparr>]
      else [])"

definition zkapp_diff_expand :: "zkapp_diff \<Rightarrow> account_diff list" where
  "zkapp_diff_expand d =
     map expand_payment_diff (zd_payment_diffs d) @
     expand_app_state_diff (zd_token d) (zd_public_key d) (zd_proved_state d) (zd_app_state_diff d) @
     expand_delegate_diff (zd_public_key d) (zd_nonce d) (zd_delegate d) @
     expand_verification_key_diff (zd_token d) (zd_public_key d) (zd_proved_state d)
       (zd_verification_key d) @
     expand_permissions_diff (zd_token d) (zd_public_key d) (zd_permissions d) @
     expand_uri_diff (zd_token d) (zd_public_key d) (zd_proved_state d) (zd_zkapp_uri d) @
     expand_symbol_diff (zd_token d) (zd_public_key d) (zd_token_symbol d) @
     expand_timing_diff (zd_token d) (zd_public_key d) (zd_timing d) @
     expand_voting_for_diff (zd_token d) (zd_public_key d) (zd_voting_for d) @
     expand_actions_diff (zd_token d) (zd_public_key d) (zd_proved_state d) (zd_actions d) @
     expand_events_diff (zd_token d) (zd_public_key d) (zd_events d)"

fun expand_diff :: "account_diff \<Rightarrow> account_diff list" where
  "expand_diff (Zkapp d) = zkapp_diff_expand d"
| "expand_diff d = [d]"

definition expand :: "account_diff list list \<Rightarrow> account_diff list list" where
  "expand diffs = map (\<lambda>ds. concat (map expand_diff ds)) diffs"

section \<open>Diffs of user commands\<close>

fun update_type_from_sign :: "supply_adjustment_sign \<Rightarrow> update_type" where
  "update_type_from_sign Neg = Debit None"
| "update_type_from_sign Pos = Credit"

definition elt_payment_diffs ::
    "public_key \<Rightarrow> nonce \<Rightarrow> account_update_body \<Rightarrow> zkapp_payment_diff list" where
  "elt_payment_diffs fee_payer nonce body =
     (let pk = aub_public_key body;
          token = aub_token_id body;
          amount = sa_magnitude (aub_balance_change body);
          update_type =
            (case update_type_from_sign (sa_sgn (aub_balance_change body)) of
               Debit _ \<Rightarrow> Debit (Some (nonce_add nonce 1))
             | Credit \<Rightarrow> Credit)
      in (if aub_implicit_account_creation_fee body
          then [ZkPayment \<lparr>pd_update_type = Debit (Some (nonce_add nonce 1)),
                 pd_public_key = fee_payer, pd_amount = amount, pd_token = token\<rparr>]
          else []) @
         (if aub_increment_nonce body \<and> amount = 0
          then [ZkIncrementNonce \<lparr>zin_public_key = pk, zin_token = token\<rparr>]
          else []) @
         (if amount \<noteq> 0
          then [ZkPayment \<lparr>pd_update_type = update_type, pd_public_key = pk,
                 pd_amount = amount, pd_token = token\<rparr>]
          else []))"

definition app_state_update :: "string update_kind \<Rightarrow> app_state option run" where
  "app_state_update k =
     (case k of
        Keep _ \<Rightarrow> Inr None
      | SetTo _ state \<Rightarrow> map_ok Some (app_state_from state))"

fun is_proof_authorization :: "authorization \<Rightarrow> bool" where
  "is_proof_authorization (AuthProof _) = True"
| "is_proof_authorization (AuthProofTagged _ _) = True"
| "is_proof_authorization _ = False"

definition first_or_empty :: "'a list list \<Rightarrow> 'a list" where
  "first_or_empty xss = (case xss of [] \<Rightarrow> [] | xs # _ \<Rightarrow> xs)"

definition account_diff_from_elt :: "public_key \<Rightarrow> nonce \<Rightarrow> elt \<Rightarrow> account_diff run" where
  "account_diff_from_elt fee_payer nonce e =
     (let body = elt_body e; up = aub_update body in
      bind_ok (traverse_ok action_state_from (first_or_empty (aub_actions body))) (\<lambda>actions.
      bind_ok (traverse_ok zkapp_event_from (first_or_empty (aub_events body))) (\<lambda>events.
      bind_ok (traverse_ok app_state_update (up_app_state up)) (\<lambda>app_state_diff.
      Inr (Zkapp \<lparr>
        zd_nonce = nonce_add nonce 1,
        zd_token = aub_token_id body,
        zd_public_key = aub_public_key body,
        zd_increment_nonce = aub_increment_nonce body,
        zd_payment_diffs = elt_payment_diffs fee_payer nonce body,
        zd_proved_state = is_proof_authorization (aub_authorization_kind body),
        zd_app_state_diff = app_state_diff,
        zd_delegate = update_to_option (up_delegate up),
        zd_verification_key = update_to_option (up_verification_key up),
        zd_permissions = update_to_option (up_permissions up),
        zd_zkapp_uri = update_to_option (up_zkapp_uri up),
        zd_token_symbol = update_to_option (up_token_symbol up),
        zd_timing = update_to_option (up_timing up),
        zd_voting_for = update_to_option (up_voting_for up),
        zd_actions = actions,
        zd_events = events\<rparr>)))))"

text \<open>One group of diffs per account update: the update itself, then its direct calls.\<close>

fun from_command :: "command \<Rightarrow> account_diff list list run" where
  "from_command (PaymentCmd p) =
     Inr [[Payment \<lparr>pd_update_type = Credit, pd_public_key = pay_receiver p,
             pd_amount = pay_amount p, pd_token = token_address_default\<rparr>,
           Payment \<lparr>pd_update_type = Debit (Some (nonce_add (pay_nonce p) 1)),
             pd_public_key = pay_source p, pd_amount = pay_amount p,
             pd_token = token_address_default\<rparr>]]"
| "from_command (DelegationCmd d) =
     Inr [[Delegation \<lparr>dd_nonce = nonce_add (del_nonce d) 1, dd_delegator = del_delegator d,
             dd_delegate = del_delegate d\<rparr>]]"
| "from_command (ZkappCmd z) =
     (let fee_payer = fp_public_key (zc_fee_payer z); nonce = fp_nonce (zc_fee_payer z)
      in traverse_ok (\<lambda>update.
           traverse_ok (account_diff_from_elt fee_payer nonce) (update # elt_calls update))
         (zc_account_updates z))"

datatype account_diff_type =
    PaymentType nonce
  | DelegationType nonce
  | CoinbaseType
  | FeeTransferType
  | FeeTransferViaCoinbaseType
  | ZkappType token_address nonce

definition transfer_pair ::
    "(payment_diff \<Rightarrow> account_diff) \<Rightarrow> public_key \<Rightarrow> public_key \<Rightarrow> u64 \<Rightarrow> nonce option \<Rightarrow> account_diff list" where
  "transfer_pair con sender receiver amount nonce =
     [con \<lparr>pd_update_type = Credit, pd_public_key = receiver, pd_amount = amount,
           pd_token = token_address_default\<rparr>,
      con \<lparr>pd_update_type = Debit nonce, pd_public_key = sender, pd_amount = amount,
           pd_token = token_address_default\<rparr>]"

definition zkapp_diff_default :: zkapp_diff where
  "zkapp_diff_default = \<lparr>
     zd_nonce = 0, zd_token = token_address_default, zd_public_key = public_key_default,
     zd_increment_nonce = False, zd_payment_diffs = [], zd_proved_state = False,
     zd_app_state_diff = replicate ZKAPP_STATE_FIELD_ELEMENTS_NUM None,
     zd_delegate = None, zd_verification_key = None, zd_permissions = None,
     zd_zkapp_uri = None, zd_token_symbol = None, zd_timing = None, zd_voting_for = None,
     zd_actions = [], zd_events = []\<rparr>"

fun account_diffs_from ::
    "public_key \<Rightarrow> public_key \<Rightarrow> account_diff_type \<Rightarrow> u64 \<Rightarrow> account_diff list list" where
  "account_diffs_from sender receiver (PaymentType nonce) amount =
     [transfer_pair Payment sender receiver amount (Some nonce)]"
| "account_diffs_from sender receiver (DelegationType nonce) amount =
     [[Delegation \<lparr>dd_nonce = nonce, dd_delegator = receiver, dd_delegate = sender\<rparr>]]"
| "account_diffs_from sender receiver CoinbaseType amount =
     [[CoinbaseD \<lparr>cd_public_key = sender, cd_amount = amount\<rparr>]]"
| "account_diffs_from sender receiver FeeTransferType amount =
     [transfer_pair FeeTransfer sender receiver amount None]"
| "account_diffs_from sender receiver FeeTransferViaCoinbaseType amount =
     [transfer_pair FeeTransferViaCoinbase sender receiver amount None]"
| "account_diffs_from sender receiver (ZkappType token nonce) amount =
     [[Zkapp (zkapp_diff_default\<lparr>zd_nonce := nonce, zd_token := token, zd_public_key := sender,
        zd_payment_diffs :=
          [ZkPayment \<lparr>pd_update_type = Credit, pd_public_key = receiver, pd_amount = amount,
             pd_token = token\<rparr>,
           ZkPayment \<lparr>pd_update_type = Debit (Some nonce), pd_public_key = sender,
             pd_amount = amount, pd_token = token\<rparr>]\<rparr>)]]"

section \<open>Payment diffs\<close>

definition zkapp_payments :: "zkapp_payment_diff list \<Rightarrow> payment_diff list" where
  "zkapp_payments ds = concat (map (\<lambda>d. case d of ZkPayment p \<Rightarrow> [p] | _ \<Rightarrow> []) ds)"

fun from_account_diff :: "account_diff \<Rightarrow> payment_diff list" where
  "from_account_diff (Zkapp d) = zkapp_payments (zd_payment_diffs d)"
| "from_account_diff (Payment d) = [d]"
| "from_account_diff (FeeTransfer d) = [d]"
| "from_account_diff (FeeTransferViaCoinbase d) = [d]"
| "from_account_diff (CoinbaseD d) =
     [\<lparr>pd_update_type = Credit, pd_public_key = cd_public_key d, pd_amount = cd_amount d,
       pd_token = token_address_default\<rparr>]"
| "from_account_diff _ = []"

definition payment_diff_unapply :: "payment_diff \<Rightarrow> payment_diff" where
  "payment_diff_unapply d =
     (if pd_update_type d = Credit then d\<lparr>pd_update_type := Debit None\<rparr>
      else d\<lparr>pd_update_type := Credit\<rparr>)"

section \<open>Lemmas\<close>

fun is_zkapp :: "account_diff \<Rightarrow> bool" where
  "is_zkapp (Zkapp _) = True"
| "is_zkapp _ = False"

lemmas expand_parts_defs =
  expand_app_state_diff_def expand_delegate_diff_def expand_verification_key_diff_def
  expand_permissions_diff_def expand_uri_diff_def expand_symbol_diff_def expand_timing_diff_def
  expand_voting_for_diff_def expand_actions_diff_def expand_events_diff_def

lemma expand_payment_diff_not_zkapp [simp]: "\<not> is_zkapp (expand_payment_diff d)"
  by (cases d) simp_all

lemma zkapp_diff_expand_not_zkapp: "x \<in> set (zkapp_diff_expand d) \<Longrightarrow> \<not> is_zkapp x"
  unfolding zkapp_diff_expand_def set_append Un_iff
  by (elim disjE)
    (auto simp: expand_parts_defs split: if_splits option.splits)

lemma expand_diff_not_zkapp: "x \<in> set (expand_diff d) \<Longrightarrow> \<not> is_zkapp x"
  by (cases d) (auto simp: zkapp_diff_expand_not_zkapp)

lemma expand_diff_id: "\<not> is_zkapp d \<Longrightarrow> expand_diff d = [d]"
  by (cases d) simp_all

lemma expand_id:
  assumes "\<forall>ds\<in>set dss. \<forall>d\<in>set ds. \<not> is_zkapp d"
  shows "expand dss = dss"
proof -
  have "concat (map expand_diff ds) = ds" if "\<forall>d\<in>set ds. \<not> is_zkapp d" for ds
    using that by (induction ds) (simp_all add: expand_diff_id)
  with assms show ?thesis by (simp add: expand_def map_idI)
qed

text \<open>The change a diff makes to the balance of its account, when nothing saturates.\<close>

fun balance_change :: "account_diff \<Rightarrow> 64 word" where
  "balance_change (Payment d) = payment_amount d"
| "balance_change (FeeTransfer d) = payment_amount d"
| "balance_change (FeeTransferViaCoinbase d) = payment_amount d"
| "balance_change (CoinbaseD d) = cd_amount d"
| "balance_change (ZkappAccountCreationFee d) = zcf_amount d"
| "balance_change _ = 0"


section \<open>Properties of account diffs\<close>

lemma expand_parts_payments:
  "concat (map from_account_diff (expand_app_state_diff t k p states)) = []"
  "concat (map from_account_diff (expand_delegate_diff k n del)) = []"
  "concat (map from_account_diff (expand_verification_key_diff t k p vk)) = []"
  "concat (map from_account_diff (expand_permissions_diff t k perms)) = []"
  "concat (map from_account_diff (expand_uri_diff t k p uri)) = []"
  "concat (map from_account_diff (expand_symbol_diff t k symbol)) = []"
  "concat (map from_account_diff (expand_timing_diff t k tim)) = []"
  "concat (map from_account_diff (expand_voting_for_diff t k vf)) = []"
  "concat (map from_account_diff (expand_actions_diff t k p acts)) = []"
  "concat (map from_account_diff (expand_events_diff t k evs)) = []"
  by (auto simp: expand_parts_defs split: option.splits)

lemma expand_diff_payments: "concat (map from_account_diff (expand_diff d)) = from_account_diff d"
proof (cases d)
  case (Zkapp z)
  have "from_account_diff (expand_payment_diff p) = (case p of ZkPayment q \<Rightarrow> [q] | _ \<Rightarrow> [])" for p
    by (cases p) simp_all
  then have "concat (map from_account_diff (map expand_payment_diff ps)) = zkapp_payments ps" for ps
    by (induction ps) (simp_all add: zkapp_payments_def)
  moreover have "concat (map from_account_diff (zkapp_diff_expand z)) =
      concat (map from_account_diff (map expand_payment_diff (zd_payment_diffs z)))"
    unfolding zkapp_diff_expand_def map_append concat_append by (simp only: expand_parts_payments append_Nil2)
  ultimately show ?thesis using Zkapp by simp
qed simp_all

text \<open>
  Expanding the diffs of a block leaves no zkapp diff (which an account cannot apply) and keeps
  every payment, in order.
\<close>

lemma expand_keeps_payments:
  "list_all (\<lambda>d. \<not> is_zkapp d) (concat (expand dss)) \<and>
   concat (map from_account_diff (concat (expand dss))) = concat (map from_account_diff (concat dss))"
proof
  show "list_all (\<lambda>d. \<not> is_zkapp d) (concat (expand dss))"
    by (auto simp: list_all_iff expand_def dest: expand_diff_not_zkapp)
  have "concat (map from_account_diff (concat (map expand_diff ds))) = concat (map from_account_diff ds)" for ds
    by (induction ds) (simp_all add: expand_diff_payments)
  then show "concat (map from_account_diff (concat (expand dss))) =
      concat (map from_account_diff (concat dss))"
    by (induction dss) (simp_all add: expand_def)
qed

end
