(* ===== verification/Accounts.thy ===== *)
theory Accounts
  imports Account_Diffs
begin

text \<open>
  Accounts (\<open>ledger/account/mod.rs\<close>): the account structure, one operation per kind of diff, their
  inverses, the dispatch \<open>apply_account_diff\<close>/\<open>unapply_account_diff\<close> and the time-locked balance.
  The token and key checks of the zkapp operations only log, so they leave no trace in the model.
\<close>

record account =
  acct_public_key :: public_key
  acct_balance :: amount
  acct_delegate :: public_key
  acct_genesis_account :: bool
  acct_nonce :: "nonce option"
  acct_token :: "token_address option"
  acct_receipt_chain_hash :: "string option"
  acct_voting_for :: "state_hash option"
  acct_permissions :: "permissions option"
  acct_timing :: "timing option"
  acct_token_symbol :: "token_symbol option"
  acct_zkapp :: "zkapp_account option"
  acct_username :: "username option"

definition account_default :: account where
  "account_default = \<lparr>
     acct_public_key = public_key_default, acct_balance = 0, acct_delegate = public_key_default,
     acct_genesis_account = False, acct_nonce = None, acct_token = None,
     acct_receipt_chain_hash = None, acct_voting_for = None, acct_permissions = None,
     acct_timing = None, acct_token_symbol = None, acct_zkapp = None, acct_username = None\<rparr>"

definition account_empty :: "public_key \<Rightarrow> token_address \<Rightarrow> account" where
  "account_empty pk token =
     account_default\<lparr>acct_public_key := pk, acct_delegate := pk, acct_token := Some token\<rparr>"

text \<open>\<open>From<GenesisBlock>\<close>: the magic account of the genesis block's creator.\<close>

definition account_from_genesis_block :: "precomputed_block \<Rightarrow> account" where
  "account_from_genesis_block b =
     account_default\<lparr>acct_public_key := block_creator b, acct_balance := 1000,
       acct_delegate := block_creator b, acct_genesis_account := True\<rparr>"

text \<open>\<open>From<(u64, v2::AccountAccessed)>\<close>.\<close>

definition account_accessed_from :: "account_accessed_v2 \<Rightarrow> account" where
  "account_accessed_from v = \<lparr>
     acct_public_key = aa_public_key v, acct_balance = aa_balance v,
     acct_delegate = (case aa_delegate v of Some d \<Rightarrow> d | None \<Rightarrow> aa_public_key v),
     acct_genesis_account = False, acct_nonce = Some (aa_nonce v),
     acct_token = Some (aa_token_id v),
     acct_receipt_chain_hash = Some (aa_receipt_chain_hash v),
     acct_voting_for = Some (aa_voting_for v), acct_permissions = Some (aa_permissions v),
     acct_timing = aa_timing v, acct_token_symbol = Some (aa_token_symbol v),
     acct_zkapp = aa_zkapp v, acct_username = None\<rparr>"

fun accounts_accessed :: "precomputed_block \<Rightarrow> (u64 \<times> account) list" where
  "accounts_accessed (V1 _) = []"
| "accounts_accessed (V2 b) =
     map (\<lambda>(index, v). (index, account_accessed_from v)) (b2_accounts_accessed b)"

definition is_zkapp_account :: "account \<Rightarrow> bool" where
  "is_zkapp_account a \<longleftrightarrow> acct_zkapp a \<noteq> None"

definition display :: "account \<Rightarrow> account" where
  "display a = a\<lparr>acct_balance := amount_sub (acct_balance a) MAINNET_ACCOUNT_CREATION_FEE\<rparr>"

definition set_username :: "username \<Rightarrow> account \<Rightarrow> account" where
  "set_username u a = a\<lparr>acct_username := Some u\<rparr>"

text \<open>
  The quotient is a \<open>u32\<close> widened to \<open>u64\<close>; its product with the increment wraps.  A vesting period
  of zero panics once the cliff is reached.
\<close>

definition current_minimum_balance :: "account \<Rightarrow> u32 \<Rightarrow> u64 run" where
  "current_minimum_balance a slot =
     (case acct_timing a of
        None \<Rightarrow> Inr 0
      | Some t \<Rightarrow>
          if slot < cliff_time t then Inr (initial_minimum_balance t)
          else if vesting_period t = 0 then Inl DivideByZero
          else Inr (sat_sub (initial_minimum_balance t)
                 (ucast ((slot - cliff_time t) div vesting_period t) * vesting_increment t)))"

section \<open>Applying and unapplying\<close>

definition coinbase :: "amount \<Rightarrow> account \<Rightarrow> account" where
  "coinbase amount a = a\<lparr>acct_balance := amount_add (acct_balance a) amount\<rparr>"

definition coinbase_unapply :: "coinbase_diff \<Rightarrow> account \<Rightarrow> account" where
  "coinbase_unapply d a = a\<lparr>acct_balance := amount_sub (acct_balance a) (cd_amount d)\<rparr>"

definition credit :: "amount \<Rightarrow> account \<Rightarrow> account" where
  "credit amount a = a\<lparr>acct_balance := amount_add (acct_balance a) amount\<rparr>"

definition debit :: "amount \<Rightarrow> nonce option \<Rightarrow> account \<Rightarrow> account" where
  "debit amount nonce a =
     a\<lparr>acct_balance := amount_sub (acct_balance a) amount,
       acct_nonce := (case nonce of None \<Rightarrow> acct_nonce a | Some n \<Rightarrow> Some n)\<rparr>"

definition account_payment :: "payment_diff \<Rightarrow> account \<Rightarrow> account" where
  "account_payment d a =
     (case pd_update_type d of
        Credit \<Rightarrow> credit (pd_amount d) a
      | Debit nonce \<Rightarrow> debit (pd_amount d) nonce a)"

definition payment_unapply :: "payment_diff \<Rightarrow> account \<Rightarrow> account" where
  "payment_unapply d a =
     (case pd_update_type d of
        Credit \<Rightarrow> a\<lparr>acct_balance := amount_sub (acct_balance a) (pd_amount d)\<rparr>
      | Debit nonce \<Rightarrow>
          a\<lparr>acct_balance := amount_add (acct_balance a) (pd_amount d),
            acct_nonce :=
              (case nonce of
                 None \<Rightarrow> acct_nonce a
               | Some n \<Rightarrow> if acct_nonce a = Some 0 then None else Some (nonce_sub n 1))\<rparr>)"

definition account_delegation :: "public_key \<Rightarrow> nonce \<Rightarrow> account \<Rightarrow> account" where
  "account_delegation delegate updated_nonce a =
     a\<lparr>acct_delegate := delegate, acct_nonce := Some updated_nonce\<rparr>"

definition delegation_unapply :: "delegation_diff \<Rightarrow> account \<Rightarrow> account" where
  "delegation_unapply d a =
     a\<lparr>acct_nonce := (if acct_nonce a = Some 0 then None else Some (nonce_sub (dd_nonce d) 1)),
       acct_delegate := acct_public_key a\<rparr>"

definition failed_transaction :: "nonce \<Rightarrow> account \<Rightarrow> account" where
  "failed_transaction updated_nonce a = a\<lparr>acct_nonce := Some updated_nonce\<rparr>"

definition failed_transaction_unapply :: "failed_transaction_nonce_diff \<Rightarrow> account \<Rightarrow> account" where
  "failed_transaction_unapply d a =
     a\<lparr>acct_nonce := (if 0 < fd_nonce d then Some (nonce_sub (fd_nonce d) 1) else None)\<rparr>"

text \<open>The zkapp operations start from the account's zkapp data or a fresh one.\<close>

definition zkapp_or_new :: "bool \<Rightarrow> account \<Rightarrow> zkapp_account" where
  "zkapp_or_new proved a =
     (case acct_zkapp a of Some z \<Rightarrow> z | None \<Rightarrow> zkapp_account_from_proved_state proved)"

definition prove_if :: "bool \<Rightarrow> zkapp_account \<Rightarrow> zkapp_account" where
  "prove_if proved z = (if proved then z\<lparr>za_proved_state := True\<rparr> else z)"

definition write_app_state :: "nat \<times> app_state option \<Rightarrow> app_state list \<Rightarrow> app_state list run" where
  "write_app_state = (\<lambda>(idx, diff) xs. case diff of Some s \<Rightarrow> update_ok xs idx s | None \<Rightarrow> Inr xs)"

definition zkapp_state :: "zkapp_state_diff \<Rightarrow> account \<Rightarrow> account run" where
  "zkapp_state d a =
     (let z = zkapp_or_new (zs_proved_state d) a
      in map_ok (\<lambda>xs. a\<lparr>acct_zkapp := Some (prove_if (zs_proved_state d) (z\<lparr>za_app_state := xs\<rparr>))\<rparr>)
           (fold_ok write_app_state (enumerate 0 (zs_diffs d)) (za_app_state z)))"

definition zkapp_verification_key :: "zkapp_verification_key_diff \<Rightarrow> account \<Rightarrow> account" where
  "zkapp_verification_key d a =
     (let z = zkapp_or_new (zv_proved_state d) a
      in a\<lparr>acct_zkapp := Some (prove_if (zv_proved_state d)
             (z\<lparr>za_verification_key := zv_verification_key d\<rparr>))\<rparr>)"

definition zkapp_permissions :: "zkapp_permissions_diff \<Rightarrow> account \<Rightarrow> account" where
  "zkapp_permissions d a = a\<lparr>acct_permissions := Some (zp_permissions d)\<rparr>"

definition zkapp_uri :: "zkapp_uri_diff \<Rightarrow> account \<Rightarrow> account" where
  "zkapp_uri d a =
     (let z = zkapp_or_new (zu_proved_state d) a
      in a\<lparr>acct_zkapp := Some (prove_if (zu_proved_state d) (z\<lparr>za_zkapp_uri := zu_zkapp_uri d\<rparr>))\<rparr>)"

definition zkapp_token_symbol :: "zkapp_token_symbol_diff \<Rightarrow> account \<Rightarrow> account" where
  "zkapp_token_symbol d a = a\<lparr>acct_token_symbol := Some (zts_token_symbol d)\<rparr>"

definition zkapp_timing :: "zkapp_timing_diff \<Rightarrow> account \<Rightarrow> account" where
  "zkapp_timing d a = a\<lparr>acct_timing := Some (ztd_timing d)\<rparr>"

definition zkapp_voting_for :: "zkapp_voting_for_diff \<Rightarrow> account \<Rightarrow> account" where
  "zkapp_voting_for d a = a\<lparr>acct_voting_for := Some (zvf_voting_for d)\<rparr>"

definition zkapp_actions :: "zkapp_actions_diff \<Rightarrow> account \<Rightarrow> account run" where
  "zkapp_actions d a =
     (let z = zkapp_or_new (zac_proved_state d) a; n = length (za_action_state z)
      in map_ok (\<lambda>xs. a\<lparr>acct_zkapp := Some (prove_if (zac_proved_state d) (z\<lparr>za_action_state := xs\<rparr>))\<rparr>)
           (fold_ok (\<lambda>(idx, s) xs. update_ok xs (idx mod n) s)
              (enumerate 0 (zac_actions d)) (za_action_state z)))"

definition zkapp_events :: "zkapp_events_diff \<Rightarrow> account \<Rightarrow> account" where
  "zkapp_events d a = a"

definition zkapp_nonce :: "zkapp_increment_nonce \<Rightarrow> account \<Rightarrow> account" where
  "zkapp_nonce d a =
     a\<lparr>acct_nonce :=
         Some (nonce_add (case acct_nonce a of None \<Rightarrow> 0 | Some n \<Rightarrow> n) 1)\<rparr>"

definition zkapp_account_creation :: "zkapp_account_creation_fee \<Rightarrow> account \<Rightarrow> account run" where
  "zkapp_account_creation d a =
     (if zcf_amount d \<noteq> MAINNET_ACCOUNT_CREATION_FEE then Inl AssertionFailed
      else Inr (a\<lparr>acct_balance := amount_add (acct_balance a) (zcf_amount d)\<rparr>))"

fun apply_account_diff :: "account_diff \<Rightarrow> account \<Rightarrow> account run" where
  "apply_account_diff (Payment d) a = Inr (account_payment d a)"
| "apply_account_diff (FeeTransfer d) a = Inr (account_payment d a)"
| "apply_account_diff (FeeTransferViaCoinbase d) a = Inr (account_payment d a)"
| "apply_account_diff (Delegation d) a =
     (if acct_public_key a \<noteq> dd_delegator d then Inl AssertionFailed
      else Inr (account_delegation (dd_delegate d) (dd_nonce d) a))"
| "apply_account_diff (CoinbaseD d) a = Inr (coinbase (cd_amount d) a)"
| "apply_account_diff (FailedTransactionNonce d) a = Inr (failed_transaction (fd_nonce d) a)"
| "apply_account_diff (ZkappStateDiff d) a = zkapp_state d a"
| "apply_account_diff (ZkappPermissionsDiff d) a = Inr (zkapp_permissions d a)"
| "apply_account_diff (ZkappVerificationKeyDiff d) a = Inr (zkapp_verification_key d a)"
| "apply_account_diff (ZkappUriDiff d) a = Inr (zkapp_uri d a)"
| "apply_account_diff (ZkappTokenSymbolDiff d) a = Inr (zkapp_token_symbol d a)"
| "apply_account_diff (ZkappTimingDiff d) a = Inr (zkapp_timing d a)"
| "apply_account_diff (ZkappVotingForDiff d) a = Inr (zkapp_voting_for d a)"
| "apply_account_diff (ZkappActionsDiff d) a = zkapp_actions d a"
| "apply_account_diff (ZkappEventsDiff d) a = Inr (zkapp_events d a)"
| "apply_account_diff (ZkappIncrementNonce d) a = Inr (zkapp_nonce d a)"
| "apply_account_diff (ZkappAccountCreationFee d) a = zkapp_account_creation d a"
| "apply_account_diff (Zkapp _) a = Inl UnreachableCode"

definition unapply_account_diff :: "account_diff \<Rightarrow> bool \<Rightarrow> account \<Rightarrow> account option run" where
  "unapply_account_diff diff remove a =
     (if remove then Inr None
      else map_ok Some
        (case diff of
           Payment d \<Rightarrow> Inr (payment_unapply d a)
         | FeeTransfer d \<Rightarrow> Inr (payment_unapply d a)
         | FeeTransferViaCoinbase d \<Rightarrow> Inr (payment_unapply d a)
         | Delegation d \<Rightarrow> Inr (delegation_unapply d a)
         | CoinbaseD d \<Rightarrow> Inr (coinbase_unapply d a)
         | FailedTransactionNonce d \<Rightarrow> Inr (failed_transaction_unapply d a)
         | Zkapp _ \<Rightarrow> Inl UnreachableCode
         | _ \<Rightarrow> Inr a))"

text \<open>\<open>apply_ledger_diff\<close> filters by public key only, whatever the token of the diff.\<close>

definition apply_ledger_diff :: "account_diff list list \<Rightarrow> account \<Rightarrow> account run" where
  "apply_ledger_diff diffs a =
     (let pk = acct_public_key a
      in fold_ok (\<lambda>d acct. if diff_public_key d = pk then apply_account_diff d acct else Inr acct)
           (concat diffs) a)"

text \<open>\<open>Ord for Account\<close>: by balance, then by key.\<close>

definition account_cmp :: "account \<Rightarrow> account \<Rightarrow> ordering" where
  "account_cmp a b =
     (let balance_cmp = cmp (acct_balance a) (acct_balance b)
      in if balance_cmp = Equal then cmp (acct_public_key a) (acct_public_key b) else balance_cmp)"

section \<open>Well-formedness and totality\<close>

definition account_wf :: "account \<Rightarrow> bool" where
  "account_wf a \<longleftrightarrow> (case acct_zkapp a of None \<Rightarrow> True | Some z \<Rightarrow> zkapp_account_wf z)"

fun diff_wf :: "account_diff \<Rightarrow> bool" where
  "diff_wf (Zkapp _) \<longleftrightarrow> False"
| "diff_wf (ZkappStateDiff d) \<longleftrightarrow> length (zs_diffs d) = ZKAPP_STATE_FIELD_ELEMENTS_NUM"
| "diff_wf (ZkappAccountCreationFee d) \<longleftrightarrow> zcf_amount d = MAINNET_ACCOUNT_CREATION_FEE"
| "diff_wf _ \<longleftrightarrow> True"

lemmas account_op_defs =
  coinbase_def credit_def debit_def account_payment_def account_delegation_def
  failed_transaction_def zkapp_verification_key_def zkapp_permissions_def zkapp_uri_def
  zkapp_token_symbol_def zkapp_timing_def zkapp_voting_for_def zkapp_events_def zkapp_nonce_def

lemma zkapp_or_new_wf: "account_wf a \<Longrightarrow> zkapp_account_wf (zkapp_or_new p a)"
  by (auto simp: account_wf_def zkapp_or_new_def split: option.splits)

lemma prove_if_wf [simp]: "zkapp_account_wf (prove_if p z) = zkapp_account_wf z"
  by (simp add: prove_if_def zkapp_account_wf_def)

lemma zkapp_account_wf_update [simp]:
  "zkapp_account_wf (z\<lparr>za_verification_key := vk\<rparr>) = zkapp_account_wf z"
  "zkapp_account_wf (z\<lparr>za_zkapp_uri := u\<rparr>) = zkapp_account_wf z"
  "zkapp_account_wf z \<Longrightarrow>
     zkapp_account_wf (z\<lparr>za_app_state := xs\<rparr>) = (length xs = ZKAPP_STATE_FIELD_ELEMENTS_NUM)"
  "zkapp_account_wf z \<Longrightarrow> zkapp_account_wf (z\<lparr>za_action_state := ys\<rparr>) = (length ys = 5)"
  by (auto simp: zkapp_account_wf_def)

lemma zkapp_account_wf_lengths:
  "zkapp_account_wf z \<Longrightarrow> length (za_app_state z) = ZKAPP_STATE_FIELD_ELEMENTS_NUM"
  "zkapp_account_wf z \<Longrightarrow> length (za_action_state z) = 5"
  by (simp_all add: zkapp_account_wf_def)

lemma write_app_state_in_range:
  "n < length xs \<Longrightarrow>
   write_app_state (n, d) xs = Inr (case d of Some s \<Rightarrow> xs[n := s] | None \<Rightarrow> xs)"
  by (simp add: write_app_state_def update_ok_def split: option.splits)

lemma write_app_states_total:
  assumes "n + length diffs \<le> length xs"
  shows "\<exists>ys. fold_ok write_app_state (enumerate n diffs) xs = Inr ys \<and> length ys = length xs \<and>
     (\<forall>i < length xs. ys ! i =
        (if n \<le> i \<and> i < n + length diffs
         then (case diffs ! (i - n) of Some s \<Rightarrow> s | None \<Rightarrow> xs ! i) else xs ! i))"
  using assms
proof (induction diffs arbitrary: n xs)
  case (Cons d diffs)
  let ?zs = "case d of Some s \<Rightarrow> xs[n := s] | None \<Rightarrow> xs"
  have len: "length ?zs = length xs" by (simp split: option.splits)
  with Cons.prems have "Suc n + length diffs \<le> length ?zs" by simp
  from Cons.IH [OF this] obtain ys where ys:
      "fold_ok write_app_state (enumerate (Suc n) diffs) ?zs = Inr ys" "length ys = length xs"
      "\<forall>i < length xs. ys ! i =
        (if Suc n \<le> i \<and> i < Suc n + length diffs
         then (case diffs ! (i - Suc n) of Some s \<Rightarrow> s | None \<Rightarrow> ?zs ! i) else ?zs ! i)"
    by (auto simp only: len)
  have "?zs ! i = (if i = n then (case d of Some s \<Rightarrow> s | None \<Rightarrow> xs ! i) else xs ! i)"
    if "i < length xs" for i
    using that by (auto split: option.splits)
  with ys Cons.prems show ?case
    by (intro exI[of _ ys]) (auto simp: write_app_state_in_range nth_Cons' split: option.splits)
qed auto

lemma write_actions_total:
  assumes "0 < length xs"
  shows "\<exists>ys. fold_ok (\<lambda>(idx, s) zs. update_ok zs (idx mod length xs) s) (enumerate n acts) xs = Inr ys \<and>
     length ys = length xs"
  by (rule fold_ok_total[where P = "\<lambda>ys. length ys = length xs"]) (use assms in \<open>auto simp: update_ok_def\<close>)

lemma apply_account_diff_total:
  assumes "account_wf a" "diff_wf d" "diff_public_key d = acct_public_key a"
  shows "\<exists>a'. apply_account_diff d a = Inr a' \<and> account_wf a' \<and>
     acct_public_key a' = acct_public_key a \<and> acct_token a' = acct_token a"
proof (cases d)
  case (ZkappStateDiff x)
  let ?z = "zkapp_or_new (zs_proved_state x) a"
  have wf: "zkapp_account_wf ?z" using assms(1) by (rule zkapp_or_new_wf)
  then have "0 + length (zs_diffs x) \<le> length (za_app_state ?z)"
    using assms(2) ZkappStateDiff by (simp add: zkapp_account_wf_lengths)
  from write_app_states_total [OF this] wf ZkappStateDiff show ?thesis
    by (auto simp: zkapp_state_def account_wf_def zkapp_account_wf_lengths Let_def)
next
  case (ZkappActionsDiff x)
  let ?z = "zkapp_or_new (zac_proved_state x) a"
  have wf: "zkapp_account_wf ?z" using assms(1) by (rule zkapp_or_new_wf)
  then have "0 < length (za_action_state ?z)" by (simp add: zkapp_account_wf_lengths)
  from write_actions_total [OF this, of 0 "zac_actions x"] wf ZkappActionsDiff show ?thesis
    by (auto simp: zkapp_actions_def account_wf_def zkapp_account_wf_lengths Let_def)
qed (use assms zkapp_or_new_wf[OF assms(1)] in \<open>auto simp: account_op_defs account_wf_def
      zkapp_account_creation_def Let_def split: update_type.splits\<close>)

lemma apply_account_diff_keeps:
  assumes "apply_account_diff d a = Inr a'"
  shows "acct_public_key a' = acct_public_key a" "acct_token a' = acct_token a"
  using assms
  by (cases d; auto simp: account_op_defs zkapp_account_creation_def zkapp_state_def
      zkapp_actions_def Let_def run_simps split: update_type.splits if_splits)+

text \<open>A diff is covered when its debit does not exceed the balance (so nothing saturates).\<close>

fun covered :: "account_diff \<Rightarrow> account \<Rightarrow> bool" where
  "covered (Payment d) a = (\<forall>n. pd_update_type d = Debit n \<longrightarrow> pd_amount d \<le> acct_balance a)"
| "covered (FeeTransfer d) a = (\<forall>n. pd_update_type d = Debit n \<longrightarrow> pd_amount d \<le> acct_balance a)"
| "covered (FeeTransferViaCoinbase d) a =
     (\<forall>n. pd_update_type d = Debit n \<longrightarrow> pd_amount d \<le> acct_balance a)"
| "covered _ a = True"

lemma account_payment_balance:
  assumes "\<forall>n. pd_update_type d = Debit n \<longrightarrow> pd_amount d \<le> acct_balance a"
  shows "acct_balance (account_payment d a) = acct_balance a + payment_amount d"
  using assms
  by (cases "pd_update_type d")
    (auto simp: account_payment_def payment_amount_def credit_def debit_def amount_add_def
      amount_sub_def sat_sub_def)

lemma apply_account_diff_balance:
  assumes "apply_account_diff d a = Inr a'" "covered d a"
  shows "acct_balance a' = acct_balance a + balance_change d"
  using assms account_payment_balance
  by (cases d)
    (auto simp: coinbase_def account_delegation_def failed_transaction_def
      zkapp_verification_key_def zkapp_permissions_def zkapp_uri_def zkapp_token_symbol_def
      zkapp_timing_def zkapp_voting_for_def zkapp_events_def zkapp_nonce_def
      zkapp_account_creation_def zkapp_state_def zkapp_actions_def Let_def run_simps
      amount_add_def split: if_splits)


section \<open>Unapplying\<close>

lemma payment_unapply_credit:
  assumes "pd_update_type d = Credit" "unat (acct_balance a) + unat (pd_amount d) < 2 ^ 64"
  shows "payment_unapply d (account_payment d a) = a"
  using assms
  by (simp add: payment_unapply_def account_payment_def credit_def amount_sub_add_cancel)

lemma payment_unapply_debit:
  assumes "pd_update_type d = Debit n" "pd_amount d \<le> acct_balance a"
    and "\<And>k. n = Some k \<Longrightarrow> 0 < k \<and> acct_nonce a = Some (nonce_sub k 1)"
  shows "payment_unapply d (account_payment d a) = a"
  using assms
  by (cases n)
    (auto simp: payment_unapply_def account_payment_def debit_def amount_add_sub_cancel)

definition unapply_exact :: "account_diff \<Rightarrow> account \<Rightarrow> bool" where
  "unapply_exact d a =
     (case d of
        CoinbaseD c \<Rightarrow> unat (acct_balance a) + unat (cd_amount c) < 2 ^ 64
      | Delegation x \<Rightarrow> acct_public_key a = dd_delegator x \<and> acct_delegate a = acct_public_key a \<and>
          0 < dd_nonce x \<and> acct_nonce a = Some (nonce_sub (dd_nonce x) 1)
      | FailedTransactionNonce x \<Rightarrow> 0 < fd_nonce x \<and> acct_nonce a = Some (nonce_sub (fd_nonce x) 1)
      | _ \<Rightarrow> (\<forall>p \<in> set (from_account_diff d). case pd_update_type p of
             Credit \<Rightarrow> unat (acct_balance a) + unat (pd_amount p) < 2 ^ 64
           | Debit n \<Rightarrow> pd_amount p \<le> acct_balance a \<and>
               (\<forall>k. n = Some k \<longrightarrow> 0 < k \<and> acct_nonce a = Some (nonce_sub k 1))) \<and>
          from_account_diff d \<noteq> [] \<and> \<not> is_zkapp d)"

lemma payment_roundtrip:
  assumes "case pd_update_type p of
             Credit \<Rightarrow> unat (acct_balance a) + unat (pd_amount p) < 2 ^ 64
           | Debit n \<Rightarrow> pd_amount p \<le> acct_balance a \<and>
               (\<forall>k. n = Some k \<longrightarrow> 0 < k \<and> acct_nonce a = Some (nonce_sub k 1))"
  shows "payment_unapply p (account_payment p a) = a"
  using assms payment_unapply_credit[of p a] payment_unapply_debit[of p _ a]
  by (cases "pd_update_type p") auto

lemma unapply_apply:
  assumes "unapply_exact d a"
  shows "bind_ok (apply_account_diff d a) (unapply_account_diff d False) = Inr (Some a)"
  using assms
  by (cases d)
    (auto simp: unapply_exact_def unapply_account_diff_def payment_roundtrip coinbase_def
      coinbase_unapply_def amount_sub_add_cancel account_delegation_def delegation_unapply_def
      failed_transaction_def failed_transaction_unapply_def)

section \<open>Time-locked balances\<close>

lemma vested_unat:
  fixes slot cliff period :: u32 and inc :: u64
  assumes "unat (slot - cliff) div unat period * unat inc < 2 ^ 64"
  shows "unat (ucast ((slot - cliff) div period) * inc) = unat (slot - cliff) div unat period * unat inc"
proof -
  have "unat ((slot - cliff) div period) < 2 ^ 64"
    using unsigned_less[of "(slot - cliff) div period", where ?'a = nat] by simp
  then have "unat (ucast ((slot - cliff) div period) :: u64) = unat (slot - cliff) div unat period"
    by (simp add: unsigned_ucast_eq take_bit_nat_eq_self unat_div_distrib)
  then show ?thesis using assms by (simp add: unat_mult_lem [THEN iffD1])
qed


section \<open>Properties of accounts\<close>

text \<open>
  C26: on an account whose zkapp data has the fixed array lengths, every well-formed diff for the
  account's key applies without a panic, keeps those lengths and leaves the account's key and token.
\<close>

theorem account_apply_preserves_wf:
  assumes "account_wf a" "diff_wf d" "diff_public_key d = acct_public_key a"
  shows "\<exists>a'. apply_account_diff d a = Inr a' \<and> account_wf a' \<and>
     acct_public_key a' = acct_public_key a \<and> acct_token a' = acct_token a"
  using assms by (rule apply_account_diff_total)

theorem account_apply_preserves_wf_witness:
  "\<exists>a'. apply_account_diff
       (ZkappStateDiff \<lparr>zt_token = ''t'', zt_public_key = ''k'', zs_proved_state = True,
          zs_diffs = [None, Some ''0x01'', None, None, None, None, None, None]\<rparr>)
       (account_empty ''k'' ''t'') = Inr a' \<and> account_wf a' \<and>
     acct_public_key a' = ''k'' \<and> acct_token a' = Some ''t''"
  using account_apply_preserves_wf[of "account_empty ''k'' ''t''"
      "ZkappStateDiff \<lparr>zt_token = ''t'', zt_public_key = ''k'', zs_proved_state = True,
          zs_diffs = [None, Some ''0x01'', None, None, None, None, None, None]\<rparr>"]
  by (simp add: account_wf_def account_empty_def account_default_def ZKAPP_STATE_FIELD_ELEMENTS_NUM_def)

text \<open>
  A zkapp state update writes exactly the positions it sets, starting from the account's zkapp
  data or from a fresh zkapp account, and touches nothing else of the account.
\<close>

lemma zkapp_state_writes:
  assumes "account_wf a" "length (zs_diffs d) = ZKAPP_STATE_FIELD_ELEMENTS_NUM"
  defines "z \<equiv> zkapp_or_new (zs_proved_state d) a"
  shows "\<exists>xs. zkapp_state d a =
      Inr (a\<lparr>acct_zkapp := Some (prove_if (zs_proved_state d) (z\<lparr>za_app_state := xs\<rparr>))\<rparr>) \<and>
    length xs = ZKAPP_STATE_FIELD_ELEMENTS_NUM \<and>
    (\<forall>i < ZKAPP_STATE_FIELD_ELEMENTS_NUM.
       xs ! i = (case zs_diffs d ! i of Some s \<Rightarrow> s | None \<Rightarrow> za_app_state z ! i))"
proof -
  have "zkapp_account_wf z" unfolding z_def using assms(1) by (rule zkapp_or_new_wf)
  then have len: "length (za_app_state z) = ZKAPP_STATE_FIELD_ELEMENTS_NUM"
    by (rule zkapp_account_wf_lengths)
  then have "0 + length (zs_diffs d) \<le> length (za_app_state z)" using assms(2) by simp
  from write_app_states_total[OF this] obtain xs where
    "fold_ok write_app_state (enumerate 0 (zs_diffs d)) (za_app_state z) = Inr xs"
    "length xs = length (za_app_state z)"
    "\<forall>i < length (za_app_state z). xs ! i =
        (if 0 \<le> i \<and> i < 0 + length (zs_diffs d)
         then (case zs_diffs d ! (i - 0) of Some s \<Rightarrow> s | None \<Rightarrow> za_app_state z ! i)
         else za_app_state z ! i)" by blast
  then show ?thesis
    using len assms(2) by (intro exI[of _ xs]) (simp add: zkapp_state_def Let_def z_def)
qed

theorem zkapp_state_writes_witness:
  "\<exists>xs a'. zkapp_state \<lparr>zt_token = ''t'', zt_public_key = ''k'', zs_proved_state = True,
          zs_diffs = [None, Some ''0x01'', None, None, None, None, None, None]\<rparr>
       (account_empty ''k'' ''t'') = Inr a' \<and> xs ! 1 = ''0x01'' \<and>
     map_option za_app_state (acct_zkapp a') = Some xs"
  using zkapp_state_writes[of "account_empty ''k'' ''t''"
      "\<lparr>zt_token = ''t'', zt_public_key = ''k'', zs_proved_state = True,
          zs_diffs = [None, Some ''0x01'', None, None, None, None, None, None]\<rparr>"]
  by (force simp: account_wf_def account_empty_def account_default_def
      ZKAPP_STATE_FIELD_ELEMENTS_NUM_def prove_if_def)

text \<open>
  C27: unapplying a payment, fee transfer, coinbase, delegation or failed-transaction diff right
  after applying it gives the account back, when no amount saturates, the account's nonce is the one
  before the diff's and, for a delegation, the account delegated to itself.
\<close>

theorem account_unapply_roundtrip:
  assumes "unapply_exact d a"
  shows "bind_ok (apply_account_diff d a) (unapply_account_diff d False) = Inr (Some a)"
  using assms by (rule unapply_apply)

theorem account_unapply_roundtrip_witness:
  "bind_ok
     (apply_account_diff (Payment \<lparr>pd_update_type = Debit (Some 4), pd_public_key = ''k'',
          pd_amount = 30, pd_token = ''t''\<rparr>)
        ((account_empty ''k'' ''t'')\<lparr>acct_balance := 100, acct_nonce := Some 3\<rparr>))
     (unapply_account_diff (Payment \<lparr>pd_update_type = Debit (Some 4), pd_public_key = ''k'',
          pd_amount = 30, pd_token = ''t''\<rparr>) False) =
   Inr (Some ((account_empty ''k'' ''t'')\<lparr>acct_balance := 100, acct_nonce := Some 3\<rparr>))"
  by (rule account_unapply_roundtrip)
    (simp add: unapply_exact_def nonce_sub_def sat_sub_def)

text \<open>
  Unapplying a delegation of an account that had delegated to someone else never gives the
  account back: the delegate is reset to the account's own key.
\<close>

lemma delegation_unapply_forgets:
  assumes "acct_public_key a = dd_delegator x" "acct_delegate a \<noteq> acct_public_key a"
  shows "\<exists>a'. bind_ok (apply_account_diff (Delegation x) a) (unapply_account_diff (Delegation x) False) =
      Inr (Some a') \<and> acct_delegate a' = acct_public_key a \<and> a' \<noteq> a"
  using assms
  by (auto simp: unapply_account_diff_def delegation_unapply_def account_delegation_def
      dest!: arg_cong[where f = acct_delegate])

theorem delegation_unapply_forgets_witness:
  "\<exists>a'. bind_ok
     (apply_account_diff (Delegation \<lparr>dd_nonce = 2, dd_delegator = ''k'', dd_delegate = ''n''\<rparr>)
        ((account_empty ''k'' ''t'')\<lparr>acct_delegate := ''m'', acct_nonce := Some 1\<rparr>))
     (unapply_account_diff (Delegation \<lparr>dd_nonce = 2, dd_delegator = ''k'', dd_delegate = ''n''\<rparr>) False) =
     Inr (Some a') \<and> acct_delegate a' = ''k''"
  using delegation_unapply_forgets[of
      "(account_empty ''k'' ''t'')\<lparr>acct_delegate := ''m'', acct_nonce := Some 1\<rparr>"
      "\<lparr>dd_nonce = 2, dd_delegator = ''k'', dd_delegate = ''n''\<rparr>"]
  by (auto simp: account_empty_def account_default_def)

text \<open>
  C28: the time-locked minimum balance never rises from one slot to a later one, when the vesting
  period is not zero and the vested amount fits 64 bits.
\<close>

theorem minimum_balance_antimono:
  assumes "acct_timing a = Some t" "vesting_period t \<noteq> 0" "s1 \<le> s2"
    and "unat (s2 - cliff_time t) div unat (vesting_period t) * unat (vesting_increment t) < 2 ^ 64"
  shows "\<exists>m1 m2. current_minimum_balance a s1 = Inr m1 \<and> current_minimum_balance a s2 = Inr m2 \<and> m2 \<le> m1"
proof (cases "cliff_time t \<le> s1")
  case True
  with assms(3) have le: "unat (s1 - cliff_time t) \<le> unat (s2 - cliff_time t)"
    by (simp add: unat_sub word_le_nat_alt)
  then have q: "unat (s1 - cliff_time t) div unat (vesting_period t) * unat (vesting_increment t)
      \<le> unat (s2 - cliff_time t) div unat (vesting_period t) * unat (vesting_increment t)"
    by (simp add: div_le_mono)
  with assms(4) have "unat (s1 - cliff_time t) div unat (vesting_period t) * unat (vesting_increment t) < 2 ^ 64"
    by (rule le_less_trans[rotated])
  from vested_unat[OF this] vested_unat[OF assms(4)] True assms(1-3) show ?thesis
    by (auto simp: current_minimum_balance_def word_le_nat_alt word_less_nat_alt unat_sat_sub
        intro: diff_le_mono2 q)
next
  case False
  then show ?thesis using assms(1,2)
    by (auto simp: current_minimum_balance_def word_le_nat_alt word_less_nat_alt unat_sat_sub)
qed

theorem minimum_balance_antimono_witness:
  "\<exists>m1 m2. current_minimum_balance ((account_empty ''k'' ''t'')\<lparr>acct_timing := Some
       \<lparr>cliff_time = 10, vesting_period = 2, cliff_amount = 0, vesting_increment = 5,
        initial_minimum_balance = 100\<rparr>\<rparr>) 12 = Inr m1 \<and>
     current_minimum_balance ((account_empty ''k'' ''t'')\<lparr>acct_timing := Some
       \<lparr>cliff_time = 10, vesting_period = 2, cliff_amount = 0, vesting_increment = 5,
        initial_minimum_balance = 100\<rparr>\<rparr>) 20 = Inr m2 \<and> m2 \<le> m1"
  by (rule minimum_balance_antimono[where t = "\<lparr>cliff_time = 10, vesting_period = 2,
        cliff_amount = 0, vesting_increment = 5, initial_minimum_balance = 100\<rparr>"]) simp_all

text \<open>
  The time-locked minimum balance panics exactly when the account has a timing with vesting
  period zero whose cliff has been reached, and then by a division by zero.
\<close>

lemma minimum_balance_panics:
  "current_minimum_balance a slot = Inl e \<longleftrightarrow>
     e = DivideByZero \<and> (\<exists>t. acct_timing a = Some t \<and> cliff_time t \<le> slot \<and> vesting_period t = 0)"
  by (auto simp: current_minimum_balance_def split: option.splits)

text \<open>
  The signed amount reported for a diff is what applying the diff adds to the balance, when a debit
  is covered by the balance.
\<close>

lemma diff_amount_is_balance_change:
  assumes "diff_amount d = Inr x" "covered d a" "apply_account_diff d a = Inr a'"
  shows "acct_balance a' = acct_balance a + x"
proof -
  have "balance_change d = x" using assms(1) by (cases d) auto
  with apply_account_diff_balance[OF assms(3,2)] show ?thesis by simp
qed

theorem diff_amount_is_balance_change_witness:
  "\<exists>x a'. diff_amount (FeeTransfer \<lparr>pd_update_type = Debit None, pd_public_key = ''k'',
          pd_amount = 30, pd_token = ''t''\<rparr>) = Inr x \<and>
     apply_account_diff (FeeTransfer \<lparr>pd_update_type = Debit None, pd_public_key = ''k'',
          pd_amount = 30, pd_token = ''t''\<rparr>)
        ((account_empty ''k'' ''t'')\<lparr>acct_balance := 100\<rparr>) = Inr a' \<and> acct_balance a' = 100 + x"
  using diff_amount_is_balance_change[of "FeeTransfer \<lparr>pd_update_type = Debit None,
      pd_public_key = ''k'', pd_amount = 30, pd_token = ''t''\<rparr>" _
      "(account_empty ''k'' ''t'')\<lparr>acct_balance := 100\<rparr>"] by simp

end
