(* ===== verification/Coinbases.thy ===== *)
theory Coinbases
  imports Account_Diffs
begin

text \<open>
  Coinbases (\<open>ledger/coinbase.rs\<close>) and the fee diffs of a block (\<open>AccountDiff::from_coinbase\<close> and
  the fee functions of \<open>ledger/diff/account.rs\<close>).  Fees are accumulated per key in a \<open>HashMap\<close>; it is
  an association list in insertion order, and the unspecified order in which it is iterated is an
  argument: \<open>order i\<close> permutes the entries of the \<open>i\<close>-th fee map of a block (0 and 1 the user
  commands before and after the split, 2 the SNARK work).
\<close>

section \<open>Coinbase\<close>

record coinbase_record =
  cb_kind :: coinbase_kind
  cb_receiver :: public_key
  cb_supercharge :: bool
  cb_is_new_account :: bool
  cb_receiver_balance :: "u64 option"

text \<open>
  The derived \<open>Ord\<close> of \<open>CoinbaseKind\<close>: by constructor, then by the arguments, \<open>None\<close> first, fee
  transfers by key and then by fee.
\<close>

definition fee_transfer_key :: "coinbase_fee_transfer \<Rightarrow> public_key \<times> u64" where
  "fee_transfer_key t = (cft_receiver_pk t, cft_fee t)"

fun coinbase_kind_key ::
    "coinbase_kind \<Rightarrow> nat \<times> (public_key \<times> u64) option \<times> (public_key \<times> u64) option" where
  "coinbase_kind_key CbZero = (0, None, None)"
| "coinbase_kind_key (CbOne t) = (1, map_option fee_transfer_key t, None)"
| "coinbase_kind_key (CbTwo s t) = (2, map_option fee_transfer_key s, map_option fee_transfer_key t)"

text \<open>\<open>Iterator::max\<close> keeps the last of several maximal elements.\<close>

fun max_kind :: "coinbase_kind list \<Rightarrow> coinbase_kind option" where
  "max_kind [] = None"
| "max_kind (k # ks) =
     Some (fold (\<lambda>x best. if coinbase_kind_key best \<le> coinbase_kind_key x then x else best) ks k)"

definition coinbase_kinds :: "precomputed_block \<Rightarrow> coinbase_kind list run" where
  "coinbase_kinds b =
     bind_ok (pre_diff_coinbase b) (\<lambda>pre.
       map_ok (\<lambda>post. pre # (case post of Some k \<Rightarrow> [k] | None \<Rightarrow> [])) (post_diff_coinbase b))"

definition coinbase_amount :: "coinbase_record \<Rightarrow> u64" where
  "coinbase_amount c =
     (if cb_supercharge c then 2 * MAINNET_COINBASE_REWARD else MAINNET_COINBASE_REWARD)"

definition coinbase_from_precomputed ::
    "(string \<Rightarrow> amount option) \<Rightarrow> precomputed_block \<Rightarrow> coinbase_record run" where
  "coinbase_from_precomputed parse_amount b =
     bind_ok (coinbase_kinds b) (\<lambda>kinds.
     bind_ok (unwrap (max_kind kinds)) (\<lambda>kind.
     map_ok (\<lambda>created.
       \<lparr>cb_kind = kind, cb_receiver = coinbase_receiver b,
        cb_supercharge = supercharge_coinbase b, cb_is_new_account = snd created \<noteq> None,
        cb_receiver_balance = coinbase_receiver_balance b\<rparr>)
       (accounts_created parse_amount b)))"

definition get_transfers :: "coinbase_record \<Rightarrow> coinbase_fee_transfer list" where
  "get_transfers c =
     (let transfers =
        (case cb_kind c of
           CbZero \<Rightarrow> []
         | CbOne t \<Rightarrow> [t]
         | CbTwo s t \<Rightarrow> [s, t])
      in concat (map (\<lambda>t. case t of Some x \<Rightarrow> [x] | None \<Rightarrow> []) transfers))"

definition create_payment_diffs :: "coinbase_record \<Rightarrow> coinbase_fee_transfer \<Rightarrow> payment_diff list" where
  "create_payment_diffs c t =
     [\<lparr>pd_update_type = Credit, pd_public_key = cft_receiver_pk t, pd_amount = cft_fee t,
       pd_token = token_address_default\<rparr>,
      \<lparr>pd_update_type = Debit None, pd_public_key = cb_receiver c, pd_amount = cft_fee t,
       pd_token = token_address_default\<rparr>]"

definition fee_transfer :: "coinbase_record \<Rightarrow> payment_diff list list" where
  "fee_transfer c = map (create_payment_diffs c) (get_transfers c)"

definition is_coinbase_applied :: "coinbase_record \<Rightarrow> bool" where
  "is_coinbase_applied c \<longleftrightarrow> cb_kind c \<noteq> CbZero"

definition has_fee_transfer :: "coinbase_record \<Rightarrow> bool" where
  "has_fee_transfer c \<longleftrightarrow> get_transfers c \<noteq> []"

text \<open>
  The first pair of fee transfers equal to the first transfer of the coinbase is relabelled.  The
  closure indexes \<open>fee_transfer[0]\<close>, so it panics on a coinbase without transfers as soon as it meets
  a pair of fee transfers; the callers test \<open>has_fee_transfer\<close> first.
\<close>

fun account_diffs_coinbase_mut ::
    "payment_diff list list \<Rightarrow> account_diff list list \<Rightarrow> account_diff list list run" where
  "account_diffs_coinbase_mut transfers [] = Inr []"
| "account_diffs_coinbase_mut transfers (pair # rest) =
     (case pair of
        [FeeTransfer c, FeeTransfer d] \<Rightarrow>
          bind_ok (index_ok transfers 0) (\<lambda>t.
          bind_ok (index_ok t 0) (\<lambda>t0.
          if t0 \<noteq> c then map_ok ((#) pair) (account_diffs_coinbase_mut transfers rest)
          else bind_ok (index_ok t 1) (\<lambda>t1.
            if t1 \<noteq> d then map_ok ((#) pair) (account_diffs_coinbase_mut transfers rest)
            else Inr ([FeeTransferViaCoinbase t0, FeeTransferViaCoinbase t1] # rest))))
      | _ \<Rightarrow> map_ok ((#) pair) (account_diffs_coinbase_mut transfers rest))"

definition from_coinbase :: "coinbase_record \<Rightarrow> account_diff list list" where
  "from_coinbase c =
     [CoinbaseD \<lparr>cd_public_key = cb_receiver c, cd_amount = coinbase_amount c\<rparr>] #
     map (map FeeTransferViaCoinbase) (fee_transfer c)"

definition as_account_diff :: "coinbase_record \<Rightarrow> account_diff list list" where
  "as_account_diff c = (if is_coinbase_applied c then from_coinbase c else [])"

section \<open>Active public keys\<close>

definition active_public_keys ::
    "(string \<Rightarrow> amount option) \<Rightarrow> precomputed_block \<Rightarrow> public_key list run" where
  "active_public_keys parse_amount b =
     bind_ok (coinbase_from_precomputed parse_amount b) (\<lambda>cb.
     map_ok (\<lambda>cmds.
       sorted_list_of_set
         (fold (\<lambda>cmd keys. keys \<union> command_keys cmd) (filter uc_is_applied cmds)
           ({block_creator b, block_stake_winner b} \<union>
            (if is_coinbase_applied cb then {coinbase_receiver b} else {}))))
       (commands b))"

section \<open>Fees\<close>

type_synonym fee_map = "(public_key \<times> u64) list"
type_synonym hash_order = "nat \<Rightarrow> fee_map \<Rightarrow> fee_map"

text \<open>\<open>entry(pk).and_modify(|acc| *acc += fee).or_insert(fee)\<close>.\<close>

fun fee_entry :: "public_key \<Rightarrow> u64 \<Rightarrow> fee_map \<Rightarrow> fee_map" where
  "fee_entry pk fee [] = [(pk, fee)]"
| "fee_entry pk fee ((k, acc) # m) =
     (if k = pk then (k, acc + fee) # m else (k, acc) # fee_entry pk fee m)"

definition fee_map_of :: "(public_key \<times> u64) list \<Rightarrow> fee_map" where
  "fee_map_of fees = fold (\<lambda>(pk, fee) m. fee_entry pk fee m) fees []"

definition transaction_fees ::
    "(fee_map \<Rightarrow> fee_map) \<Rightarrow> public_key \<Rightarrow> user_command_with_status list \<Rightarrow> account_diff list list" where
  "transaction_fees iter receiver cmds =
     concat (map (\<lambda>(pk, fee).
        if 0 < fee then [transfer_pair FeeTransfer pk receiver fee None] else [])
       (iter (fee_map_of (map (\<lambda>c. (uc_fee_payer_pk c, uc_fee c)) cmds))))"

definition from_transaction_fees :: "hash_order \<Rightarrow> precomputed_block \<Rightarrow> account_diff list list run" where
  "from_transaction_fees order b =
     bind_ok (commands_pre_diff b) (\<lambda>pre.
     map_ok (\<lambda>post. transaction_fees (order 0) (coinbase_receiver b) pre @
                     transaction_fees (order 1) (coinbase_receiver b) post)
       (commands_post_diff b))"

definition from_snark_fees :: "hash_order \<Rightarrow> precomputed_block \<Rightarrow> account_diff list list run" where
  "from_snark_fees order b =
     map_ok (\<lambda>works.
       concat (map (\<lambda>(prover, total_fee).
          if 0 < total_fee
          then [transfer_pair FeeTransfer (coinbase_receiver b) prover total_fee None] else [])
         (order 2 (fee_map_of (map (\<lambda>w. (cw_prover w, cw_fee w)) works)))))
       (completed_works b)"

definition from_block_fees :: "hash_order \<Rightarrow> precomputed_block \<Rightarrow> account_diff list list run" where
  "from_block_fees order b =
     bind_ok (from_transaction_fees order b) (\<lambda>fees.
       map_ok (\<lambda>snarks. fees @ snarks) (from_snark_fees order b))"

section \<open>Fee maps\<close>

lemma fee_entry_keys: "fst ` set (fee_entry pk fee m) = insert pk (fst ` set m)"
proof (induction m)
  case (Cons x m)
  then show ?case by (cases x; cases "fst x = pk") (simp_all add: insert_commute)
qed simp

lemma fee_entry_distinct: "distinct (map fst m) \<Longrightarrow> distinct (map fst (fee_entry pk fee m))"
proof (induction m)
  case (Cons x m)
  have "fst ` set (fee_entry pk fee m) = insert pk (fst ` set m)" by (rule fee_entry_keys)
  with Cons show ?case by (cases x) auto
qed simp

lemma fee_entry_sum: "sum_list (map snd (fee_entry pk fee m)) = sum_list (map snd m) + fee"
  by (induction m) (auto simp: algebra_simps)

lemma fee_entry_lookup:
  "map_of (fee_entry pk fee m) k =
     (if k = pk then Some (unwrap_or (map_of m k) 0 + fee) else map_of m k)"
  by (induction m) auto

lemma fee_map_of_snoc: "fee_map_of (fees @ [(pk, fee)]) = fee_entry pk fee (fee_map_of fees)"
  by (simp add: fee_map_of_def)

lemma fee_map_of_distinct: "distinct (map fst (fee_map_of fees))"
proof (induction fees rule: rev_induct)
  case (snoc x fees)
  then show ?case by (cases x) (simp add: fee_map_of_snoc fee_entry_distinct)
qed (simp add: fee_map_of_def)

lemma fee_map_of_sum: "sum_list (map snd (fee_map_of fees)) = sum_list (map snd fees)"
proof (induction fees rule: rev_induct)
  case (snoc x fees)
  then show ?case by (cases x) (simp add: fee_map_of_snoc fee_entry_sum)
qed (simp add: fee_map_of_def)

section \<open>Fee diffs\<close>

definition fee_pair :: "account_diff list \<Rightarrow> bool" where
  "fee_pair p \<longleftrightarrow> (\<exists>s r a. p = transfer_pair FeeTransfer s r a None)"

definition via_pair :: "account_diff list \<Rightarrow> bool" where
  "via_pair p \<longleftrightarrow> (\<exists>s r a. p = transfer_pair FeeTransferViaCoinbase s r a None)"

definition credited :: "account_diff list list \<Rightarrow> u64" where
  "credited dss =
     sum_list (map (\<lambda>d. case d of FeeTransfer p \<Rightarrow> (if pd_update_type p = Credit then pd_amount p else 0)
                      | _ \<Rightarrow> 0) (concat dss))"

definition order_ok :: "hash_order \<Rightarrow> bool" where
  "order_ok order \<longleftrightarrow> (\<forall>i m. mset (order i m) = mset m)"

definition fee_transfers :: "(public_key \<Rightarrow> u64 \<Rightarrow> account_diff list) \<Rightarrow> fee_map \<Rightarrow> account_diff list list" where
  "fee_transfers mk m = concat (map (\<lambda>(pk, fee). if 0 < fee then [mk pk fee] else []) m)"

lemma transaction_fees_alt:
  "transaction_fees iter receiver cmds =
     fee_transfers (\<lambda>pk fee. transfer_pair FeeTransfer pk receiver fee None)
       (iter (fee_map_of (map (\<lambda>c. (uc_fee_payer_pk c, uc_fee c)) cmds)))"
  by (simp add: transaction_fees_def fee_transfers_def)

lemma from_snark_fees_alt:
  "from_snark_fees order b =
     map_ok (\<lambda>works. fee_transfers
         (\<lambda>prover fee. transfer_pair FeeTransfer (coinbase_receiver b) prover fee None)
         (order 2 (fee_map_of (map (\<lambda>w. (cw_prover w, cw_fee w)) works))))
       (completed_works b)"
  by (simp add: from_snark_fees_def fee_transfers_def)

lemma fee_transfers_mset: "mset m = mset m' \<Longrightarrow> mset (fee_transfers mk m) = mset (fee_transfers mk m')"
proof -
  have "mset (fee_transfers mk m) =
      sum_mset (image_mset (\<lambda>(pk, fee). if 0 < fee then {#mk pk fee#} else {#}) (mset m))" for m
    by (induction m) (auto simp: fee_transfers_def)
  then show "mset m = mset m' \<Longrightarrow> ?thesis" by simp
qed

lemma fee_transfers_pairs:
  "p \<in> set (fee_transfers (\<lambda>pk fee. transfer_pair FeeTransfer (s pk) (r pk) fee None) m) \<Longrightarrow> fee_pair p"
  by (auto simp: fee_transfers_def fee_pair_def split: if_splits)

lemma credited_append [simp]: "credited (xs @ ys) = credited xs + credited ys"
  by (simp add: credited_def)

lemma credited_fee_transfers:
  "credited (fee_transfers (\<lambda>pk fee. transfer_pair FeeTransfer (s pk) (r pk) fee None) m) =
     sum_list (map snd m)"
proof (induction m)
  case (Cons x m)
  then show ?case
    by (cases x) (auto simp: fee_transfers_def credited_def transfer_pair_def word_gt_0)
qed (simp add: fee_transfers_def credited_def)

lemma from_block_fees_pairs:
  assumes "from_block_fees order b = Inr fees" "p \<in> set fees"
  shows "fee_pair p"
  using assms
  by (auto simp: from_block_fees_def from_transaction_fees_def from_snark_fees_alt
      transaction_fees_alt run_simps dest: fee_transfers_pairs)

lemma block_fees_credited:
  assumes "order_ok order" "from_block_fees order b = Inr fees"
  shows "\<exists>tx snark. tx_fees b = Inr tx \<and> snark_fees b = Inr snark \<and> credited fees = tx + snark"
proof -
  have iter: "sum_list (map snd (order i m)) = sum_list (map snd m)" for i m
    using assms(1) by (intro sum_list_mset_eq) (simp add: order_ok_def)
  show ?thesis using assms(2)
    by (auto simp: from_block_fees_def from_transaction_fees_def from_snark_fees_alt
        transaction_fees_alt run_simps tx_fees_def snark_fees_def commands_def
        credited_fee_transfers iter fee_map_of_sum comp_def)
qed

lemma account_diffs_coinbase_mut_pairs:
  assumes "account_diffs_coinbase_mut ts fees = Inr fees'" "\<forall>p\<in>set fees. fee_pair p"
  shows "\<forall>p\<in>set fees'. fee_pair p \<or> via_pair p"
  using assms
proof (induction fees arbitrary: fees')
  case (Cons p fees)
  from Cons.prems(2) obtain s r a where p: "p = transfer_pair FeeTransfer s r a None"
    by (auto simp: fee_pair_def)
  have "via_pair [FeeTransferViaCoinbase \<lparr>pd_update_type = Credit, pd_public_key = r, pd_amount = a,
      pd_token = token_address_default\<rparr>, FeeTransferViaCoinbase \<lparr>pd_update_type = Debit None,
      pd_public_key = s, pd_amount = a, pd_token = token_address_default\<rparr>]"
    by (auto simp: via_pair_def transfer_pair_def)
  with Cons p show ?case
    by (auto simp: transfer_pair_def run_simps split: if_splits)
qed simp

lemma account_diffs_coinbase_mut_total:
  assumes "ts = t # ts'" "length t = 2"
  shows "\<exists>fees'. account_diffs_coinbase_mut ts fees = Inr fees'"
  using assms
  by (induction fees) (auto simp: index_ok_def split: list.splits account_diff.splits)

section \<open>Properties of fees\<close>

lemma example_fees:
  "from_block_fees (\<lambda>_ m. m) example_block =
     Inr [transfer_pair FeeTransfer ''alice'' ''carol'' 10 None,
          transfer_pair FeeTransfer ''carol'' ''dave'' 4 None]"
  "from_block_fees (\<lambda>_. rev) example_block =
     Inr [transfer_pair FeeTransfer ''alice'' ''carol'' 10 None,
          transfer_pair FeeTransfer ''carol'' ''dave'' 4 None]"
  by (simp_all add: from_block_fees_def from_transaction_fees_def from_snark_fees_def
      transaction_fees_def fee_map_of_def)

text \<open>
  C21: the fee transfers of a block credit exactly the block's transaction fees plus its snark fees,
  whatever order the hash maps are walked in.
\<close>

theorem block_fees_are_credited:
  assumes "order_ok order" "from_block_fees order b = Inr fees"
  shows "\<exists>tx snark. tx_fees b = Inr tx \<and> snark_fees b = Inr snark \<and> credited fees = tx + snark"
  using assms by (rule block_fees_credited)

theorem block_fees_are_credited_witness:
  "\<exists>tx snark. tx_fees example_block = Inr tx \<and> snark_fees example_block = Inr snark \<and>
     credited [transfer_pair FeeTransfer ''alice'' ''carol'' 10 None,
       transfer_pair FeeTransfer ''carol'' ''dave'' 4 None] = tx + snark"
  by (rule block_fees_are_credited[OF _ example_fees(1)]) (simp add: order_ok_def)

text \<open>
  The fee transfers of a block are the same up to order for every iteration order of the hash
  maps they are collected in.
\<close>

lemma block_fees_order_independent:
  assumes "order_ok o1" "order_ok o2"
    "from_block_fees o1 b = Inr f1" "from_block_fees o2 b = Inr f2"
  shows "mset f1 = mset f2"
  using assms
  by (auto simp: from_block_fees_def from_transaction_fees_def from_snark_fees_alt
      transaction_fees_alt run_simps order_ok_def intro!: arg_cong2[where f = "(+)"] fee_transfers_mset)

text \<open>
  The map a list of fees is collected in holds, for each key, the sum of that key's fees, and no
  entry for any other key.
\<close>

lemma fee_map_of_lookup:
  "map_of (fee_map_of fees) pk =
     (if pk \<in> fst ` set fees
      then Some (sum_list (map snd (filter (\<lambda>e. fst e = pk) fees))) else None)"
proof (induction fees rule: rev_induct)
  case (snoc x fees)
  have "sum_list (map snd (filter (\<lambda>e. fst e = pk) fees)) = 0" if "pk \<notin> fst ` set fees"
    using that by (subst filter_False) auto
  with snoc show ?case by (cases x) (auto simp: fee_map_of_snoc fee_entry_lookup)
qed (simp add: fee_map_of_def)

end
