(* ===== verification/Ledger_Diffs.thy ===== *)
theory Ledger_Diffs
  imports Coinbases
begin

text \<open>
  Ledger diffs (\<open>ledger/diff/mod.rs\<close>): the diff a block makes to the ledger, and appending diffs.
\<close>

record ledger_diff =
  ld_blockchain_length :: u32
  ld_state_hash :: state_hash
  ld_staged_ledger_hash :: ledger_hash
  ld_new_coinbase_receiver :: "public_key option"
  ld_public_keys_seen :: "public_key list"
  ld_new_pk_balances :: pk_balances
  ld_account_diffs :: "account_diff list list"

definition command_diffs :: "user_command_with_status \<Rightarrow> account_diff list list run" where
  "command_diffs cmd =
     (if uc_is_applied cmd then from_command (to_command cmd)
      else Inr [[FailedTransactionNonce
             \<lparr>fd_public_key = uc_sender cmd, fd_nonce = nonce_add (uc_nonce cmd) 1\<rparr>]])"

definition from_precomputed_unexpanded ::
    "(string \<Rightarrow> amount option) \<Rightarrow> hash_order \<Rightarrow> precomputed_block \<Rightarrow> ledger_diff run" where
  "from_precomputed_unexpanded parse_amount order b =
     bind_ok (from_block_fees order b) (\<lambda>fees.
     bind_ok (commands b) (\<lambda>cmds.
     bind_ok (traverse_ok command_diffs cmds) (\<lambda>txns.
     bind_ok (coinbase_from_precomputed parse_amount b) (\<lambda>cb.
     bind_ok (if has_fee_transfer cb then account_diffs_coinbase_mut (fee_transfer cb) fees
              else Inr fees) (\<lambda>fees'.
     bind_ok (if is_coinbase_applied cb then map_ok (\<lambda>d. [d]) (index_ok (as_account_diff cb) 0)
              else Inr []) (\<lambda>coinbase_diffs.
     bind_ok (accounts_created parse_amount b) (\<lambda>created.
     bind_ok (active_public_keys parse_amount b) (\<lambda>keys.
     Inr \<lparr>ld_blockchain_length = blockchain_length b,
          ld_state_hash = state_hash_of b,
          ld_staged_ledger_hash = staged_ledger_hash b,
          ld_new_coinbase_receiver = snd created,
          ld_public_keys_seen = keys,
          ld_new_pk_balances = fst created,
          ld_account_diffs = concat txns @ coinbase_diffs @ fees'\<rparr>))))))))"

text \<open>
  The account creation fees of the token accounts that a zkapp diff touches.  \<open>collect()\<close> into a
  map keeps the last fee of a key; sorting the fee diffs sorts their distinct (key, token) pairs.
\<close>

fun zkapp_token_account :: "account_diff \<Rightarrow> (public_key \<times> token_address) option" where
  "zkapp_token_account (Payment _) = None"
| "zkapp_token_account (Delegation _) = None"
| "zkapp_token_account (CoinbaseD _) = None"
| "zkapp_token_account (FeeTransfer _) = None"
| "zkapp_token_account (FeeTransferViaCoinbase _) = None"
| "zkapp_token_account (FailedTransactionNonce _) = None"
| "zkapp_token_account d = Some (diff_public_key d, diff_token_address d)"

definition zkapp_creation_fees ::
    "account_created list \<Rightarrow> account_diff list list \<Rightarrow> account_diff list run" where
  "zkapp_creation_fees created diffs =
     (let entries = map (\<lambda>a. ((ac_public_key a, ac_token a), ac_creation_fee a)) created;
          zkapp_accounts = {k. Some k \<in> zkapp_token_account ` set (concat diffs)};
          keys = sorted_list_of_set (set (map fst entries) \<inter> zkapp_accounts)
      in traverse_ok (\<lambda>k.
           map_ok (\<lambda>fee. ZkappAccountCreationFee
                     \<lparr>zcf_public_key = fst k, zcf_token = snd k, zcf_amount = fee\<rparr>)
             (unwrap (map_of (rev entries) k))) keys)"

definition from_precomputed ::
    "(string \<Rightarrow> amount option) \<Rightarrow> hash_order \<Rightarrow> precomputed_block \<Rightarrow> ledger_diff run" where
  "from_precomputed parse_amount order b =
     bind_ok (from_precomputed_unexpanded parse_amount order b) (\<lambda>unexpanded.
     bind_ok (accounts_created_v2 parse_amount b) (\<lambda>created.
     let account_diffs = expand (ld_account_diffs unexpanded) in
     map_ok (\<lambda>fees.
       unexpanded\<lparr>ld_account_diffs := (if fees \<noteq> [] then fees # account_diffs else account_diffs)\<rparr>)
       (zkapp_creation_fees created account_diffs)))"

definition ledger_diff_default :: ledger_diff where
  "ledger_diff_default = \<lparr>
     ld_blockchain_length = 0, ld_state_hash = state_hash_default,
     ld_staged_ledger_hash = ledger_hash_default,
     ld_new_coinbase_receiver = None, ld_public_keys_seen = [],
     ld_new_pk_balances = Map.empty, ld_account_diffs = []\<rparr>"

definition ledger_diff_append :: "ledger_diff \<Rightarrow> ledger_diff \<Rightarrow> ledger_diff" where
  "ledger_diff_append self other = \<lparr>
     ld_blockchain_length = ld_blockchain_length other,
     ld_state_hash = ld_state_hash other,
     ld_staged_ledger_hash = ld_staged_ledger_hash other,
     ld_new_coinbase_receiver = ld_new_coinbase_receiver other,
     ld_public_keys_seen =
       fold (\<lambda>pk seen. if pk \<in> set seen then seen else seen @ [pk])
         (ld_public_keys_seen other) (ld_public_keys_seen self),
     ld_new_pk_balances = ld_new_pk_balances self ++ ld_new_pk_balances other,
     ld_account_diffs = ld_account_diffs self @ ld_account_diffs other\<rparr>"

definition ledger_diff_append_vec :: "ledger_diff list \<Rightarrow> ledger_diff" where
  "ledger_diff_append_vec diffs =
     fold (\<lambda>diff acc. ledger_diff_append acc diff) diffs ledger_diff_default"

definition ledger_diffs_from ::
    "(public_key \<times> public_key \<times> account_diff_type \<times> u64) list \<Rightarrow> account_diff list list" where
  "ledger_diffs_from value =
     concat (map (\<lambda>(s, r, t, a). account_diffs_from s r t a) value)"

end
