(* ===== verification/Keyed_Stores.thy ===== *)
theory Keyed_Stores
  imports Mina_Prelude
begin

text \<open>
  The contract between a ledger and its accounts.  A \<open>keyed_store\<close> applies a diff by reading the
  account at the diff's key (a fresh one if there is none), changing that account alone and writing
  it back; the client lemmas say that a sequence of diffs acts on each key through the subsequence of
  its own diffs, and when such a run succeeds.  A \<open>totalled_store\<close> also has balances; its lemmas give
  the change of the total over any set of keys.  Ledgers and token ledgers are instances.
\<close>

text \<open>\<open>P\<close> holds before every step of the run.\<close>

fun along :: "('d \<Rightarrow> 's \<Rightarrow> bool) \<Rightarrow> ('d \<Rightarrow> 's \<Rightarrow> 'e + 's) \<Rightarrow> 'd list \<Rightarrow> 's \<Rightarrow> bool" where
  "along P step [] s = True"
| "along P step (d # ds) s =
     (P d s \<and> (case step d s of Inl _ \<Rightarrow> True | Inr s' \<Rightarrow> along P step ds s'))"

locale keyed_store =
  fixes key :: "'d \<Rightarrow> 'k"
    and fresh :: "'d \<Rightarrow> 'a"
    and app :: "'d \<Rightarrow> 'a \<Rightarrow> 'e + 'a"
    and get :: "'s \<Rightarrow> 'k \<Rightarrow> 'a option"
    and inv :: "'s \<Rightarrow> bool"
    and step :: "'d \<Rightarrow> 's \<Rightarrow> 'e + 's"
  assumes step_ok: "inv s \<Longrightarrow> app d (unwrap_or (get s (key d)) (fresh d)) = Inr a \<Longrightarrow>
      \<exists>s'. step d s = Inr s' \<and> inv s' \<and> get s' = (get s)(key d \<mapsto> a)"
    and step_err: "inv s \<Longrightarrow> app d (unwrap_or (get s (key d)) (fresh d)) = Inl e \<Longrightarrow>
      step d s = Inl e"
begin

lemma step_cases:
  assumes "inv s" "step d s = Inr s'"
  obtains a where "app d (unwrap_or (get s (key d)) (fresh d)) = Inr a" "inv s'"
    "get s' = (get s)(key d \<mapsto> a)"
  using assms step_ok[of s d] step_err[of s d]
  by (cases "app d (unwrap_or (get s (key d)) (fresh d))") (auto simp: fun_eq_iff)

lemma fold_inv: "inv s \<Longrightarrow> fold_ok step ds s = Inr s' \<Longrightarrow> inv s'"
  by (erule fold_ok_invariant[where P = inv]) (auto elim: step_cases)

lemma fold_get:
  assumes "inv s" "fold_ok step ds s = Inr s'"
  shows "case filter (\<lambda>d. key d = k) ds of
      [] \<Rightarrow> get s' k = get s k
    | d # dks \<Rightarrow> \<exists>a. fold_ok app (d # dks) (unwrap_or (get s k) (fresh d)) = Inr a \<and> get s' k = Some a"
  using assms
proof (induction ds arbitrary: s)
  case (Cons d ds)
  from Cons.prems(2) obtain t where t: "step d s = Inr t" "fold_ok step ds t = Inr s'"
    by (auto simp: run_simps)
  from Cons.prems(1) t(1) obtain a where a:
      "app d (unwrap_or (get s (key d)) (fresh d)) = Inr a" "inv t" "get t = (get s)(key d \<mapsto> a)"
    by (rule step_cases)
  from Cons.IH[OF a(2) t(2)] a show ?case by (auto split: list.splits)
qed simp

lemma fold_total:
  assumes "inv s"
    and "\<And>d dks k. filter (\<lambda>d. key d = k) ds = d # dks \<Longrightarrow>
      \<exists>a. fold_ok app (d # dks) (unwrap_or (get s k) (fresh d)) = Inr a"
  shows "\<exists>s'. fold_ok step ds s = Inr s'"
  using assms
proof (induction ds arbitrary: s)
  case (Cons d ds)
  have "filter (\<lambda>x. key x = key d) (d # ds) = d # filter (\<lambda>x. key x = key d) ds" by simp
  from Cons.prems(2)[OF this] obtain a where a: "app d (unwrap_or (get s (key d)) (fresh d)) = Inr a"
      "\<exists>b. fold_ok app (filter (\<lambda>x. key x = key d) ds) a = Inr b"
    by (auto simp: run_simps)
  from step_ok[OF Cons.prems(1) a(1)] obtain t where t: "step d s = Inr t" "inv t"
      "get t = (get s)(key d \<mapsto> a)" by blast
  have "\<exists>s'. fold_ok step ds t = Inr s'"
  proof (rule Cons.IH[OF t(2)])
    fix d' dks k assume f: "filter (\<lambda>d. key d = k) ds = d' # dks"
    show "\<exists>a. fold_ok app (d' # dks) (unwrap_or (get t k) (fresh d')) = Inr a"
    proof (cases "k = key d")
      case True
      with a(2) f t(3) show ?thesis by simp
    next
      case False
      with Cons.prems(2)[of k d' dks] f t(3) show ?thesis by simp
    qed
  qed
  with t(1) show ?case by simp
qed simp

lemma fold_other_get:
  assumes "inv s" "fold_ok step ds s = Inr s'" "k \<notin> key ` set ds"
  shows "get s' k = get s k"
proof -
  have "filter (\<lambda>d. key d = k) ds = []" using assms(3) by (auto simp: filter_empty_conv)
  with fold_get[OF assms(1,2), of k] show ?thesis by simp
qed

lemma fold_distinct_get:
  assumes "inv s" "fold_ok step ds s = Inr s'" "distinct (map key ds)" "d \<in> set ds"
  shows "\<exists>a. app d (unwrap_or (get s (key d)) (fresh d)) = Inr a \<and> get s' (key d) = Some a"
  using fold_get[OF assms(1,2), of "key d"] filter_distinct_key[OF assms(3,4)]
  by (simp add: fold_ok_single del: fold_ok.simps(2))

lemma fold_distinct_total:
  assumes "inv s" "distinct (map key ds)"
    and "\<And>d. d \<in> set ds \<Longrightarrow> \<exists>a. app d (unwrap_or (get s (key d)) (fresh d)) = Inr a"
  shows "\<exists>s'. fold_ok step ds s = Inr s'"
proof (rule fold_total[OF assms(1)])
  fix d dks k assume f: "filter (\<lambda>d. key d = k) ds = d # dks"
  then have "d \<in> set (filter (\<lambda>d. key d = k) ds)" by simp
  then have d: "d \<in> set ds" "key d = k" by auto
  from filter_distinct_key[OF assms(2) d(1)] f d(2) have "dks = []" by simp
  with assms(3)[OF d(1)] d(2) show "\<exists>a. fold_ok app (d # dks) (unwrap_or (get s k) (fresh d)) = Inr a"
    by (simp add: fold_ok_single del: fold_ok.simps(2))
qed

end

locale totalled_store = keyed_store key fresh app get inv step
  for key :: "'d \<Rightarrow> 'k" and fresh :: "'d \<Rightarrow> 'a" and app :: "'d \<Rightarrow> 'a \<Rightarrow> 'e + 'a"
    and get :: "'s \<Rightarrow> 'k \<Rightarrow> 'a option" and inv :: "'s \<Rightarrow> bool" and step :: "'d \<Rightarrow> 's \<Rightarrow> 'e + 's" +
  fixes bal :: "'a \<Rightarrow> 'w::ab_group_add"
    and delta :: "'d \<Rightarrow> 'w"
    and cov :: "'d \<Rightarrow> 'a \<Rightarrow> bool"
  assumes app_bal: "app d a = Inr a' \<Longrightarrow> cov d a \<Longrightarrow> bal a' = bal a + delta d"
    and fresh_bal: "bal (fresh d) = 0"
    and finite_keys: "inv s \<Longrightarrow> finite (dom (get s))"
begin

lemma total_step:
  assumes "inv s" "step d s = Inr s'" "cov d (unwrap_or (get s (key d)) (fresh d))"
  shows "(\<Sum>k\<in>{k\<in>dom (get s'). P k}. bal (the (get s' k))) =
    (\<Sum>k\<in>{k\<in>dom (get s). P k}. bal (the (get s k))) + (if P (key d) then delta d else 0)"
proof -
  from assms(1,2) obtain a where a: "app d (unwrap_or (get s (key d)) (fresh d)) = Inr a"
    "get s' = (get s)(key d \<mapsto> a)" by (rule step_cases)
  have bal: "bal a = bal (unwrap_or (get s (key d)) (fresh d)) + delta d"
    using a(1) assms(3) by (rule app_bal)
  let ?D = "{k\<in>dom (get s). P k}" and ?k = "key d"
  have fin: "finite ?D" using finite_keys[OF assms(1)] by simp
  have dom: "{k\<in>dom (get s'). P k} = (if P ?k then insert ?k ?D else ?D)"
    using a(2) by auto
  have rest: "(\<Sum>k\<in>?D - {?k}. bal (the (get s' k))) = (\<Sum>k\<in>?D - {?k}. bal (the (get s k)))"
    by (rule sum.cong) (auto simp: a(2))
  show ?thesis
  proof (cases "P ?k")
    case False
    then have "?k \<notin> ?D" by simp
    with False rest dom show ?thesis by simp
  next
    case True
    have "(\<Sum>k\<in>?D. bal (the (get s k))) =
        bal (unwrap_or (get s ?k) (fresh d)) + (\<Sum>k\<in>?D - {?k}. bal (the (get s k)))"
    proof (cases "get s ?k")
      case None
      then show ?thesis by (simp add: fresh_bal domIff)
    next
      case (Some x)
      with True have "?k \<in> ?D" by auto
      then show ?thesis using Some fin by (simp add: sum.remove)
    qed
    moreover have "(\<Sum>k\<in>insert ?k ?D. bal (the (get s' k))) =
        bal a + (\<Sum>k\<in>?D - {?k}. bal (the (get s' k)))"
      using fin a(2) by (simp add: sum.insert_remove)
    ultimately show ?thesis using True dom rest bal by (simp add: algebra_simps)
  qed
qed

lemma total_fold:
  assumes "inv s" "fold_ok step ds s = Inr s'"
    and "along (\<lambda>d s. cov d (unwrap_or (get s (key d)) (fresh d))) step ds s"
  shows "(\<Sum>k\<in>{k\<in>dom (get s'). P k}. bal (the (get s' k))) =
    (\<Sum>k\<in>{k\<in>dom (get s). P k}. bal (the (get s k))) +
    sum_list (map delta (filter (\<lambda>d. P (key d)) ds))"
  using assms
proof (induction ds arbitrary: s)
  case (Cons d ds)
  from Cons.prems(2) obtain t where t: "step d s = Inr t" "fold_ok step ds t = Inr s'"
    by (auto simp: run_simps)
  from Cons.prems(1) t(1) have "inv t" by (rule step_cases)
  from Cons.IH[OF this t(2)] total_step[OF Cons.prems(1) t(1)] Cons.prems(3) t(1)
  show ?case by (simp add: algebra_simps)
qed simp

end

end
