(* ===== verification/Ledgers.thy ===== *)
theory Ledgers
  imports Accounts Ledger_Diffs Keyed_Stores
begin

text \<open>
  Ledgers (\<open>ledger/mod.rs\<close>): the per-token account maps, applying and unapplying diffs, the
  time-locked amount and the structural equality.  A \<open>HashMap\<close> is a partial map.
\<close>

record token_ledger =
  accounts :: "public_key \<rightharpoonup> account"

record ledger =
  tokens :: "token_address \<rightharpoonup> token_ledger"

definition token_ledger_new :: token_ledger where
  "token_ledger_new = \<lparr>accounts = Map.empty\<rparr>"

definition ledger_new :: ledger where
  "ledger_new = \<lparr>tokens = Map.empty\<rparr>"

definition from_mina_ledger :: "token_ledger \<Rightarrow> ledger" where
  "from_mina_ledger l = \<lparr>tokens = [token_address_default \<mapsto> \<lparr>accounts = accounts l\<rparr>]\<rparr>"

definition get_token_ledger :: "ledger \<Rightarrow> token_address \<Rightarrow> token_ledger option" where
  "get_token_ledger l token = tokens l token"

definition get_account :: "ledger \<Rightarrow> public_key \<Rightarrow> token_address \<Rightarrow> account option" where
  "get_account l pk token = Option.bind (get_token_ledger l token) (\<lambda>tled. accounts tled pk)"

definition insert_account :: "account \<Rightarrow> token_address \<Rightarrow> ledger \<Rightarrow> ledger" where
  "insert_account a token l =
     (case tokens l token of
        Some tled \<Rightarrow>
          l\<lparr>tokens := (tokens l)(token \<mapsto> tled\<lparr>accounts := (accounts tled)(acct_public_key a \<mapsto> a)\<rparr>)\<rparr>
      | None \<Rightarrow>
          l\<lparr>tokens := (tokens l)(token \<mapsto>
              token_ledger_new\<lparr>accounts := (accounts token_ledger_new)(acct_public_key a \<mapsto> a)\<rparr>)\<rparr>)"

text \<open>\<open>tokens.get_mut(token).and_then(|l| l.accounts.remove(pk))\<close>.\<close>

definition remove_account :: "public_key \<Rightarrow> token_address \<Rightarrow> ledger \<Rightarrow> ledger \<times> account option" where
  "remove_account pk token l =
     (case tokens l token of
        Some tled \<Rightarrow>
          (l\<lparr>tokens := (tokens l)(token \<mapsto> tled\<lparr>accounts := (accounts tled)(pk := None)\<rparr>)\<rparr>, accounts tled pk)
      | None \<Rightarrow> (l, None))"

definition ledger_apply_account_diff :: "account_diff \<Rightarrow> ledger \<Rightarrow> ledger run" where
  "ledger_apply_account_diff d l =
     (let pk = diff_public_key d; token = diff_token_address d;
          (l', found) = remove_account pk token l;
          acct = (case found of Some a \<Rightarrow> a | None \<Rightarrow> account_empty pk token)
      in map_ok (\<lambda>a. insert_account a token l') (apply_account_diff d acct))"

definition ledger_apply_diff :: "ledger_diff \<Rightarrow> ledger \<Rightarrow> ledger run" where
  "ledger_apply_diff diff l = fold_ok ledger_apply_account_diff (concat (ld_account_diffs diff)) l"

definition ledger_apply_diff_from_precomputed ::
    "(string \<Rightarrow> amount option) \<Rightarrow> hash_order \<Rightarrow> precomputed_block \<Rightarrow> ledger \<Rightarrow> ledger run" where
  "ledger_apply_diff_from_precomputed parse_amount order b l =
     bind_ok (from_precomputed parse_amount order b) (\<lambda>diff. ledger_apply_diff diff l)"

definition ledger_unapply_account_diff :: "pk_balances \<Rightarrow> account_diff \<Rightarrow> ledger \<Rightarrow> ledger run" where
  "ledger_unapply_account_diff new_pks d l =
     (let pk = diff_public_key d; token = diff_token_address d;
          (l', found) = remove_account pk token l;
          acct = (case found of Some a \<Rightarrow> a | None \<Rightarrow> account_empty pk token)
      in map_ok (\<lambda>res.
           case res of
             Some a \<Rightarrow>
               (case tokens l' token of
                  Some tled \<Rightarrow>
                    l'\<lparr>tokens := (tokens l')(token \<mapsto> tled\<lparr>accounts := (accounts tled)(pk \<mapsto> a)\<rparr>)\<rparr>
                | None \<Rightarrow> l')
           | None \<Rightarrow> fst (remove_account pk token l'))
         (unapply_account_diff d (new_pks pk \<noteq> None) acct))"

definition ledger_unapply_diff :: "ledger_diff \<Rightarrow> ledger \<Rightarrow> ledger run" where
  "ledger_unapply_diff diff l =
     fold_ok (ledger_unapply_account_diff (ld_new_pk_balances diff))
       (concat (ld_account_diffs diff)) l"

section \<open>Token ledgers\<close>

definition token_apply_account_diff :: "account_diff \<Rightarrow> token_ledger \<Rightarrow> token_ledger run" where
  "token_apply_account_diff d l =
     (let pk = diff_public_key d;
          acct = (case accounts l pk of
                    Some a \<Rightarrow> a | None \<Rightarrow> account_empty pk (diff_token_address d))
      in map_ok (\<lambda>a. l\<lparr>accounts := (accounts l)(pk \<mapsto> a)\<rparr>) (apply_account_diff d acct))"

definition token_apply_diff :: "ledger_diff \<Rightarrow> token_ledger \<Rightarrow> token_ledger run" where
  "token_apply_diff diff l = fold_ok token_apply_account_diff (concat (ld_account_diffs diff)) l"

definition token_unapply_account_diff ::
    "pk_balances \<Rightarrow> account_diff \<Rightarrow> token_ledger \<Rightarrow> token_ledger run" where
  "token_unapply_account_diff new_pks d l =
     (let pk = diff_public_key d;
          acct = (case accounts l pk of
                    Some a \<Rightarrow> a | None \<Rightarrow> account_empty pk (diff_token_address d))
      in map_ok (\<lambda>res. l\<lparr>accounts := (accounts l)(pk := res)\<rparr>)
           (unapply_account_diff d (new_pks pk \<noteq> None) acct))"

definition token_unapply_diff :: "ledger_diff \<Rightarrow> token_ledger \<Rightarrow> token_ledger run" where
  "token_unapply_diff diff l =
     fold_ok (token_unapply_account_diff (ld_new_pk_balances diff))
       (concat (ld_account_diffs diff)) l"

text \<open>
  \<open>from_str\<close> undoes the deduction of \<open>display\<close> on the accounts that \<open>serde_json\<close> returns.
\<close>

definition token_ledger_display :: "token_ledger \<Rightarrow> public_key \<rightharpoonup> account" where
  "token_ledger_display l = (\<lambda>pk. map_option display (accounts l pk))"

definition token_ledger_from_display :: "(public_key \<rightharpoonup> account) \<Rightarrow> token_ledger" where
  "token_ledger_from_display m =
     \<lparr>accounts = (\<lambda>pk. map_option (\<lambda>a.
        a\<lparr>acct_balance := amount_add (acct_balance a) MAINNET_ACCOUNT_CREATION_FEE\<rparr>) (m pk))\<rparr>"

section \<open>Time-locked amount\<close>

text \<open>
  \<open>values().filter_map(..).sum()\<close> adds the minimum balances of the timed accounts with wrap-around;
  it panics when one of them does.
\<close>

definition timed_accounts :: "token_ledger \<Rightarrow> public_key set" where
  "timed_accounts l = {pk. \<exists>a. accounts l pk = Some a \<and> acct_timing a \<noteq> None}"

definition min_balance_at :: "u32 \<Rightarrow> token_ledger \<Rightarrow> public_key \<Rightarrow> u64 run" where
  "min_balance_at slot l pk =
     (case accounts l pk of Some a \<Rightarrow> current_minimum_balance a slot | None \<Rightarrow> Inr 0)"

definition token_time_locked_amount :: "token_ledger \<Rightarrow> u32 \<Rightarrow> amount run" where
  "token_time_locked_amount l slot =
     map_ok sum_list (traverse_ok (min_balance_at slot l) (sorted_list_of_set (timed_accounts l)))"

definition ledger_time_locked_amount :: "ledger \<Rightarrow> u32 \<Rightarrow> amount run" where
  "ledger_time_locked_amount l slot =
     bind_ok (unwrap (tokens l token_address_default)) (\<lambda>mina. token_time_locked_amount mina slot)"

section \<open>Equality\<close>

text \<open>The two loops of \<open>PartialEq\<close>: over the keys of the one ledger, then of the other.\<close>

definition token_ledger_eq :: "token_ledger \<Rightarrow> token_ledger \<Rightarrow> bool" where
  "token_ledger_eq l1 l2 \<longleftrightarrow>
     (\<forall>pk\<in>dom (accounts l1). accounts l1 pk = accounts l2 pk) \<and>
     (\<forall>pk\<in>dom (accounts l2). accounts l1 pk = accounts l2 pk)"

definition opt_token_ledger_eq :: "token_ledger option \<Rightarrow> token_ledger option \<Rightarrow> bool" where
  "opt_token_ledger_eq x y =
     (case (x, y) of
        (Some a, Some b) \<Rightarrow> token_ledger_eq a b
      | (None, None) \<Rightarrow> True
      | _ \<Rightarrow> False)"

definition ledger_eq :: "ledger \<Rightarrow> ledger \<Rightarrow> bool" where
  "ledger_eq l1 l2 \<longleftrightarrow>
     (\<forall>t\<in>dom (tokens l1). opt_token_ledger_eq (tokens l1 t) (tokens l2 t)) \<and>
     (\<forall>t\<in>dom (tokens l2). opt_token_ledger_eq (tokens l1 t) (tokens l2 t))"

section \<open>The ledgers as keyed stores\<close>

definition ledger_key :: "account_diff \<Rightarrow> token_address \<times> public_key" where
  "ledger_key d = (diff_token_address d, diff_public_key d)"

definition fresh_account :: "account_diff \<Rightarrow> account" where
  "fresh_account d = account_empty (diff_public_key d) (diff_token_address d)"

definition ledger_get :: "ledger \<Rightarrow> token_address \<times> public_key \<Rightarrow> account option" where
  "ledger_get l k = get_account l (snd k) (fst k)"

text \<open>Every account is stored under its own key, and the maps are finite.\<close>

definition ledger_inv :: "ledger \<Rightarrow> bool" where
  "ledger_inv l \<longleftrightarrow> finite (dom (ledger_get l)) \<and>
     (\<forall>k a. ledger_get l k = Some a \<longrightarrow> acct_public_key a = snd k)"

definition token_inv :: "token_ledger \<Rightarrow> bool" where
  "token_inv l \<longleftrightarrow> finite (dom (accounts l))"

lemma account_empty_simps [simp]:
  "acct_public_key (account_empty pk t) = pk" "acct_balance (account_empty pk t) = 0"
  "acct_token (account_empty pk t) = Some t" "acct_delegate (account_empty pk t) = pk"
  "acct_zkapp (account_empty pk t) = None" "acct_nonce (account_empty pk t) = None"
  "acct_timing (account_empty pk t) = None"
  by (simp_all add: account_empty_def account_default_def)

lemma ledger_get_remove_account:
  "ledger_get (fst (remove_account pk token l)) = (ledger_get l)((token, pk) := None)"
  "snd (remove_account pk token l) = ledger_get l (token, pk)"
  by (auto simp: remove_account_def ledger_get_def get_account_def get_token_ledger_def fun_eq_iff
      split: option.splits bind_splits)

lemma ledger_get_insert_account:
  "ledger_get (insert_account a token l) = (ledger_get l)((token, acct_public_key a) \<mapsto> a)"
  by (auto simp: insert_account_def ledger_get_def get_account_def get_token_ledger_def fun_eq_iff
      token_ledger_new_def split: option.splits bind_splits)

lemma ledger_apply_account_diff_alt:
  "ledger_apply_account_diff d l =
     map_ok (\<lambda>a. insert_account a (diff_token_address d)
                (fst (remove_account (diff_public_key d) (diff_token_address d) l)))
       (apply_account_diff d (unwrap_or (ledger_get l (ledger_key d)) (fresh_account d)))"
  by (simp add: ledger_apply_account_diff_def Let_def split_beta unwrap_or_def fresh_account_def
      ledger_get_remove_account ledger_key_def)

interpretation ledger_store: totalled_store ledger_key fresh_account apply_account_diff
  ledger_get ledger_inv ledger_apply_account_diff acct_balance balance_change covered
proof
  fix s d a
  assume inv: "ledger_inv s"
    and app: "apply_account_diff d (unwrap_or (ledger_get s (ledger_key d)) (fresh_account d)) = Inr a"
  have pk: "acct_public_key a = diff_public_key d"
    using apply_account_diff_keeps(1)[OF app] inv
    by (cases "ledger_get s (ledger_key d)") (auto simp: ledger_inv_def ledger_key_def fresh_account_def)
  let ?s = "insert_account a (diff_token_address d)
              (fst (remove_account (diff_public_key d) (diff_token_address d) s))"
  have get: "ledger_get ?s = (ledger_get s)(ledger_key d \<mapsto> a)"
    by (simp add: ledger_get_insert_account ledger_get_remove_account pk ledger_key_def)
  moreover from inv have "ledger_inv ?s"
    unfolding ledger_inv_def get by (auto simp: pk ledger_key_def)
  ultimately show "\<exists>s'. ledger_apply_account_diff d s = Inr s' \<and> ledger_inv s' \<and>
      ledger_get s' = (ledger_get s)(ledger_key d \<mapsto> a)"
    by (simp add: ledger_apply_account_diff_alt app)
qed (auto simp: ledger_apply_account_diff_alt fresh_account_def ledger_inv_def
      intro: apply_account_diff_balance)

lemma token_apply_account_diff_alt:
  "token_apply_account_diff d l =
     map_ok (\<lambda>a. l\<lparr>accounts := (accounts l)(diff_public_key d \<mapsto> a)\<rparr>)
       (apply_account_diff d (unwrap_or (accounts l (diff_public_key d)) (fresh_account d)))"
  by (simp add: token_apply_account_diff_def Let_def unwrap_or_def fresh_account_def)

interpretation token_store: totalled_store diff_public_key fresh_account apply_account_diff
  accounts token_inv token_apply_account_diff acct_balance balance_change covered
  by unfold_locales
    (auto simp: token_apply_account_diff_alt fresh_account_def token_inv_def
      intro: apply_account_diff_balance)

section \<open>Applying diffs\<close>

lemma concat_append_diffs:
  "ld_account_diffs (ledger_diff_append d1 d2) = ld_account_diffs d1 @ ld_account_diffs d2"
  by (simp add: ledger_diff_append_def)

lemma ledger_apply_diff_append:
  "ledger_apply_diff (ledger_diff_append d1 d2) l =
     bind_ok (ledger_apply_diff d1 l) (ledger_apply_diff d2)"
  by (simp add: ledger_apply_diff_def [abs_def] concat_append_diffs fold_ok_append)

lemma append_vec_snoc:
  "ledger_diff_append_vec (ds @ [d]) = ledger_diff_append (ledger_diff_append_vec ds) d"
  by (simp add: ledger_diff_append_vec_def)

lemma token_ledger_eq_iff: "token_ledger_eq l1 l2 \<longleftrightarrow> l1 = l2"
proof
  assume eq: "token_ledger_eq l1 l2"
  have "accounts l1 pk = accounts l2 pk" for pk
    using eq by (cases "accounts l1 pk"; cases "accounts l2 pk") (force simp: token_ledger_eq_def)+
  then show "l1 = l2" by (simp add: fun_eq_iff)
qed (simp add: token_ledger_eq_def)

definition ledger_wf :: "ledger \<Rightarrow> bool" where
  "ledger_wf l \<longleftrightarrow> ledger_inv l \<and> (\<forall>k a. ledger_get l k = Some a \<longrightarrow> account_wf a)"

lemma account_empty_wf [simp]: "account_wf (account_empty pk t)"
  by (simp add: account_wf_def)

lemma ledger_step_total:
  assumes "ledger_wf l" "diff_wf d"
  shows "\<exists>l'. ledger_apply_account_diff d l = Inr l' \<and> ledger_wf l'"
proof -
  let ?a = "unwrap_or (ledger_get l (ledger_key d)) (fresh_account d)"
  have "account_wf ?a" "diff_public_key d = acct_public_key ?a"
    using assms(1)
    by (cases "ledger_get l (ledger_key d)";
        force simp: ledger_wf_def ledger_inv_def fresh_account_def ledger_key_def)+
  from apply_account_diff_total[OF this(1) assms(2) this(2)] obtain a
    where a: "apply_account_diff d ?a = Inr a" "account_wf a" by blast
  from ledger_store.step_ok[OF _ a(1)] assms(1) obtain l' where
    "ledger_apply_account_diff d l = Inr l'" "ledger_inv l'"
    "ledger_get l' = (ledger_get l)(ledger_key d \<mapsto> a)" by (auto simp: ledger_wf_def)
  with a(2) assms(1) show ?thesis by (auto simp: ledger_wf_def)
qed

lemma ledger_apply_diff_total:
  assumes "ledger_wf l" "\<forall>d \<in> set (concat (ld_account_diffs diff)). diff_wf d"
  shows "\<exists>l'. ledger_apply_diff diff l = Inr l' \<and> ledger_wf l'"
  unfolding ledger_apply_diff_def
  by (rule fold_ok_total[where P = ledger_wf]) (use assms ledger_step_total in auto)

definition token_total :: "token_address \<Rightarrow> ledger \<Rightarrow> u64" where
  "token_total t l = (\<Sum>k\<in>{k\<in>dom (ledger_get l). fst k = t}. acct_balance (the (ledger_get l k)))"

definition ledger_covered :: "account_diff list list \<Rightarrow> ledger \<Rightarrow> bool" where
  "ledger_covered diffs l =
     along (\<lambda>d l. covered d (unwrap_or (ledger_get l (ledger_key d)) (fresh_account d)))
       ledger_apply_account_diff (concat diffs) l"

lemma ledger_apply_diff_total_change:
  assumes "ledger_inv l" "ledger_apply_diff diff l = Inr l'" "ledger_covered (ld_account_diffs diff) l"
  shows "token_total t l' = token_total t l +
    sum_list (map balance_change
      (filter (\<lambda>d. diff_token_address d = t) (concat (ld_account_diffs diff))))"
  unfolding token_total_def
  using ledger_store.total_fold[of l "concat (ld_account_diffs diff)" l' "\<lambda>k. fst k = t"] assms
  by (simp add: ledger_apply_diff_def ledger_covered_def ledger_key_def)

lemma ledger_apply_diff_local:
  assumes "ledger_inv l" "ledger_apply_diff diff l = Inr l'"
  shows "case filter (\<lambda>d. ledger_key d = (t, pk)) (concat (ld_account_diffs diff)) of
      [] \<Rightarrow> get_account l' pk t = get_account l pk t
    | ds \<Rightarrow> \<exists>a. fold_ok apply_account_diff ds
               (unwrap_or (get_account l pk t) (account_empty pk t)) = Inr a \<and>
             get_account l' pk t = Some a"
proof -
  have "fresh_account d = account_empty pk t" if "ledger_key d = (t, pk)" for d
    using that by (simp add: fresh_account_def ledger_key_def)
  moreover note ledger_store.fold_get[OF assms(1), of "concat (ld_account_diffs diff)" l' "(t, pk)"]
  ultimately show ?thesis
    using assms(2)
    by (cases "filter (\<lambda>d. ledger_key d = (t, pk)) (concat (ld_account_diffs diff))")
      (auto simp: ledger_apply_diff_def ledger_get_def dest: filter_eq_ConsD)
qed

section \<open>Token ledgers and unapplying\<close>

definition token_wf :: "token_ledger \<Rightarrow> bool" where
  "token_wf l \<longleftrightarrow> token_inv l \<and> (\<forall>pk a. accounts l pk = Some a \<longrightarrow> acct_public_key a = pk)"

lemma token_step_wf:
  assumes "token_wf l" "token_apply_account_diff d l = Inr l'"
  shows "token_wf l'"
proof -
  from assms obtain a where a: "apply_account_diff d (unwrap_or (accounts l (diff_public_key d)) (fresh_account d)) = Inr a"
     "token_inv l'" "accounts l' = (accounts l)(diff_public_key d \<mapsto> a)"
    by (auto simp: token_wf_def elim: token_store.step_cases)
  have "acct_public_key a = diff_public_key d"
    using apply_account_diff_keeps(1)[OF a(1)] assms(1)
    by (cases "accounts l (diff_public_key d)") (auto simp: token_wf_def fresh_account_def)
  with a assms(1) show ?thesis by (auto simp: token_wf_def)
qed

lemma from_mina_ledger_step:
  assumes "token_wf tled" "diff_token_address d = token_address_default"
  shows "ledger_apply_account_diff d (from_mina_ledger tled) =
    map_ok from_mina_ledger (token_apply_account_diff d tled)"
proof -
  let ?a = "unwrap_or (accounts tled (diff_public_key d)) (fresh_account d)"
  have get: "ledger_get (from_mina_ledger tled) (ledger_key d) = accounts tled (diff_public_key d)"
    by (simp add: ledger_get_def ledger_key_def get_account_def get_token_ledger_def
        from_mina_ledger_def assms(2))
  have "acct_public_key a = diff_public_key d" if "apply_account_diff d ?a = Inr a" for a
    using apply_account_diff_keeps(1)[OF that] assms(1)
    by (cases "accounts tled (diff_public_key d)") (auto simp: token_wf_def fresh_account_def)
  then show ?thesis
    unfolding ledger_apply_account_diff_alt token_apply_account_diff_alt get
    by (cases "apply_account_diff d ?a")
      (simp_all add: assms(2) from_mina_ledger_def insert_account_def remove_account_def)
qed

lemma from_mina_ledger_fold:
  assumes "token_wf tled" "\<forall>d\<in>set ds. diff_token_address d = token_address_default"
  shows "fold_ok ledger_apply_account_diff ds (from_mina_ledger tled) =
    map_ok from_mina_ledger (fold_ok token_apply_account_diff ds tled)"
  using assms
proof (induction ds arbitrary: tled)
  case (Cons d ds)
  then show ?case
    by (cases "token_apply_account_diff d tled") (auto simp: from_mina_ledger_step dest: token_step_wf)
qed simp

lemma apply_ledger_diff_filter:
  "fold_ok (\<lambda>d acct. if diff_public_key d = pk then apply_account_diff d acct else Inr acct) ds a =
   fold_ok apply_account_diff (filter (\<lambda>d. diff_public_key d = pk) ds) a"
proof (induction ds arbitrary: a)
  case (Cons d ds)
  then show ?case by (cases "apply_account_diff d a") auto
qed simp

lemma token_unapply_account_diff_alt:
  "token_unapply_account_diff Map.empty d l =
     map_ok (\<lambda>a. l\<lparr>accounts := (accounts l)(diff_public_key d \<mapsto> a)\<rparr>)
       (map_ok the (unapply_account_diff d False
          (unwrap_or (accounts l (diff_public_key d)) (fresh_account d))))"
proof -
  have *: "\<exists>b. x = Some b" if "unapply_account_diff d False a = Inr x" for a x
    using that by (auto simp: unapply_account_diff_def run_simps)
  show ?thesis
    by (cases "unapply_account_diff d False (unwrap_or (accounts l (diff_public_key d)) (fresh_account d))")
      (auto simp: token_unapply_account_diff_def Let_def unwrap_or_def fresh_account_def
        split: option.splits dest!: *)
qed

interpretation token_unapply_store: keyed_store diff_public_key fresh_account
  "\<lambda>d a. map_ok the (unapply_account_diff d False a)"
  accounts token_inv "token_unapply_account_diff Map.empty"
  by unfold_locales (auto simp: token_unapply_account_diff_alt token_inv_def)

lemma unapply_exact_undo:
  assumes "unapply_exact d a" "apply_account_diff d a = Inr b"
  shows "map_ok the (unapply_account_diff d False b) = Inr a"
  using unapply_apply[OF assms(1)] assms(2) by simp

lemma unapply_exact_applies: "unapply_exact d a \<Longrightarrow> \<exists>b. apply_account_diff d a = Inr b"
  using unapply_apply[of d a] by (auto simp: run_simps)


lemma ledger_get_mina:
  "ledger_get (from_mina_ledger t) (token_address_default, pk) = accounts t pk"
  by (simp add: ledger_get_def get_account_def get_token_ledger_def from_mina_ledger_def)

text \<open>Whether every debit is covered can be followed on the token ledger.\<close>

lemma ledger_covered_mina:
  assumes "token_wf t" "\<forall>d\<in>set (concat dss). diff_token_address d = token_address_default"
  shows "ledger_covered dss (from_mina_ledger t) \<longleftrightarrow>
    along (\<lambda>d t. covered d (unwrap_or (accounts t (diff_public_key d)) (fresh_account d)))
      token_apply_account_diff (concat dss) t"
proof -
  have "along (\<lambda>d l. covered d (unwrap_or (ledger_get l (ledger_key d)) (fresh_account d)))
      ledger_apply_account_diff ds (from_mina_ledger t) \<longleftrightarrow>
    along (\<lambda>d t. covered d (unwrap_or (accounts t (diff_public_key d)) (fresh_account d)))
      token_apply_account_diff ds t"
    if "token_wf t" "\<forall>d\<in>set ds. diff_token_address d = token_address_default" for ds
    using that
  proof (induction ds arbitrary: t)
    case (Cons d ds)
    have "ledger_key d = (token_address_default, diff_public_key d)"
      using Cons.prems(2) by (simp add: ledger_key_def)
    moreover have "token_wf t'" if "token_apply_account_diff d t = Inr t'" for t'
      using Cons.prems(1) that by (rule token_step_wf)
    ultimately show ?case
      using Cons from_mina_ledger_step[OF Cons.prems(1), of d]
      by (cases "token_apply_account_diff d t") (simp_all add: ledger_get_mina)
  qed simp
  with assms show ?thesis by (simp add: ledger_covered_def)
qed

section \<open>An example\<close>

text \<open>
  A ledger with one funded account, and the diff of a block that pays from it to a second account and
  a coinbase to a third.
\<close>

definition example_account :: account where
  "example_account =
     (account_empty ''alice'' token_address_default)\<lparr>acct_balance := 100, acct_nonce := Some 3\<rparr>"

definition example_receiver :: account where
  "example_receiver = (account_empty ''bob'' token_address_default)\<lparr>acct_balance := 5\<rparr>"

definition example_token_ledger :: token_ledger where
  "example_token_ledger = \<lparr>accounts = [''alice'' \<mapsto> example_account, ''bob'' \<mapsto> example_receiver]\<rparr>"

definition example_ledger :: ledger where
  "example_ledger = from_mina_ledger example_token_ledger"

definition example_payment :: "public_key \<Rightarrow> public_key \<Rightarrow> amount \<Rightarrow> nonce \<Rightarrow> account_diff list" where
  "example_payment s r amt n =
     [Payment \<lparr>pd_update_type = Credit, pd_public_key = r, pd_amount = amt,
        pd_token = token_address_default\<rparr>,
      Payment \<lparr>pd_update_type = Debit (Some n), pd_public_key = s, pd_amount = amt,
        pd_token = token_address_default\<rparr>]"

definition example_diff :: "account_diff list list \<Rightarrow> ledger_diff" where
  "example_diff ds =
     \<lparr>ld_blockchain_length = 2, ld_state_hash = ''3N'', ld_staged_ledger_hash = ''j'',
      ld_new_coinbase_receiver = None, ld_public_keys_seen = [], ld_new_pk_balances = Map.empty,
      ld_account_diffs = ds\<rparr>"

lemmas example_defs = example_account_def example_receiver_def example_token_ledger_def
  example_ledger_def example_payment_def example_diff_def

lemma example_token_ledger_wf: "token_wf example_token_ledger"
  by (auto simp: token_wf_def token_inv_def example_defs split: if_splits)

lemma example_ledger_get:
  "ledger_get example_ledger =
     [(token_address_default, ''alice'') \<mapsto> example_account,
      (token_address_default, ''bob'') \<mapsto> example_receiver]"
  by (auto simp: ledger_get_def get_account_def get_token_ledger_def example_ledger_def
      from_mina_ledger_def example_token_ledger_def fun_eq_iff)

lemma example_ledger_wf: "ledger_wf example_ledger"
  unfolding ledger_wf_def ledger_inv_def example_ledger_get
  by (auto simp: example_account_def example_receiver_def account_wf_def split: if_splits)

section \<open>Properties of ledgers\<close>

text \<open>
  C18: applying a ledger diff never panics on well-formed accounts and diffs, keeps the ledger
  well-formed, and is pointwise: the account of a token and key afterwards is the one obtained by
  applying, in order, exactly the diffs of that token and key to the account before (or to a fresh
  one), and an account that no diff names is unchanged.
\<close>

theorem ledger_apply_diff_pointwise:
  assumes "ledger_wf l" "\<forall>d \<in> set (concat (ld_account_diffs diff)). diff_wf d"
  shows "\<exists>l'. ledger_apply_diff diff l = Inr l' \<and> ledger_wf l' \<and>
    (\<forall>t pk. case filter (\<lambda>d. ledger_key d = (t, pk)) (concat (ld_account_diffs diff)) of
        [] \<Rightarrow> get_account l' pk t = get_account l pk t
      | ds \<Rightarrow> \<exists>a. fold_ok apply_account_diff ds
                 (unwrap_or (get_account l pk t) (account_empty pk t)) = Inr a \<and>
               get_account l' pk t = Some a)"
proof -
  from ledger_apply_diff_total[OF assms] obtain l' where
    l': "ledger_apply_diff diff l = Inr l'" "ledger_wf l'" by blast
  have "ledger_inv l" using assms(1) by (simp add: ledger_wf_def)
  with l' ledger_apply_diff_local[OF this l'(1)] show ?thesis by blast
qed

theorem ledger_apply_diff_pointwise_witness:
  "\<exists>l'. ledger_apply_diff
       (example_diff [example_payment ''alice'' ''bob'' 30 4, example_payment ''alice'' ''bob'' 7 5])
       example_ledger = Inr l' \<and> ledger_wf l' \<and>
     map_option acct_balance (get_account l' ''bob'' token_address_default) = Some 42"
  (is "\<exists>l'. ledger_apply_diff ?d _ = _ \<and> _ \<and> _")
proof -
  have "\<forall>d \<in> set (concat (ld_account_diffs ?d)). diff_wf d" by (simp add: example_defs)
  from ledger_apply_diff_pointwise[OF example_ledger_wf this] obtain l' where l':
    "ledger_apply_diff ?d example_ledger = Inr l'" "ledger_wf l'"
    "case filter (\<lambda>d. ledger_key d = (token_address_default, ''bob'')) (concat (ld_account_diffs ?d)) of
        [] \<Rightarrow> get_account l' ''bob'' token_address_default =
          get_account example_ledger ''bob'' token_address_default
      | ds \<Rightarrow> \<exists>a. fold_ok apply_account_diff ds
           (unwrap_or (get_account example_ledger ''bob'' token_address_default)
             (account_empty ''bob'' token_address_default)) = Inr a \<and>
         get_account l' ''bob'' token_address_default = Some a" by blast
  have "get_account example_ledger ''bob'' token_address_default = Some example_receiver"
    using example_ledger_get by (simp add: ledger_get_def fun_eq_iff)
  moreover have "filter (\<lambda>d. ledger_key d = (token_address_default, ''bob'')) (concat (ld_account_diffs ?d)) =
      [example_payment ''alice'' ''bob'' 30 4 ! 0, example_payment ''alice'' ''bob'' 7 5 ! 0]"
    by (simp add: example_diff_def example_payment_def ledger_key_def)
  ultimately have "get_account l' ''bob'' token_address_default = Some (credit 7 (credit 30 example_receiver))"
    using l'(3) by (simp add: example_payment_def account_payment_def unwrap_or_def)
  moreover have "acct_balance (credit 7 (credit 30 example_receiver)) = 42"
    by (simp add: credit_def amount_add_def example_receiver_def)
  ultimately show ?thesis using l'(1,2) by simp
qed

text \<open>
  C19: per token, the wrapping sum of all balances changes by exactly the sum of the balance changes
  of the diffs of that token, when every debit is covered by the balance it is taken from.
\<close>

theorem ledger_apply_diff_totals:
  assumes "ledger_inv l" "ledger_apply_diff diff l = Inr l'" "ledger_covered (ld_account_diffs diff) l"
  shows "token_total t l' = token_total t l +
    sum_list (map balance_change
      (filter (\<lambda>d. diff_token_address d = t) (concat (ld_account_diffs diff))))"
  using assms by (rule ledger_apply_diff_total_change)

theorem ledger_apply_diff_totals_witness:
  "\<exists>l'. ledger_apply_diff (example_diff [example_payment ''alice'' ''bob'' 30 4,
       [CoinbaseD \<lparr>cd_public_key = ''carol'', cd_amount = 720\<rparr>]]) example_ledger = Inr l' \<and>
     token_total token_address_default l' = token_total token_address_default example_ledger + 720"
  (is "\<exists>l'. ledger_apply_diff ?d _ = _ \<and> _")
proof -
  have "\<forall>d \<in> set (concat (ld_account_diffs ?d)). diff_wf d" by (simp add: example_defs)
  from ledger_apply_diff_total[OF example_ledger_wf this] obtain l' where
    l': "ledger_apply_diff ?d example_ledger = Inr l'" by blast
  have inv: "ledger_inv example_ledger" using example_ledger_wf by (simp add: ledger_wf_def)
  have "ledger_covered (ld_account_diffs ?d) example_ledger"
    unfolding example_ledger_def
    by (subst ledger_covered_mina[OF example_token_ledger_wf])
      (simp_all add: example_diff_def example_payment_def token_apply_account_diff_def Let_def
        example_token_ledger_def example_account_def example_receiver_def unwrap_or_def)
  from ledger_apply_diff_totals[OF inv l' this, of token_address_default] l' show ?thesis
    by (simp add: example_diff_def example_payment_def payment_amount_def)
qed

text \<open>
  C20: a ledger that holds only the MINA token refines the single-token ledger: applying a diff of
  MINA account diffs to either gives the same accounts, and panics in the same cases.
\<close>

theorem ledger_refines_token_ledger:
  assumes "token_wf tled"
    and "\<forall>d\<in>set (concat (ld_account_diffs diff)). diff_token_address d = token_address_default"
  shows "ledger_apply_diff diff (from_mina_ledger tled) =
    map_ok from_mina_ledger (token_apply_diff diff tled)"
  unfolding ledger_apply_diff_def token_apply_diff_def using assms by (rule from_mina_ledger_fold)

theorem ledger_refines_token_ledger_witness:
  "ledger_apply_diff (example_diff [example_payment ''alice'' ''bob'' 30 4])
     (from_mina_ledger example_token_ledger) =
   map_ok from_mina_ledger
     (token_apply_diff (example_diff [example_payment ''alice'' ''bob'' 30 4]) example_token_ledger)"
  by (rule ledger_refines_token_ledger[OF example_token_ledger_wf])
    (simp add: example_diff_def example_payment_def)

text \<open>
  The diffs that \<open>apply_ledger_diff\<close> selects for one account give the account that the token
  ledger holds after the whole ledger diff.
\<close>

lemma apply_ledger_diff_agrees:
  assumes "token_inv l" "token_apply_diff diff l = Inr l'" "accounts l pk = Some a" "acct_public_key a = pk"
  shows "map_ok Some (apply_ledger_diff (ld_account_diffs diff) a) = Inr (accounts l' pk)"
proof -
  note token_store.fold_get[OF assms(1), of "concat (ld_account_diffs diff)" l' pk]
  with assms show ?thesis
    by (cases "filter (\<lambda>d. diff_public_key d = pk) (concat (ld_account_diffs diff))")
      (auto simp: apply_ledger_diff_def apply_ledger_diff_filter token_apply_diff_def Let_def)
qed

theorem apply_ledger_diff_agrees_witness:
  "\<exists>l'. token_apply_diff (example_diff [example_payment ''alice'' ''bob'' 30 4]) example_token_ledger = Inr l' \<and>
     map_ok Some (apply_ledger_diff [example_payment ''alice'' ''bob'' 30 4] example_account) =
       Inr (accounts l' ''alice'')"
  (is "\<exists>l'. token_apply_diff ?d _ = _ \<and> _")
proof -
  obtain l' where l': "token_apply_diff ?d example_token_ledger = Inr l'"
    by (simp add: token_apply_diff_def example_diff_def example_payment_def
        token_apply_account_diff_def Let_def)
  with apply_ledger_diff_agrees[OF _ l', of "''alice''" example_account] example_token_ledger_wf
  show ?thesis by (simp add: token_wf_def example_defs)
qed

text \<open>
  C24: unapplying a ledger diff right after applying it restores the ledger, when the diff opens no
  account, names every key at most once and each of its diffs is one that unapplies exactly on the
  account it meets.
\<close>

theorem unapply_diff_restores:
  assumes inv: "token_inv l" and new: "ld_new_pk_balances diff = Map.empty"
    and dist: "distinct (map diff_public_key (concat (ld_account_diffs diff)))"
    and ex: "\<And>d. d \<in> set (concat (ld_account_diffs diff)) \<Longrightarrow>
      \<exists>a. accounts l (diff_public_key d) = Some a \<and> unapply_exact d a"
  shows "bind_ok (token_apply_diff diff l) (token_unapply_diff diff) = Inr l"
proof -
  let ?ds = "concat (ld_account_diffs diff)"
  have "\<exists>b. apply_account_diff d (unwrap_or (accounts l (diff_public_key d)) (fresh_account d)) = Inr b"
    if "d \<in> set ?ds" for d
    using ex[OF that] unapply_exact_applies by auto
  from token_store.fold_distinct_total[OF inv dist this]
  obtain l' where l': "fold_ok token_apply_account_diff ?ds l = Inr l'" by blast
  have inv': "token_inv l'" using inv l' by (rule token_store.fold_inv)
  have undo: "map_ok the (unapply_account_diff d False
      (unwrap_or (accounts l' (diff_public_key d)) (fresh_account d))) = Inr a"
    if "d \<in> set ?ds" "accounts l (diff_public_key d) = Some a" for d a
    using ex[OF that(1)] that(2) token_store.fold_distinct_get[OF inv l' dist that(1)]
    by (auto dest: unapply_exact_undo)
  then have "\<exists>a. map_ok the (unapply_account_diff d False
      (unwrap_or (accounts l' (diff_public_key d)) (fresh_account d))) = Inr a"
    if "d \<in> set ?ds" for d
    using ex[OF that] that by blast
  from token_unapply_store.fold_distinct_total[OF inv' dist this]
  obtain l'' where l'': "fold_ok (token_unapply_account_diff Map.empty) ?ds l' = Inr l''" by blast
  have "accounts l'' k = accounts l k" for k
  proof (cases "k \<in> diff_public_key ` set ?ds")
    case False
    then show ?thesis
      using token_unapply_store.fold_other_get[OF inv' l''] token_store.fold_other_get[OF inv l']
      by simp
  next
    case True
    then obtain d where d: "d \<in> set ?ds" "k = diff_public_key d" by blast
    from ex[OF d(1)] obtain a where a: "accounts l k = Some a" using d(2) by blast
    with token_unapply_store.fold_distinct_get[OF inv' l'' dist d(1)] undo[OF d(1)] d(2)
    show ?thesis by simp
  qed
  then have "l'' = l" by (simp add: fun_eq_iff)
  with l' l'' new show ?thesis by (simp add: token_apply_diff_def token_unapply_diff_def)
qed

theorem unapply_diff_restores_witness:
  "bind_ok (token_apply_diff (example_diff [example_payment ''alice'' ''bob'' 30 4]) example_token_ledger)
     (token_unapply_diff (example_diff [example_payment ''alice'' ''bob'' 30 4])) =
   Inr example_token_ledger"
proof (rule unapply_diff_restores)
  show "token_inv example_token_ledger" using example_token_ledger_wf by (simp add: token_wf_def)
  show "\<exists>a. accounts example_token_ledger (diff_public_key d) = Some a \<and> unapply_exact d a"
    if "d \<in> set (concat (ld_account_diffs (example_diff [example_payment ''alice'' ''bob'' 30 4])))" for d
    using that by (auto simp: example_defs unapply_exact_def nonce_sub_def sat_sub_def)
qed (simp_all add: example_diff_def example_payment_def)




text \<open>
  Applying the concatenation that \<open>append_vec\<close> builds is applying the ledger diffs one after the
  other, panics included.
\<close>

lemma ledger_apply_append_vec:
  "ledger_apply_diff (ledger_diff_append_vec ds) l = fold_ok ledger_apply_diff ds l"
proof (induction ds rule: rev_induct)
  case Nil
  show ?case by (simp add: ledger_diff_append_vec_def ledger_diff_default_def ledger_apply_diff_def)
next
  case (snoc d ds)
  then show ?case
    by (simp add: append_vec_snoc ledger_apply_diff_append fold_ok_append fold_ok_single del: fold_ok.simps)
qed

text \<open>The two-sided comparison of \<open>PartialEq\<close> decides equality of ledgers.\<close>

lemma ledger_eq_iff: "ledger_eq l1 l2 \<longleftrightarrow> l1 = l2"
proof
  assume eq: "ledger_eq l1 l2"
  have "tokens l1 t = tokens l2 t" for t
    using eq by (cases "tokens l1 t"; cases "tokens l2 t")
      (force simp: ledger_eq_def opt_token_ledger_eq_def token_ledger_eq_iff)+
  then show "l1 = l2" by (simp add: fun_eq_iff)
qed (auto simp: ledger_eq_def opt_token_ledger_eq_def token_ledger_eq_iff)

text \<open>
  Reading back a displayed token ledger gives the ledger, when every balance holds the account
  creation fee that the display deducts.
\<close>

lemma display_roundtrip:
  assumes "\<forall>pk a. accounts l pk = Some a \<longrightarrow> MAINNET_ACCOUNT_CREATION_FEE \<le> acct_balance a"
  shows "token_ledger_from_display (token_ledger_display l) = l"
proof -
  have "(display a)\<lparr>acct_balance := amount_add (acct_balance (display a)) MAINNET_ACCOUNT_CREATION_FEE\<rparr> = a"
    if "MAINNET_ACCOUNT_CREATION_FEE \<le> acct_balance a" for a
    using that by (simp add: display_def amount_add_sub_cancel)
  with assms have "accounts (token_ledger_from_display (token_ledger_display l)) pk = accounts l pk" for pk
    by (cases "accounts l pk") (auto simp: token_ledger_from_display_def token_ledger_display_def)
  then show ?thesis by (simp add: fun_eq_iff)
qed

theorem display_roundtrip_witness:
  "token_ledger_from_display
     (token_ledger_display \<lparr>accounts = [''alice'' \<mapsto> example_account\<lparr>acct_balance := 5000000000\<rparr>]\<rparr>) =
   \<lparr>accounts = [''alice'' \<mapsto> example_account\<lparr>acct_balance := 5000000000\<rparr>]\<rparr>"
  by (rule display_roundtrip) (simp add: MAINNET_ACCOUNT_CREATION_FEE_def)

end
