(* ===== verification/Block_Ledgers.thy ===== *)
theory Block_Ledgers
  imports Ledgers
begin

text \<open>
  From a block to the ledger: the ledger diff of a block is balanced up to the coinbase, and a valid
  block is applied without a panic.  \<open>block_valid\<close> says what a well-formed V2 block has (two staged
  diffs, the first present, 32-byte hex values, parsable creation fees); a V1 block has no such
  condition.
\<close>

section \<open>The diff of a block\<close>

definition mina_neutral :: "account_diff list \<Rightarrow> bool" where
  "mina_neutral ds \<longleftrightarrow>
     (\<forall>d\<in>set ds. diff_token_address d = token_address_default \<and> zkapp_token_account d = None) \<and>
     sum_list (map balance_change ds) = 0"

lemma pair_neutral: "fee_pair p \<or> via_pair p \<Longrightarrow> mina_neutral p"
  by (auto simp: fee_pair_def via_pair_def mina_neutral_def transfer_pair_def payment_amount_def)

lemma to_command_zkapp_iff: "uc_is_zkapp_command cmd \<longleftrightarrow> (\<exists>z. to_command cmd = ZkappCmd z)"
  by (cases cmd) (auto split: signed_body_v1.splits user_command_data.splits signed_body_v2.splits)

lemma command_diffs_neutral:
  assumes "command_diffs cmd = Inr dss" "\<not> uc_is_zkapp_command cmd" "ds \<in> set dss"
  shows "mina_neutral ds"
  using assms
  by (cases "to_command cmd")
    (auto simp: command_diffs_def to_command_zkapp_iff mina_neutral_def payment_amount_def
      split: if_splits)

lemma neutral_not_zkapp: "mina_neutral ds \<Longrightarrow> d \<in> set ds \<Longrightarrow> \<not> is_zkapp d"
  by (cases d) (auto simp: mina_neutral_def)

lemma neutral_accounts: "mina_neutral ds \<Longrightarrow> d \<in> set ds \<Longrightarrow> zkapp_token_account d = None"
  by (simp add: mina_neutral_def)

lemma zkapp_token_account_not_zkapp: "zkapp_token_account d = None \<Longrightarrow> \<not> is_zkapp d"
  by (cases d) auto

lemma zkapp_creation_fees_none:
  assumes "\<forall>d\<in>set (concat diffs). zkapp_token_account d = None"
  shows "zkapp_creation_fees created diffs = Inr []"
proof -
  have none: "{k. Some k \<in> zkapp_token_account ` set (concat diffs)} = {}" using assms by force
  show ?thesis unfolding zkapp_creation_fees_def none by simp
qed

definition coinbase_group :: "coinbase_record \<Rightarrow> account_diff list list" where
  "coinbase_group cb =
     (if is_coinbase_applied cb
      then [[CoinbaseD \<lparr>cd_public_key = cb_receiver cb, cd_amount = coinbase_amount cb\<rparr>]] else [])"

lemma unexpanded_shape:
  assumes "from_precomputed_unexpanded parse order b = Inr diff"
  obtains cmds txns cb fees where
    "commands b = Inr cmds" "traverse_ok command_diffs cmds = Inr txns"
    "coinbase_from_precomputed parse b = Inr cb"
    "\<forall>p\<in>set fees. fee_pair p \<or> via_pair p"
    "ld_account_diffs diff = concat txns @ coinbase_group cb @ fees"
proof -
  from assms obtain fees0 cmds txns cb fees where *:
    "from_block_fees order b = Inr fees0" "commands b = Inr cmds"
    "traverse_ok command_diffs cmds = Inr txns" "coinbase_from_precomputed parse b = Inr cb"
    "(if has_fee_transfer cb then account_diffs_coinbase_mut (fee_transfer cb) fees0 else Inr fees0) = Inr fees"
    "ld_account_diffs diff = concat txns @ coinbase_group cb @ fees"
    by (auto simp: from_precomputed_unexpanded_def run_simps coinbase_group_def as_account_diff_def
        from_coinbase_def split: if_splits)
  moreover have "\<forall>p\<in>set fees. fee_pair p \<or> via_pair p"
    using *(5) from_block_fees_pairs[OF *(1)] account_diffs_coinbase_mut_pairs
    by (auto split: if_splits)
  ultimately show thesis using that by blast
qed

lemma txns_neutral:
  assumes "traverse_ok command_diffs cmds = Inr txns" "\<forall>c\<in>set cmds. \<not> uc_is_zkapp_command c"
    "ds \<in> set (concat txns)"
  shows "mina_neutral ds"
proof -
  from assms(3) obtain dss where "dss \<in> set txns" "ds \<in> set dss" by auto
  moreover from assms(1) this(1) obtain c where "c \<in> set cmds" "command_diffs c = Inr dss"
    by (blast dest: traverse_ok_in)
  ultimately show ?thesis using assms(2) command_diffs_neutral by blast
qed

lemma block_diff_shape:
  assumes "from_precomputed parse order b = Inr diff" "commands b = Inr cmds"
    "\<forall>c\<in>set cmds. \<not> uc_is_zkapp_command c"
  obtains cb pre post where "coinbase_from_precomputed parse b = Inr cb"
    "ld_account_diffs diff = pre @ coinbase_group cb @ post"
    "\<forall>ds\<in>set pre. mina_neutral ds" "\<forall>ds\<in>set post. mina_neutral ds"
proof -
  from assms(1) obtain un created fees where un:
    "from_precomputed_unexpanded parse order b = Inr un"
    "zkapp_creation_fees created (expand (ld_account_diffs un)) = Inr fees"
    "ld_account_diffs diff = (if fees \<noteq> [] then fees # expand (ld_account_diffs un)
       else expand (ld_account_diffs un))"
    by (auto simp: from_precomputed_def run_simps Let_def)
  from un(1) obtain cmds' txns cb post where sh:
    "commands b = Inr cmds'" "traverse_ok command_diffs cmds' = Inr txns"
    "coinbase_from_precomputed parse b = Inr cb" "\<forall>p\<in>set post. fee_pair p \<or> via_pair p"
    "ld_account_diffs un = concat txns @ coinbase_group cb @ post" by (rule unexpanded_shape)
  have neutral: "\<forall>ds\<in>set (concat txns). mina_neutral ds" "\<forall>ds\<in>set post. mina_neutral ds"
    using txns_neutral[OF sh(2)] assms(2,3) sh(1,4) pair_neutral by auto
  then have all: "\<forall>d\<in>set (concat (ld_account_diffs un)). zkapp_token_account d = None"
    unfolding sh(5)
    by (auto simp: coinbase_group_def split: if_splits) (meson neutral_accounts)+
  then have id: "expand (ld_account_diffs un) = ld_account_diffs un"
    by (intro expand_id) (auto simp: zkapp_token_account_not_zkapp)
  from un(2) zkapp_creation_fees_none[OF all, of created] have "fees = []" by (simp add: id)
  with un(3) id sh(5) have "ld_account_diffs diff = concat txns @ coinbase_group cb @ post" by simp
  with sh(3) neutral that show thesis by blast
qed

definition block_reward :: "coinbase_record \<Rightarrow> u64" where
  "block_reward cb = (if is_coinbase_applied cb then coinbase_amount cb else 0)"

lemma neutral_groups_sum:
  assumes "\<forall>ds\<in>set dss. mina_neutral ds"
  shows "sum_list (map balance_change
    (filter (\<lambda>d. diff_token_address d = token_address_default) (concat dss))) = 0"
  using assms
proof (induction dss)
  case (Cons ds dss)
  from Cons.prems have "filter (\<lambda>d. diff_token_address d = token_address_default) ds = ds"
    by (intro filter_True) (simp add: mina_neutral_def)
  with Cons show ?case by (simp add: mina_neutral_def)
qed simp

lemma block_diff_sum:
  assumes "from_precomputed parse order b = Inr diff" "commands b = Inr cmds"
    "\<forall>c\<in>set cmds. \<not> uc_is_zkapp_command c" "coinbase_from_precomputed parse b = Inr cb"
  shows "sum_list (map balance_change
     (filter (\<lambda>d. diff_token_address d = token_address_default) (concat (ld_account_diffs diff)))) =
     block_reward cb"
proof -
  from assms(1-3) obtain cb' pre post where "coinbase_from_precomputed parse b = Inr cb'"
    "ld_account_diffs diff = pre @ coinbase_group cb' @ post"
    "\<forall>ds\<in>set pre. mina_neutral ds" "\<forall>ds\<in>set post. mina_neutral ds"
    by (rule block_diff_shape)
  with assms(4) show ?thesis
    by (simp add: neutral_groups_sum block_reward_def coinbase_group_def)
qed

section \<open>The total after a block\<close>

lemma ledger_block_total:
  assumes "ledger_inv l" "from_precomputed parse order b = Inr diff" "commands b = Inr cmds"
    "\<forall>c\<in>set cmds. \<not> uc_is_zkapp_command c" "coinbase_from_precomputed parse b = Inr cb"
    "ledger_covered (ld_account_diffs diff) l"
    "ledger_apply_diff_from_precomputed parse order b l = Inr l'"
  shows "token_total token_address_default l' = token_total token_address_default l + block_reward cb"
proof -
  from assms(2,7) have "ledger_apply_diff diff l = Inr l'"
    by (simp add: ledger_apply_diff_from_precomputed_def)
  from ledger_apply_diff_total_change[OF assms(1) this assms(6)] block_diff_sum[OF assms(2-5)]
  show ?thesis by simp
qed

section \<open>Valid blocks\<close>

definition hex32_valid :: "string \<Rightarrow> bool" where
  "hex32_valid s \<longleftrightarrow> starts_with s ''0x'' \<and> length s = 66"

definition elt_valid :: "elt \<Rightarrow> bool" where
  "elt_valid e \<longleftrightarrow>
     (let body = elt_body e; states = up_app_state (aub_update body) in
      length states = ZKAPP_STATE_FIELD_ELEMENTS_NUM \<and>
      (\<forall>k\<in>set states. \<forall>s. update_to_option k = Some s \<longrightarrow> hex32_valid s) \<and>
      list_all hex32_valid (first_or_empty (aub_actions body)) \<and>
      list_all hex32_valid (first_or_empty (aub_events body)))"

fun command_valid :: "user_command_with_status \<Rightarrow> bool" where
  "command_valid (UcV1 c) \<longleftrightarrow> True"
| "command_valid (UcV2 c) \<longleftrightarrow>
     (case uc2_data c of
        SignedCommandData _ \<Rightarrow> True
      | ZkappCommandData z \<Rightarrow>
          list_all (\<lambda>u. list_all elt_valid (u # elt_calls u)) (zc_account_updates z))"

fun block_valid :: "(string \<Rightarrow> amount option) \<Rightarrow> precomputed_block \<Rightarrow> bool" where
  "block_valid parse (V1 b) \<longleftrightarrow> True"
| "block_valid parse (V2 b) \<longleftrightarrow>
     2 \<le> length (b2_diff b) \<and> b2_diff b ! 0 \<noteq> None \<and>
     list_all (\<lambda>c. parse (snd c) = Some MAINNET_ACCOUNT_CREATION_FEE) (b2_accounts_created b) \<and>
     list_all (\<lambda>d. case d of None \<Rightarrow> True
                 | Some diff \<Rightarrow> list_all (\<lambda>c. command_valid (UcV2 c)) (d2_commands diff))
       (take 2 (b2_diff b))"

lemma hex32_from_valid: "hex32_valid s \<Longrightarrow> hex32_from s = Inr s"
  by (simp add: hex32_from_def hex32_valid_def)

lemma app_state_update_valid:
  "(\<And>s. update_to_option k = Some s \<Longrightarrow> hex32_valid s) \<Longrightarrow> app_state_update k = Inr (update_to_option k)"
  by (cases k) (auto simp: app_state_update_def app_state_from_def hex32_from_valid)

lemma account_diff_from_elt_valid:
  assumes "elt_valid e"
  shows "\<exists>z. account_diff_from_elt fee_payer nonce e = Inr (Zkapp z) \<and>
    length (zd_app_state_diff z) = ZKAPP_STATE_FIELD_ELEMENTS_NUM \<and>
    zd_payment_diffs z = elt_payment_diffs fee_payer nonce (elt_body e)"
proof -
  let ?body = "elt_body e"
  have "traverse_ok action_state_from (first_or_empty (aub_actions ?body)) =
      Inr (map id (first_or_empty (aub_actions ?body)))"
    "traverse_ok zkapp_event_from (first_or_empty (aub_events ?body)) =
      Inr (map id (first_or_empty (aub_events ?body)))"
    "traverse_ok app_state_update (up_app_state (aub_update ?body)) =
      Inr (map update_to_option (up_app_state (aub_update ?body)))"
    using assms
    by (intro traverse_ok_total;
        auto simp: elt_valid_def Let_def list_all_iff action_state_from_def zkapp_event_from_def
          hex32_from_valid intro: app_state_update_valid)+
  with assms show ?thesis by (simp add: account_diff_from_elt_def Let_def elt_valid_def)
qed

definition zkapp_diff_wf :: "account_diff \<Rightarrow> bool" where
  "zkapp_diff_wf d \<longleftrightarrow> (\<forall>x\<in>set (expand_diff d). diff_wf x)"

lemma from_elt_wf:
  assumes "elt_valid e" "account_diff_from_elt fee_payer nonce e = Inr d"
  shows "zkapp_diff_wf d"
proof -
  from account_diff_from_elt_valid[OF assms(1), of fee_payer nonce] assms(2) obtain z where z: "d = Zkapp z"
    "length (zd_app_state_diff z) = ZKAPP_STATE_FIELD_ELEMENTS_NUM"
    "zd_payment_diffs z = elt_payment_diffs fee_payer nonce (elt_body e)" by auto
  have "diff_wf (expand_payment_diff p)" if "p \<in> set (zd_payment_diffs z)" for p
    using that z(3) by (auto simp: elt_payment_diffs_def Let_def split: if_splits)
  with z(2) have "diff_wf x" if "x \<in> set (zkapp_diff_expand z)" for x
    using that unfolding zkapp_diff_expand_def
    by (auto simp: expand_parts_defs split: option.splits if_splits)
  with z(1) show ?thesis by (simp add: zkapp_diff_wf_def)
qed

lemma command_diffs_total:
  assumes "command_valid cmd"
  shows "\<exists>dss. command_diffs cmd = Inr dss \<and> (\<forall>d\<in>set (concat dss). zkapp_diff_wf d)"
proof (cases "uc_is_applied cmd \<and> uc_is_zkapp_command cmd")
  case False
  then show ?thesis
    by (cases "to_command cmd")
      (auto simp: command_diffs_def to_command_zkapp_iff zkapp_diff_wf_def)
next
  case True
  then obtain z where z: "to_command cmd = ZkappCmd z" by (auto simp: to_command_zkapp_iff)
  then have valid: "list_all (\<lambda>u. list_all elt_valid (u # elt_calls u)) (zc_account_updates z)"
    using assms
    by (cases cmd) (auto split: user_command_data.splits signed_body_v1.splits signed_body_v2.splits)
  let ?f = "account_diff_from_elt (fp_public_key (zc_fee_payer z)) (fp_nonce (zc_fee_payer z))"
  have elts: "\<exists>ds. traverse_ok ?f es = Inr ds \<and> (\<forall>d\<in>set ds. zkapp_diff_wf d)"
    if "list_all elt_valid es" for es
    using that account_diff_from_elt_valid from_elt_wf
    by (intro traverse_ok_ex) (fastforce simp: list_all_iff)
  have "\<exists>dss. traverse_ok (\<lambda>u. traverse_ok ?f (u # elt_calls u)) (zc_account_updates z) = Inr dss \<and>
      (\<forall>ds\<in>set dss. \<forall>d\<in>set ds. zkapp_diff_wf d)"
    by (rule traverse_ok_ex) (use valid elts in \<open>simp add: list_all_iff del: traverse_ok.simps\<close>)
  with True z show ?thesis by (auto simp: command_diffs_def Let_def simp del: traverse_ok.simps)
qed


lemma max_kind_total: "ks \<noteq> [] \<Longrightarrow> \<exists>k. max_kind ks = Some k"
  by (cases ks) simp_all

lemma block_valid_diffs:
  assumes "block_valid parse (V2 b)"
  obtains d0 d1 rest where "b2_diff b = Some d0 # d1 # rest"
proof -
  from assms obtain x y rest where "b2_diff b = x # y # rest"
    by (cases "b2_diff b" rule: remdups_adj.cases) auto
  with assms that show thesis by auto
qed

lemma commands_total:
  assumes "block_valid parse b"
  shows "\<exists>pre post. commands_pre_diff b = Inr pre \<and> commands_post_diff b = Inr post \<and>
    commands b = Inr (pre @ post) \<and> (\<forall>c\<in>set (pre @ post). command_valid c)"
proof (cases b)
  case (V1 v)
  then show ?thesis by (auto simp: commands_def split: option.splits)
next
  case (V2 v)
  from assms[unfolded V2] obtain d0 d1 rest where d: "b2_diff v = Some d0 # d1 # rest"
    by (rule block_valid_diffs)
  with assms V2 show ?thesis
    by (cases d1) (auto simp: commands_def index_ok_def list_all_iff)
qed

lemma completed_works_total:
  assumes "block_valid parse b"
  shows "\<exists>works. completed_works b = Inr works"
proof (cases b)
  case (V2 v)
  from assms[unfolded V2] obtain d0 d1 rest where "b2_diff v = Some d0 # d1 # rest"
    by (rule block_valid_diffs)
  with V2 show ?thesis by (simp add: completed_works_def index_ok_def)
qed (simp add: completed_works_def)

lemma coinbase_kinds_total:
  assumes "block_valid parse b"
  shows "\<exists>k ks. coinbase_kinds b = Inr (k # ks)"
proof (cases b)
  case (V2 v)
  from assms[unfolded V2] obtain d0 d1 rest where "b2_diff v = Some d0 # d1 # rest"
    by (rule block_valid_diffs)
  with V2 show ?thesis by (simp add: coinbase_kinds_def index_ok_def)
qed (simp add: coinbase_kinds_def)

lemma created_from_command_v1: "\<exists>m. created_from_command (UcV1 c) bals = Inr m"
  by (auto simp: created_from_command_def Let_def split: signed_body_v1.splits)

lemma accounts_created_v2_total:
  assumes "block_valid parse b"
  shows "\<exists>cs. accounts_created_v2 parse b = Inr cs \<and>
    (\<forall>c\<in>set cs. ac_creation_fee c = MAINNET_ACCOUNT_CREATION_FEE)"
proof (cases b)
  case (V2 v)
  show ?thesis unfolding V2 accounts_created_v2.simps
    by (rule traverse_ok_ex) (use assms V2 in \<open>auto simp: list_all_iff account_created_from_def\<close>)
qed simp

lemma accounts_created_total:
  assumes "block_valid parse b"
  shows "\<exists>r. accounts_created parse b = Inr r"
proof (cases b)
  case (V1 v)
  obtain cmds where cmds: "commands b = Inr (map UcV1 cmds)"
  proof
    show "commands b = Inr (map UcV1 (d1_commands (b1_pre_diff v) @
        (case b1_post_diff v of None \<Rightarrow> [] | Some d \<Rightarrow> d1_commands d)))"
      using V1 by (simp add: commands_def split: option.splits)
  qed
  have "\<exists>m. fold_ok created_from_command (map UcV1 cmds) bals = Inr m \<and> True" for bals
    by (rule fold_ok_total) (use created_from_command_v1 in auto)
  with cmds V1 show ?thesis
    by (auto simp: accounts_created_def Let_def run_simps split: option.splits)
next
  case (V2 v)
  from accounts_created_v2_total[OF assms] V2 show ?thesis
    by (auto simp: accounts_created_def Let_def simp del: accounts_created_v2.simps split: prod.splits)
qed

lemma coinbase_total:
  assumes "block_valid parse b"
  shows "\<exists>cb. coinbase_from_precomputed parse b = Inr cb"
  using coinbase_kinds_total[OF assms] accounts_created_total[OF assms]
  by (auto simp: coinbase_from_precomputed_def)

lemma from_block_fees_total:
  assumes "block_valid parse b"
  shows "\<exists>fees. from_block_fees order b = Inr fees"
  using commands_total[OF assms] completed_works_total[OF assms]
  by (auto simp: from_block_fees_def from_transaction_fees_def from_snark_fees_def)

lemma active_public_keys_total:
  assumes "block_valid parse b"
  shows "\<exists>ks. active_public_keys parse b = Inr ks"
  using coinbase_total[OF assms] commands_total[OF assms] by (auto simp: active_public_keys_def)

lemma mut_total:
  assumes "has_fee_transfer cb"
  shows "\<exists>fees'. account_diffs_coinbase_mut (fee_transfer cb) fees = Inr fees'"
proof -
  from assms obtain t ts where "get_transfers cb = t # ts"
    by (cases "get_transfers cb") (auto simp: has_fee_transfer_def)
  then have "fee_transfer cb = create_payment_diffs cb t # map (create_payment_diffs cb) ts"
    by (simp add: fee_transfer_def)
  then show ?thesis by (rule account_diffs_coinbase_mut_total) (simp add: create_payment_diffs_def)
qed


lemma zkapp_creation_fees_total:
  assumes "\<forall>c\<in>set created. ac_creation_fee c = MAINNET_ACCOUNT_CREATION_FEE"
  shows "\<exists>fees. zkapp_creation_fees created diffs = Inr fees \<and> (\<forall>d\<in>set fees. diff_wf d)"
proof -
  let ?es = "map (\<lambda>a. ((ac_public_key a, ac_token a), ac_creation_fee a)) created"
  let ?keys = "set (map fst ?es) \<inter> {k. Some k \<in> zkapp_token_account ` set (concat diffs)}"
  have "\<exists>d. map_ok (\<lambda>fee. ZkappAccountCreationFee
          \<lparr>zcf_public_key = fst k, zcf_token = snd k, zcf_amount = fee\<rparr>)
        (unwrap (map_of (rev ?es) k)) = Inr d \<and> diff_wf d"
    if "k \<in> set (sorted_list_of_set ?keys)" for k
  proof -
    from that have "k \<in> ?keys" by simp
    then have "k \<in> fst ` set (rev ?es)" by (simp only: Int_iff set_map set_rev)
    then have "map_of (rev ?es) k \<noteq> None" by (simp only: map_of_eq_None_iff not_not)
    then obtain fee where fee: "map_of (rev ?es) k = Some fee" by blast
    then have "(k, fee) \<in> set (rev ?es)" by (rule map_of_SomeD)
    with assms have "fee = MAINNET_ACCOUNT_CREATION_FEE" by auto
    with fee show ?thesis by simp
  qed
  then show ?thesis unfolding zkapp_creation_fees_def Let_def by (rule traverse_ok_ex)
qed

lemma pair_wf: "fee_pair p \<or> via_pair p \<Longrightarrow> d \<in> set p \<Longrightarrow> zkapp_diff_wf d"
  by (auto simp: fee_pair_def via_pair_def transfer_pair_def zkapp_diff_wf_def)

lemma from_precomputed_unexpanded_total:
  assumes "block_valid parse b"
  shows "\<exists>diff. from_precomputed_unexpanded parse order b = Inr diff \<and>
    (\<forall>d\<in>set (concat (ld_account_diffs diff)). zkapp_diff_wf d)"
proof -
  obtain cmds where cmds: "commands b = Inr cmds" "\<forall>c\<in>set cmds. command_valid c"
    using commands_total[OF assms] by blast
  obtain txns where txns: "traverse_ok command_diffs cmds = Inr txns"
    "\<forall>dss\<in>set txns. \<forall>d\<in>set (concat dss). zkapp_diff_wf d"
    using traverse_ok_ex[of cmds command_diffs "\<lambda>dss. \<forall>d\<in>set (concat dss). zkapp_diff_wf d"]
      command_diffs_total cmds(2) by blast
  obtain cb created keys fees where ok: "coinbase_from_precomputed parse b = Inr cb"
    "accounts_created parse b = Inr created" "active_public_keys parse b = Inr keys"
    "from_block_fees order b = Inr fees"
    using coinbase_total[OF assms] accounts_created_total[OF assms]
      active_public_keys_total[OF assms] from_block_fees_total[OF assms, of order] by blast
  have "\<exists>fees'. (if has_fee_transfer cb then account_diffs_coinbase_mut (fee_transfer cb) fees
      else Inr fees) = Inr fees'" using mut_total by simp
  moreover have "\<exists>c. (if is_coinbase_applied cb
      then map_ok (\<lambda>d. [d]) (index_ok (as_account_diff cb) 0) else Inr []) = Inr c"
    by (simp add: as_account_diff_def from_coinbase_def index_ok_def)
  ultimately obtain diff where diff: "from_precomputed_unexpanded parse order b = Inr diff"
    unfolding from_precomputed_unexpanded_def by (auto simp only: ok cmds txns bind_ok.simps)
  from diff obtain cmds' txns' cb fees where sh:
    "commands b = Inr cmds'" "traverse_ok command_diffs cmds' = Inr txns'"
    "\<forall>p\<in>set fees. fee_pair p \<or> via_pair p"
    "ld_account_diffs diff = concat txns' @ coinbase_group cb @ fees" by (rule unexpanded_shape)
  have "txns' = txns" using sh(1,2) cmds(1) txns(1) by simp
  moreover have "\<forall>p\<in>set fees. \<forall>d\<in>set p. zkapp_diff_wf d" using sh(3) pair_wf by blast
  moreover have "\<forall>p\<in>set (coinbase_group cb). \<forall>d\<in>set p. zkapp_diff_wf d"
    by (simp add: coinbase_group_def zkapp_diff_wf_def)
  ultimately show ?thesis using diff txns(2) by (auto simp: sh(4))
qed

lemma from_precomputed_total:
  assumes "block_valid parse b"
  shows "\<exists>diff. from_precomputed parse order b = Inr diff \<and>
    (\<forall>d\<in>set (concat (ld_account_diffs diff)). diff_wf d)"
proof -
  obtain un where un: "from_precomputed_unexpanded parse order b = Inr un"
    "\<forall>d\<in>set (concat (ld_account_diffs un)). zkapp_diff_wf d"
    using from_precomputed_unexpanded_total[OF assms] by blast
  obtain created where created: "accounts_created_v2 parse b = Inr created"
    "\<forall>c\<in>set created. ac_creation_fee c = MAINNET_ACCOUNT_CREATION_FEE"
    using accounts_created_v2_total[OF assms] by blast
  obtain fees where fees: "zkapp_creation_fees created (expand (ld_account_diffs un)) = Inr fees"
    "\<forall>d\<in>set fees. diff_wf d" using zkapp_creation_fees_total[OF created(2)] by blast
  have "\<forall>d\<in>set (concat (expand (ld_account_diffs un))). diff_wf d"
    using un(2) by (auto simp: expand_def zkapp_diff_wf_def)
  with un(1) created(1) fees show ?thesis by (simp add: from_precomputed_def Let_def)
qed

lemma ledger_block_safe:
  assumes "block_valid parse b" "ledger_wf l"
  shows "\<exists>l'. ledger_apply_diff_from_precomputed parse order b l = Inr l' \<and> ledger_wf l'"
proof -
  obtain diff where "from_precomputed parse order b = Inr diff"
    "\<forall>d\<in>set (concat (ld_account_diffs diff)). diff_wf d"
    using from_precomputed_total[OF assms(1)] by blast
  with ledger_apply_diff_total[OF assms(2)] show ?thesis
    by (simp add: ledger_apply_diff_from_precomputed_def)
qed

section \<open>The example block\<close>

lemma example_created:
  "accounts_created parse example_block = Inr (Map.empty, None)"
  "accounts_created_v2 parse example_block = Inr []"
proof -
  have "created_from_command (UcV1 example_command) Map.empty = Inr Map.empty"
    by (simp add: created_from_command_def example_command_def
        fee_payer_account_creation_fee_paid_def receiver_account_creation_fee_paid_def)
  moreover have "coinbase_receiver_balance example_block = None"
    by (simp add: example_block_def)
  moreover have "example_block \<noteq> V2 b" for b by (simp add: example_block_def)
  ultimately show "accounts_created parse example_block = Inr (Map.empty, None)"
    by (auto simp: accounts_created_def split: precomputed_block.splits)
qed (simp add: example_block_def)

lemma example_coinbase:
  "coinbase_from_precomputed parse example_block =
     Inr \<lparr>cb_kind = CbOne None, cb_receiver = ''carol'', cb_supercharge = False,
       cb_is_new_account = False, cb_receiver_balance = None\<rparr>"
proof -
  have "coinbase_kinds example_block = Inr [CbOne None]" "supercharge_coinbase example_block = False"
    "coinbase_receiver_balance example_block = None"
    by (simp_all add: example_block_def coinbase_kinds_def supercharge_coinbase_def
        consensus_state_of_def example_state_def)
  then show ?thesis by (simp add: coinbase_from_precomputed_def example_created)
qed

lemma example_block_diff:
  "\<exists>diff. from_precomputed parse (\<lambda>_ m. m) example_block = Inr diff \<and>
     ld_account_diffs diff =
       [example_payment ''alice'' ''bob'' 30 4,
        [CoinbaseD \<lparr>cd_public_key = ''carol'', cd_amount = MAINNET_COINBASE_REWARD\<rparr>],
        transfer_pair FeeTransfer ''alice'' ''carol'' 10 None,
        transfer_pair FeeTransfer ''carol'' ''dave'' 4 None]"
proof -
  obtain ks where "active_public_keys parse example_block = Inr ks"
    using active_public_keys_total[of parse example_block] by (auto simp: example_block_def)
  moreover have "command_diffs (UcV1 example_command) = Inr [example_payment ''alice'' ''bob'' 30 4]"
    by (simp add: command_diffs_def example_payment_def nonce_add_def sat_add_def)
  ultimately show ?thesis
    by (simp add: from_precomputed_def from_precomputed_unexpanded_def example_coinbase example_fees(1)
      example_created has_fee_transfer_def get_transfers_def is_coinbase_applied_def as_account_diff_def
      index_ok_def from_coinbase_def coinbase_amount_def expand_def example_payment_def transfer_pair_def
      zkapp_creation_fees_def)
qed

lemma example_covered:
  "ledger_covered
     [example_payment ''alice'' ''bob'' 30 4,
      [CoinbaseD \<lparr>cd_public_key = ''carol'', cd_amount = MAINNET_COINBASE_REWARD\<rparr>],
      transfer_pair FeeTransfer ''alice'' ''carol'' 10 None,
      transfer_pair FeeTransfer ''carol'' ''dave'' 4 None] example_ledger"
  unfolding example_ledger_def
  by (subst ledger_covered_mina[OF example_token_ledger_wf])
    (simp_all add: example_payment_def transfer_pair_def token_apply_account_diff_def Let_def account_payment_def
      credit_def debit_def coinbase_def example_token_ledger_def example_account_def
      example_receiver_def unwrap_or_def amount_add_def amount_sub_def sat_sub_def fresh_account_def
      MAINNET_COINBASE_REWARD_def)

text \<open>A V2 block whose zkapp command sets one app state, emits an event and opens a token account.\<close>

definition example_update :: elt where
  "example_update = Elt \<lparr>aub_public_key = ''bob'', aub_token_id = ''t'',
     aub_update = \<lparr>
       up_app_state = SetTo ''Set'' app_state_default # replicate 7 (Keep ''Keep''),
       up_delegate = Keep ''Keep'', up_verification_key = Keep ''Keep'',
       up_permissions = Keep ''Keep'', up_zkapp_uri = SetTo ''Set'' ''https'',
       up_token_symbol = Keep ''Keep'', up_timing = Keep ''Keep'', up_voting_for = Keep ''Keep''\<rparr>,
     aub_balance_change = \<lparr>sa_magnitude = 3, sa_sgn = Pos\<rparr>, aub_increment_nonce = False,
     aub_events = [[app_state_default]], aub_actions = [],
     aub_implicit_account_creation_fee = False, aub_authorization_kind = AuthNoneGiven ''None_given''\<rparr> []"

definition example_zkapp_block :: precomputed_block where
  "example_zkapp_block = V2 \<lparr>b2_network = ''mainnet'', b2_state_hash = ''3N2'',
     b2_blockchain_length = 400000, b2_protocol_state = example_state,
     b2_diff = [Some \<lparr>d2_completed_works = [],
        d2_commands = [\<lparr>uc2_data = ZkappCommandData \<lparr>zc_memo = [],
             zc_fee_payer = \<lparr>fp_public_key = ''alice'', fp_fee = 1, fp_nonce = 3\<rparr>,
             zc_account_updates = [example_update]\<rparr>, uc2_status = StatusV2 AppliedKind\<rparr>],
        d2_coinbase = OneV2 None\<rparr>, None],
     b2_tokens_used = [], b2_accounts_accessed = [], b2_accounts_created = [((''bob'', ''t''), ''1'')]\<rparr>"

definition example_parse :: "string \<Rightarrow> amount option" where
  "example_parse s = (if s = ''1'' then Some MAINNET_ACCOUNT_CREATION_FEE else None)"

section \<open>Properties of block application\<close>

text \<open>
  C1: applying a valid block without zkapp commands succeeds and changes the total MINA supply of the
  ledger (the wrapping sum of all balances) by exactly the coinbase reward: transaction fees, snark
  fees and payments only move balances.  Every debit must be covered by the balance it is taken from.
\<close>

theorem block_supply:
  assumes "block_valid parse b" "ledger_wf l" "from_precomputed parse order b = Inr diff"
    "commands b = Inr cmds" "\<forall>c\<in>set cmds. \<not> uc_is_zkapp_command c"
    "ledger_covered (ld_account_diffs diff) l"
  shows "\<exists>cb l'. coinbase_from_precomputed parse b = Inr cb \<and>
    ledger_apply_diff_from_precomputed parse order b l = Inr l' \<and>
    token_total token_address_default l' = token_total token_address_default l + block_reward cb"
proof -
  obtain cb l' where "coinbase_from_precomputed parse b = Inr cb"
    "ledger_apply_diff_from_precomputed parse order b l = Inr l'"
    using coinbase_total[OF assms(1)] ledger_block_safe[OF assms(1,2)] by blast
  moreover have "ledger_inv l" using assms(2) by (simp add: ledger_wf_def)
  ultimately show ?thesis using ledger_block_total assms(3-6) by blast
qed

theorem block_supply_witness:
  "\<exists>cb l'. coinbase_from_precomputed (\<lambda>_. None) example_block = Inr cb \<and>
     ledger_apply_diff_from_precomputed (\<lambda>_. None) (\<lambda>_ m. m) example_block example_ledger = Inr l' \<and>
     token_total token_address_default l' =
       token_total token_address_default example_ledger + block_reward cb"
proof -
  obtain diff where "from_precomputed (\<lambda>_. None) (\<lambda>_ m. m) example_block = Inr diff"
    "ledger_covered (ld_account_diffs diff) example_ledger"
    using example_block_diff[of "\<lambda>_. None"] example_covered by auto
  moreover have "block_valid (\<lambda>_. None) example_block" by (simp add: example_block_def)
  ultimately show ?thesis
    using block_supply[OF _ example_ledger_wf, of _ example_block] by simp
qed

text \<open>
  C2: applying a valid block to a well-formed ledger never panics and leaves the ledger well-formed,
  zkapp commands and account creations included.
\<close>

theorem block_apply_safe:
  assumes "block_valid parse b" "ledger_wf l"
  shows "\<exists>l'. ledger_apply_diff_from_precomputed parse order b l = Inr l' \<and> ledger_wf l'"
  using assms by (rule ledger_block_safe)

theorem block_apply_safe_witness:
  "block_valid example_parse example_zkapp_block \<and>
   (\<exists>l'. ledger_apply_diff_from_precomputed example_parse (\<lambda>_ m. m) example_zkapp_block example_ledger =
      Inr l' \<and> ledger_wf l')"
proof
  show valid: "block_valid example_parse example_zkapp_block"
    by (simp add: example_zkapp_block_def example_update_def example_parse_def elt_valid_def
        first_or_empty_def app_state_default_def hex32_valid_def starts_with_def
        ZKAPP_STATE_FIELD_ELEMENTS_NUM_def)
  from block_apply_safe[OF this example_ledger_wf]
  show "\<exists>l'. ledger_apply_diff_from_precomputed example_parse (\<lambda>_ m. m) example_zkapp_block example_ledger =
      Inr l' \<and> ledger_wf l'" .
qed

end
