(* ===== verification/Internal_Commands.thy ===== *)
theory Internal_Commands
  imports Block_Ledgers
begin

text \<open>
  Internal commands (\<open>command/internal/mod.rs\<close>): the coinbase and the fee transfers of a block, as
  computed from its fee diffs, and their aggregated form in the database.
\<close>

datatype internal_command =
    CoinbaseIC public_key u64
  | FeeTransferIC public_key public_key u64
  | FeeTransferViaCoinbaseIC public_key public_key u64

text \<open>
  A pair of fee transfers is added to the first command with the same sender and receiver, or else
  pushed.
\<close>

fun add_fee_transfer ::
    "payment_diff \<Rightarrow> payment_diff \<Rightarrow> internal_command list \<Rightarrow> internal_command list" where
  "add_fee_transfer r s [] = [FeeTransferIC (pd_public_key s) (pd_public_key r) (pd_amount s)]"
| "add_fee_transfer r s (FeeTransferIC sender receiver amount # cmds) =
     (if sender = pd_public_key s \<and> receiver = pd_public_key r
      then FeeTransferIC sender receiver (amount + pd_amount r) # cmds
      else FeeTransferIC sender receiver amount # add_fee_transfer r s cmds)"
| "add_fee_transfer r s (cmd # cmds) = cmd # add_fee_transfer r s cmds"

definition internal_pair :: "account_diff \<Rightarrow> account_diff \<Rightarrow> internal_command list \<Rightarrow> internal_command list run" where
  "internal_pair credit_diff debit_diff cmds =
     bind_ok (diff_amount debit_diff) (\<lambda>d.
     bind_ok (diff_amount credit_diff) (\<lambda>c.
     if d + c \<noteq> 0 then Inl PanicCall
     else case (credit_diff, debit_diff) of
       (FeeTransfer r, FeeTransfer s) \<Rightarrow> Inr (add_fee_transfer r s cmds)
     | (FeeTransferViaCoinbase r, FeeTransferViaCoinbase s) \<Rightarrow>
         Inr (cmds @ [FeeTransferViaCoinbaseIC (pd_public_key s) (pd_public_key r) (pd_amount s)])
     | _ \<Rightarrow> Inl PanicCall))"

definition internal_group :: "account_diff list \<Rightarrow> internal_command list \<Rightarrow> internal_command list run" where
  "internal_group diffs cmds =
     (case diffs of
        [c, d] \<Rightarrow> internal_pair c d cmds
      | [imbalanced] \<Rightarrow>
          (case imbalanced of
             CoinbaseD c \<Rightarrow> Inr (cmds @ [CoinbaseIC (cd_public_key c) (cd_amount c)])
           | _ \<Rightarrow> Inl PanicCall)
      | _ \<Rightarrow> Inl PanicCall)"

definition as_internal_cmd :: "coinbase_record \<Rightarrow> internal_command" where
  "as_internal_cmd c =
     CoinbaseIC (cb_receiver c)
       (if cb_supercharge c then 2 * MAINNET_COINBASE_REWARD else MAINNET_COINBASE_REWARD)"

definition internal_from_precomputed ::
    "(string \<Rightarrow> amount option) \<Rightarrow> hash_order \<Rightarrow> precomputed_block \<Rightarrow> internal_command list run" where
  "internal_from_precomputed parse_amount order b =
     bind_ok (from_block_fees order b) (\<lambda>fees.
     bind_ok (coinbase_from_precomputed parse_amount b) (\<lambda>cb.
     bind_ok (if has_fee_transfer cb then account_diffs_coinbase_mut (fee_transfer cb) fees
              else Inr fees) (\<lambda>fees'.
     map_ok (\<lambda>cmds. if is_coinbase_applied cb then as_internal_cmd cb # cmds else cmds)
       (fold_ok internal_group fees' []))))"

section \<open>Database form\<close>

datatype db_internal_command =
    DbCoinbase (db_amount: u64) (db_receiver: public_key)
  | DbFeeTransfer (db_amount: u64) (db_receiver: public_key)
  | DbFeeTransferViaCoinbase (db_amount: u64) (db_receiver: public_key)

fun db_from_internal :: "internal_command \<Rightarrow> db_internal_command" where
  "db_from_internal (CoinbaseIC receiver amount) = DbCoinbase amount receiver"
| "db_from_internal (FeeTransferIC _ receiver amount) = DbFeeTransfer amount receiver"
| "db_from_internal (FeeTransferViaCoinbaseIC _ receiver amount) =
     DbFeeTransferViaCoinbase amount receiver"

text \<open>
  The two \<open>HashMap\<close>s, keyed by receiver and by sender, as association lists; \<open>into_values\<close> followed
  by \<open>sort\<close> does not depend on their order.
\<close>

type_synonym db_map = "(public_key \<times> db_internal_command) list"

fun db_add :: "(db_internal_command \<Rightarrow> bool) \<Rightarrow> (u64 \<Rightarrow> db_internal_command \<Rightarrow> db_internal_command) \<Rightarrow>
    public_key \<Rightarrow> u64 \<Rightarrow> db_internal_command \<Rightarrow> db_map \<Rightarrow> db_map run" where
  "db_add is_kind bump k amt new [] = Inr [(k, new)]"
| "db_add is_kind bump k amt new ((k', v) # m) =
     (if k' = k then (if is_kind v then Inr ((k', bump amt v) # m) else Inl PanicCall)
      else map_ok ((#) (k', v)) (db_add is_kind bump k amt new m))"

fun db_bump :: "u64 \<Rightarrow> db_internal_command \<Rightarrow> db_internal_command" where
  "db_bump amt (DbCoinbase a r) = DbCoinbase (a + amt) r"
| "db_bump amt (DbFeeTransfer a r) = DbFeeTransfer (a + amt) r"
| "db_bump amt (DbFeeTransferViaCoinbase a r) = DbFeeTransferViaCoinbase (a + amt) r"

record db_maps =
  dm_coinbase :: "db_internal_command option"
  dm_fee_transfers :: db_map
  dm_via_coinbase :: db_map

definition db_step :: "internal_command \<Rightarrow> db_maps \<Rightarrow> db_maps run" where
  "db_step cmd st =
     (case cmd of
        CoinbaseIC _ _ \<Rightarrow> Inr (st\<lparr>dm_coinbase := Some (db_from_internal cmd)\<rparr>)
      | FeeTransferIC _ receiver amt \<Rightarrow>
          map_ok (\<lambda>m. st\<lparr>dm_fee_transfers := m\<rparr>)
            (db_add is_DbFeeTransfer db_bump receiver amt (db_from_internal cmd)
              (dm_fee_transfers st))
      | FeeTransferViaCoinbaseIC sender _ amt \<Rightarrow>
          map_ok (\<lambda>m. st\<lparr>dm_via_coinbase := m\<rparr>)
            (db_add is_DbFeeTransferViaCoinbase db_bump sender amt (db_from_internal cmd)
              (dm_via_coinbase st)))"

fun db_rank :: "db_internal_command \<Rightarrow> nat" where
  "db_rank (DbCoinbase _ _) = 0"
| "db_rank (DbFeeTransfer _ _) = 1"
| "db_rank (DbFeeTransferViaCoinbase _ _) = 2"

definition db_key :: "db_internal_command \<Rightarrow> nat \<times> u64 \<times> public_key" where
  "db_key c = (db_rank c, db_amount c, db_receiver c)"

definition db_commands :: "internal_command list \<Rightarrow> db_internal_command list run" where
  "db_commands cmds =
     map_ok (\<lambda>st.
       (case dm_coinbase st of Some cb \<Rightarrow> [cb] | None \<Rightarrow> []) @
       sort_key db_key (map snd (dm_via_coinbase st)) @
       sort_key db_key (map snd (dm_fee_transfers st)))
     (fold_ok db_step cmds \<lparr>dm_coinbase = None, dm_fee_transfers = [], dm_via_coinbase = []\<rparr>)"

definition db_from_precomputed ::
    "(string \<Rightarrow> amount option) \<Rightarrow> hash_order \<Rightarrow> precomputed_block \<Rightarrow> db_internal_command list run" where
  "db_from_precomputed parse_amount order b =
     bind_ok (internal_from_precomputed parse_amount order b) db_commands"

text \<open>\<open>DbInternalCommandWithData\<close>: a fee transfer via coinbase is stored with its own kind tag.\<close>

datatype internal_command_kind = CoinbaseK | FeeTransferK | FeeTransferViaCoinbaseK

record db_metadata =
  md_receiver :: public_key
  md_amount :: u64
  md_state_hash :: state_hash
  md_kind :: internal_command_kind
  md_date_time :: "64 word"
  md_block_height :: u32

datatype db_internal_command_with_data =
    WdFeeTransfer db_metadata
  | WdCoinbase db_metadata

definition from_internal_cmd ::
    "db_internal_command \<Rightarrow> state_hash \<Rightarrow> u32 \<Rightarrow> 64 word \<Rightarrow> db_internal_command_with_data" where
  "from_internal_cmd cmd h height time =
     (let md = (\<lambda>k. \<lparr>md_receiver = db_receiver cmd, md_amount = db_amount cmd, md_state_hash = h,
                  md_kind = k, md_date_time = time, md_block_height = height\<rparr>)
      in case cmd of
        DbCoinbase _ _ \<Rightarrow> WdCoinbase (md CoinbaseK)
      | DbFeeTransfer _ _ \<Rightarrow> WdFeeTransfer (md FeeTransferK)
      | DbFeeTransferViaCoinbase _ _ \<Rightarrow> WdFeeTransfer (md FeeTransferViaCoinbaseK))"

definition with_data_from_precomputed ::
    "(string \<Rightarrow> amount option) \<Rightarrow> hash_order \<Rightarrow> precomputed_block \<Rightarrow>
     db_internal_command_with_data list run" where
  "with_data_from_precomputed parse_amount order b =
     map_ok (map (\<lambda>cmd. from_internal_cmd cmd (state_hash_of b) (blockchain_length b) (timestamp b)))
       (db_from_precomputed parse_amount order b)"

fun with_data_recipient :: "db_internal_command_with_data \<Rightarrow> public_key" where
  "with_data_recipient (WdCoinbase d) = md_receiver d"
| "with_data_recipient (WdFeeTransfer d) = md_receiver d"

fun with_data_contains_pk :: "db_internal_command_with_data \<Rightarrow> public_key \<Rightarrow> bool" where
  "with_data_contains_pk (WdCoinbase d) pk \<longleftrightarrow> pk = md_receiver d"
| "with_data_contains_pk (WdFeeTransfer d) pk \<longleftrightarrow> pk = md_receiver d"

fun with_data_kind :: "db_internal_command_with_data \<Rightarrow> u8" where
  "with_data_kind (WdCoinbase _) = 1"
| "with_data_kind (WdFeeTransfer _) = 0"

section \<open>Lemmas\<close>

fun ic_fee :: "internal_command \<Rightarrow> u64" where
  "ic_fee (CoinbaseIC _ _) = 0"
| "ic_fee (FeeTransferIC _ _ a) = a"
| "ic_fee (FeeTransferViaCoinbaseIC _ _ a) = a"

lemma add_fee_transfer_sum:
  "pd_amount r = pd_amount s \<Longrightarrow>
   sum_list (map ic_fee (add_fee_transfer r s cmds)) = sum_list (map ic_fee cmds) + pd_amount r"
  by (induction r s cmds rule: add_fee_transfer.induct) (auto simp: algebra_simps)

lemma internal_pair_transfer:
  "internal_group (transfer_pair FeeTransfer s r a None) cmds =
     Inr (add_fee_transfer
       \<lparr>pd_update_type = Credit, pd_public_key = r, pd_amount = a, pd_token = token_address_default\<rparr>
       \<lparr>pd_update_type = Debit None, pd_public_key = s, pd_amount = a,
        pd_token = token_address_default\<rparr> cmds)"
  "internal_group (transfer_pair FeeTransferViaCoinbase s r a None) cmds =
     Inr (cmds @ [FeeTransferViaCoinbaseIC s r a])"
  by (simp_all add: internal_group_def internal_pair_def transfer_pair_def payment_amount_def)

text \<open>The amount a pair of diffs moves.\<close>

definition pair_amount :: "account_diff list \<Rightarrow> u64" where
  "pair_amount p =
     (case p of
        FeeTransfer c # _ \<Rightarrow> pd_amount c
      | FeeTransferViaCoinbase c # _ \<Rightarrow> pd_amount c
      | _ \<Rightarrow> 0)"

lemma pair_amount_transfer [simp]:
  "pair_amount (transfer_pair FeeTransfer s r a n) = a"
  "pair_amount (transfer_pair FeeTransferViaCoinbase s r a n) = a"
  by (simp_all add: pair_amount_def transfer_pair_def)

lemma internal_groups_total:
  assumes "\<forall>p\<in>set fees. fee_pair p \<or> via_pair p"
  shows "\<exists>cmds'. fold_ok internal_group fees cmds = Inr cmds' \<and>
    sum_list (map ic_fee cmds') = sum_list (map ic_fee cmds) + sum_list (map pair_amount fees)"
  using assms
proof (induction fees arbitrary: cmds)
  case (Cons p fees)
  from Cons.prems have "\<exists>cmds1. internal_group p cmds = Inr cmds1 \<and>
      sum_list (map ic_fee cmds1) = sum_list (map ic_fee cmds) + pair_amount p"
    by (auto simp: fee_pair_def via_pair_def internal_pair_transfer add_fee_transfer_sum)
  with Cons show ?case by (fastforce simp: algebra_simps)
qed simp

lemma mut_pair_amounts:
  "account_diffs_coinbase_mut ts fees = Inr fees' \<Longrightarrow>
   sum_list (map pair_amount fees') = sum_list (map pair_amount fees)"
proof (induction fees arbitrary: fees')
  case (Cons p fees)
  then show ?case
    by (auto simp: run_simps pair_amount_def split: list.splits account_diff.splits if_splits)
qed simp

lemma credited_pairs:
  "\<forall>p\<in>set fees. fee_pair p \<Longrightarrow> credited fees = sum_list (map pair_amount fees)"
  by (induction fees) (auto simp: credited_def fee_pair_def transfer_pair_def pair_amount_def)

definition db_total :: "db_map \<Rightarrow> u64" where
  "db_total m = sum_list (map (\<lambda>e. db_amount (snd e)) m)"

lemma db_bump_kind [simp]:
  "is_DbFeeTransfer (db_bump amt v) = is_DbFeeTransfer v"
  "is_DbFeeTransferViaCoinbase (db_bump amt v) = is_DbFeeTransferViaCoinbase v"
  "db_amount (db_bump amt v) = db_amount v + amt"
  by (cases v; simp)+

lemma db_add_total:
  assumes "\<forall>e\<in>set m. is_kind (snd e)" "is_kind new" "db_amount new = amt"
    "\<And>v. is_kind v \<Longrightarrow> is_kind (db_bump amt v)"
  shows "\<exists>m'. db_add is_kind db_bump k amt new m = Inr m' \<and> (\<forall>e\<in>set m'. is_kind (snd e)) \<and>
    db_total m' = db_total m + amt"
  using assms by (induction m) (auto simp: db_total_def algebra_simps)


definition db_ok :: "db_maps \<Rightarrow> bool" where
  "db_ok st \<longleftrightarrow> (\<forall>e\<in>set (dm_fee_transfers st). is_DbFeeTransfer (snd e)) \<and>
     (\<forall>e\<in>set (dm_via_coinbase st). is_DbFeeTransferViaCoinbase (snd e)) \<and>
     (\<forall>c. dm_coinbase st = Some c \<longrightarrow> is_DbCoinbase c)"

definition db_fee :: "db_internal_command \<Rightarrow> u64" where
  "db_fee c = (if is_DbCoinbase c then 0 else db_amount c)"

lemma db_fold_total:
  assumes "db_ok st"
  shows "\<exists>st'. fold_ok db_step cmds st = Inr st' \<and> db_ok st' \<and>
    db_total (dm_fee_transfers st') + db_total (dm_via_coinbase st') =
    db_total (dm_fee_transfers st) + db_total (dm_via_coinbase st) + sum_list (map ic_fee cmds)"
  using assms
proof (induction cmds arbitrary: st)
  case (Cons c cmds)
  note add = db_add_total[of "dm_fee_transfers st" is_DbFeeTransfer]
    db_add_total[of "dm_via_coinbase st" is_DbFeeTransferViaCoinbase]
  have "\<exists>st1. db_step c st = Inr st1 \<and> db_ok st1 \<and>
      db_total (dm_fee_transfers st1) + db_total (dm_via_coinbase st1) =
      db_total (dm_fee_transfers st) + db_total (dm_via_coinbase st) + ic_fee c"
  proof (cases c)
    case (FeeTransferIC s r a)
    with add(1)[of "DbFeeTransfer a r" a r] Cons.prems show ?thesis
      by (auto simp: db_ok_def db_step_def algebra_simps)
  next
    case (FeeTransferViaCoinbaseIC s r a)
    with add(2)[of "DbFeeTransferViaCoinbase a r" a s] Cons.prems show ?thesis
      by (auto simp: db_ok_def db_step_def algebra_simps)
  qed (use Cons.prems in \<open>simp add: db_ok_def db_step_def\<close>)
  with Cons.IH show ?case by (fastforce simp: algebra_simps)
qed simp

section \<open>Properties of internal commands\<close>

text \<open>
  The internal commands of a valid block exist (no panic), and the fees they carry add up to the
  block's transaction fees plus its snark fees, whatever order the hash maps are walked in.
\<close>

lemma internal_commands_fees:
  assumes "block_valid parse b" "order_ok order"
  shows "\<exists>cmds tx snark. internal_from_precomputed parse order b = Inr cmds \<and>
    tx_fees b = Inr tx \<and> snark_fees b = Inr snark \<and> sum_list (map ic_fee cmds) = tx + snark"
proof -
  obtain fees cb where ok: "from_block_fees order b = Inr fees"
    "coinbase_from_precomputed parse b = Inr cb"
    using from_block_fees_total[OF assms(1)] coinbase_total[OF assms(1)] by blast
  have fees: "\<forall>p\<in>set fees. fee_pair p" using from_block_fees_pairs[OF ok(1)] by blast
  obtain fees' where fees': "(if has_fee_transfer cb
      then account_diffs_coinbase_mut (fee_transfer cb) fees else Inr fees) = Inr fees'"
    using mut_total by fastforce
  then have "\<forall>p\<in>set fees'. fee_pair p \<or> via_pair p"
    "sum_list (map pair_amount fees') = sum_list (map pair_amount fees)"
    using fees account_diffs_coinbase_mut_pairs[of "fee_transfer cb" fees fees']
      mut_pair_amounts[of "fee_transfer cb" fees fees'] by (auto split: if_splits)
  with internal_groups_total[of fees' "[]"] obtain cmds where cmds:
    "fold_ok internal_group fees' [] = Inr cmds"
    "sum_list (map ic_fee cmds) = sum_list (map pair_amount fees)" by auto
  from block_fees_credited[OF assms(2) ok(1)] cmds(2) credited_pairs[OF fees] obtain tx snark where
    "tx_fees b = Inr tx" "snark_fees b = Inr snark" "sum_list (map ic_fee cmds) = tx + snark" by auto
  with ok fees' cmds(1) show ?thesis
    by (auto simp: internal_from_precomputed_def as_internal_cmd_def)
qed

theorem internal_commands_fees_witness:
  "\<exists>cmds tx snark. internal_from_precomputed example_parse (\<lambda>_ m. m) example_block = Inr cmds \<and>
     tx_fees example_block = Inr tx \<and> snark_fees example_block = Inr snark \<and>
     sum_list (map ic_fee cmds) = tx + snark"
  by (rule internal_commands_fees) (simp_all add: example_block_def order_ok_def)

text \<open>
  Storing internal commands aggregates the fee transfers per key without losing fees: no
  aggregation panics, and the stored fee transfers carry the same total as the commands.
\<close>

lemma db_commands_fees:
  "\<exists>out. db_commands cmds = Inr out \<and> sum_list (map db_fee out) = sum_list (map ic_fee cmds)"
proof -
  let ?st = "\<lparr>dm_coinbase = None, dm_fee_transfers = [], dm_via_coinbase = []\<rparr>"
  obtain st where st: "fold_ok db_step cmds ?st = Inr st" "db_ok st"
    "db_total (dm_fee_transfers st) + db_total (dm_via_coinbase st) = sum_list (map ic_fee cmds)"
    using db_fold_total[of ?st cmds] by (auto simp: db_ok_def db_total_def)
  have fee: "sum_list (map db_fee (sort_key db_key (map snd m))) = db_total m"
    if "\<forall>e\<in>set m. \<not> is_DbCoinbase (snd e)" for m
  proof -
    have "sum_list (map db_fee (sort_key db_key (map snd m))) = sum_list (map db_fee (map snd m))"
      by (rule sum_list_mset_eq) simp
    also have "\<dots> = db_total m"
      using that by (simp add: db_total_def db_fee_def comp_def cong: map_cong)
    finally show ?thesis .
  qed
  have "sum_list (map db_fee (case dm_coinbase st of Some cb \<Rightarrow> [cb] | None \<Rightarrow> [])) = 0"
    using st(2) by (auto simp: db_ok_def db_fee_def split: option.splits)
  moreover have "\<forall>e\<in>set (dm_fee_transfers st). \<not> is_DbCoinbase (snd e)"
    "\<forall>e\<in>set (dm_via_coinbase st). \<not> is_DbCoinbase (snd e)"
    using st(2) by (auto simp: db_ok_def is_DbFeeTransfer_def is_DbFeeTransferViaCoinbase_def)
  ultimately show ?thesis
    using st(1,3) fee by (simp add: db_commands_def algebra_simps)
qed

end
