(* ===== verification/Blocks.thy ===== *)
theory Blocks
  imports Precomputed
begin

text \<open>
  The witness tree's block summaries (\<open>block/mod.rs\<close>): construction from a precomputed block, the
  chain selection order, and the block file names.  A path is its string; \<open>file_name\<close>, \<open>file_stem\<close>
  and \<open>extension\<close> follow \<open>std::path\<close> on Unix.
\<close>

section \<open>Block summaries\<close>

record block =
  blk_parent_hash :: state_hash
  blk_state_hash :: state_hash
  blk_height :: u32
  blk_blockchain_length :: u32
  blk_genesis_state_hash :: state_hash
  blk_global_slot_since_genesis :: u32
  blk_hash_last_vrf_output :: "u8 list"

definition block_from_precomputed ::
    "(u8 list \<Rightarrow> u8 list) \<Rightarrow> precomputed_block \<Rightarrow> u32 \<Rightarrow> block" where
  "block_from_precomputed blake2b b height = \<lparr>
     blk_parent_hash = previous_state_hash b,
     blk_state_hash = state_hash_of b,
     blk_height = height,
     blk_blockchain_length = blockchain_length b,
     blk_genesis_state_hash = genesis_state_hash b,
     blk_global_slot_since_genesis = global_slot_since_genesis b,
     blk_hash_last_vrf_output = hash_last_vrf_output blake2b b\<rparr>"

definition block_of :: "(u8 list \<Rightarrow> u8 list) \<Rightarrow> precomputed_block \<Rightarrow> block" where
  "block_of blake2b b = block_from_precomputed blake2b b (sat_sub (blockchain_length b) 1)"

datatype canonicity = Canonical | Orphaned | Pending

record block_without_height =
  bwh_canonicity :: "canonicity option"
  bwh_parent_hash :: state_hash
  bwh_state_hash :: state_hash
  bwh_blockchain_length :: u32
  bwh_global_slot_since_genesis :: u32

definition without_height :: "block \<Rightarrow> block_without_height" where
  "without_height b = \<lparr>
     bwh_canonicity = None,
     bwh_parent_hash = blk_parent_hash b,
     bwh_state_hash = blk_state_hash b,
     bwh_blockchain_length = blk_blockchain_length b,
     bwh_global_slot_since_genesis = blk_global_slot_since_genesis b\<rparr>"

definition with_canonicity ::
    "(u8 list \<Rightarrow> u8 list) \<Rightarrow> precomputed_block \<Rightarrow> canonicity \<Rightarrow> block_without_height" where
  "with_canonicity blake2b b c = (without_height (block_of blake2b b))\<lparr>bwh_canonicity := Some c\<rparr>"

section \<open>Chain selection\<close>

record block_comparison =
  bc_state_hash :: state_hash
  bc_blockchain_length :: u32
  bc_hash_last_vrf_output :: "u8 list"
  bc_version :: pcb_version

definition block_comparison_from ::
    "(u8 list \<Rightarrow> u8 list) \<Rightarrow> precomputed_block \<Rightarrow> block_comparison" where
  "block_comparison_from blake2b b = \<lparr>
     bc_state_hash = state_hash_of b,
     bc_blockchain_length = blockchain_length b,
     bc_hash_last_vrf_output = hash_last_vrf_output blake2b b,
     bc_version = version_of b\<rparr>"

text \<open>
  \<open>Ord::cmp\<close> of both types ends in the same match over the three comparisons.  \<open>Less\<close> means better.
\<close>

fun select_longer :: "ordering \<times> ordering \<times> ordering \<Rightarrow> ordering" where
  "select_longer (Greater, _, _) = Less"
| "select_longer (Equal, Greater, _) = Less"
| "select_longer (Equal, Equal, Greater) = Less"
| "select_longer _ = Greater"

definition block_cmp :: "block \<Rightarrow> block \<Rightarrow> ordering" where
  "block_cmp self other =
     (if blk_genesis_state_hash self = HARDFORK_GENESIS_HASH \<and>
         blk_genesis_state_hash other = MAINNET_GENESIS_HASH
      then Less
      else select_longer
        (cmp (blk_blockchain_length self) (blk_blockchain_length other),
         cmp (blk_hash_last_vrf_output self) (blk_hash_last_vrf_output other),
         cmp (blk_state_hash self) (blk_state_hash other)))"

definition block_comparison_cmp :: "block_comparison \<Rightarrow> block_comparison \<Rightarrow> ordering" where
  "block_comparison_cmp self other =
     (if bc_version self = PcbV2 \<and> bc_version other = PcbV1 then Less
      else select_longer
        (cmp (bc_blockchain_length self) (bc_blockchain_length other),
         cmp (bc_hash_last_vrf_output self) (bc_hash_last_vrf_output other),
         cmp (bc_state_hash self) (bc_state_hash other)))"

definition precomputed_cmp ::
    "(u8 list \<Rightarrow> u8 list) \<Rightarrow> precomputed_block \<Rightarrow> precomputed_block \<Rightarrow> ordering" where
  "precomputed_cmp blake2b a b = block_cmp (block_of blake2b a) (block_of blake2b b)"

section \<open>File names\<close>

fun split_on :: "char \<Rightarrow> string \<Rightarrow> string list" where
  "split_on c [] = [[]]"
| "split_on c (x # xs) =
     (if x = c then [] # split_on c xs
      else case split_on c xs of [] \<Rightarrow> [[x]] | p # ps \<Rightarrow> (x # p) # ps)"

definition file_name :: "string \<Rightarrow> string option" where
  "file_name path =
     (let comps = filter (\<lambda>c. c \<noteq> [] \<and> c \<noteq> ''.'') (split_on CHR ''/'' path)
      in if comps = [] \<or> last comps = ''..'' then None else Some (last comps))"

text \<open>The parts before and after the last dot.\<close>

fun rsplit_dot :: "string \<Rightarrow> (string \<times> string) option" where
  "rsplit_dot [] = None"
| "rsplit_dot (x # xs) =
     (case rsplit_dot xs of
        Some (before, after) \<Rightarrow> Some (x # before, after)
      | None \<Rightarrow> if x = CHR ''.'' then Some ([], xs) else None)"

definition stem_of_name :: "string \<Rightarrow> string" where
  "stem_of_name name =
     (case rsplit_dot name of
        None \<Rightarrow> name
      | Some (before, _) \<Rightarrow> if before = [] then name else before)"

definition file_stem :: "string \<Rightarrow> string option" where
  "file_stem path = map_option stem_of_name (file_name path)"

definition extension :: "string \<Rightarrow> string option" where
  "extension path =
     (case file_name path of
        None \<Rightarrow> None
      | Some name \<Rightarrow>
          (case rsplit_dot name of
             None \<Rightarrow> None
           | Some (before, after) \<Rightarrow> if before = [] then None else Some after))"

text \<open>\<open>str::parse::<u32>\<close>: an optional plus sign and at least one digit, at most \<open>u32::MAX\<close>.\<close>

definition is_digit :: "char \<Rightarrow> bool" where
  "is_digit c \<longleftrightarrow> CHR ''0'' \<le> c \<and> c \<le> CHR ''9''"

definition digit_value :: "char \<Rightarrow> nat" where
  "digit_value c = of_char c - 48"

definition digits_value :: "string \<Rightarrow> nat" where
  "digits_value s = foldl (\<lambda>n c. 10 * n + digit_value c) 0 s"

definition parse_u32 :: "string \<Rightarrow> u32 option" where
  "parse_u32 s =
     (let ds = (case s of CHR ''+'' # rest \<Rightarrow> rest | _ \<Rightarrow> s)
      in if ds \<noteq> [] \<and> list_all is_digit ds \<and> digits_value ds < 2 ^ 32
         then Some (word_of_nat (digits_value ds)) else None)"

definition is_valid_file_name :: "(string \<Rightarrow> bool) \<Rightarrow> string \<Rightarrow> bool" where
  "is_valid_file_name hash_validator path \<longleftrightarrow>
     (case extension path of
        None \<Rightarrow> False
      | Some ext \<Rightarrow>
          ext = ''json'' \<and>
          (case file_stem path of
             None \<Rightarrow> False
           | Some stem \<Rightarrow>
               (case split_on CHR ''-'' stem of
                  [_, epoch_str, hash] \<Rightarrow> parse_u32 epoch_str \<noteq> None \<and> hash_validator hash
                | _ \<Rightarrow> False)))"

definition is_valid_block_file :: "string \<Rightarrow> bool" where
  "is_valid_block_file path = is_valid_file_name state_hash_is_valid path"

definition extract_height_and_hash :: "string \<Rightarrow> (u32 \<times> string) run" where
  "extract_height_and_hash path =
     bind_ok (unwrap (file_stem path)) (\<lambda>name.
       case split_on CHR ''-'' name of
         _ # height_str # hash_part # _ \<Rightarrow>
           bind_ok (unwrap (parse_u32 height_str)) (\<lambda>height.
           bind_ok (index_ok (split_on CHR ''.'' hash_part) 0) (\<lambda>hash. Inr (height, hash)))
       | _ \<Rightarrow> Inl PanicCall)"

definition extract_block_height :: "string \<Rightarrow> u32 run" where
  "extract_block_height path = map_ok fst (extract_height_and_hash path)"

definition extract_state_hash :: "string \<Rightarrow> string run" where
  "extract_state_hash path = map_ok snd (extract_height_and_hash path)"

datatype network_kind = Mainnet | Devnet | Testworld | Berkeley | Custom string

definition network_from :: "string \<Rightarrow> network_kind" where
  "network_from s =
     (if s = ''mainnet'' then Mainnet
      else if s = ''devnet'' then Devnet
      else if s = ''testworld'' then Testworld
      else if s = ''berkeley'' then Berkeley
      else Custom s)"

fun network_to_string :: "network_kind \<Rightarrow> string" where
  "network_to_string Mainnet = ''mainnet''"
| "network_to_string Devnet = ''devnet''"
| "network_to_string Testworld = ''testworld''"
| "network_to_string Berkeley = ''berkeley''"
| "network_to_string (Custom s) = s"

text \<open>\<open>str::find\<close> of a character.\<close>

fun find_char :: "char \<Rightarrow> string \<Rightarrow> nat option" where
  "find_char c [] = None"
| "find_char c (x # xs) = (if x = c then Some 0 else map_option Suc (find_char c xs))"

definition extract_network :: "string \<Rightarrow> network_kind run" where
  "extract_network path =
     bind_ok (unwrap (file_stem path)) (\<lambda>name.
     bind_ok (unwrap (find_char CHR ''-'' name)) (\<lambda>dash_pos.
       Inr (network_from (take dash_pos name))))"

definition extract_network_height_hash :: "string \<Rightarrow> (network_kind \<times> u32 \<times> state_hash) run" where
  "extract_network_height_hash path =
     bind_ok (unwrap (file_stem path)) (\<lambda>name.
     bind_ok (unwrap (find_char CHR ''-'' name)) (\<lambda>network_end.
     let rest = drop (network_end + 1) name in
     bind_ok (unwrap (find_char CHR ''-'' rest)) (\<lambda>height_end.
     bind_ok (unwrap (parse_u32 (take height_end rest))) (\<lambda>height.
     Inr (network_from (take network_end name), height, drop (height_end + 1) rest)))))"

text \<open>
  \<open>slice::sort_by\<close> is stable; the comparator extracts both keys first, so a path that does not parse
  panics as soon as it is compared.
\<close>

definition height_hash_le :: "u32 \<times> string \<Rightarrow> u32 \<times> string \<Rightarrow> bool" where
  "height_hash_le a b \<longleftrightarrow>
     (case cmp (fst a) (fst b) of Equal \<Rightarrow> cmp (snd a) (snd b) | ord \<Rightarrow> ord) \<noteq> Greater"

definition sort_by_height_and_lexicographical_order :: "string list \<Rightarrow> string list run" where
  "sort_by_height_and_lexicographical_order paths =
     (if length paths < 2 then Inr paths
      else map_ok (\<lambda>keys. map fst (sort_key snd (zip paths keys)))
        (traverse_ok extract_height_and_hash paths))"

section \<open>Lemmas\<close>

text \<open>The key of the chain selection: the better block has the greater key.\<close>

definition select_key :: "block \<Rightarrow> u32 \<times> u8 list \<times> state_hash" where
  "select_key b = (blk_blockchain_length b, blk_hash_last_vrf_output b, blk_state_hash b)"

definition crosses_hardfork :: "block \<Rightarrow> block \<Rightarrow> bool" where
  "crosses_hardfork a b \<longleftrightarrow>
     blk_genesis_state_hash a = HARDFORK_GENESIS_HASH \<and>
     blk_genesis_state_hash b = MAINNET_GENESIS_HASH"

lemma select_longer_Less:
  "select_longer (x, y, z) = Less \<longleftrightarrow>
     x = Greater \<or> x = Equal \<and> (y = Greater \<or> y = Equal \<and> z = Greater)"
  by (cases x; cases y; cases z) simp_all

lemma block_cmp_Less_iff:
  "block_cmp a b = Less \<longleftrightarrow> crosses_hardfork a b \<or> select_key b < select_key a"
  by (auto simp: block_cmp_def crosses_hardfork_def select_key_def select_longer_Less less_prod_def)

lemma height_hash_le_iff: "height_hash_le a b \<longleftrightarrow> a \<le> b"
  by (cases a; cases b) (auto simp: height_hash_le_def cmp_def less_eq_prod_def split: ordering.splits)

lemma genesis_hashes_differ: "HARDFORK_GENESIS_HASH \<noteq> MAINNET_GENESIS_HASH"
  by (simp add: HARDFORK_GENESIS_HASH_def MAINNET_GENESIS_HASH_def)

lemma split_on_ne: "split_on c s \<noteq> []"
  by (induction s) (auto split: list.splits)

lemma split_on_single: "split_on c s = [p] \<Longrightarrow> p = s"
proof (induction s arbitrary: p)
  case (Cons x xs)
  then show ?case using split_on_ne[of c xs] by (auto split: if_splits list.splits)
qed simp

lemma split_on_find:
  assumes "split_on c s = p # q # ps"
  shows "find_char c s = Some (length p) \<and> take (length p) s = p \<and>
    split_on c (drop (Suc (length p)) s) = q # ps"
  using assms
proof (induction s arbitrary: p)
  case (Cons x xs)
  show ?case
  proof (cases "x = c")
    case True
    with Cons.prems show ?thesis by simp
  next
    case False
    with Cons.prems obtain p' where p': "p = x # p'" "split_on c xs = p' # q # ps"
      using split_on_ne[of c xs] by (auto split: list.splits)
    with Cons.IH[OF p'(2)] False show ?thesis by simp
  qed
qed simp

lemma valid_file_name_parts:
  assumes "is_valid_block_file path"
  obtains stem net hs hash height where "file_stem path = Some stem"
    "split_on CHR ''-'' stem = [net, hs, hash]" "parse_u32 hs = Some height" "state_hash_is_valid hash"
proof -
  from assms obtain stem where stem: "file_stem path = Some stem"
    "case split_on CHR ''-'' stem of
       [_, epoch_str, hash] \<Rightarrow> parse_u32 epoch_str \<noteq> None \<and> state_hash_is_valid hash
     | _ \<Rightarrow> False"
    unfolding is_valid_block_file_def is_valid_file_name_def
    by (cases "extension path"; cases "file_stem path") simp_all
  then obtain net hs hash where "split_on CHR ''-'' stem = [net, hs, hash]"
    by (simp split: list.splits)
  with stem that show thesis by auto
qed

section \<open>Properties of blocks\<close>

text \<open>
  The chain selection order: a block is better than another exactly when it crosses the hard fork
  from it, or has the greater triple of length, VRF output hash and state hash; otherwise it is worse,
  never equal.
\<close>

lemma chain_selection:
  "block_cmp a b = (if crosses_hardfork a b \<or> select_key b < select_key a then Less else Greater)"
proof -
  have "block_cmp a b \<noteq> Equal" by (auto simp: block_cmp_def elim: select_longer.elims)
  then show ?thesis using block_cmp_Less_iff[of a b] by (cases "block_cmp a b") auto
qed

text \<open>
  C29: among blocks of one genesis, exactly one of two blocks with different state hashes is better,
  and being better is transitive.
\<close>

theorem chain_selection_total:
  assumes "blk_genesis_state_hash a = blk_genesis_state_hash b"
    "blk_genesis_state_hash b = blk_genesis_state_hash c" "blk_state_hash a \<noteq> blk_state_hash b"
  shows "(block_cmp a b = Less) \<noteq> (block_cmp b a = Less) \<and>
    (block_cmp a b = Less \<and> block_cmp b c = Less \<longrightarrow> block_cmp a c = Less)"
proof -
  have "\<not> crosses_hardfork x y" if "blk_genesis_state_hash x = blk_genesis_state_hash y" for x y
    using that genesis_hashes_differ by (auto simp: crosses_hardfork_def)
  then have less: "block_cmp a b = Less \<longleftrightarrow> select_key b < select_key a"
    "block_cmp b a = Less \<longleftrightarrow> select_key a < select_key b"
    "block_cmp b c = Less \<longleftrightarrow> select_key c < select_key b"
    "block_cmp a c = Less \<longleftrightarrow> select_key c < select_key a"
    using assms(1,2) by (simp_all add: block_cmp_Less_iff)
  have "select_key a \<noteq> select_key b" using assms(3) by (simp add: select_key_def)
  then show ?thesis unfolding less by auto
qed

definition example_summary :: "state_hash \<Rightarrow> state_hash \<Rightarrow> u32 \<Rightarrow> block" where
  "example_summary genesis hash len =
     \<lparr>blk_parent_hash = ''3N0'', blk_state_hash = hash, blk_height = len - 1,
      blk_blockchain_length = len, blk_genesis_state_hash = genesis,
      blk_global_slot_since_genesis = len, blk_hash_last_vrf_output = []\<rparr>"

theorem chain_selection_total_witness:
  "(block_cmp (example_summary MAINNET_GENESIS_HASH ''3N1'' 5) (example_summary MAINNET_GENESIS_HASH ''3N2'' 5) = Less) \<noteq>
   (block_cmp (example_summary MAINNET_GENESIS_HASH ''3N2'' 5) (example_summary MAINNET_GENESIS_HASH ''3N1'' 5) = Less)"
  using chain_selection_total[of "example_summary MAINNET_GENESIS_HASH ''3N1'' 5"
      "example_summary MAINNET_GENESIS_HASH ''3N2'' 5" "example_summary MAINNET_GENESIS_HASH ''3N2'' 5"]
  by (simp add: example_summary_def)

text \<open>
  C30: across the hard fork the order is not antisymmetric.  A block of the new chain is better than every
  block of the old one, and a block of the old chain is better than one of the new exactly when it is
  longer, or as long with the greater VRF output hash, or equal in both with the greater state hash: such
  a pair of blocks are each better than the other.
\<close>

theorem chain_selection_hardfork_clash:
  assumes "blk_genesis_state_hash a = HARDFORK_GENESIS_HASH" "blk_genesis_state_hash b = MAINNET_GENESIS_HASH"
  shows "block_cmp a b = Less \<and>
    (block_cmp b a = Less \<longleftrightarrow>
      blk_blockchain_length a < blk_blockchain_length b \<or>
      blk_blockchain_length a = blk_blockchain_length b \<and>
        (blk_hash_last_vrf_output a < blk_hash_last_vrf_output b \<or>
         blk_hash_last_vrf_output a = blk_hash_last_vrf_output b \<and> blk_state_hash a < blk_state_hash b))"
proof -
  have "crosses_hardfork a b" "\<not> crosses_hardfork b a"
    using assms genesis_hashes_differ by (auto simp: crosses_hardfork_def)
  then show ?thesis by (auto simp: block_cmp_Less_iff select_key_def less_prod_def)
qed

theorem chain_selection_hardfork_clash_witness:
  "block_cmp (example_summary HARDFORK_GENESIS_HASH ''3N1'' 5) (example_summary MAINNET_GENESIS_HASH ''3N2'' 9) = Less \<and>
   block_cmp (example_summary MAINNET_GENESIS_HASH ''3N2'' 9) (example_summary HARDFORK_GENESIS_HASH ''3N1'' 5) = Less"
  using chain_selection_hardfork_clash[of "example_summary HARDFORK_GENESIS_HASH ''3N1'' 5"
      "example_summary MAINNET_GENESIS_HASH ''3N2'' 9"]
  by (simp add: example_summary_def)

text \<open>
  On a valid block file name none of the extraction functions panics; they return the network, the
  height and the valid state hash of the name, the height and hash reader cutting the hash at its
  first dot.
\<close>

lemma valid_file_name_parses:
  assumes "is_valid_block_file path"
  shows "\<exists>network height hash. extract_network_height_hash path = Inr (network_from network, height, hash) \<and>
    extract_network path = Inr (network_from network) \<and>
    extract_height_and_hash path = Inr (height, hd (split_on CHR ''.'' hash)) \<and>
    state_hash_is_valid hash"
proof -
  obtain stem net hs hash height where stem: "file_stem path = Some stem"
    and parts: "split_on CHR ''-'' stem = [net, hs, hash]"
    "parse_u32 hs = Some height" "state_hash_is_valid hash"
    by (rule valid_file_name_parts[OF assms])
  note first = split_on_find[OF parts(1)]
  then have "split_on CHR ''-'' (drop (Suc (length net)) stem) = [hs, hash]" by simp
  note second = split_on_find[OF this]
  then have "hash = drop (Suc (length hs)) (drop (Suc (length net)) stem)"
    using split_on_single by metis
  then have hash: "drop (length net + (length hs + 2)) stem = hash" by (simp add: add.commute)
  have dot: "index_ok (split_on CHR ''.'' hash) 0 = Inr (hd (split_on CHR ''.'' hash))"
    using split_on_ne[of "CHR ''.''" hash] by (simp add: index_ok_def hd_conv_nth)
  show ?thesis
    using stem parts first second hash dot
    by (intro exI[of _ net] exI[of _ height] exI[of _ hash])
      (simp add: extract_network_height_hash_def extract_network_def extract_height_and_hash_def
        Let_def add.commute)
qed

definition example_path :: string where
  "example_path = ''/b/mainnet-2-3NLyWnjZqUECniE1q719CoLmes6WDQAod4vrTeLfN7XXJbHv6EHH.json''"

lemma example_path_valid: "is_valid_block_file example_path"
proof -
  have "file_name example_path =
      Some ''mainnet-2-3NLyWnjZqUECniE1q719CoLmes6WDQAod4vrTeLfN7XXJbHv6EHH.json''"
    by (simp add: file_name_def example_path_def)
  moreover have "rsplit_dot ''mainnet-2-3NLyWnjZqUECniE1q719CoLmes6WDQAod4vrTeLfN7XXJbHv6EHH.json'' =
      Some (''mainnet-2-3NLyWnjZqUECniE1q719CoLmes6WDQAod4vrTeLfN7XXJbHv6EHH'', ''json'')" by simp
  moreover have "split_on CHR ''-'' ''mainnet-2-3NLyWnjZqUECniE1q719CoLmes6WDQAod4vrTeLfN7XXJbHv6EHH'' =
      [''mainnet'', ''2'', ''3NLyWnjZqUECniE1q719CoLmes6WDQAod4vrTeLfN7XXJbHv6EHH'']" by simp
  moreover have "parse_u32 ''2'' = Some 2"
    by (simp add: parse_u32_def is_digit_def digits_value_def digit_value_def less_eq_char_simp)
  ultimately show ?thesis
    unfolding is_valid_block_file_def is_valid_file_name_def extension_def file_stem_def stem_of_name_def
    by (simp only: option.simps option.case prod.case list.case if_False list.simps)
      (simp add: state_hash_is_valid_def starts_with_def)
qed

theorem valid_file_name_parses_witness:
  "is_valid_block_file example_path \<and>
   (\<exists>network height hash. extract_network_height_hash example_path = Inr (network_from network, height, hash) \<and>
      extract_network example_path = Inr (network_from network) \<and>
      extract_height_and_hash example_path = Inr (height, hd (split_on CHR ''.'' hash)) \<and>
      state_hash_is_valid hash)"
proof
  show "is_valid_block_file example_path" by (rule example_path_valid)
  from valid_file_name_parses[OF this]
  show "\<exists>network height hash. extract_network_height_hash example_path = Inr (network_from network, height, hash) \<and>
      extract_network example_path = Inr (network_from network) \<and>
      extract_height_and_hash example_path = Inr (height, hd (split_on CHR ''.'' hash)) \<and>
      state_hash_is_valid hash" .
qed

text \<open>
  Sorting block paths whose names parse gives a permutation of them in the order of the
  comparator: by height, then by state hash.
\<close>

lemma sort_paths_sorted:
  assumes "traverse_ok extract_height_and_hash paths = Inr keys"
  shows "\<exists>out keys'. sort_by_height_and_lexicographical_order paths = Inr out \<and> mset out = mset paths \<and>
    traverse_ok extract_height_and_hash out = Inr keys' \<and> sorted_wrt height_hash_le keys'"
proof (cases "length paths < 2")
  case True
  moreover have "length keys = length paths"
    using assms by (auto simp: traverse_ok_Inr_iff dest: list_all2_lengthD)
  ultimately have "sorted_wrt height_hash_le keys" by (cases keys; cases "tl keys") auto
  with True assms show ?thesis by (simp add: sort_by_height_and_lexicographical_order_def)
next
  case False
  let ?ps = "sort_key snd (zip paths keys)"
  have l2: "list_all2 (\<lambda>p k. extract_height_and_hash p = Inr k) paths keys"
    using assms by (simp add: traverse_ok_Inr_iff)
  then have len: "length paths = length keys" by (rule list_all2_lengthD)
  have "extract_height_and_hash (fst e) = Inr (snd e)" if "e \<in> set ?ps" for e
    using that l2 by (auto simp: list_all2_iff)
  then have "list_all2 (\<lambda>p k. extract_height_and_hash p = Inr k) (map fst ?ps) (map snd ?ps)"
    by (simp add: list_all2_map1 list_all2_map2 list_all2_same)
  moreover have "sorted_wrt height_hash_le (map snd ?ps)"
    by (simp add: height_hash_le_iff[abs_def] sorted_sort_key)
  moreover have "mset (map fst ?ps) = mset paths"
    using len by (metis map_fst_zip mset_map mset_sort)
  moreover have "sort_by_height_and_lexicographical_order paths = Inr (map fst ?ps)"
    using False assms by (simp add: sort_by_height_and_lexicographical_order_def)
  ultimately show ?thesis by (metis traverse_ok_Inr_iff)
qed

theorem sort_paths_sorted_witness:
  "\<exists>out keys'. sort_by_height_and_lexicographical_order [''m-3-b.json'', ''m-2-a.json''] = Inr out \<and>
     mset out = mset [''m-3-b.json'', ''m-2-a.json''] \<and>
     traverse_ok extract_height_and_hash out = Inr keys' \<and> sorted_wrt height_hash_le keys'"
proof (rule sort_paths_sorted)
  show "traverse_ok extract_height_and_hash [''m-3-b.json'', ''m-2-a.json''] =
      Inr [(3, ''b''), (2, ''a'')]"
    by (simp add: extract_height_and_hash_def file_stem_def file_name_def stem_of_name_def
        parse_u32_def is_digit_def digits_value_def digit_value_def less_eq_char_simp index_ok_def)
qed

end
