(* ===== verification/Discovery.thy ===== *)
theory Discovery
  imports Blocks
begin

text \<open>
  Canonical chain discovery on a directory of block files
  (\<open>canonicity/canonical_chain_discovery.rs\<close>).  A path is kept with the height and state hash that
  \<open>extract_height_and_hash\<close> reads from its name; a name that does not parse panics in the first loop,
  so later extractions succeed.  \<open>prev\<close> is what \<open>PreviousStateHash::from_path\<close> reads from the file
  (\<open>None\<close> for an error).  The two unbounded loops are partial functions into \<open>option\<close>: \<open>None\<close> is a
  loop that does not end.
\<close>

record block_path =
  bp_path :: string
  bp_height :: u32
  bp_hash :: string

definition parse_path :: "string \<Rightarrow> block_path run" where
  "parse_path path =
     map_ok (\<lambda>(height, hash). \<lparr>bp_path = path, bp_height = height, bp_hash = hash\<rparr>)
       (extract_height_and_hash path)"

section \<open>The tree map\<close>

text \<open>\<open>BTreeMap<u32, Vec<&PathBuf>>\<close>: an association list in ascending key order.\<close>

type_synonym tree_map = "(u32 \<times> block_path list) list"
type_synonym parent_map = "string \<rightharpoonup> string"

fun tm_push :: "block_path \<Rightarrow> tree_map \<Rightarrow> tree_map" where
  "tm_push p [] = [(bp_height p, [p])]"
| "tm_push p ((h, ps) # tm) =
     (if bp_height p = h then (h, ps @ [p]) # tm
      else if bp_height p < h then (bp_height p, [p]) # (h, ps) # tm
      else (h, ps) # tm_push p tm)"

definition tree_map_of :: "block_path list \<Rightarrow> tree_map" where
  "tree_map_of ps = fold tm_push ps []"

definition tm_set :: "u32 \<Rightarrow> block_path list \<Rightarrow> tree_map \<Rightarrow> tree_map" where
  "tm_set h ps tm = map (\<lambda>(k, v). if k = h then (k, ps) else (k, v)) tm"

definition tm_paths :: "tree_map \<Rightarrow> block_path list" where
  "tm_paths tm = concat (map snd tm)"

section \<open>Best tip\<close>

text \<open>The paths of the next height whose file names the candidate as previous block.\<close>

definition next_tips :: "(string \<Rightarrow> string option) \<Rightarrow> tree_map \<Rightarrow> block_path \<Rightarrow> block_path list" where
  "next_tips prev tm c =
     (case map_of tm (bp_height c + 1) of
        None \<Rightarrow> []
      | Some ps \<Rightarrow> filter (\<lambda>p. prev (bp_path p) = Some (bp_hash c)) ps)"

text \<open>The progress message computes the height modulo the reporting frequency; the message is left out.\<close>

definition log_progress :: "u32 \<Rightarrow> u32 \<Rightarrow> unit run" where
  "log_progress length_of_chain reporting_freq = (if reporting_freq = 0 then Inl DivideByZero else Inr ())"

partial_function (option) bfs ::
    "(string \<Rightarrow> string option) \<Rightarrow> u32 \<Rightarrow> tree_map \<Rightarrow> block_path list \<Rightarrow> parent_map \<Rightarrow> block_path option \<Rightarrow>
     (parent_map \<times> block_path option) run option" where
  "bfs prev reporting_freq tm queue parents best =
     (case queue of
        [] \<Rightarrow> Some (Inr (parents, best))
      | c # rest \<Rightarrow>
          (case log_progress (bp_height c) reporting_freq of
             Inl e \<Rightarrow> Some (Inl e)
           | Inr _ \<Rightarrow>
               bfs prev reporting_freq tm (rest @ next_tips prev tm c)
                 (fold (\<lambda>p m. m(bp_hash p \<mapsto> bp_hash c)) (next_tips prev tm c) parents)
                 (if next_tips prev tm c = [] then best else Some (last (next_tips prev tm c)))))"

definition root_files :: "tree_map \<Rightarrow> block_path list" where
  "root_files tm = (case tm of [] \<Rightarrow> [] | (_, ps) # _ \<Rightarrow> ps)"

definition find_best_tip ::
    "(string \<Rightarrow> string option) \<Rightarrow> u32 \<Rightarrow> tree_map \<Rightarrow> (parent_map \<times> block_path) run option" where
  "find_best_tip prev reporting_freq tm =
     map_option (\<lambda>r. bind_ok r (\<lambda>(parents, best). map_ok (\<lambda>b. (parents, b)) (unwrap best)))
       (bfs prev reporting_freq tm (root_files tm) Map.empty
         (if root_files tm = [] then None else Some (last (root_files tm))))"

section \<open>Canonical branch\<close>

text \<open>
  Each turn looks for the parent among the paths one height below and removes it from the tree map.
  A parent that is not there leaves the loop state unchanged.
\<close>

partial_function (option) walk_back ::
    "parent_map \<Rightarrow> tree_map \<Rightarrow> u32 \<Rightarrow> string option \<Rightarrow> block_path list \<Rightarrow>
     (tree_map \<times> block_path list) run option" where
  "walk_back parents tm height parent branch =
     (case parent of
        None \<Rightarrow> Some (Inr (tm, branch))
      | Some hash \<Rightarrow>
          (case map_of tm height of
             None \<Rightarrow> Some (Inl UnwrapNone)
           | Some ps \<Rightarrow>
               (case find (\<lambda>p. bp_hash p = hash) ps of
                  None \<Rightarrow> walk_back parents tm height parent branch
                | Some p \<Rightarrow>
                    walk_back parents (tm_set height (remove1 p ps) tm) (height - 1)
                      (parents (bp_hash p)) (branch @ [p]))))"

definition canonical_branch_from_best_tip ::
    "tree_map \<Rightarrow> parent_map \<Rightarrow> block_path \<Rightarrow> (tree_map \<times> block_path list) run option" where
  "canonical_branch_from_best_tip tm parents best_tip =
     map_option (map_ok (\<lambda>(tm', branch). (tm', rev branch)))
       (walk_back parents tm (bp_height best_tip - 1) (parents (bp_hash best_tip)) [best_tip])"

section \<open>Recent and orphaned paths\<close>

definition path_key :: "block_path \<Rightarrow> u32 \<times> string" where
  "path_key p = (bp_height p, bp_hash p)"

definition split_off_recent_paths ::
    "block_path list \<Rightarrow> tree_map \<Rightarrow> nat \<Rightarrow> block_path list \<times> tree_map \<times> block_path list" where
  "split_off_recent_paths branch tm threshold =
     (let split_index = length branch - threshold;
          split_height = (if split_index < length branch then bp_height (branch ! split_index) else 0);
          recent_branch = drop split_index branch;
          recent_tm = filter (\<lambda>(h, _). split_height \<le> h) tm;
          recent = recent_branch @
            filter (\<lambda>p. bp_path p \<notin> bp_path ` set recent_branch) (tm_paths recent_tm)
      in (take split_index branch, filter (\<lambda>(h, _). \<not> split_height \<le> h) tm,
          sort_key path_key recent))"

definition get_orphaned_paths :: "tree_map \<Rightarrow> block_path list" where
  "get_orphaned_paths tm = tm_paths tm"

definition discovery ::
    "(string \<Rightarrow> string option) \<Rightarrow> nat \<Rightarrow> u32 \<Rightarrow> string list \<Rightarrow>
     (string list \<times> string list \<times> string list) run option" where
  "discovery prev threshold reporting_freq paths =
     (if paths = [] then Some (Inr ([], [], []))
      else case traverse_ok parse_path paths of
        Inl e \<Rightarrow> Some (Inl e)
      | Inr ps \<Rightarrow>
          let tm = tree_map_of ps in
          Option.bind (find_best_tip prev reporting_freq tm) (\<lambda>r.
            case r of
              Inl e \<Rightarrow> Some (Inl e)
            | Inr (parents, best_tip) \<Rightarrow>
                map_option (map_ok (\<lambda>(tm', branch).
                    let (canonical, rest, recent) = split_off_recent_paths branch tm' threshold
                    in (map bp_path canonical, map bp_path recent,
                        map bp_path (get_orphaned_paths rest))))
                  (canonical_branch_from_best_tip tm parents best_tip)))"

section \<open>What discovery promises\<close>

definition tm_ok :: "tree_map \<Rightarrow> bool" where
  "tm_ok tm \<longleftrightarrow> sorted_wrt (<) (map fst tm) \<and> (\<forall>(h, ps)\<in>set tm. \<forall>p\<in>set ps. bp_height p = h)"

definition linked :: "(string \<Rightarrow> string option) \<Rightarrow> block_path \<Rightarrow> block_path \<Rightarrow> bool" where
  "linked prev q p \<longleftrightarrow> prev (bp_path p) = Some (bp_hash q) \<and> bp_height p = bp_height q + 1"

definition below_max :: "tree_map \<Rightarrow> bool" where
  "below_max tm \<longleftrightarrow> (\<forall>p\<in>set (tm_paths tm). bp_height p \<noteq> - 1)"

text \<open>Blocks reachable from the roots through links.\<close>

inductive reachable :: "(string \<Rightarrow> string option) \<Rightarrow> tree_map \<Rightarrow> block_path \<Rightarrow> bool"
  for prev tm where
  root: "p \<in> set (root_files tm) \<Longrightarrow> reachable prev tm p"
| step: "reachable prev tm q \<Longrightarrow> p \<in> set (tm_paths tm) \<Longrightarrow> linked prev q p \<Longrightarrow> reachable prev tm p"

definition parents_ok :: "(string \<Rightarrow> string option) \<Rightarrow> tree_map \<Rightarrow> parent_map \<Rightarrow> bool" where
  "parents_ok prev tm parents \<longleftrightarrow>
     (\<forall>h c. parents h = Some c \<longrightarrow>
        (\<exists>p\<in>set (tm_paths tm). \<exists>q\<in>set (tm_paths tm).
           bp_hash p = h \<and> bp_hash q = c \<and> linked prev q p \<and> reachable prev tm q))"

text \<open>
  The state of the search: \<open>seen\<close> are the candidates taken from the queue so far.
\<close>

definition bfs_inv :: "(string \<Rightarrow> string option) \<Rightarrow> tree_map \<Rightarrow> block_path set \<Rightarrow> block_path list \<Rightarrow>
    parent_map \<Rightarrow> block_path option \<Rightarrow> bool" where
  "bfs_inv prev tm seen queue parents best \<longleftrightarrow>
     seen \<union> set queue \<subseteq> set (tm_paths tm) \<and>
     (\<forall>p\<in>seen \<union> set queue. reachable prev tm p) \<and>
     set (root_files tm) \<subseteq> seen \<union> set queue \<and>
     (\<forall>q\<in>seen. \<forall>p\<in>set (tm_paths tm). linked prev q p \<longrightarrow> p \<in> seen \<union> set queue) \<and>
     parents_ok prev tm parents \<and>
     (\<forall>p\<in>seen \<union> set queue. p \<in> set (root_files tm) \<or> parents (bp_hash p) \<noteq> None) \<and>
     sorted (map bp_height queue) \<and>
     (\<forall>p\<in>set queue. queue \<noteq> [] \<longrightarrow> unat (bp_height p) \<le> unat (bp_height (hd queue)) + 1) \<and>
     (\<exists>b. best = Some b \<and> b \<in> seen \<union> set queue \<and> (queue \<noteq> [] \<longrightarrow> b = last queue) \<and>
        (\<forall>p\<in>seen. bp_height p \<le> bp_height b))"

definition tips_found :: "(string \<Rightarrow> string option) \<Rightarrow> tree_map \<Rightarrow> parent_map \<Rightarrow> block_path \<Rightarrow> bool" where
  "tips_found prev tm parents best \<longleftrightarrow>
     best \<in> set (tm_paths tm) \<and> reachable prev tm best \<and> parents_ok prev tm parents \<and>
     (\<forall>p. reachable prev tm p \<longrightarrow> p \<in> set (root_files tm) \<or> parents (bp_hash p) \<noteq> None) \<and>
     (\<forall>p. reachable prev tm p \<longrightarrow> bp_height p \<le> bp_height best)"

definition walk_inv :: "(string \<Rightarrow> string option) \<Rightarrow> tree_map \<Rightarrow> tree_map \<Rightarrow> block_path list \<Rightarrow> bool" where
  "walk_inv prev tm0 tm branch \<longleftrightarrow>
     tm_ok tm \<and> branch \<noteq> [] \<and> set branch \<subseteq> set (tm_paths tm0) \<and>
     mset (tm_paths tm) + mset (tl branch) = mset (tm_paths tm0) \<and>
     successively (\<lambda>p q. linked prev q p) branch \<and>
     (\<forall>r\<in>set branch. bp_height (last branch) \<le> bp_height r) \<and> reachable prev tm0 (last branch)"

definition paths_inj :: "tree_map \<Rightarrow> bool" where
  "paths_inj tm \<longleftrightarrow> inj_on bp_path (set (tm_paths tm))"

definition discoverable :: "block_path list \<Rightarrow> bool" where
  "discoverable ps \<longleftrightarrow> ps \<noteq> [] \<and> distinct (map bp_hash ps) \<and> (\<forall>p\<in>set ps. bp_height p \<noteq> - 1)"

section \<open>Correctness\<close>

subsection \<open>Tree maps\<close>

lemma tm_push_keys: "set (map fst (tm_push p tm)) = insert (bp_height p) (set (map fst tm))"
  by (induction p tm rule: tm_push.induct) auto

lemma tm_push_ok: "tm_ok tm \<Longrightarrow> tm_ok (tm_push p tm)"
proof (induction p tm rule: tm_push.induct)
  case (2 p h ps tm)
  have "set (map fst (tm_push p tm)) = insert (bp_height p) (set (map fst tm))"
    by (rule tm_push_keys)
  with 2 show ?case by (auto simp: tm_ok_def)
qed (simp add: tm_ok_def)

lemma tm_push_mset: "mset (tm_paths (tm_push p tm)) = add_mset p (mset (tm_paths tm))"
  by (induction p tm rule: tm_push.induct) (auto simp: tm_paths_def)

lemma tree_map_of_ok: "tm_ok (tree_map_of ps) \<and> mset (tm_paths (tree_map_of ps)) = mset ps"
proof -
  have "tm_ok tm \<Longrightarrow> tm_ok (fold tm_push ps tm) \<and>
      mset (tm_paths (fold tm_push ps tm)) = mset (tm_paths tm) + mset ps" for tm
    by (induction ps arbitrary: tm) (simp_all add: tm_push_ok tm_push_mset)
  from this[of "[]"] show ?thesis by (simp add: tree_map_of_def tm_ok_def tm_paths_def)
qed

lemma tm_ok_distinct: "tm_ok tm \<Longrightarrow> distinct (map fst tm)"
  by (simp add: tm_ok_def strict_sorted_iff)

lemma tm_get:
  assumes "tm_ok tm" "map_of tm h = Some ps"
  shows "set ps = {p \<in> set (tm_paths tm). bp_height p = h}"
proof -
  have in_tm: "(h, ps) \<in> set tm" using assms(2) by (rule map_of_SomeD)
  have same: "ps' = ps" if "(h, ps') \<in> set tm" for ps'
    using that in_tm tm_ok_distinct[OF assms(1)] by (meson eq_key_imp_eq_value)
  have height: "bp_height p = k" if "(k, qs) \<in> set tm" "p \<in> set qs" for k qs p
    using that assms(1) by (auto simp: tm_ok_def)
  show ?thesis
  proof
    show "set ps \<subseteq> {p \<in> set (tm_paths tm). bp_height p = h}"
      using in_tm height by (force simp: tm_paths_def)
    show "{p \<in> set (tm_paths tm). bp_height p = h} \<subseteq> set ps"
    proof
      fix p assume "p \<in> {p \<in> set (tm_paths tm). bp_height p = h}"
      then obtain k qs where "(k, qs) \<in> set tm" "p \<in> set qs" "bp_height p = h"
        by (auto simp: tm_paths_def)
      with height same show "p \<in> set ps" by blast
    qed
  qed
qed

lemma tm_get_in:
  assumes "tm_ok tm" "p \<in> set (tm_paths tm)"
  shows "\<exists>ps. map_of tm (bp_height p) = Some ps \<and> p \<in> set ps"
proof -
  from assms(2) obtain k ps where kps: "(k, ps) \<in> set tm" "p \<in> set ps"
    by (auto simp: tm_paths_def)
  with assms(1) have "bp_height p = k" by (auto simp: tm_ok_def)
  with kps show ?thesis using tm_ok_distinct[OF assms(1)] by auto
qed

lemma tm_set_ok:
  assumes "tm_ok tm" "map_of tm h = Some ps" "set qs \<subseteq> set ps"
  shows "tm_ok (tm_set h qs tm)"
proof -
  have "map fst (tm_set h qs tm) = map fst tm" by (auto simp: tm_set_def)
  moreover have "bp_height p = h" if "p \<in> set qs" for p
    using that assms tm_get[OF assms(1,2)] by blast
  then have "\<forall>(k, v)\<in>set (tm_set h qs tm). \<forall>p\<in>set v. bp_height p = k"
    using assms(1) by (auto simp: tm_ok_def tm_set_def split: if_splits)
  ultimately show ?thesis using assms(1) by (simp add: tm_ok_def)
qed

lemma fst_in: "(h, b) \<in> set tm \<Longrightarrow> h \<in> fst ` set tm"
  by force

lemma tm_set_mset:
  assumes "tm_ok tm" "map_of tm h = Some ps" "p \<in> set ps"
  shows "add_mset p (mset (tm_paths (tm_set h (remove1 p ps) tm))) = mset (tm_paths tm)"
proof -
  have "distinct (map fst tm)" using assms(1) by (rule tm_ok_distinct)
  then show ?thesis using assms(2)
  proof (induction tm)
    case (Cons e tm)
    obtain k v where e: "e = (k, v)" by fastforce
    show ?case
    proof (cases "k = h")
      case True
      with Cons.prems e have "v = ps" "tm_set h (remove1 p ps) tm = tm"
        by (auto simp: tm_set_def intro!: map_idI dest: fst_in)
      then show ?thesis using True e assms(3) by (simp add: tm_set_def tm_paths_def)
    next
      case False
      with Cons e show ?thesis by (simp add: tm_set_def tm_paths_def)
    qed
  qed simp
qed

subsection \<open>Search\<close>

lemma unat_next_height: "unat (h + 1) = unat h + 1" if "h \<noteq> - 1" for h :: u32
proof -
  from that have "1 + h \<noteq> 0" by (metis add_eq_0_iff)
  then show ?thesis by (simp add: unatSuc add.commute)
qed

lemma linked_height:
  "linked prev q p \<Longrightarrow> bp_height q \<noteq> - 1 \<Longrightarrow> unat (bp_height p) = unat (bp_height q) + 1"
  by (simp add: linked_def unat_next_height)

lemma next_tips_linked:
  assumes "tm_ok tm"
  shows "set (next_tips prev tm c) = {p \<in> set (tm_paths tm). linked prev c p}"
proof (cases "map_of tm (bp_height c + 1)")
  case None
  then have "bp_height p \<noteq> bp_height c + 1" if "p \<in> set (tm_paths tm)" for p
    using tm_get_in[OF assms that] by auto
  with None show ?thesis by (auto simp: next_tips_def linked_def)
next
  case (Some ps)
  then show ?thesis using tm_get[OF assms Some] by (auto simp: next_tips_def linked_def)
qed

lemma fold_parents:
  "fold (\<lambda>p m. m(bp_hash p \<mapsto> c)) ps m h = (if h \<in> bp_hash ` set ps then Some c else m h)"
  by (induction ps arbitrary: m) auto

lemma bfs_inv_end:
  assumes "bfs_inv prev tm seen [] parents best"
  shows "\<exists>b. best = Some b \<and> tips_found prev tm parents b"
proof -
  have "p \<in> seen" if "reachable prev tm p" for p
    using that assms by induction (auto simp: bfs_inv_def)
  moreover have seen: "seen \<subseteq> set (tm_paths tm)" "parents_ok prev tm parents"
    "\<forall>p\<in>seen. reachable prev tm p"
    "\<forall>p\<in>seen. p \<in> set (root_files tm) \<or> parents (bp_hash p) \<noteq> None"
    using assms by (simp_all add: bfs_inv_def)
  moreover obtain b where "best = Some b" "b \<in> seen" "\<forall>p\<in>seen. bp_height p \<le> bp_height b"
    using assms unfolding bfs_inv_def by (elim conjE exE) simp
  ultimately show ?thesis unfolding tips_found_def by blast
qed

lemma sorted_append_children:
  assumes "sorted (map bp_height (c # rest))"
    and rest: "\<And>p. p \<in> set rest \<Longrightarrow> unat (bp_height p) \<le> unat (bp_height c) + 1"
    and kids: "\<And>p. p \<in> set kids \<Longrightarrow> bp_height p = bp_height c + 1"
    and max: "bp_height c \<noteq> - 1"
  shows "sorted (map bp_height (rest @ kids))"
    and "\<And>p. p \<in> set (rest @ kids) \<Longrightarrow>
      unat (bp_height p) \<le> unat (bp_height (hd (rest @ kids))) + 1"
proof -
  have unat: "unat (bp_height c + 1) = unat (bp_height c) + 1" using max by (rule unat_next_height)
  have "map bp_height kids = replicate (length kids) (bp_height c + 1)"
    using kids by (simp add: map_replicate_const[symmetric] del: map_replicate_const)
  moreover have "bp_height p \<le> bp_height c + 1" if "p \<in> set rest" for p
    using rest[OF that] by (simp add: word_le_nat_alt unat)
  ultimately show "sorted (map bp_height (rest @ kids))"
    using assms(1) by (auto simp: sorted_append)
  have up: "unat (bp_height p) \<le> unat (bp_height c) + 1" if "p \<in> set (rest @ kids)" for p
    using that rest kids unat by auto
  have "unat (bp_height c) \<le> unat (bp_height p)" if "p \<in> set (rest @ kids)" for p
    using that assms(1) kids unat by (auto simp: word_le_nat_alt)
  then show "unat (bp_height p) \<le> unat (bp_height (hd (rest @ kids))) + 1"
    if "p \<in> set (rest @ kids)" for p
    using up[OF that] that by (metis add_le_mono1 emptyE hd_in_set le_trans list.set(1))
qed

lemma parents_ok_step:
  assumes "tm_ok tm" "parents_ok prev tm parents" "c \<in> set (tm_paths tm)" "reachable prev tm c"
  shows "parents_ok prev tm
    (fold (\<lambda>p m. m(bp_hash p \<mapsto> bp_hash c)) (next_tips prev tm c) parents)"
  unfolding parents_ok_def
proof (intro allI impI)
  fix h d
  assume "fold (\<lambda>p m. m(bp_hash p \<mapsto> bp_hash c)) (next_tips prev tm c) parents h = Some d"
  then have *: "(if h \<in> bp_hash ` set (next_tips prev tm c) then Some (bp_hash c) else parents h) = Some d"
    by (simp only: fold_parents)
  show "\<exists>p\<in>set (tm_paths tm). \<exists>q\<in>set (tm_paths tm).
      bp_hash p = h \<and> bp_hash q = d \<and> linked prev q p \<and> reachable prev tm q"
  proof (cases "h \<in> bp_hash ` set (next_tips prev tm c)")
    case True
    then obtain p where p: "p \<in> set (next_tips prev tm c)" "bp_hash p = h" by blast
    then have "p \<in> set (tm_paths tm)" "linked prev c p" by (simp_all add: next_tips_linked[OF assms(1)])
    moreover have "bp_hash c = d" using True * by simp
    ultimately show ?thesis using p(2) assms(3,4) by blast
  next
    case False
    with * have "parents h = Some d" by simp
    then show ?thesis using assms(2) unfolding parents_ok_def by blast
  qed
qed

lemma bfs_inv_step:
  assumes ok: "tm_ok tm" "below_max tm" and inv: "bfs_inv prev tm seen (c # rest) parents best"
  defines "kids \<equiv> next_tips prev tm c"
  shows "bfs_inv prev tm (insert c seen) (rest @ kids)
    (fold (\<lambda>p m. m(bp_hash p \<mapsto> bp_hash c)) kids parents)
    (if kids = [] then best else Some (last kids))"
proof -
  have c: "c \<in> set (tm_paths tm)" using inv by (auto simp: bfs_inv_def)
  have kids: "set kids = {p \<in> set (tm_paths tm). linked prev c p}"
    unfolding kids_def using ok(1) by (rule next_tips_linked)
  have max: "bp_height c \<noteq> - 1" using ok(2) c by (simp add: below_max_def)
  have srt: "sorted (map bp_height (c # rest))" using inv by (simp add: bfs_inv_def)
  have near: "unat (bp_height p) \<le> unat (bp_height c) + 1" if "p \<in> set (c # rest)" for p
    using inv that unfolding bfs_inv_def by (metis list.distinct(1) list.sel(1))
  have next_up: "bp_height p = bp_height c + 1" if "p \<in> set kids" for p
    using that kids by (simp add: linked_def)
  have order1: "sorted (map bp_height (rest @ kids))"
    using srt near next_up max by (intro sorted_append_children(1)[of c]) auto
  have order2: "unat (bp_height p) \<le> unat (bp_height (hd (rest @ kids))) + 1"
    if "p \<in> set (rest @ kids)" for p
    using srt near next_up max that by (intro sorted_append_children(2)[of c]) auto
  have parents: "parents_ok prev tm (fold (\<lambda>p m. m(bp_hash p \<mapsto> bp_hash c)) kids parents)"
    unfolding kids_def using ok(1) _ c by (rule parents_ok_step) (use inv in \<open>simp_all add: bfs_inv_def\<close>)
  have reach: "reachable prev tm p" if "p \<in> insert c seen \<union> set (rest @ kids)" for p
  proof (cases "p \<in> set kids")
    case True
    have "reachable prev tm c" using inv by (simp add: bfs_inv_def)
    with True kids show ?thesis by (blast intro: reachable.step)
  next
    case False
    with that inv show ?thesis unfolding bfs_inv_def by auto
  qed
  obtain b where b: "best = Some b" "b = last (c # rest)" "\<forall>p\<in>seen. bp_height p \<le> bp_height b"
    using inv by (auto simp: bfs_inv_def)
  have c_le: "bp_height c \<le> bp_height b"
    using srt b(2) by (cases rest) auto
  have kid_le: "bp_height c \<le> bp_height p \<and> bp_height b \<le> bp_height p" if "p \<in> set kids" for p
  proof -
    have "unat (bp_height p) = unat (bp_height c) + 1"
      using next_up[OF that] max unat_next_height by simp
    moreover have "unat (bp_height b) \<le> unat (bp_height c) + 1"
      unfolding b(2) by (rule near) (rule last_in_set, simp)
    ultimately show ?thesis by (simp add: word_le_nat_alt)
  qed
  have best: "\<exists>b'. (if kids = [] then best else Some (last kids)) = Some b' \<and>
      b' \<in> insert c seen \<union> set (rest @ kids) \<and> (rest @ kids \<noteq> [] \<longrightarrow> b' = last (rest @ kids)) \<and>
      (\<forall>p\<in>insert c seen. bp_height p \<le> bp_height b')"
  proof (cases "kids = []")
    case True
    with b c_le show ?thesis by (cases rest) auto
  next
    case False
    then have "last kids \<in> set kids" by simp
    with False b(3) kid_le[OF this] show ?thesis by (auto intro: order_trans)
  qed
  have parent_of: "p \<in> set (root_files tm) \<or>
      fold (\<lambda>p m. m(bp_hash p \<mapsto> bp_hash c)) kids parents (bp_hash p) \<noteq> None"
    if "p \<in> insert c seen \<union> set (rest @ kids)" for p
    using that inv by (cases "p \<in> set kids") (auto simp: fold_parents bfs_inv_def)
  have closed: "p \<in> insert c seen \<union> set (rest @ kids)"
    if "q \<in> insert c seen" "p \<in> set (tm_paths tm)" "linked prev q p" for p q
    using that inv kids by (cases "q = c") (auto simp: bfs_inv_def)
  have sub: "insert c seen \<union> set (rest @ kids) \<subseteq> set (tm_paths tm)"
    "set (root_files tm) \<subseteq> insert c seen \<union> set (rest @ kids)"
    using inv kids by (auto simp: bfs_inv_def)
  show ?thesis
    unfolding bfs_inv_def using sub parents order1 best
    by (intro conjI ballI impI) (simp_all only: reach parent_of closed order2 not_False_eq_True)
qed

lemma bfs_total:
  assumes "tm_ok tm" "below_max tm" "bfs_inv prev tm seen queue parents best" "freq \<noteq> 0"
  shows "\<exists>parents' b. bfs prev freq tm queue parents best = Some (Inr (parents', Some b)) \<and>
    tips_found prev tm parents' b"
  using assms(3)
proof (induction "image_mset (\<lambda>p. 2 ^ 32 - unat (bp_height p)) (mset queue)"
    arbitrary: seen queue parents best rule: wf_induct_rule[OF wf_mult[OF wf_less_than]])
  case 1
  show ?case
  proof (cases queue)
    case Nil
    with bfs_inv_end 1(2) show ?thesis by (subst bfs.simps) auto
  next
    case (Cons c rest)
    let ?v = "\<lambda>p. 2 ^ 32 - unat (bp_height p) :: nat" and ?kids = "next_tips prev tm c"
    have c: "c \<in> set (tm_paths tm)" using 1(2) Cons by (auto simp: bfs_inv_def)
    then have max: "bp_height c \<noteq> - 1" using assms(2) by (simp add: below_max_def)
    have "?v p < ?v c" if "p \<in> set ?kids" for p
    proof -
      have "linked prev c p" using that next_tips_linked[OF assms(1)] by auto
      then have "unat (bp_height p) = unat (bp_height c) + 1" using max by (rule linked_height)
      moreover have "unat (bp_height p) < 2 ^ 32" using unsigned_less[of "bp_height p", where ?'a = nat] by simp
      ultimately show ?thesis by simp
    qed
    then have "(image_mset ?v (mset (rest @ ?kids)), image_mset ?v (mset queue)) \<in> mult less_than"
      unfolding Cons
      using one_step_implies_mult[of "{#?v c#}" "image_mset ?v (mset ?kids)" less_than
          "image_mset ?v (mset rest)"] by (auto simp: image_iff)
    from 1(1)[OF this bfs_inv_step[OF assms(1,2) 1(2)[unfolded Cons]]]
    show ?thesis unfolding Cons using assms(4) by (subst bfs.simps) (simp add: log_progress_def)
  qed
qed

lemma root_files_in: "set (root_files tm) \<subseteq> set (tm_paths tm)"
  by (auto simp: root_files_def tm_paths_def split: list.splits)

lemma find_best_tip_total:
  assumes "tm_ok tm" "below_max tm" "root_files tm \<noteq> []" "freq \<noteq> 0"
  shows "\<exists>parents best. find_best_tip prev freq tm = Some (Inr (parents, best)) \<and>
    tips_found prev tm parents best"
proof -
  have same: "bp_height p = bp_height q" if "p \<in> set (root_files tm)" "q \<in> set (root_files tm)" for p q
    using that assms(1) by (auto simp: root_files_def tm_ok_def split: list.splits)
  have "sorted (map bp_height (root_files tm))"
    unfolding sorted_iff_nth_mono by (auto intro!: eq_refl same)
  moreover have "\<forall>p\<in>set (root_files tm).
      unat (bp_height p) \<le> unat (bp_height (hd (root_files tm))) + 1"
  proof
    fix p assume "p \<in> set (root_files tm)"
    from same[OF this hd_in_set[OF assms(3)]]
    show "unat (bp_height p) \<le> unat (bp_height (hd (root_files tm))) + 1" by simp
  qed
  ultimately have "bfs_inv prev tm {} (root_files tm) Map.empty (Some (last (root_files tm)))"
    unfolding bfs_inv_def using assms(3) root_files_in[of tm]
    by (simp add: parents_ok_def reachable.root)
  from bfs_total[OF assms(1,2) this assms(4)] assms(3) show ?thesis
    by (auto simp: find_best_tip_def)
qed

subsection \<open>Walking back\<close>

lemma distinct_hash_eq:
  "distinct (map bp_hash ps) \<Longrightarrow> p \<in> set ps \<Longrightarrow> q \<in> set ps \<Longrightarrow> bp_hash p = bp_hash q \<Longrightarrow> p = q"
  by (simp add: distinct_map inj_on_def)

lemma walk_parent:
  assumes "distinct (map bp_hash (tm_paths tm0))" "parents_ok prev tm0 parents" "below_max tm0"
    "walk_inv prev tm0 tm branch" "parents (bp_hash (last branch)) = Some hash"
  obtains q ps where "q \<in> set (tm_paths tm0)" "bp_hash q = hash" "linked prev q (last branch)"
    "unat (bp_height (last branch)) = unat (bp_height q) + 1" "reachable prev tm0 q"
    "map_of tm (bp_height (last branch) - 1) = Some ps" "q \<in> set ps"
    "find (\<lambda>p. bp_hash p = hash) ps = Some q"
proof -
  have last: "last branch \<in> set (tm_paths tm0)" using assms(4) by (auto simp: walk_inv_def)
  from assms(2,5) obtain p q where pq: "p \<in> set (tm_paths tm0)" "q \<in> set (tm_paths tm0)"
    "bp_hash p = bp_hash (last branch)" "bp_hash q = hash" "linked prev q p"
    "reachable prev tm0 q"
    unfolding parents_ok_def by blast
  have "p = last branch" using assms(1) pq(1) last pq(3) by (rule distinct_hash_eq)
  with pq have link: "linked prev q (last branch)" by simp
  have "bp_height q \<noteq> - 1" using pq(2) assms(3) by (simp add: below_max_def)
  with link have h: "unat (bp_height (last branch)) = unat (bp_height q) + 1" by (rule linked_height)
  have notin: "q \<notin> set branch"
    using assms(4) h by (force simp: walk_inv_def word_le_nat_alt)
  have "q \<in># mset (tm_paths tm) + mset (tl branch)"
    using assms(4) pq(2) by (simp add: walk_inv_def)
  with notin have q: "q \<in> set (tm_paths tm)"
    by (metis in_multiset_in_set list.set_sel(2) tl_Nil union_iff)
  have ok: "tm_ok tm" using assms(4) by (simp add: walk_inv_def)
  from tm_get_in[OF ok q] obtain ps where ps: "map_of tm (bp_height q) = Some ps" "q \<in> set ps" by blast
  have "bp_height q = bp_height (last branch) - 1" using link by (simp add: linked_def)
  moreover have "find (\<lambda>p. bp_hash p = hash) ps = Some q"
  proof (cases "find (\<lambda>p. bp_hash p = hash) ps")
    case None
    with ps(2) pq(4) show ?thesis by (auto simp: find_None_iff)
  next
    case (Some r)
    then have r: "r \<in> set ps" "bp_hash r = hash" by (auto simp: find_Some_iff)
    then have "r \<in> set (tm_paths tm)" using tm_get[OF ok ps(1)] by blast
    then have "r \<in># mset (tm_paths tm0)"
      using assms(4) unfolding walk_inv_def by (metis in_multiset_in_set union_iff)
    then have "r = q" using distinct_hash_eq[OF assms(1)] pq(2,4) r(2) by simp
    with Some show ?thesis by simp
  qed
  ultimately show thesis using that[OF pq(2,4) link h pq(6)] ps by simp
qed

lemma walk_inv_step:
  assumes "walk_inv prev tm0 tm branch" "q \<in> set (tm_paths tm0)" "linked prev q (last branch)"
    "unat (bp_height (last branch)) = unat (bp_height q) + 1" "reachable prev tm0 q"
    "map_of tm h = Some ps" "q \<in> set ps"
  shows "walk_inv prev tm0 (tm_set h (remove1 q ps) tm) (branch @ [q])"
proof -
  have ok: "tm_ok tm" and ne: "branch \<noteq> []" using assms(1) by (simp_all add: walk_inv_def)
  have "tm_ok (tm_set h (remove1 q ps) tm)"
    using ok assms(6) by (rule tm_set_ok) (rule set_remove1_subset)
  moreover have "mset (tm_paths (tm_set h (remove1 q ps) tm)) + mset (tl (branch @ [q])) =
      mset (tm_paths tm0)"
    using tm_set_mset[OF ok assms(6,7)] assms(1) ne
    by (simp add: walk_inv_def flip: add_mset_add_single) (metis union_mset_add_mset_left)
  moreover have "\<forall>r\<in>set (branch @ [q]). bp_height q \<le> bp_height r"
    using assms(1,4) by (force simp: walk_inv_def word_le_nat_alt)
  ultimately show ?thesis using assms(1-3,5) ne
    by (auto simp: walk_inv_def successively_append_iff)
qed

lemma walk_back_total:
  assumes "distinct (map bp_hash (tm_paths tm0))" "parents_ok prev tm0 parents" "below_max tm0"
    "walk_inv prev tm0 tm branch"
  shows "\<exists>tm' branch'. walk_back parents tm (bp_height (last branch) - 1)
      (parents (bp_hash (last branch))) branch = Some (Inr (tm', branch')) \<and>
    walk_inv prev tm0 tm' branch' \<and> hd branch' = hd branch \<and>
    parents (bp_hash (last branch')) = None"
  using assms(4)
proof (induction "unat (bp_height (last branch))" arbitrary: tm branch rule: less_induct)
  case less
  show ?case
  proof (cases "parents (bp_hash (last branch))")
    case None
    with less(2) show ?thesis by (subst walk_back.simps) simp
  next
    case (Some hash)
    from assms(1-3) less(2) Some obtain q ps where q:
      "q \<in> set (tm_paths tm0)" "bp_hash q = hash" "linked prev q (last branch)"
      "unat (bp_height (last branch)) = unat (bp_height q) + 1" "reachable prev tm0 q"
      "map_of tm (bp_height (last branch) - 1) = Some ps" "q \<in> set ps"
      "find (\<lambda>p. bp_hash p = hash) ps = Some q" by (rule walk_parent)
    note inv = walk_inv_step[OF less(2) q(1,3,4,5,6,7)]
    have "unat (bp_height (last (branch @ [q]))) < unat (bp_height (last branch))" using q(4) by simp
    note IH = less(1)[OF this inv]
    have "branch \<noteq> []" using less(2) by (simp add: walk_inv_def)
    moreover have "bp_height (last branch) - 1 = bp_height q" using q(3) by (simp add: linked_def)
    ultimately show ?thesis using IH Some q(6,8) by (subst walk_back.simps) simp
  qed
qed

subsection \<open>The partition of the paths\<close>

lemma tm_paths_filter:
  "mset (tm_paths (filter P tm)) + mset (tm_paths (filter (\<lambda>e. \<not> P e) tm)) = mset (tm_paths tm)"
  by (induction tm) (auto simp: tm_paths_def ac_simps)

lemma tm_paths_filter_height:
  assumes "tm_ok tm"
  shows "set (tm_paths (filter (\<lambda>(h, _). P h) tm)) = {p \<in> set (tm_paths tm). P (bp_height p)}"
  using assms by (induction tm) (auto simp: tm_paths_def tm_ok_def)

lemma mset_filter_neq:
  assumes "distinct xs" "x \<in> set xs"
  shows "add_mset x (mset (filter (\<lambda>y. y \<noteq> x) xs)) = mset xs"
  using assms
  by (induction xs) (auto simp del: mset_filter intro!: arg_cong[where f = mset] filter_True)

lemma walk_inv_best:
  assumes "walk_inv prev tm0 tm branch" "distinct (tm_paths tm0)" "p \<in> set (tm_paths tm)" "p \<in> set branch"
  shows "p = hd branch"
proof (rule ccontr)
  assume "p \<noteq> hd branch"
  with assms(4) have "p \<in> set (tl branch)" by (cases branch) auto
  moreover have "distinct (tm_paths tm @ tl branch)"
    using assms(1,2) unfolding walk_inv_def by (metis mset_append mset_eq_imp_distinct_iff)
  ultimately show False using assms(3) by auto
qed

lemma walk_inv_best_in:
  assumes "walk_inv prev tm0 tm branch" "below_max tm0"
  shows "hd branch \<in> set (tm_paths tm)" "\<forall>r\<in>set branch. bp_height r \<le> bp_height (hd branch)"
proof -
  have sub: "set branch \<subseteq> set (tm_paths tm0)" and ne: "branch \<noteq> []"
    and link: "successively (\<lambda>p q. linked prev q p) branch"
    using assms(1) by (auto simp: walk_inv_def)
  have desc: "\<forall>r\<in>set (tl xs). unat (bp_height r) < unat (bp_height (hd xs))"
    if "successively (\<lambda>p q. linked prev q p) xs" "set xs \<subseteq> set (tm_paths tm0)" for xs
    using that
  proof (induction xs rule: induct_list012)
    case (3 x y zs)
    then have "linked prev y x" "bp_height y \<noteq> - 1" using assms(2) by (auto simp: below_max_def)
    then have "unat (bp_height x) = unat (bp_height y) + 1" by (rule linked_height)
    with 3 show ?case by force
  qed simp_all
  show "\<forall>r\<in>set branch. bp_height r \<le> bp_height (hd branch)"
    using desc[OF link sub] ne by (cases branch) (auto simp: word_le_nat_alt)
  have "hd branch \<notin> set (tl branch)" using desc[OF link sub] by auto
  moreover have "hd branch \<in># mset (tm_paths tm) + mset (tl branch)"
    using assms(1) sub ne by (auto simp: walk_inv_def)
  ultimately show "hd branch \<in> set (tm_paths tm)" by simp
qed

lemma off_branch:
  assumes inv: "walk_inv prev tm0 tm branch" and ok: "below_max tm0" "paths_inj tm0"
    and dist: "distinct (tm_paths tm0)" and k: "k < length (rev branch)"
  defines "S \<equiv> tm_paths (filter (\<lambda>(h, _). bp_height (rev branch ! k) \<le> h) tm)"
  shows "distinct S" "hd branch \<in> set S"
    "filter (\<lambda>p. bp_path p \<notin> bp_path ` set (drop k (rev branch))) S = filter (\<lambda>p. p \<noteq> hd branch) S"
proof -
  let ?h = "bp_height (rev branch ! k)"
  have ne: "branch \<noteq> []" using inv by (simp add: walk_inv_def)
  have tm: "tm_ok tm" "set (tm_paths tm) \<subseteq> set (tm_paths tm0)" "set branch \<subseteq> set (tm_paths tm0)"
    using inv unfolding walk_inv_def by (auto dest!: mset_eq_setD[symmetric] simp del: mset_append simp flip: mset_append)
  have S: "set S = {p \<in> set (tm_paths tm). ?h \<le> bp_height p}"
    unfolding S_def using tm(1) by (rule tm_paths_filter_height)
  have best: "hd branch \<in> set (drop k (rev branch))"
    using ne k by (metis drop_eq_Nil hd_rev last_drop last_in_set leD rev_rev_ident)
  have "distinct (tm_paths tm)"
    using dist inv unfolding walk_inv_def by (metis distinct_append mset_append mset_eq_imp_distinct_iff)
  then show "distinct S"
    unfolding S_def using tm_paths_filter[of "\<lambda>(h, _). ?h \<le> h" tm]
    by (metis distinct_append mset_append mset_eq_imp_distinct_iff)
  show "hd branch \<in> set S"
    using S walk_inv_best_in[OF inv ok(1)] nth_mem[OF k] by auto
  have same: "bp_path p \<in> bp_path ` set (drop k (rev branch)) \<longleftrightarrow> p = hd branch" if "p \<in> set S" for p
  proof
    assume "bp_path p \<in> bp_path ` set (drop k (rev branch))"
    then obtain q where q: "q \<in> set (drop k (rev branch))" "bp_path p = bp_path q" by blast
    then have "q \<in> set branch" by (metis in_set_dropD set_rev)
    moreover have "p \<in> set (tm_paths tm)" using that S by simp
    ultimately have "p = q" using q(2) ok(2) tm by (auto simp: paths_inj_def dest: inj_onD)
    then show "p = hd branch" using walk_inv_best[OF inv dist] \<open>q \<in> set branch\<close> \<open>p \<in> set (tm_paths tm)\<close> by simp
  qed (use best in simp)
  then show "filter (\<lambda>p. bp_path p \<notin> bp_path ` set (drop k (rev branch))) S =
      filter (\<lambda>p. p \<noteq> hd branch) S"
    by (intro filter_cong[OF refl]) (simp only: same)
qed

lemma split_partition:
  assumes inv: "walk_inv prev tm0 tm branch" and ok: "below_max tm0" "paths_inj tm0"
    and dist: "distinct (tm_paths tm0)" and thr: "0 < threshold"
    and split: "split_off_recent_paths (rev branch) tm threshold = (canonical, rest, recent)"
  shows "mset canonical + mset recent + mset (get_orphaned_paths rest) = mset (tm_paths tm0)"
proof -
  let ?b = "rev branch" and ?best = "hd branch"
  let ?k = "length ?b - threshold"
  have ne: "branch \<noteq> []" using inv by (simp add: walk_inv_def)
  then have k: "?k < length ?b" using thr by simp
  let ?h = "bp_height (?b ! ?k)"
  let ?S = "tm_paths (filter (\<lambda>(h, _). ?h \<le> h) tm)"
  note S = off_branch[OF inv ok dist k]
  from S(3) have recent: "mset recent = mset (drop ?k ?b) + mset (filter (\<lambda>p. p \<noteq> ?best) ?S)"
    and canonical: "canonical = take ?k ?b"
    and rest: "rest = filter (\<lambda>(h, _). \<not> ?h \<le> h) tm"
    using split k by (auto simp: split_off_recent_paths_def Let_def)
  have "mset canonical + mset (drop ?k ?b) = mset branch"
    unfolding canonical by (metis append_take_drop_id mset_append mset_rev)
  also have "\<dots> = add_mset ?best (mset (tl branch))" using ne by (cases branch) auto
  finally have e: "mset canonical + mset (drop ?k ?b) = add_mset ?best (mset (tl branch))" .
  have "mset canonical + mset recent + mset (get_orphaned_paths rest) =
      mset canonical + mset (drop ?k ?b) + mset (filter (\<lambda>p. p \<noteq> ?best) ?S) + mset (tm_paths rest)"
    by (simp only: recent get_orphaned_paths_def add.assoc)
  also have "\<dots> =
      mset (tl branch) + add_mset ?best (mset (filter (\<lambda>p. p \<noteq> ?best) ?S)) + mset (tm_paths rest)"
    by (simp only: e union_mset_add_mset_left union_mset_add_mset_right)
  also have "\<dots> = mset (tl branch) + (mset ?S + mset (tm_paths rest))"
    using mset_filter_neq[OF S(1,2)] by simp
  also have "mset ?S + mset (tm_paths rest) = mset (tm_paths tm)"
    unfolding rest using tm_paths_filter[of "\<lambda>(h, _). ?h \<le> h" tm] by (simp add: split_def)
  finally show ?thesis using inv by (simp add: walk_inv_def add.commute)
qed

lemma tree_map_discoverable:
  assumes "discoverable ps"
  defines "tm \<equiv> tree_map_of ps"
  shows "tm_ok tm" "below_max tm" "distinct (map bp_hash (tm_paths tm))" "root_files tm \<noteq> []"
    "mset (tm_paths tm) = mset ps"
proof -
  show ok: "tm_ok tm" and ms: "mset (tm_paths tm) = mset ps"
    using tree_map_of_ok[of ps] by (simp_all add: tm_def)
  then have set: "set (tm_paths tm) = set ps" by (metis mset_eq_setD)
  with assms(1) show "below_max tm" by (simp add: below_max_def discoverable_def)
  from ms have "mset (map bp_hash (tm_paths tm)) = mset (map bp_hash ps)" by (simp only: mset_map)
  with assms(1) show "distinct (map bp_hash (tm_paths tm))"
    by (metis discoverable_def mset_eq_imp_distinct_iff)
  have ne: "snd e \<noteq> []" if "e \<in> set (fold tm_push qs t)" "\<forall>e\<in>set t. snd e \<noteq> []" for e qs t
    using that
  proof (induction qs arbitrary: t)
    case (Cons q qs)
    have "\<forall>e\<in>set (tm_push q t). snd e \<noteq> []"
      using Cons.prems(2) by (induction q t rule: tm_push.induct) auto
    with Cons show ?case by simp
  qed simp
  have "tm \<noteq> []" using ms assms(1) by (auto simp: discoverable_def tm_paths_def)
  then show "root_files tm \<noteq> []"
    using ne[of "hd tm" ps "[]"]
    by (cases tm) (simp_all add: root_files_def tm_def tree_map_of_def case_prod_unfold)
qed

lemma canonical_branch_found:
  assumes "discoverable ps" "freq \<noteq> 0"
  defines "tm \<equiv> tree_map_of ps"
  obtains parents best tm' branch where
    "find_best_tip prev freq tm = Some (Inr (parents, best))"
    "canonical_branch_from_best_tip tm parents best = Some (Inr (tm', rev branch))"
    "walk_inv prev tm tm' branch" "hd branch = best" "last branch \<in> set (root_files tm)"
    "\<forall>p. reachable prev tm p \<longrightarrow> bp_height p \<le> bp_height best"
proof -
  note tm = tree_map_discoverable[OF assms(1), folded tm_def]
  from find_best_tip_total[OF tm(1,2,4) assms(2)] obtain parents best where best:
    "find_best_tip prev freq tm = Some (Inr (parents, best))" "tips_found prev tm parents best" by blast
  have "walk_inv prev tm tm [best]"
    using best(2) tm(1) by (simp add: walk_inv_def tips_found_def)
  moreover have "parents_ok prev tm parents" using best(2) by (simp add: tips_found_def)
  ultimately obtain tm' branch where walk:
    "walk_back parents tm (bp_height best - 1) (parents (bp_hash best)) [best] = Some (Inr (tm', branch))"
    "walk_inv prev tm tm' branch" "hd branch = best" "parents (bp_hash (last branch)) = None"
    using walk_back_total[OF tm(3) _ tm(2), of prev parents tm "[best]"] by auto
  have "last branch \<in> set (root_files tm)"
    using walk(2,4) best(2) by (auto simp: walk_inv_def tips_found_def)
  moreover have "canonical_branch_from_best_tip tm parents best = Some (Inr (tm', rev branch))"
    using walk(1) by (simp add: canonical_branch_from_best_tip_def)
  ultimately show thesis
    using that best walk by (simp add: tips_found_def)
qed

lemma parse_path_inj:
  assumes "traverse_ok parse_path paths = Inr ps"
  shows "map bp_path ps = paths" "inj_on bp_path (set ps)"
proof -
  have one: "parse_path path = Inr p \<Longrightarrow> bp_path p = path" for path p
    by (auto simp: parse_path_def run_simps)
  from assms show "map bp_path ps = paths"
    by (induction paths arbitrary: ps) (auto simp: bind_ok_Inr_iff dest: one)
  have "parse_path (bp_path p) = Inr p" if "p \<in> set ps" for p
    using traverse_ok_in[OF assms that] one by auto
  then show "inj_on bp_path (set ps)" by (metis inj_onI sum.inject(2))
qed

lemma discovery_total:
  assumes "traverse_ok parse_path paths = Inr ps" "discoverable ps" "0 < threshold" "freq \<noteq> 0"
  shows "\<exists>canonical recent orphaned branch.
    discovery prev threshold freq paths = Some (Inr (canonical, recent, orphaned)) \<and>
    mset canonical + mset recent + mset orphaned = mset paths \<and>
    canonical = map bp_path (take (length branch - threshold) branch) \<and> branch \<noteq> [] \<and>
    set branch \<subseteq> set ps \<and> successively (linked prev) branch \<and>
    hd branch \<in> set (root_files (tree_map_of ps)) \<and>
    (\<forall>p. reachable prev (tree_map_of ps) p \<longrightarrow> bp_height p \<le> bp_height (last branch))"
proof -
  let ?tm = "tree_map_of ps"
  note tm = tree_map_discoverable[OF assms(2)]
  obtain parents best tm' branch where b:
    "find_best_tip prev freq ?tm = Some (Inr (parents, best))"
    "canonical_branch_from_best_tip ?tm parents best = Some (Inr (tm', rev branch))"
    "walk_inv prev ?tm tm' branch" "hd branch = best" "last branch \<in> set (root_files ?tm)"
    "\<forall>p. reachable prev ?tm p \<longrightarrow> bp_height p \<le> bp_height best"
    by (rule canonical_branch_found[OF assms(2,4)])
  obtain c r o' where split: "split_off_recent_paths (rev branch) tm' threshold = (c, o', r)"
    by (metis prod_cases3)
  have "set (tm_paths ?tm) = set ps" using tm(5) by (metis mset_eq_setD)
  then have inj: "paths_inj ?tm" using parse_path_inj(2)[OF assms(1)] by (simp add: paths_inj_def)
  have "distinct (tm_paths ?tm)" using tm(3) by (simp add: distinct_map)
  from split_partition[OF b(3) tm(2) inj this assms(3) split]
  have "mset c + mset r + mset (get_orphaned_paths o') = mset ps" using tm(5) by simp
  then have "image_mset bp_path (mset c + mset r + mset (get_orphaned_paths o')) =
      image_mset bp_path (mset ps)" by (rule arg_cong)
  then have part: "mset (map bp_path c) + mset (map bp_path r) +
      mset (map bp_path (get_orphaned_paths o')) = mset paths"
    using parse_path_inj(1)[OF assms(1)] by (simp only: image_mset_union mset_map)
      (metis mset_map)
  have "paths \<noteq> []" using parse_path_inj(1)[OF assms(1)] assms(2) by (auto simp: discoverable_def)
  then have "discovery prev threshold freq paths =
      Some (Inr (map bp_path c, map bp_path r, map bp_path (get_orphaned_paths o')))"
    using assms(1) b(1,2) split by (simp add: discovery_def)
  moreover have "c = take (length (rev branch) - threshold) (rev branch)"
    using split by (simp add: split_off_recent_paths_def Let_def)
  moreover have "successively (linked prev) (rev branch)" "rev branch \<noteq> []"
    "set (rev branch) \<subseteq> set ps"
    using b(3) \<open>set (tm_paths ?tm) = set ps\<close> by (auto simp: walk_inv_def successively_rev)
  moreover have "hd (rev branch) \<in> set (root_files ?tm)" "last (rev branch) = best"
    using b(4,5) by (simp_all add: hd_rev last_rev)
  ultimately show ?thesis using part b(6) by blast
qed

section \<open>An example\<close>

text \<open>The three block files of an example: a root, its child and a fork of the child.\<close>

definition example_paths :: "string list" where
  "example_paths = [''m-1-a.json'', ''m-2-b.json'', ''m-2-c.json'']"

definition example_prev :: "string \<Rightarrow> string option" where
  "example_prev path = (if path = ''m-1-a.json'' then Some ''z'' else Some ''a'')"

lemma example_parsed:
  "traverse_ok parse_path example_paths =
     Inr [\<lparr>bp_path = ''m-1-a.json'', bp_height = 1, bp_hash = ''a''\<rparr>,
          \<lparr>bp_path = ''m-2-b.json'', bp_height = 2, bp_hash = ''b''\<rparr>,
          \<lparr>bp_path = ''m-2-c.json'', bp_height = 2, bp_hash = ''c''\<rparr>]"
  by (simp add: example_paths_def parse_path_def extract_height_and_hash_def file_stem_def file_name_def
      stem_of_name_def parse_u32_def is_digit_def digits_value_def digit_value_def less_eq_char_simp
      index_ok_def)

lemma example_discoverable:
  "discoverable [\<lparr>bp_path = ''m-1-a.json'', bp_height = 1, bp_hash = ''a''\<rparr>,
          \<lparr>bp_path = ''m-2-b.json'', bp_height = 2, bp_hash = ''b''\<rparr>,
          \<lparr>bp_path = ''m-2-c.json'', bp_height = 2, bp_hash = ''c''\<rparr>]"
  by (simp add: discoverable_def)

section \<open>Properties of discovery\<close>

text \<open>
  C13: for block files with distinct state hashes, heights below the 32-bit maximum, a positive
  threshold and a positive reporting frequency, discovery ends without a panic and partitions the paths into the canonical, the recent
  and the orphaned ones: none is lost and none is reported twice.
\<close>

theorem discovery_partitions:
  assumes "traverse_ok parse_path paths = Inr ps" "discoverable ps" "0 < threshold" "freq \<noteq> 0"
  shows "\<exists>canonical recent orphaned.
    discovery prev threshold freq paths = Some (Inr (canonical, recent, orphaned)) \<and>
    mset canonical + mset recent + mset orphaned = mset paths"
  using discovery_total[OF assms] by blast

theorem discovery_partitions_witness:
  "\<exists>canonical recent orphaned.
     discovery example_prev 1 1000 example_paths = Some (Inr (canonical, recent, orphaned)) \<and>
     mset canonical + mset recent + mset orphaned = mset example_paths"
  by (rule discovery_partitions[OF example_parsed example_discoverable]) simp_all

text \<open>
  C14: under the same conditions the canonical paths are the part, without its last \<open>threshold\<close> blocks, of a chain of parent links
  that starts at the lowest height and ends at a block that no block reachable by parent links from
  the lowest height exceeds in height.
\<close>

theorem discovery_canonical_chain:
  assumes "traverse_ok parse_path paths = Inr ps" "discoverable ps" "0 < threshold" "freq \<noteq> 0"
    "discovery prev threshold freq paths = Some (Inr (canonical, recent, orphaned))"
  shows "\<exists>branch. canonical = map bp_path (take (length branch - threshold) branch) \<and> branch \<noteq> [] \<and>
    set branch \<subseteq> set ps \<and> successively (linked prev) branch \<and>
    hd branch \<in> set (root_files (tree_map_of ps)) \<and>
    (\<forall>p. reachable prev (tree_map_of ps) p \<longrightarrow> bp_height p \<le> bp_height (last branch))"
  using discovery_total[OF assms(1-4), of prev] assms(5) by auto

theorem discovery_canonical_chain_witness:
  "\<exists>canonical recent orphaned branch.
     discovery example_prev 1 1000 example_paths = Some (Inr (canonical, recent, orphaned)) \<and>
     canonical = map bp_path (take (length branch - 1) branch) \<and> successively (linked example_prev) branch"
proof -
  obtain canonical recent orphaned where
    d: "discovery example_prev 1 1000 example_paths = Some (Inr (canonical, recent, orphaned))"
    using discovery_total[OF example_parsed example_discoverable, of 1 1000 example_prev] by auto
  from discovery_canonical_chain[OF example_parsed example_discoverable _ _ d] d show ?thesis by auto
qed

text \<open>
  With a threshold of zero discovery reports the best tip twice: it ends the canonical chain and is
  also among the recent paths, because the walk back never takes it out of the tree map.
\<close>

lemma discovery_threshold_zero_duplicates:
  "freq \<noteq> 0 \<Longrightarrow> discovery (\<lambda>_. None) 0 freq [''m-1-a.json''] = Some (Inr ([''m-1-a.json''], [''m-1-a.json''], []))"
proof -
  assume freq: "freq \<noteq> 0"
  let ?p = "\<lparr>bp_path = ''m-1-a.json'', bp_height = 1, bp_hash = ''a''\<rparr>"
  have parse: "traverse_ok parse_path [''m-1-a.json''] = Inr [?p]"
    by (simp add: parse_path_def extract_height_and_hash_def file_stem_def file_name_def
      stem_of_name_def parse_u32_def is_digit_def digits_value_def digit_value_def less_eq_char_simp
      index_ok_def)
  have tm: "tree_map_of [?p] = [(1, [?p])]" by (simp add: tree_map_of_def)
  have "next_tips (\<lambda>_. None) [(1, [?p])] ?p = []" by (simp add: next_tips_def)
  then have bfs: "bfs (\<lambda>_. None) freq [(1, [?p])] [?p] Map.empty (Some ?p) = Some (Inr (Map.empty, Some ?p))"
    using freq by (subst bfs.simps) (simp add: bfs.simps log_progress_def)
  have "walk_back Map.empty [(1, [?p])] 0 None [?p] = Some (Inr ([(1, [?p])], [?p]))"
    by (subst walk_back.simps) simp
  with parse tm bfs show ?thesis
    by (simp add: discovery_def find_best_tip_def root_files_def canonical_branch_from_best_tip_def
        split_off_recent_paths_def get_orphaned_paths_def tm_paths_def)
qed

end
