(* ===== verification/Id_Trees.thy ===== *)
theory Id_Trees
  imports Blocks
begin

text \<open>
  The tree crate \<open>id_tree\<close> as an interface.  \<open>state/branch.rs\<close> keeps its blocks in a
  \<open>Tree<Block>\<close>; the operations it calls are the fields of \<open>tree_ops\<close>, an argument of every definition
  that uses a tree, and the locale \<open>id_tree\<close> states their documented behaviour.  \<open>ref_ops\<close> is an
  executable implementation that satisfies it.
\<close>

section \<open>Operations\<close>

text \<open>
  A node id that is not in the tree is an \<open>Err\<close>, here \<open>None\<close>.  \<open>op_set\<close> is \<open>get_mut\<close> followed by a
  replacement of the data; \<open>op_remove_drop\<close>, \<open>op_remove_orphan\<close> are the two removal behaviours.
\<close>

record ('t, 'n) tree_ops =
  op_new :: "'t"
  op_insert_root :: "block \<Rightarrow> 't \<Rightarrow> 't \<times> 'n"
  op_insert_under :: "'n \<Rightarrow> block \<Rightarrow> 't \<Rightarrow> ('t \<times> 'n) option"
  op_root :: "'t \<Rightarrow> 'n option"
  op_get :: "'t \<Rightarrow> 'n \<Rightarrow> block option"
  op_parent :: "'t \<Rightarrow> 'n \<Rightarrow> 'n option"
  op_set :: "'n \<Rightarrow> block \<Rightarrow> 't \<Rightarrow> 't option"
  op_children :: "'t \<Rightarrow> 'n \<Rightarrow> 'n list option"
  op_ancestors :: "'t \<Rightarrow> 'n \<Rightarrow> 'n list option"
  op_level :: "'t \<Rightarrow> 'n \<Rightarrow> 'n list option"
  op_post :: "'t \<Rightarrow> 'n \<Rightarrow> 'n list option"
  op_remove_drop :: "'n \<Rightarrow> 't \<Rightarrow> 't option"
  op_remove_orphan :: "'n \<Rightarrow> 't \<Rightarrow> 't option"
  op_move_root :: "'n \<Rightarrow> 't \<Rightarrow> 't option"
  op_height :: "'t \<Rightarrow> nat"

text \<open>The nodes above a node, nearest first, and the nodes at or below one.\<close>

inductive path_up :: "('n \<Rightarrow> 'n option) \<Rightarrow> 'n \<Rightarrow> 'n list \<Rightarrow> bool" for par where
  top: "par i = None \<Longrightarrow> path_up par i []"
| up: "par i = Some p \<Longrightarrow> path_up par p as \<Longrightarrow> path_up par i (p # as)"

definition below :: "('n \<Rightarrow> 'n option) \<Rightarrow> 'n \<Rightarrow> 'n \<Rightarrow> bool" where
  "below par i j \<longleftrightarrow> (\<exists>as. path_up par j as \<and> (j = i \<or> i \<in> set as))"

text \<open>In a level-order list every node comes after its parent, the first one excepted; in a
  post-order list before it.\<close>

definition parents_first :: "('n \<Rightarrow> 'n option) \<Rightarrow> 'n list \<Rightarrow> bool" where
  "parents_first par xs \<longleftrightarrow>
     (\<forall>k. Suc k < length xs \<longrightarrow> (\<exists>p\<in>set (take (Suc k) xs). par (xs ! Suc k) = Some p))"

locale id_tree =
  fixes T :: "('t, 'n) tree_ops" and ok :: "'t \<Rightarrow> bool"
  assumes new: "ok (op_new T)" "op_root T (op_new T) = None" "op_get T (op_new T) i = None"
    and finite_nodes: "ok t \<Longrightarrow> finite (dom (op_get T t))"
    and parent_node: "ok t \<Longrightarrow> op_parent T t i = Some p \<Longrightarrow> op_get T t i \<noteq> None \<and> op_get T t p \<noteq> None"
    and path_ex: "ok t \<Longrightarrow> \<exists>as. path_up (op_parent T t) i as"
    and root_node: "ok t \<Longrightarrow> op_root T t = Some r \<Longrightarrow> op_get T t r \<noteq> None \<and> op_parent T t r = None"
    and insert_root: "ok t \<Longrightarrow> op_insert_root T b t = (t', n) \<Longrightarrow>
      ok t' \<and> op_get T t n = None \<and> op_get T t' = (op_get T t)(n \<mapsto> b) \<and> op_root T t' = Some n \<and>
      op_parent T t' = (case op_root T t of None \<Rightarrow> op_parent T t | Some r \<Rightarrow> (op_parent T t)(r \<mapsto> n))"
    and insert_under: "ok t \<Longrightarrow> op_get T t p \<noteq> None \<Longrightarrow>
      \<exists>t' n. op_insert_under T p b t = Some (t', n) \<and> ok t' \<and> op_get T t n = None \<and>
        op_get T t' = (op_get T t)(n \<mapsto> b) \<and> op_root T t' = op_root T t \<and>
        op_parent T t' = (op_parent T t)(n \<mapsto> p)"
    and insert_under_invalid: "ok t \<Longrightarrow> op_get T t p = None \<Longrightarrow> op_insert_under T p b t = None"
    and set_data: "ok t \<Longrightarrow> op_get T t i \<noteq> None \<Longrightarrow>
      \<exists>t'. op_set T i b t = Some t' \<and> ok t' \<and> op_get T t' = (op_get T t)(i \<mapsto> b) \<and>
        op_root T t' = op_root T t \<and> op_parent T t' = op_parent T t"
    and children: "ok t \<Longrightarrow> op_get T t i \<noteq> None \<Longrightarrow>
      \<exists>cs. op_children T t i = Some cs \<and> distinct cs \<and> set cs = {j. op_parent T t j = Some i}"
    and ancestors: "ok t \<Longrightarrow> op_get T t i \<noteq> None \<Longrightarrow>
      \<exists>as. op_ancestors T t i = Some as \<and> path_up (op_parent T t) i as"
    and level: "ok t \<Longrightarrow> op_get T t i \<noteq> None \<Longrightarrow>
      \<exists>xs. op_level T t i = Some (i # xs) \<and> distinct (i # xs) \<and>
        set (i # xs) = {j. op_get T t j \<noteq> None \<and> below (op_parent T t) i j} \<and>
        parents_first (op_parent T t) (i # xs)"
    and post: "ok t \<Longrightarrow> op_get T t i \<noteq> None \<Longrightarrow>
      \<exists>xs. op_post T t i = Some xs \<and> distinct xs \<and>
        set xs = {j. op_get T t j \<noteq> None \<and> below (op_parent T t) i j} \<and>
        parents_first (op_parent T t) (rev xs)"
    and remove_drop: "ok t \<Longrightarrow> op_get T t i \<noteq> None \<Longrightarrow>
      \<exists>t'. op_remove_drop T i t = Some t' \<and> ok t' \<and>
        op_get T t' = (\<lambda>j. if below (op_parent T t) i j then None else op_get T t j) \<and>
        op_parent T t' = (\<lambda>j. if below (op_parent T t) i j then None else op_parent T t j) \<and>
        op_root T t' = (if op_root T t = Some i then None else op_root T t)"
    and remove_orphan: "ok t \<Longrightarrow> op_get T t i \<noteq> None \<Longrightarrow>
      \<exists>t'. op_remove_orphan T i t = Some t' \<and> ok t' \<and>
        op_get T t' = (op_get T t)(i := None) \<and>
        op_parent T t' = (\<lambda>j. if j = i \<or> op_parent T t j = Some i then None else op_parent T t j) \<and>
        op_root T t' = (if op_root T t = Some i then None else op_root T t)"
    and move_root: "ok t \<Longrightarrow> op_get T t i \<noteq> None \<Longrightarrow> op_root T t \<noteq> Some i \<Longrightarrow>
      \<exists>t'. op_move_root T i t = Some t' \<and> ok t' \<and> op_get T t' = op_get T t \<and> op_root T t' = Some i \<and>
        op_parent T t' = (case op_root T t of None \<Rightarrow> (op_parent T t)(i := None)
          | Some r \<Rightarrow> (op_parent T t)(i := None, r \<mapsto> i))"
    and height_empty: "ok t \<Longrightarrow> op_root T t = None \<Longrightarrow> op_height T t = 0"
    and height: "ok t \<Longrightarrow> op_root T t = Some r \<Longrightarrow>
      (\<forall>j as. op_get T t j \<noteq> None \<and> below (op_parent T t) r j \<and> path_up (op_parent T t) j as \<longrightarrow>
         length as < op_height T t) \<and>
      (\<exists>j as. op_get T t j \<noteq> None \<and> below (op_parent T t) r j \<and> path_up (op_parent T t) j as \<and>
         Suc (length as) = op_height T t)"

section \<open>Paths\<close>

inductive_cases path_up_NilE: "path_up par i []"
inductive_cases path_up_ConsE: "path_up par i (p # as)"

lemma path_up_Nil_iff [simp]: "path_up par i [] \<longleftrightarrow> par i = None"
  by (blast elim: path_up_NilE intro: path_up.top)

lemma path_up_Cons_iff [simp]: "path_up par i (p # as) \<longleftrightarrow> par i = Some p \<and> path_up par p as"
  by (blast elim: path_up_ConsE intro: path_up.up)

lemma path_up_det: "path_up par i as \<Longrightarrow> path_up par i bs \<Longrightarrow> bs = as"
proof (induction arbitrary: bs rule: path_up.induct)
  case (top i)
  then show ?case by (cases bs) simp_all
next
  case (up i p as)
  obtain bs' where "bs = p # bs'" "path_up par p bs'"
    using up.hyps(1) up.prems by (cases bs) auto
  with up.IH show ?case by blast
qed

lemma path_up_append:
  "path_up par i (as @ p # bs) \<Longrightarrow> path_up par p bs"
  by (induction as arbitrary: i) auto

lemma path_up_distinct: "path_up par i as \<Longrightarrow> distinct (i # as)"
proof (induction rule: path_up.induct)
  case (up i p as)
  have "i \<notin> set (p # as)"
  proof
    assume "i \<in> set (p # as)"
    then obtain xs ys where split: "p # as = xs @ i # ys" by (meson split_list)
    have path: "path_up par i (p # as)" using up.hyps by simp
    then have "path_up par i ys" unfolding split by (rule path_up_append)
    with path have "ys = p # as" by (rule path_up_det)
    with split show False by simp
  qed
  with up.IH show ?case by simp
qed simp

lemma path_up_cong:
  assumes "path_up par i as" "\<And>j. j = i \<or> j \<in> set as \<Longrightarrow> par' j = par j"
  shows "path_up par' i as"
  using assms by (induction rule: path_up.induct) (auto intro: path_up.intros)

lemma below_refl: "path_up par i as \<Longrightarrow> below par i i"
  by (auto simp: below_def)

lemma below_up:
  assumes "par j = Some p" "j \<noteq> i"
  shows "below par i j \<longleftrightarrow> below par i p"
proof
  assume "below par i j"
  then obtain as where as: "path_up par j as" "i \<in> set as" using assms(2) by (auto simp: below_def)
  then show "below par i p" using assms(1) by (cases as) (auto simp: below_def)
next
  assume "below par i p"
  then obtain as where "path_up par p as" "p = i \<or> i \<in> set as" by (auto simp: below_def)
  then have "path_up par j (p # as)" "i \<in> set (p # as)" using assms(1) by auto
  then show "below par i j" unfolding below_def by blast
qed

lemma below_top: "par j = None \<Longrightarrow> below par i j \<longleftrightarrow> j = i"
  unfolding below_def by (metis empty_iff list.set(1) path_up_Nil_iff path_up_det)

section \<open>A reference implementation\<close>

text \<open>Ids are numbers; a node keeps its data and its parent.\<close>

record ref_tree =
  rt_next :: nat
  rt_data :: "nat \<rightharpoonup> block"
  rt_par :: "nat \<rightharpoonup> nat"
  rt_root :: "nat option"

fun climb :: "('n \<Rightarrow> 'n option) \<Rightarrow> nat \<Rightarrow> 'n \<Rightarrow> 'n list" where
  "climb par 0 i = []"
| "climb par (Suc n) i = (case par i of None \<Rightarrow> [] | Some p \<Rightarrow> p # climb par n p)"

definition rt_up :: "ref_tree \<Rightarrow> nat \<Rightarrow> nat list" where
  "rt_up t i = climb (rt_par t) (rt_next t) i"

definition rt_below :: "ref_tree \<Rightarrow> nat \<Rightarrow> nat \<Rightarrow> bool" where
  "rt_below t i j \<longleftrightarrow> j = i \<or> i \<in> set (rt_up t j)"

definition rt_level :: "ref_tree \<Rightarrow> nat \<Rightarrow> nat list" where
  "rt_level t i =
     sort_key (\<lambda>j. length (rt_up t j))
       (filter (\<lambda>j. rt_data t j \<noteq> None \<and> rt_below t i j) [0..<rt_next t])"

definition if_node :: "ref_tree \<Rightarrow> nat \<Rightarrow> 'a \<Rightarrow> 'a option" where
  "if_node t i x = (if rt_data t i = None then None else Some x)"

definition ref_ops :: "(ref_tree, nat) tree_ops" where
  "ref_ops = \<lparr>
     op_new = \<lparr>rt_next = 0, rt_data = Map.empty, rt_par = Map.empty, rt_root = None\<rparr>,
     op_insert_root = (\<lambda>b t. let n = rt_next t in
       (\<lparr>rt_next = Suc n, rt_data = (rt_data t)(n \<mapsto> b),
         rt_par = (case rt_root t of None \<Rightarrow> rt_par t | Some r \<Rightarrow> (rt_par t)(r \<mapsto> n)),
         rt_root = Some n\<rparr>, n)),
     op_insert_under = (\<lambda>p b t. let n = rt_next t in
       if_node t p (t\<lparr>rt_next := Suc n, rt_data := (rt_data t)(n \<mapsto> b), rt_par := (rt_par t)(n \<mapsto> p)\<rparr>, n)),
     op_root = rt_root,
     op_get = rt_data,
     op_parent = rt_par,
     op_set = (\<lambda>i b t. if_node t i (t\<lparr>rt_data := (rt_data t)(i \<mapsto> b)\<rparr>)),
     op_children = (\<lambda>t i. if_node t i (filter (\<lambda>j. rt_par t j = Some i) [0..<rt_next t])),
     op_ancestors = (\<lambda>t i. if_node t i (rt_up t i)),
     op_level = (\<lambda>t i. if_node t i (rt_level t i)),
     op_post = (\<lambda>t i. if_node t i (rev (rt_level t i))),
     op_remove_drop = (\<lambda>i t. if_node t i
       (t\<lparr>rt_data := (\<lambda>j. if rt_below t i j then None else rt_data t j),
          rt_par := (\<lambda>j. if rt_below t i j then None else rt_par t j),
          rt_root := (if rt_root t = Some i then None else rt_root t)\<rparr>)),
     op_remove_orphan = (\<lambda>i t. if_node t i
       (t\<lparr>rt_data := (rt_data t)(i := None),
          rt_par := (\<lambda>j. if j = i \<or> rt_par t j = Some i then None else rt_par t j),
          rt_root := (if rt_root t = Some i then None else rt_root t)\<rparr>)),
     op_move_root = (\<lambda>i t. if_node t i
       (t\<lparr>rt_par := (case rt_root t of None \<Rightarrow> (rt_par t)(i := None)
            | Some r \<Rightarrow> (rt_par t)(i := None, r \<mapsto> i)), rt_root := Some i\<rparr>)),
     op_height = (\<lambda>t. case rt_root t of None \<Rightarrow> 0
       | Some r \<Rightarrow> Suc (length (rt_up t (last (rt_level t r)))))\<rparr>"

definition ref_ok :: "ref_tree \<Rightarrow> bool" where
  "ref_ok t \<longleftrightarrow>
     (\<forall>i. rt_data t i \<noteq> None \<longrightarrow> i < rt_next t) \<and>
     (\<forall>i p. rt_par t i = Some p \<longrightarrow> rt_data t i \<noteq> None \<and> rt_data t p \<noteq> None) \<and>
     (\<forall>i. \<exists>as. path_up (rt_par t) i as) \<and>
     (\<forall>r. rt_root t = Some r \<longrightarrow> rt_data t r \<noteq> None \<and> rt_par t r = None)"

lemma climb_path: "path_up par i as \<Longrightarrow> length as \<le> n \<Longrightarrow> climb par n i = as"
proof (induction arbitrary: n rule: path_up.induct)
  case (top i)
  then show ?case by (cases n) simp_all
next
  case (up i p as)
  then show ?case by (cases n) simp_all
qed

lemma path_up_nodes:
  assumes "path_up par i as" "\<And>j p. par j = Some p \<Longrightarrow> p \<in> N"
  shows "set as \<subseteq> N"
  using assms by (induction rule: path_up.induct) auto

lemma rt_up_path:
  assumes "ref_ok t"
  shows "path_up (rt_par t) i (rt_up t i)"
proof -
  obtain as where as: "path_up (rt_par t) i as" using assms unfolding ref_ok_def by blast
  have "set as \<subseteq> {..<rt_next t}"
    using as by (rule path_up_nodes) (use assms in \<open>auto simp: ref_ok_def\<close>)
  then have "card (set as) \<le> rt_next t" by (metis card_lessThan card_mono finite_lessThan)
  moreover have "distinct as" using path_up_distinct[OF as] by simp
  ultimately have "length as \<le> rt_next t" by (simp add: distinct_card)
  with as show ?thesis by (simp add: rt_up_def climb_path)
qed

lemma rt_below_iff: "rt_below t i j \<longleftrightarrow> below (rt_par t) i j" if "ref_ok t"
proof -
  have "path_up (rt_par t) j (rt_up t j)" using that by (rule rt_up_path)
  then show ?thesis unfolding rt_below_def below_def using path_up_det[of _ j "rt_up t j"] by blast
qed

lemma path_ex_cut:
  assumes "path_up par j as" "\<And>k. par' k = par k \<or> par' k = None"
  shows "\<exists>bs. path_up par' j bs"
  using assms(1)
proof (induction rule: path_up.induct)
  case (top i)
  then show ?case using assms(2)[of i] by (auto intro: path_up.top)
next
  case (up i p as)
  then show ?case using assms(2)[of i] by (metis path_up.top path_up.up)
qed

lemma path_ex_link:
  assumes "path_up par j as" "par r = None" "path_up par n ns" "r \<notin> set (n # ns)"
  shows "\<exists>bs. path_up (par(r \<mapsto> n)) j bs"
  using assms(1)
proof (induction rule: path_up.induct)
  case (top i)
  have "path_up (par(r \<mapsto> n)) n ns" using assms(3) by (rule path_up_cong) (use assms(4) in auto)
  then have "path_up (par(r \<mapsto> n)) r (n # ns)" by simp
  moreover have "path_up (par(r \<mapsto> n)) i []" if "i \<noteq> r" using top that by simp
  ultimately show ?case by blast
next
  case (up i p as)
  with assms(2) have "(par(r \<mapsto> n)) i = Some p" by auto
  with up.IH show ?case by (blast intro: path_up.up)
qed

lemma sort_key_first:
  assumes "x \<in> set xs" "distinct xs" "\<And>y. y \<in> set xs \<Longrightarrow> y \<noteq> x \<Longrightarrow> f x < (f y :: nat)"
  shows "\<exists>ys. sort_key f xs = x # ys"
proof -
  have "sort_key f xs \<noteq> []" using assms(1) by (metis empty_iff list.set(1) set_sort)
  then obtain z ys where zs: "sort_key f xs = z # ys" by (cases "sort_key f xs") auto
  then have set: "set (z # ys) = set xs" and srt: "sorted (map f (z # ys))"
    by (metis set_sort, metis sorted_sort_key)
  have "z = x"
  proof (rule ccontr)
    assume "z \<noteq> x"
    moreover have "x \<in> set (z # ys)" "z \<in> set xs" using set assms(1) by auto
    ultimately have "x \<in> set ys" "f x < f z" using assms(3)[of z] by auto
    then show False using srt by fastforce
  qed
  with zs show ?thesis by blast
qed

lemma rt_level_correct:
  assumes ok: "ref_ok t" and i: "rt_data t i \<noteq> None"
  shows "\<exists>xs. rt_level t i = i # xs \<and> distinct (i # xs) \<and>
    set (i # xs) = {j. rt_data t j \<noteq> None \<and> below (rt_par t) i j} \<and>
    parents_first (rt_par t) (i # xs)"
proof -
  let ?P = "\<lambda>j. rt_data t j \<noteq> None \<and> rt_below t i j"
  let ?ys = "filter ?P [0..<rt_next t]" and ?d = "\<lambda>j. length (rt_up t j)"
  have up: "\<And>j. path_up (rt_par t) j (rt_up t j)" using ok by (rule rt_up_path)
  have depth: "?d j = Suc (?d p)" if "rt_par t j = Some p" for j p
    using up[of j] up[of p] that path_up_det by (cases "rt_up t j") fastforce+
  have set: "set ?ys = {j. rt_data t j \<noteq> None \<and> below (rt_par t) i j}"
    using ok by (auto simp: rt_below_iff ref_ok_def)
  have "i \<in> set ?ys" using i set below_refl[OF up] by auto
  moreover have "?d i < ?d y" if y: "y \<in> set ?ys" "y \<noteq> i" for y
  proof -
    from y have "i \<in> set (rt_up t y)" by (simp add: rt_below_def)
    then obtain bs cs where split: "rt_up t y = bs @ i # cs" by (meson split_list)
    then have "path_up (rt_par t) i cs" using path_up_append up[of y] by metis
    then have "cs = rt_up t i" using up[of i] path_up_det by metis
    with split show ?thesis by simp
  qed
  ultimately obtain xs where xs: "rt_level t i = i # xs"
    using sort_key_first[of i ?ys ?d] unfolding rt_level_def by auto
  have set': "set (i # xs) = set ?ys" and dist: "distinct (i # xs)" and srt: "sorted (map ?d (i # xs))"
    unfolding xs[symmetric] rt_level_def by (simp_all add: sorted_sort_key)
  have "\<exists>p\<in>set (take (Suc k) (i # xs)). rt_par t ((i # xs) ! Suc k) = Some p"
    if k: "Suc k < length (i # xs)" for k
  proof -
    let ?x = "(i # xs) ! Suc k"
    have "?x \<in> set ?ys" using k set' nth_mem by blast
    then have x: "rt_data t ?x \<noteq> None" "below (rt_par t) i ?x" using set by auto
    have "?x \<noteq> i" using k dist by (metis nth_Cons_0 nat.distinct(1) nth_eq_iff_index_eq zero_less_Suc length_Cons)
    then obtain p where p: "rt_par t ?x = Some p" using x(2) below_top by (metis option.exhaust)
    have "below (rt_par t) i p" using below_up[of "rt_par t" ?x p i] p \<open>?x \<noteq> i\<close> x(2) by simp
    moreover have "rt_data t p \<noteq> None" using ok p by (auto simp: ref_ok_def)
    ultimately have "p \<in> set (i # xs)" using set set' by auto
    then obtain m where m: "m < length (i # xs)" "(i # xs) ! m = p" by (metis in_set_conv_nth)
    have "m < Suc k"
    proof (rule ccontr)
      assume "\<not> m < Suc k"
      then have "?d ?x \<le> ?d p" using srt m k sorted_nth_mono[OF srt, of "Suc k" m] by simp
      with depth[OF p] show False by simp
    qed
    with m p show ?thesis by (metis in_set_conv_nth length_take min_less_iff_conj nth_take)
  qed
  then show ?thesis using xs dist set set' by (auto simp: parents_first_def)
qed

lemma rt_height_correct:
  assumes ok: "ref_ok t" and r: "rt_data t r \<noteq> None"
  shows "(\<forall>j as. rt_data t j \<noteq> None \<and> below (rt_par t) r j \<and> path_up (rt_par t) j as \<longrightarrow>
      length as < Suc (length (rt_up t (last (rt_level t r))))) \<and>
    (\<exists>j as. rt_data t j \<noteq> None \<and> below (rt_par t) r j \<and> path_up (rt_par t) j as \<and>
      length as = length (rt_up t (last (rt_level t r))))"
proof -
  let ?d = "\<lambda>j. length (rt_up t j)" and ?l = "last (rt_level t r)"
  obtain xs where xs: "rt_level t r = r # xs"
      "set (r # xs) = {j. rt_data t j \<noteq> None \<and> below (rt_par t) r j}"
    using rt_level_correct[OF ok r] by blast
  have srt: "sorted (map ?d (r # xs))"
    unfolding xs(1)[symmetric] rt_level_def by (simp add: sorted_sort_key)
  have max: "?d j \<le> ?d ?l" if j: "j \<in> set (r # xs)" for j
  proof -
    obtain m where m: "m < length (r # xs)" "j = (r # xs) ! m" using j by (metis in_set_conv_nth)
    have "?l = (r # xs) ! length xs" using xs(1) by (simp add: last_conv_nth)
    moreover have "map ?d (r # xs) ! m \<le> map ?d (r # xs) ! length xs"
      using m(1) by (intro sorted_nth_mono[OF srt]) auto
    ultimately show ?thesis using m nth_map[of _ "r # xs" ?d] by (metis length_Cons lessI)
  qed
  have "?l \<in> set (r # xs)" using xs(1) last_in_set by (metis list.distinct(1))
  with xs(2) have "rt_data t ?l \<noteq> None" "below (rt_par t) r ?l" by auto
  moreover have "path_up (rt_par t) ?l (rt_up t ?l)" using ok by (rule rt_up_path)
  moreover have "length as < Suc (?d ?l)"
    if "rt_data t j \<noteq> None" "below (rt_par t) r j" "path_up (rt_par t) j as" for j as
  proof -
    have "j \<in> set (r # xs)" unfolding xs(2) using that by simp
    then show ?thesis using max[of j] path_up_det[OF that(3) rt_up_path[OF ok]] by simp
  qed
  ultimately show ?thesis by blast
qed

lemmas ref_simps = ref_ops_def if_node_def Let_def

lemma ref_ok_insert_root:
  assumes "ref_ok t" "op_insert_root ref_ops b t = (t', n)"
  shows "ref_ok t'"
proof -
  let ?n = "rt_next t"
  have fresh: "rt_data t ?n = None" and par: "rt_par t ?n = None"
    using assms(1) unfolding ref_ok_def by (blast, metis less_irrefl option.exhaust)
  have path: "\<exists>as. path_up (rt_par t') j as" for j
  proof (cases "rt_root t")
    case None
    then show ?thesis using assms unfolding ref_ok_def by (auto simp: ref_simps)
  next
    case (Some r)
    then have "rt_par t r = None" "?n \<noteq> r" using assms(1) fresh unfolding ref_ok_def by auto
    moreover obtain as where "path_up (rt_par t) j as" using assms(1) unfolding ref_ok_def by blast
    ultimately show ?thesis using path_ex_link[of "rt_par t" j as r ?n "[]"] par assms(2) Some
      by (auto simp: ref_simps)
  qed
  show ?thesis using assms fresh par path unfolding ref_ok_def
    by (auto simp: ref_simps less_Suc_eq split: option.splits if_splits)
qed

lemma ref_ok_insert_under:
  assumes "ref_ok t" "op_insert_under ref_ops p b t = Some (t', n)"
  shows "ref_ok t'"
proof -
  let ?n = "rt_next t"
  have t': "rt_par t' = (rt_par t)(?n \<mapsto> p)" "rt_data t' = (rt_data t)(?n \<mapsto> b)" "rt_root t' = rt_root t"
      "rt_next t' = Suc ?n" and p: "rt_data t p \<noteq> None"
    using assms(2) by (auto simp: ref_simps split: if_splits)
  have fresh: "rt_data t ?n = None" and par: "rt_par t ?n = None"
    using assms(1) unfolding ref_ok_def by (blast, metis less_irrefl option.exhaust)
  obtain ps where ps: "path_up (rt_par t) p ps" using assms(1) unfolding ref_ok_def by blast
  have "set ps \<subseteq> {j. rt_data t j \<noteq> None}"
    using ps by (rule path_up_nodes) (use assms(1) in \<open>auto simp: ref_ok_def\<close>)
  then have "?n \<notin> set (p # ps)" using p fresh by auto
  then have path: "\<exists>as. path_up (rt_par t') j as" for j
    using path_ex_link[of "rt_par t" j _ ?n p ps] par ps assms(1) unfolding t' ref_ok_def by blast
  show ?thesis using assms(1) fresh p path unfolding ref_ok_def t'
    by (auto simp: less_Suc_eq split: if_splits)
qed

lemma ref_ok_move_root:
  assumes "ref_ok t" "op_move_root ref_ops i t = Some t'" "rt_root t \<noteq> Some i"
  shows "ref_ok t'"
proof -
  have t': "rt_par t' = (case rt_root t of None \<Rightarrow> (rt_par t)(i := None)
        | Some r \<Rightarrow> (rt_par t)(i := None, r \<mapsto> i))"
      "rt_data t' = rt_data t" "rt_root t' = Some i" "rt_next t' = rt_next t" and i: "rt_data t i \<noteq> None"
    using assms(2) by (auto simp: ref_simps split: if_splits)
  have cut: "\<exists>as. path_up ((rt_par t)(i := None)) j as" for j
    using assms(1) path_ex_cut[of "rt_par t" j _ "(rt_par t)(i := None)"] unfolding ref_ok_def by fastforce
  have path: "\<exists>as. path_up (rt_par t') j as" for j
  proof (cases "rt_root t")
    case None
    then show ?thesis using cut t' by simp
  next
    case (Some r)
    then have "((rt_par t)(i := None)) r = None" "r \<notin> set [i]" using assms(1,3) unfolding ref_ok_def by auto
    then show ?thesis using cut[of j] path_ex_link[of "(rt_par t)(i := None)" j _ r i "[]"] Some t'
      by auto
  qed
  show ?thesis using assms(1,3) i path unfolding ref_ok_def t'
    by (auto split: option.splits if_splits)
qed

lemma ref_ok_remove_drop:
  assumes "ref_ok t" "op_remove_drop ref_ops i t = Some t'"
  shows "ref_ok t'"
proof -
  have t': "rt_par t' = (\<lambda>j. if below (rt_par t) i j then None else rt_par t j)"
      "rt_data t' = (\<lambda>j. if below (rt_par t) i j then None else rt_data t j)"
      "rt_root t' = (if rt_root t = Some i then None else rt_root t)" "rt_next t' = rt_next t"
    using assms by (auto simp: ref_simps rt_below_iff split: if_splits)
  have path: "\<exists>as. path_up (rt_par t') j as" for j
    using assms(1) path_ex_cut[of "rt_par t" j _ "rt_par t'"] unfolding ref_ok_def t' by metis
  have "\<not> below (rt_par t) i p" if "\<not> below (rt_par t) i j" "rt_par t j = Some p" for j p
    using that below_up[of "rt_par t" j p i] assms(1) below_refl unfolding ref_ok_def by metis
  moreover have "\<not> below (rt_par t) i r" if "rt_root t = Some r" "r \<noteq> i" for r
    using that assms(1) below_top[of "rt_par t" r i] unfolding ref_ok_def by auto
  ultimately show ?thesis using assms(1) path unfolding ref_ok_def t'
    by (auto split: if_splits)
qed

lemma ref_ok_remove_orphan:
  assumes "ref_ok t" "op_remove_orphan ref_ops i t = Some t'"
  shows "ref_ok t'"
proof -
  have t': "rt_par t' = (\<lambda>j. if j = i \<or> rt_par t j = Some i then None else rt_par t j)"
      "rt_data t' = (rt_data t)(i := None)"
      "rt_root t' = (if rt_root t = Some i then None else rt_root t)" "rt_next t' = rt_next t"
    using assms by (auto simp: ref_simps split: if_splits)
  have path: "\<exists>as. path_up (rt_par t') j as" for j
    using assms(1) path_ex_cut[of "rt_par t" j _ "rt_par t'"] unfolding ref_ok_def t' by metis
  show ?thesis using assms(1) path unfolding ref_ok_def t'
    by (auto split: if_splits)
qed

interpretation ref: id_tree ref_ops ref_ok
proof (unfold_locales, goal_cases)
  case 1
  show ?case by (auto simp: ref_simps ref_ok_def intro: path_up.top)
next
  case (4 t)
  then have "dom (rt_data t) \<subseteq> {..<rt_next t}" by (auto simp: ref_ok_def)
  then show ?case by (simp add: ref_simps finite_subset)
next
  case (8 t b t' n)
  then have "ref_ok t'" by (rule ref_ok_insert_root)
  moreover have "rt_data t (rt_next t) = None" using 8(1) unfolding ref_ok_def by blast
  ultimately show ?case using 8(2) by (auto simp: ref_simps cong: option.case_cong)
next
  case (9 t p b)
  then have "rt_data t (rt_next t) = None" unfolding ref_ok_def by blast
  with 9 ref_ok_insert_under[OF 9(1), of p b] show ?case by (auto simp: ref_simps)
next
  case (12 t i)
  have "{j. rt_par t j = Some i} \<subseteq> {..<rt_next t}" using 12(1) by (auto simp: ref_ok_def)
  with 12 show ?case by (auto simp: ref_simps)
next
  case (13 t i)
  then show ?case using rt_up_path[OF 13(1)] by (simp add: ref_simps)
next
  case (14 t i)
  then show ?case using rt_level_correct[OF 14(1)] by (simp add: ref_simps)
next
  case (15 t i)
  then have "rt_data t i \<noteq> None" by (simp add: ref_simps)
  then obtain xs where "rt_level t i = i # xs \<and> distinct (i # xs) \<and>
    set (i # xs) = {j. rt_data t j \<noteq> None \<and> below (rt_par t) i j} \<and> parents_first (rt_par t) (i # xs)"
    using rt_level_correct[OF 15(1)] by blast
  moreover have "op_post ref_ops t i = Some (rev (rt_level t i))" using 15 by (simp add: ref_simps)
  moreover have "op_get ref_ops = rt_data" "op_parent ref_ops = rt_par" by (simp_all add: ref_simps)
  ultimately show ?case by (metis distinct_rev rev_rev_ident set_rev)
next
  case (16 t i)
  let ?t = "the (op_remove_drop ref_ops i t)"
  have some: "op_remove_drop ref_ops i t = Some ?t" using 16 by (simp add: ref_simps)
  have "ref_ok ?t" by (rule ref_ok_remove_drop[OF 16(1) some])
  with some 16 show ?case by (intro exI[of _ ?t]) (auto simp: ref_simps rt_below_iff cong: if_cong option.case_cong)
next
  case (17 t i)
  let ?t = "the (op_remove_orphan ref_ops i t)"
  have some: "op_remove_orphan ref_ops i t = Some ?t" using 17 by (simp add: ref_simps)
  have "ref_ok ?t" by (rule ref_ok_remove_orphan[OF 17(1) some])
  with some 17 show ?case by (intro exI[of _ ?t]) (auto simp: ref_simps cong: if_cong option.case_cong)
next
  case (18 t i)
  let ?t = "the (op_move_root ref_ops i t)"
  have some: "op_move_root ref_ops i t = Some ?t" using 18 by (simp add: ref_simps)
  have "ref_ok ?t" by (rule ref_ok_move_root[OF 18(1) some]) (use 18 in \<open>simp add: ref_simps\<close>)
  with some 18 show ?case by (intro exI[of _ ?t]) (auto simp: ref_simps cong: if_cong option.case_cong)
next
  case (20 t r)
  then have "rt_data t r \<noteq> None" by (auto simp: ref_ok_def ref_simps)
  with 20 rt_height_correct[OF 20(1)] show ?case by (simp add: ref_simps)
qed (auto simp: ref_simps ref_ok_def)

end
