(* ===== verification/Branches.thy ===== *)
theory Branches
  imports Id_Trees
begin

text \<open>
  The branches of the witness tree (\<open>state/branch.rs\<close>): a tree of block summaries over the operations
  \<open>T\<close> of the tree crate, with its extension, re-rooting, merging and pruning.
\<close>

section \<open>Branches\<close>

record ('t, 'n) branch =
  br_root :: 'n
  br_branches :: 't

definition branch_new_block :: "('t, 'n) tree_ops \<Rightarrow> block \<Rightarrow> ('t, 'n) branch" where
  "branch_new_block T b =
     (let (branches, root) = op_insert_root T b (op_new T) in \<lparr>br_root = root, br_branches = branches\<rparr>)"

definition branch_new ::
    "('t, 'n) tree_ops \<Rightarrow> (u8 list \<Rightarrow> u8 list) \<Rightarrow> precomputed_block \<Rightarrow> ('t, 'n) branch" where
  "branch_new T blake2b pcb =
     (let root_block = block_from_precomputed blake2b pcb 0;
          (branches, root) = op_insert_root T root_block (op_new T)
      in \<lparr>br_root = root, br_branches = branches\<rparr>)"

definition branch_new_genesis ::
    "('t, 'n) tree_ops \<Rightarrow> state_hash \<Rightarrow> state_hash \<Rightarrow> u32 \<Rightarrow> u32 \<Rightarrow> u8 list \<Rightarrow> ('t, 'n) branch" where
  "branch_new_genesis T root_hash root_prev_hash blockchain_len global_slot vrf_output =
     branch_new_block T \<lparr>
       blk_parent_hash = root_prev_hash, blk_state_hash = root_hash, blk_height = 0,
       blk_blockchain_length = blockchain_len, blk_genesis_state_hash = root_hash,
       blk_global_slot_since_genesis = global_slot, blk_hash_last_vrf_output = vrf_output\<rparr>"

definition branch_is_empty :: "('t, 'n) tree_ops \<Rightarrow> ('t, 'n) branch \<Rightarrow> bool" where
  "branch_is_empty T self \<longleftrightarrow> op_height T (br_branches self) = 0"

definition branch_height :: "('t, 'n) tree_ops \<Rightarrow> ('t, 'n) branch \<Rightarrow> u32" where
  "branch_height T self = of_nat (op_height T (br_branches self))"

definition node_data :: "('t, 'n) tree_ops \<Rightarrow> 't \<Rightarrow> 'n \<Rightarrow> block run" where
  "node_data T t i = unwrap (op_get T t i)"

definition traverse_level_order_ids :: "('t, 'n) tree_ops \<Rightarrow> ('t, 'n) branch \<Rightarrow> 'n list run" where
  "traverse_level_order_ids T self =
     bind_ok (unwrap (op_root T (br_branches self))) (\<lambda>root.
     unwrap (op_level T (br_branches self) root))"

definition branch_len :: "('t, 'n) tree_ops \<Rightarrow> ('t, 'n) branch \<Rightarrow> u32 run" where
  "branch_len T self = map_ok (\<lambda>ids. of_nat (length ids)) (traverse_level_order_ids T self)"

definition best_tip_id :: "('t, 'n) tree_ops \<Rightarrow> ('t, 'n) branch \<Rightarrow> 'n run" where
  "best_tip_id T self =
     bind_ok (unwrap (op_root T (br_branches self))) (\<lambda>root.
     bind_ok (traverse_level_order_ids T self) (\<lambda>ids.
     fold_ok (\<lambda>node_id best.
       bind_ok (node_data T (br_branches self) best) (\<lambda>best_tip.
       bind_ok (node_data T (br_branches self) node_id) (\<lambda>node.
       Inr (if blk_height best_tip < blk_height node then node_id else best)))) ids root))"

fun canonical_scan :: "('t, 'n) tree_ops \<Rightarrow> 't \<Rightarrow> nat \<Rightarrow> 'n list \<Rightarrow> 'n option run" where
  "canonical_scan T t n [] = Inr None"
| "canonical_scan T t n (ancestor_id # ids) =
     bind_ok (node_data T t ancestor_id) (\<lambda>_.
     if n + 1 = MAINNET_CANONICAL_THRESHOLD then Inr (Some ancestor_id)
     else canonical_scan T t (n + 1) ids)"

definition canonical_root_id :: "('t, 'n) tree_ops \<Rightarrow> ('t, 'n) branch \<Rightarrow> 'n option run" where
  "canonical_root_id T self =
     bind_ok (best_tip_id T self) (\<lambda>tip.
     bind_ok (unwrap (op_ancestors T (br_branches self) tip)) (\<lambda>ids.
     canonical_scan T (br_branches self) 0 ids))"

text \<open>\<open>root_block\<close> reads the root kept in the branch; most other operations ask the tree for its root.\<close>

definition root_block :: "('t, 'n) tree_ops \<Rightarrow> ('t, 'n) branch \<Rightarrow> block run" where
  "root_block T self = node_data T (br_branches self) (br_root self)"

definition level_blocks :: "('t, 'n) tree_ops \<Rightarrow> ('t, 'n) branch \<Rightarrow> ('n \<times> block) list run" where
  "level_blocks T self =
     bind_ok (traverse_level_order_ids T self) (\<lambda>ids.
     traverse_ok (\<lambda>i. map_ok (Pair i) (node_data T (br_branches self) i)) ids)"

definition top_leaves_with_id :: "('t, 'n) tree_ops \<Rightarrow> ('t, 'n) branch \<Rightarrow> ('n \<times> block) list run" where
  "top_leaves_with_id T self =
     map_ok (filter (\<lambda>(_, b). blk_height b + 1 = branch_height T self)) (level_blocks T self)"

definition top_leaves :: "('t, 'n) tree_ops \<Rightarrow> ('t, 'n) branch \<Rightarrow> block list run" where
  "top_leaves T self = map_ok (map snd) (top_leaves_with_id T self)"

definition leaves :: "('t, 'n) tree_ops \<Rightarrow> ('t, 'n) branch \<Rightarrow> block list run" where
  "leaves T self =
     map_ok (\<lambda>xs. map snd (filter (\<lambda>(i, _). op_children T (br_branches self) i = Some []) xs))
       (level_blocks T self)"

text \<open>\<open>sort_by(|(_, x), (_, y)| x.cmp(y).reverse())\<close> and \<open>first()\<close>.\<close>

definition best_tip_with_id :: "('t, 'n) tree_ops \<Rightarrow> ('t, 'n) branch \<Rightarrow> ('n \<times> block) option run" where
  "best_tip_with_id T self =
     map_ok (\<lambda>xs. case sort_by (\<lambda>(_, x) (_, y). reverse_ordering (block_cmp x y)) xs of
         [] \<Rightarrow> None | x # _ \<Rightarrow> Some x)
       (top_leaves_with_id T self)"

definition branch_best_tip :: "('t, 'n) tree_ops \<Rightarrow> ('t, 'n) branch \<Rightarrow> block option run" where
  "branch_best_tip T self = map_ok (map_option snd) (best_tip_with_id T self)"

definition longest_chain :: "('t, 'n) tree_ops \<Rightarrow> ('t, 'n) branch \<Rightarrow> state_hash list run" where
  "longest_chain T self =
     bind_ok (best_tip_with_id T self) (\<lambda>tip.
     case tip of
       None \<Rightarrow> Inr []
     | Some (node_id, _) \<Rightarrow>
         bind_ok (node_data T (br_branches self) node_id) (\<lambda>b.
         bind_ok (unwrap (op_ancestors T (br_branches self) node_id)) (\<lambda>ids.
         bind_ok (traverse_ok (node_data T (br_branches self)) ids) (\<lambda>bs.
         Inr (blk_state_hash b # map blk_state_hash bs)))))"

definition branch_mem :: "('t, 'n) tree_ops \<Rightarrow> ('t, 'n) branch \<Rightarrow> state_hash \<Rightarrow> bool run" where
  "branch_mem T self h =
     bind_ok (unwrap (op_root T (br_branches self))) (\<lambda>root.
     bind_ok (unwrap (op_post T (br_branches self) root)) (\<lambda>ids.
     bind_ok (traverse_ok (node_data T (br_branches self)) ids) (\<lambda>bs.
     Inr (h \<in> blk_state_hash ` set bs))))"

section \<open>Extension and re-rooting\<close>

fun extension_scan :: "('t, 'n) tree_ops \<Rightarrow> (u8 list \<Rightarrow> u8 list) \<Rightarrow> 't \<Rightarrow> precomputed_block \<Rightarrow>
    'n list \<Rightarrow> ('t \<times> 'n \<times> block) option run" where
  "extension_scan T blake2b t pcb [] = Inr None"
| "extension_scan T blake2b t pcb (node_id # ids) =
     bind_ok (node_data T t node_id) (\<lambda>node.
     if previous_state_hash pcb = blk_state_hash node
     then let new_block = block_from_precomputed blake2b pcb (blk_height node + 1)
       in bind_ok (unwrap (op_insert_under T node_id new_block t)) (\<lambda>(t', new_node_id).
         Inr (Some (t', new_node_id, new_block)))
     else extension_scan T blake2b t pcb ids)"

definition simple_extension :: "('t, 'n) tree_ops \<Rightarrow> (u8 list \<Rightarrow> u8 list) \<Rightarrow> precomputed_block \<Rightarrow>
    ('t, 'n) branch \<Rightarrow> (('t, 'n) branch \<times> ('n \<times> block) option) run" where
  "simple_extension T blake2b pcb self =
     bind_ok (traverse_level_order_ids T self) (\<lambda>ids.
     map_ok (\<lambda>res. case res of
         None \<Rightarrow> (self, None)
       | Some (t', new_node_id, new_block) \<Rightarrow> (self\<lparr>br_branches := t'\<rparr>, Some (new_node_id, new_block)))
       (extension_scan T blake2b (br_branches self) pcb ids))"

definition new_root :: "('t, 'n) tree_ops \<Rightarrow> (u8 list \<Rightarrow> u8 list) \<Rightarrow> precomputed_block \<Rightarrow>
    ('t, 'n) branch \<Rightarrow> ('t, 'n) branch run" where
  "new_root T blake2b pcb self =
     (let new_block = block_from_precomputed blake2b pcb 0;
          (t, new_root_id) = op_insert_root T new_block (br_branches self)
      in bind_ok (unwrap (op_level T t new_root_id)) (\<lambda>child_ids.
         map_ok (\<lambda>t'. self\<lparr>br_root := new_root_id, br_branches := t'\<rparr>)
           (fold_ok (\<lambda>node_id t. bind_ok (node_data T t node_id) (\<lambda>b.
              if node_id \<noteq> new_root_id
              then unwrap (op_set T node_id (b\<lparr>blk_height := blk_height b + 1\<rparr>) t)
              else Inr t)) child_ids t)))"

section \<open>Merging\<close>

definition merge_child :: "('t, 'n) tree_ops \<Rightarrow> 't \<Rightarrow> u32 \<Rightarrow> 'n \<Rightarrow> 'n \<Rightarrow>
    't \<times> ('n \<times> 'n) list \<Rightarrow> ('t \<times> ('n \<times> 'n) list) run" where
  "merge_child T incoming junction_height under_node_id child_id = (\<lambda>(t, inserts).
     bind_ok (node_data T incoming child_id) (\<lambda>b.
     bind_ok (unwrap (op_insert_under T under_node_id
         (b\<lparr>blk_height := blk_height b + (junction_height + 1)\<rparr>) t)) (\<lambda>(t', new_child_id).
     Inr (t', inserts @ [(child_id, new_child_id)]))))"

definition merge_node :: "('t, 'n) tree_ops \<Rightarrow> 't \<Rightarrow> u32 \<Rightarrow> 'n \<Rightarrow>
    't \<times> ('n \<rightharpoonup> 'n) \<Rightarrow> ('t \<times> ('n \<rightharpoonup> 'n)) run" where
  "merge_node T incoming junction_height old_node_id = (\<lambda>(t, merge_id_map).
     bind_ok (unwrap (merge_id_map old_node_id)) (\<lambda>under_node_id.
     bind_ok (unwrap (op_children T incoming old_node_id)) (\<lambda>children_ids.
     bind_ok (fold_ok (merge_child T incoming junction_height under_node_id) children_ids (t, []))
       (\<lambda>(t', inserts). Inr (t', fold (\<lambda>(c, n) m. m(c \<mapsto> n)) inserts merge_id_map)))))"

definition merge_on :: "('t, 'n) tree_ops \<Rightarrow> 'n \<Rightarrow> ('t, 'n) branch \<Rightarrow> ('t, 'n) branch \<Rightarrow>
    (('t, 'n) branch \<times> 'n option) run" where
  "merge_on T junction_id incoming self =
     bind_ok (bind_ok (best_tip_with_id T incoming) unwrap) (\<lambda>(merged_tip_id, _).
     bind_ok (unwrap (op_root T (br_branches incoming))) (\<lambda>incoming_root_id.
     bind_ok (node_data T (br_branches incoming) incoming_root_id) (\<lambda>incoming_root_data.
     bind_ok (map_ok blk_height (node_data T (br_branches self) junction_id)) (\<lambda>junction_height.
     bind_ok (unwrap (op_insert_under T junction_id
         (incoming_root_data\<lparr>blk_height := junction_height + 1\<rparr>) (br_branches self)))
       (\<lambda>(t, new_node_id).
     bind_ok (unwrap (op_level T (br_branches incoming) incoming_root_id)) (\<lambda>ids.
     bind_ok (fold_ok (merge_node T (br_branches incoming) junction_height) ids
         (t, [incoming_root_id \<mapsto> new_node_id])) (\<lambda>(t', merge_id_map).
     Inr (self\<lparr>br_branches := t'\<rparr>, merge_id_map merged_tip_id))))))))"

section \<open>Pruning\<close>

definition leaf_node_id :: "('t, 'n) tree_ops \<Rightarrow> block \<Rightarrow> ('t, 'n) branch \<Rightarrow> 'n option run" where
  "leaf_node_id T b self =
     map_ok (\<lambda>xs. map_option fst (find (\<lambda>(_, x). blk_state_hash b = blk_state_hash x) xs))
       (level_blocks T self)"

fun prune_points :: "u32 \<Rightarrow> u32 \<Rightarrow> 'n option \<times> 'n option \<Rightarrow> 'n list \<Rightarrow> 'n option \<times> 'n option" where
  "prune_points k witness_length acc [] = acc"
| "prune_points k witness_length (new_root_id, prune_point_id) (ancestor_id # ids) =
     (let w = witness_length + 1
      in prune_points k w
           (if w = k then Some ancestor_id else new_root_id,
            if w = k + 1 then Some ancestor_id else prune_point_id) ids)"

definition prune_transition_frontier :: "('t, 'n) tree_ops \<Rightarrow> u32 \<Rightarrow> block \<Rightarrow> ('t, 'n) branch \<Rightarrow>
    ('t, 'n) branch run" where
  "prune_transition_frontier T k tip self =
     bind_ok (bind_ok (leaf_node_id T tip self) unwrap) (\<lambda>tip_id.
     bind_ok (unwrap (op_ancestors T (br_branches self) tip_id)) (\<lambda>ancestors.
     let (new_root_opt, prune_point_opt) = prune_points k 0 (None, None) ancestors in
     bind_ok (unwrap new_root_opt) (\<lambda>new_root_id.
     bind_ok (unwrap prune_point_opt) (\<lambda>prune_point_id.
     bind_ok (unwrap (op_children T (br_branches self) prune_point_id)) (\<lambda>children.
     bind_ok (fold_ok (\<lambda>node_id t. if node_id \<noteq> new_root_id then unwrap (op_remove_drop T node_id t)
         else Inr t) children (br_branches self)) (\<lambda>t.
     bind_ok (unwrap (op_remove_orphan T prune_point_id t)) (\<lambda>t.
     bind_ok (unwrap (op_root T t)) (\<lambda>root_id.
     bind_ok (unwrap (op_remove_drop T root_id t)) (\<lambda>t.
     bind_ok (unwrap (op_move_root T new_root_id t)) (\<lambda>t.
     bind_ok (map_ok blk_height (node_data T t new_root_id)) (\<lambda>n.
     bind_ok (unwrap (op_level T t new_root_id)) (\<lambda>node_ids.
     map_ok (\<lambda>t. \<lparr>br_root = new_root_id, br_branches = t\<rparr>)
       (fold_ok (\<lambda>node_id t. bind_ok (node_data T t node_id) (\<lambda>b.
          unwrap (op_set T node_id (b\<lparr>blk_height := blk_height b - n\<rparr>) t))) node_ids t)))))))))))))"

section \<open>Invariant\<close>

text \<open>
  Every node but the root has a parent, heights count from the root, and \<open>R\<close> relates each block to its
  children.
\<close>

definition branch_inv ::
    "('t, 'n) tree_ops \<Rightarrow> ('t \<Rightarrow> bool) \<Rightarrow> (block \<Rightarrow> block \<Rightarrow> bool) \<Rightarrow> ('t, 'n) branch \<Rightarrow> bool" where
  "branch_inv T ok R br \<longleftrightarrow>
     (let t = br_branches br in
       ok t \<and> op_root T t = Some (br_root br) \<and>
       (\<forall>j. op_get T t j \<noteq> None \<and> op_parent T t j = None \<longrightarrow> j = br_root br) \<and>
       (\<forall>b. op_get T t (br_root br) = Some b \<longrightarrow> blk_height b = 0) \<and>
       (\<forall>j p b c. op_parent T t j = Some p \<and> op_get T t j = Some b \<and> op_get T t p = Some c \<longrightarrow>
          blk_height b = blk_height c + 1 \<and> R c b))"

definition height_free :: "(block \<Rightarrow> block \<Rightarrow> bool) \<Rightarrow> bool" where
  "height_free R \<longleftrightarrow>
     (\<forall>c b h h'. R (c\<lparr>blk_height := h\<rparr>) b = R c b \<and> R c (b\<lparr>blk_height := h'\<rparr>) = R c b)"

definition branch_hashes :: "('t, 'n) tree_ops \<Rightarrow> ('t, 'n) branch \<Rightarrow> state_hash multiset" where
  "branch_hashes T br =
     image_mset (\<lambda>j. blk_state_hash (the (op_get T (br_branches br) j)))
       (mset_set (dom (op_get T (br_branches br))))"

text \<open>The hash link between a block and its child.\<close>

definition is_child :: "block \<Rightarrow> block \<Rightarrow> bool" where
  "is_child c b \<longleftrightarrow> blk_parent_hash b = blk_state_hash c"

lemma height_free_is_child: "height_free is_child"
  by (simp add: height_free_def is_child_def)

lemma block_from_precomputed_simps [simp]:
  "blk_height (block_from_precomputed f b h) = h"
  "blk_state_hash (block_from_precomputed f b h) = state_hash_of b"
  "blk_parent_hash (block_from_precomputed f b h) = previous_state_hash b"
  "blk_blockchain_length (block_from_precomputed f b h) = blockchain_length b"
  by (simp_all add: block_from_precomputed_def)

context id_tree
begin

lemma invD:
  assumes "branch_inv T ok R br"
  shows "ok (br_branches br)" "op_root T (br_branches br) = Some (br_root br)"
    "op_get T (br_branches br) j \<noteq> None \<Longrightarrow> op_parent T (br_branches br) j = None \<Longrightarrow> j = br_root br"
    "op_get T (br_branches br) (br_root br) = Some b \<Longrightarrow> blk_height b = 0"
    "op_parent T (br_branches br) j = Some p \<Longrightarrow> op_get T (br_branches br) j = Some b \<Longrightarrow>
       op_get T (br_branches br) p = Some c \<Longrightarrow> blk_height b = blk_height c + 1 \<and> R c b"
  using assms unfolding branch_inv_def Let_def by blast+

lemma branch_invI:
  assumes "ok (br_branches br)" "op_root T (br_branches br) = Some (br_root br)"
    "\<And>j. op_get T (br_branches br) j \<noteq> None \<Longrightarrow> op_parent T (br_branches br) j = None \<Longrightarrow> j = br_root br"
    "\<And>b. op_get T (br_branches br) (br_root br) = Some b \<Longrightarrow> blk_height b = 0"
    "\<And>j p b c. op_parent T (br_branches br) j = Some p \<Longrightarrow> op_get T (br_branches br) j = Some b \<Longrightarrow>
       op_get T (br_branches br) p = Some c \<Longrightarrow> blk_height b = blk_height c + 1 \<and> R c b"
  shows "branch_inv T ok R br"
  using assms unfolding branch_inv_def Let_def by blast

lemma root_get: "branch_inv T ok R br \<Longrightarrow> \<exists>b. op_get T (br_branches br) (br_root br) = Some b"
  using root_node invD(1,2) by blast

lemma root_parent: "branch_inv T ok R br \<Longrightarrow> op_parent T (br_branches br) (br_root br) = None"
  using root_node invD(1,2) by blast

lemma root_block_ok:
  assumes "branch_inv T ok R br"
  shows "\<exists>b. root_block T br = Inr b \<and> op_get T (br_branches br) (br_root br) = Some b \<and> blk_height b = 0"
  using root_get[OF assms] invD(4)[OF assms] by (auto simp: root_block_def node_data_def)

lemma single_top_below:
  assumes "ok t" "\<And>j. op_get T t j \<noteq> None \<Longrightarrow> op_parent T t j = None \<Longrightarrow> j = r" "op_parent T t r = None"
  shows "{j. op_get T t j \<noteq> None \<and> below (op_parent T t) r j} = dom (op_get T t)"
proof -
  have "below (op_parent T t) r j" if "path_up (op_parent T t) j as" "op_get T t j \<noteq> None" for j as
    using that
  proof (induction rule: path_up.induct)
    case (top i)
    then show ?case using assms(2)[of i] by (simp add: below_top)
  next
    case (up i p as)
    have "i \<noteq> r" using assms(3) up.hyps(1) by auto
    then show ?case using up parent_node[OF assms(1) up.hyps(1)] by (simp add: below_up)
  qed
  then show ?thesis using path_ex[OF assms(1)] by blast
qed

lemma node_below_root:
  assumes "branch_inv T ok R br" "op_get T (br_branches br) j \<noteq> None"
  shows "below (op_parent T (br_branches br)) (br_root br) j"
  using single_top_below[OF invD(1)[OF assms(1)] invD(3)[OF assms(1)] root_parent[OF assms(1)]] assms(2)
  by blast

lemma level_ids:
  assumes "branch_inv T ok R br"
  shows "\<exists>xs. op_level T (br_branches br) (br_root br) = Some (br_root br # xs) \<and>
    distinct (br_root br # xs) \<and> set (br_root br # xs) = dom (op_get T (br_branches br)) \<and>
    parents_first (op_parent T (br_branches br)) (br_root br # xs)"
proof -
  have "{j. op_get T (br_branches br) j \<noteq> None \<and> below (op_parent T (br_branches br)) (br_root br) j}
      = dom (op_get T (br_branches br))"
    using node_below_root[OF assms] by auto
  then show ?thesis using level[OF invD(1)[OF assms], of "br_root br"] root_get[OF assms] by simp
qed

lemma traverse_ids:
  assumes "branch_inv T ok R br"
  shows "\<exists>xs. traverse_level_order_ids T br = Inr (br_root br # xs) \<and>
    distinct (br_root br # xs) \<and> set (br_root br # xs) = dom (op_get T (br_branches br))"
  using level_ids[OF assms] invD(2)[OF assms] by (auto simp: traverse_level_order_ids_def)

lemma level_blocks_ok:
  assumes "branch_inv T ok R br"
  shows "\<exists>xs. level_blocks T br = Inr xs \<and> distinct (map fst xs) \<and>
    set xs = {(i, b). op_get T (br_branches br) i = Some b}"
proof -
  let ?get = "op_get T (br_branches br)"
  obtain ids where ids: "traverse_level_order_ids T br = Inr ids" "distinct ids" "set ids = dom ?get"
    using traverse_ids[OF assms] by blast
  have "traverse_ok (\<lambda>i. map_ok (Pair i) (node_data T (br_branches br) i)) ids
      = Inr (map (\<lambda>i. (i, the (?get i))) ids)"
    by (rule traverse_ok_total) (use ids(3) in \<open>auto simp: node_data_def dom_def\<close>)
  then have "level_blocks T br = Inr (map (\<lambda>i. (i, the (?get i))) ids)"
    using ids(1) by (simp add: level_blocks_def)
  moreover have "set (map (\<lambda>i. (i, the (?get i))) ids) = {(i, b). ?get i = Some b}"
    using ids(3) by force
  ultimately show ?thesis using ids(2) by (simp add: comp_def)
qed

lemma height_path:
  assumes inv: "branch_inv T ok R br"
    and "path_up (op_parent T (br_branches br)) j as" "op_get T (br_branches br) j = Some b"
  shows "blk_height b = of_nat (length as)"
  using assms(2,3)
proof (induction arbitrary: b rule: path_up.induct)
  case (top i)
  then have "i = br_root br" using invD(3)[OF inv] by blast
  with top show ?case using invD(4)[OF inv] by simp
next
  case (up i p as)
  obtain c where c: "op_get T (br_branches br) p = Some c"
    using parent_node[OF invD(1)[OF inv] up.hyps(1)] by blast
  with invD(5)[OF inv up.hyps(1) up.prems c] up.IH[OF c] show ?case by simp
qed

lemma top_leaves_ok:
  assumes inv: "branch_inv T ok R br"
  shows "\<exists>xs. top_leaves_with_id T br = Inr xs \<and> xs \<noteq> [] \<and>
    set xs = {(i, b). op_get T (br_branches br) i = Some b \<and> blk_height b + 1 = branch_height T br}"
proof -
  obtain ys where ys: "level_blocks T br = Inr ys"
      "set ys = {(i, b). op_get T (br_branches br) i = Some b}"
    using level_blocks_ok[OF inv] by blast
  obtain j as b where "op_get T (br_branches br) j = Some b"
      "path_up (op_parent T (br_branches br)) j as" "Suc (length as) = op_height T (br_branches br)"
    using height[OF invD(1,2)[OF inv]] by blast
  with height_path[OF inv] have "(j, b) \<in> set ys" "blk_height b + 1 = branch_height T br"
    using ys(2) unfolding branch_height_def by (auto simp flip: \<open>Suc _ = _\<close>)
  then have "(j, b) \<in> set (filter (\<lambda>(_, b). blk_height b + 1 = branch_height T br) ys)" by simp
  then have "filter (\<lambda>(_, b). blk_height b + 1 = branch_height T br) ys \<noteq> []" by force
  with ys show ?thesis by (auto simp: top_leaves_with_id_def)
qed

lemma best_tip_ok:
  assumes inv: "branch_inv T ok R br"
  shows "\<exists>i b. best_tip_with_id T br = Inr (Some (i, b)) \<and> op_get T (br_branches br) i = Some b \<and>
    blk_height b + 1 = branch_height T br"
proof -
  let ?c = "\<lambda>(_, x) (_, y). reverse_ordering (block_cmp x y)"
  obtain xs where xs: "top_leaves_with_id T br = Inr xs" "xs \<noteq> []"
      "set xs = {(i, b). op_get T (br_branches br) i = Some b \<and> blk_height b + 1 = branch_height T br}"
    using top_leaves_ok[OF inv] by blast
  have "sort_by ?c xs \<noteq> []" using xs(2) mset_sort_by[of ?c xs] by (metis mset_zero_iff)
  then obtain i b ys where ys: "sort_by ?c xs = (i, b) # ys" by (metis list.exhaust surj_pair)
  then have "(i, b) \<in> set xs" using set_sort_by[of ?c xs] by (metis list.set_intros(1))
  with xs ys show ?thesis by (auto simp: best_tip_with_id_def)
qed

lemma update_fold:
  assumes "ok t" "distinct ids" "set ids \<subseteq> dom (op_get T t)"
  shows "\<exists>t'. fold_ok (\<lambda>i t. bind_ok (node_data T t i) (\<lambda>b.
        if P i then unwrap (op_set T i (f b) t) else Inr t)) ids t = Inr t' \<and> ok t' \<and>
      op_root T t' = op_root T t \<and> op_parent T t' = op_parent T t \<and>
      op_get T t' = (\<lambda>j. if j \<in> set ids \<and> P j then map_option f (op_get T t j) else op_get T t j)"
  using assms
proof (induction ids arbitrary: t)
  case Nil
  then show ?case by simp
next
  case (Cons i ids)
  obtain b where b: "op_get T t i = Some b" using Cons.prems(3) by auto
  define t1 where "t1 = (if P i then the (op_set T i (f b) t) else t)"
  have t1: "(if P i then unwrap (op_set T i (f b) t) else Inr t) = Inr t1"
      "ok t1" "op_get T t1 = (if P i then (op_get T t)(i \<mapsto> f b) else op_get T t)"
      "op_root T t1 = op_root T t" "op_parent T t1 = op_parent T t"
    using set_data[OF Cons.prems(1), of i "f b"] b Cons.prems(1) unfolding t1_def by auto
  have "set ids \<subseteq> dom (op_get T t1)" using Cons.prems(3) t1(3) by auto
  then obtain t' where "fold_ok (\<lambda>i t. bind_ok (node_data T t i) (\<lambda>b.
        if P i then unwrap (op_set T i (f b) t) else Inr t)) ids t1 = Inr t'" "ok t'"
      "op_root T t' = op_root T t1" "op_parent T t' = op_parent T t1"
      "op_get T t' = (\<lambda>j. if j \<in> set ids \<and> P j then map_option f (op_get T t1 j) else op_get T t1 j)"
    using Cons.IH[OF t1(2)] Cons.prems(2) by auto
  then show ?case using b t1 Cons.prems(2) by (auto simp: node_data_def fun_eq_iff)
qed

end

lemma branch_hashes_map:
  assumes "finite (dom (op_get T (br_branches br)))"
    "dom (op_get T (br_branches br')) = dom (op_get T (br_branches br))"
    "\<And>j b. op_get T (br_branches br) j = Some b \<Longrightarrow>
       blk_state_hash (the (op_get T (br_branches br') j)) = blk_state_hash b"
  shows "branch_hashes T br' = branch_hashes T br"
  unfolding branch_hashes_def assms(2) using assms(1,3) by (intro image_mset_cong) auto

lemma branch_hashes_grow:
  assumes "finite (dom (op_get T (br_branches br)))" "op_get T (br_branches br) n = None"
    "dom (op_get T (br_branches br')) = insert n (dom (op_get T (br_branches br)))"
    "blk_state_hash (the (op_get T (br_branches br') n)) = h"
    "\<And>j b. op_get T (br_branches br) j = Some b \<Longrightarrow>
       blk_state_hash (the (op_get T (br_branches br') j)) = blk_state_hash b"
  shows "branch_hashes T br' = add_mset h (branch_hashes T br)"
proof -
  let ?D = "dom (op_get T (br_branches br))"
  have "n \<notin> ?D" using assms(2) by auto
  moreover have "image_mset (\<lambda>j. blk_state_hash (the (op_get T (br_branches br') j))) (mset_set ?D)
      = branch_hashes T br"
    unfolding branch_hashes_def using assms(1,5) by (intro image_mset_cong) auto
  ultimately show ?thesis using assms(1,4) by (simp add: branch_hashes_def[of T br'] assms(3))
qed

context id_tree
begin

lemma branch_new_ok:
  "branch_inv T ok R (branch_new T blake2b pcb)"
  "branch_hashes T (branch_new T blake2b pcb) = {#state_hash_of pcb#}"
proof -
  obtain t r where tr: "op_insert_root T (block_from_precomputed blake2b pcb 0) (op_new T) = (t, r)"
    by fastforce
  note ins = insert_root[OF new(1) tr]
  have get: "op_get T t = [r \<mapsto> block_from_precomputed blake2b pcb 0]" using ins new(3) by (auto simp: fun_eq_iff)
  have par: "op_parent T t j = None" for j
    using ins parent_node[of t j] parent_node[OF new(1), of j] new by (cases "op_parent T t j") auto
  show "branch_inv T ok R (branch_new T blake2b pcb)"
    using tr ins get par new(3) by (auto simp: branch_new_def branch_inv_def split: if_splits)
  show "branch_hashes T (branch_new T blake2b pcb) = {#state_hash_of pcb#}"
    using tr get by (simp add: branch_new_def branch_hashes_def)
qed

lemma extension_scan_ok:
  assumes "ok t" "set ids \<subseteq> dom (op_get T t)"
  shows "(extension_scan T blake2b t pcb ids = Inr None \<and>
      (\<forall>j\<in>set ids. \<forall>b. op_get T t j = Some b \<longrightarrow> blk_state_hash b \<noteq> previous_state_hash pcb)) \<or>
    (\<exists>p c t' n. op_get T t p = Some c \<and> blk_state_hash c = previous_state_hash pcb \<and> p \<in> set ids \<and>
      op_insert_under T p (block_from_precomputed blake2b pcb (blk_height c + 1)) t = Some (t', n) \<and>
      extension_scan T blake2b t pcb ids =
        Inr (Some (t', n, block_from_precomputed blake2b pcb (blk_height c + 1))))"
  using assms(2)
proof (induction ids)
  case (Cons i ids)
  then obtain c where c: "op_get T t i = Some c" by auto
  show ?case
  proof (cases "previous_state_hash pcb = blk_state_hash c")
    case True
    obtain t' n where "op_insert_under T i (block_from_precomputed blake2b pcb (blk_height c + 1)) t = Some (t', n)"
      using insert_under[OF assms(1)] c by blast
    then show ?thesis using True c by (auto simp: node_data_def)
  next
    case False
    have "extension_scan T blake2b t pcb (i # ids) = extension_scan T blake2b t pcb ids"
      using False c by (simp add: node_data_def)
    moreover have "blk_state_hash b \<noteq> previous_state_hash pcb" if "op_get T t i = Some b" for b
      using that c False by simp
    ultimately show ?thesis using Cons by (simp del: extension_scan.simps) blast
  qed
qed simp

lemma inv_insert_under:
  assumes inv: "branch_inv T ok R br" and p: "op_get T (br_branches br) p = Some c"
    and ins: "op_insert_under T p b (br_branches br) = Some (t', n)"
    and b: "blk_height b = blk_height c + 1" "R c b"
  shows "branch_inv T ok R (br\<lparr>br_branches := t'\<rparr>)"
    "branch_hashes T (br\<lparr>br_branches := t'\<rparr>) = add_mset (blk_state_hash b) (branch_hashes T br)"
    "op_get T (br_branches br) n = None" "op_get T t' = (op_get T (br_branches br))(n \<mapsto> b)"
    "op_parent T t' = (op_parent T (br_branches br))(n \<mapsto> p)"
proof -
  let ?t = "br_branches br"
  note ok = invD(1)[OF inv]
  have t': "ok t'" "op_get T ?t n = None" "op_get T t' = (op_get T ?t)(n \<mapsto> b)"
      "op_root T t' = op_root T ?t" "op_parent T t' = (op_parent T ?t)(n \<mapsto> p)"
    using insert_under[OF ok, of p b] p ins by auto
  have npar: "op_parent T ?t j \<noteq> Some n" "op_parent T ?t n = None" for j
    using parent_node[OF ok, of j n] parent_node[OF ok, of n] t'(2) by (auto, metis option.exhaust)
  have "n \<noteq> p" "n \<noteq> br_root br" using t'(2) p root_get[OF inv] by auto
  then show "branch_inv T ok R (br\<lparr>br_branches := t'\<rparr>)"
    using inv t' npar p b unfolding branch_inv_def Let_def by (auto split: if_splits)
  show "branch_hashes T (br\<lparr>br_branches := t'\<rparr>) = add_mset (blk_state_hash b) (branch_hashes T br)"
    by (rule branch_hashes_grow[of _ _ n]) (use t' finite_nodes[OF ok] in auto)
  show "op_get T ?t n = None" "op_get T t' = (op_get T ?t)(n \<mapsto> b)"
    "op_parent T t' = (op_parent T ?t)(n \<mapsto> p)" by fact+
qed

lemma simple_extension_ok:
  assumes inv: "branch_inv T ok R br"
  shows "(simple_extension T blake2b pcb br = Inr (br, None) \<and>
      (\<forall>j b. op_get T (br_branches br) j = Some b \<longrightarrow> blk_state_hash b \<noteq> previous_state_hash pcb)) \<or>
    (\<exists>p c t' n. op_get T (br_branches br) p = Some c \<and> blk_state_hash c = previous_state_hash pcb \<and>
      op_insert_under T p (block_from_precomputed blake2b pcb (blk_height c + 1)) (br_branches br)
        = Some (t', n) \<and>
      simple_extension T blake2b pcb br = Inr (br\<lparr>br_branches := t'\<rparr>,
        Some (n, block_from_precomputed blake2b pcb (blk_height c + 1))))"
proof -
  obtain ids where ids: "traverse_level_order_ids T br = Inr ids" "set ids = dom (op_get T (br_branches br))"
    using traverse_ids[OF inv] by blast
  have scan: "set ids \<subseteq> dom (op_get T (br_branches br))" using ids by simp
  from extension_scan_ok[OF invD(1)[OF inv] scan, of blake2b pcb] show ?thesis
  proof (elim disjE conjE exE, goal_cases)
    case 1
    then show ?thesis using ids by (auto simp: simple_extension_def domI)
  next
    case (2 p c t' n)
    then show ?thesis using ids(1) by (intro disjI2 exI[of _ p] exI[of _ c] exI[of _ t'] exI[of _ n])
        (simp add: simple_extension_def)
  qed
qed

lemma new_root_tree:
  assumes inv: "branch_inv T ok R br"
  shows "\<exists>t' n. new_root T blake2b pcb br = Inr (br\<lparr>br_root := n, br_branches := t'\<rparr>) \<and>
    ok t' \<and> op_root T t' = Some n \<and> op_get T (br_branches br) n = None \<and>
    op_parent T t' = (op_parent T (br_branches br))(br_root br \<mapsto> n) \<and>
    op_get T t' = (\<lambda>j. if j = n then Some (block_from_precomputed blake2b pcb 0)
      else map_option (\<lambda>b. b\<lparr>blk_height := blk_height b + 1\<rparr>) (op_get T (br_branches br) j))"
proof -
  let ?t = "br_branches br" and ?nb = "block_from_precomputed blake2b pcb 0" and ?r = "br_root br"
  let ?up = "\<lambda>b. b\<lparr>blk_height := blk_height b + 1\<rparr>"
  obtain t1 n where tn: "op_insert_root T ?nb ?t = (t1, n)" by fastforce
  have t1: "ok t1" "op_get T ?t n = None" "op_get T t1 = (op_get T ?t)(n \<mapsto> ?nb)" "op_root T t1 = Some n"
      "op_parent T t1 = (op_parent T ?t)(?r \<mapsto> n)"
    using insert_root[OF invD(1)[OF inv] tn] invD(2)[OF inv] by auto
  have "j = n" if "op_get T t1 j \<noteq> None" "op_parent T t1 j = None" for j
    using that t1(3,5) invD(3)[OF inv, of j] by (auto split: if_splits)
  then have below: "{j. op_get T t1 j \<noteq> None \<and> below (op_parent T t1) n j} = dom (op_get T t1)"
    using root_node[OF t1(1,4)] by (intro single_top_below t1) auto
  obtain ids where ids: "op_level T t1 n = Some ids" "distinct ids" "set ids = dom (op_get T t1)"
    using level[OF t1(1), of n, unfolded below] t1(3) by (metis fun_upd_same option.distinct(1))
  obtain t2 where t2: "fold_ok (\<lambda>i t. bind_ok (node_data T t i) (\<lambda>b.
        if i \<noteq> n then unwrap (op_set T i (?up b) t) else Inr t)) ids t1 = Inr t2" "ok t2"
      "op_root T t2 = op_root T t1" "op_parent T t2 = op_parent T t1"
      "op_get T t2 = (\<lambda>j. if j \<in> set ids \<and> j \<noteq> n then map_option ?up (op_get T t1 j) else op_get T t1 j)"
    using update_fold[OF t1(1) ids(2), of "\<lambda>i. i \<noteq> n" ?up] ids(3) by auto
  have "op_get T t2 = (\<lambda>j. if j = n then Some ?nb else map_option ?up (op_get T ?t j))"
    unfolding t2(5) ids(3) t1(3) using t1(2) by (auto simp: fun_eq_iff)
  then show ?thesis using tn ids(1) t1 t2(1-4)
    by (intro exI[of _ t2] exI[of _ n]) (simp add: new_root_def)
qed

lemma new_root_ok:
  assumes inv: "branch_inv T ok R br" and hf: "height_free R"
    and root: "root_block T br = Inr b"
    and R: "R (block_from_precomputed blake2b pcb 0) b"
  shows "\<exists>br'. new_root T blake2b pcb br = Inr br' \<and> branch_inv T ok R br' \<and>
    op_get T (br_branches br') (br_root br') = Some (block_from_precomputed blake2b pcb 0) \<and>
    branch_hashes T br' = add_mset (state_hash_of pcb) (branch_hashes T br)"
proof -
  let ?t = "br_branches br" and ?nb = "block_from_precomputed blake2b pcb 0" and ?r = "br_root br"
  let ?up = "\<lambda>b. b\<lparr>blk_height := blk_height b + 1\<rparr>"
  note ok = invD(1)[OF inv]
  obtain t' n where t': "new_root T blake2b pcb br = Inr (br\<lparr>br_root := n, br_branches := t'\<rparr>)"
      "ok t'" "op_root T t' = Some n" "op_get T ?t n = None" "op_parent T t' = (op_parent T ?t)(?r \<mapsto> n)"
      "op_get T t' = (\<lambda>j. if j = n then Some ?nb else map_option ?up (op_get T ?t j))"
    using new_root_tree[OF inv, of blake2b pcb] by blast
  have b: "op_get T ?t ?r = Some b" "n \<noteq> ?r" using root_block_ok[OF inv] root t'(4) by auto
  have link: "blk_height b' = blk_height c' + 1 \<and> R c' b'"
    if jp: "op_parent T t' j = Some p" "op_get T t' j = Some b'" "op_get T t' p = Some c'" for j p b' c'
  proof (cases "j = ?r")
    case True
    then show ?thesis using jp t'(5,6) b invD(4)[OF inv b(1)] R hf by (auto simp: height_free_def)
  next
    case False
    then have par: "op_parent T ?t j = Some p" using jp t'(5) by simp
    then have "j \<noteq> n" "p \<noteq> n" using parent_node[OF ok par] t'(4) by auto
    then obtain b0 c0 where "op_get T ?t j = Some b0" "b' = ?up b0" "op_get T ?t p = Some c0" "c' = ?up c0"
      using jp t'(6) by auto
    then show ?thesis using invD(5)[OF inv par] hf by (auto simp: height_free_def)
  qed
  let ?br = "br\<lparr>br_root := n, br_branches := t'\<rparr>"
  have "branch_inv T ok R ?br"
  proof (rule branch_invI, goal_cases)
    case (3 j)
    then show ?case using t'(5,6) invD(3)[OF inv, of j] by (auto split: if_splits)
  next
    case (5 j p b c)
    then show ?case by (intro link) simp_all
  qed (use t' in simp_all)
  moreover have "branch_hashes T ?br = add_mset (state_hash_of pcb) (branch_hashes T br)"
    using t'(4,6) finite_nodes[OF ok] by (intro branch_hashes_grow[of T br n]) auto
  ultimately show ?thesis using t'(1,6) by auto
qed

end

text \<open>Sorting by the reversed order puts the worst block first.\<close>

lemma reverse_block_cmp:
  assumes "blk_genesis_state_hash a = blk_genesis_state_hash b"
  shows "reverse_ordering (block_cmp a b) = Greater \<longleftrightarrow> select_key b < select_key a"
proof -
  have "\<not> crosses_hardfork a b" using assms genesis_hashes_differ by (auto simp: crosses_hardfork_def)
  then show ?thesis using block_cmp_Less_iff[of a b] by (cases "block_cmp a b") auto
qed

context id_tree
begin

lemma best_tip_worst:
  assumes inv: "branch_inv T ok R br"
    and gen: "\<And>j x. op_get T (br_branches br) j = Some x \<Longrightarrow> blk_genesis_state_hash x = g"
  shows "\<exists>i b. best_tip_with_id T br = Inr (Some (i, b)) \<and> op_get T (br_branches br) i = Some b \<and>
    (\<forall>j x. op_get T (br_branches br) j = Some x \<and> blk_height x + 1 = branch_height T br \<longrightarrow>
      select_key b \<le> select_key x)"
proof -
  let ?c = "\<lambda>(_, x) (_, y). reverse_ordering (block_cmp x y)"
  let ?f = "\<lambda>(_, x). select_key x"
  obtain xs where xs: "top_leaves_with_id T br = Inr xs" "xs \<noteq> []"
      "set xs = {(i, b). op_get T (br_branches br) i = Some b \<and> blk_height b + 1 = branch_height T br}"
    using top_leaves_ok[OF inv] by blast
  have "?c p q = Greater \<longleftrightarrow> ?f q < ?f p" if "p \<in> set xs" "q \<in> set xs" for p q
    using that xs(3) gen by (cases p; cases q) (auto simp: reverse_block_cmp)
  then have sort: "sort_by ?c xs = sort_key ?f xs" by (rule sort_by_key)
  then obtain i b ys where ys: "sort_key ?f xs = (i, b) # ys"
    using xs(2) by (cases "sort_key ?f xs") (auto, metis sort_key_simps list.size(3) length_0_conv length_sort)
  then have "sorted (map ?f ((i, b) # ys))" "set ((i, b) # ys) = set xs"
    by (metis sorted_sort_key, metis set_sort)
  then have "select_key b \<le> select_key x" if "(j, x) \<in> set xs" for j x
    using that by fastforce
  moreover have "(i, b) \<in> set xs" using ys set_sort by (metis list.set_intros(1))
  ultimately show ?thesis using xs(1,3) sort ys by (auto simp: best_tip_with_id_def)
qed

end

section \<open>Examples\<close>

text \<open>A chain of \<open>n\<close> blocks, and a fork with two leaves, over the reference tree.\<close>

definition example_hash :: "nat \<Rightarrow> state_hash" where
  "example_hash i = ''3N0'' @ replicate i CHR ''x''"

definition example_node :: "nat \<Rightarrow> block" where
  "example_node i = \<lparr>
     blk_parent_hash = (if i = 0 then ''3N'' else example_hash (i - 1)), blk_state_hash = example_hash i,
     blk_height = of_nat i, blk_blockchain_length = of_nat (Suc i),
     blk_genesis_state_hash = ''3N'', blk_global_slot_since_genesis = of_nat i,
     blk_hash_last_vrf_output = []\<rparr>"

definition example_chain :: "nat \<Rightarrow> (ref_tree, nat) branch" where
  "example_chain n = \<lparr>br_root = 0, br_branches = \<lparr>
     rt_next = n, rt_data = (\<lambda>i. if i < n then Some (example_node i) else None),
     rt_par = (\<lambda>i. if 0 < i \<and> i < n then Some (i - 1) else None), rt_root = Some 0\<rparr>\<rparr>"

definition example_fork :: "(ref_tree, nat) branch" where
  "example_fork = \<lparr>br_root = 0, br_branches = \<lparr>
     rt_next = 3,
     rt_data = [0 \<mapsto> example_node 0, 1 \<mapsto> example_node 1,
       2 \<mapsto> (example_node 1)\<lparr>blk_state_hash := ''3N0y''\<rparr>],
     rt_par = [1 \<mapsto> 0, 2 \<mapsto> 0], rt_root = Some 0\<rparr>\<rparr>"

lemma example_chain_path:
  assumes "i < n"
  shows "path_up (\<lambda>i. if 0 < i \<and> i < n then Some (i - 1) else None) i (rev [0..<i])"
  using assms by (induction i) auto

lemma ref_proj: "op_get ref_ops = rt_data" "op_parent ref_ops = rt_par" "op_root ref_ops = rt_root"
  by (simp_all add: ref_ops_def)

lemma example_chain_ok:
  assumes "0 < n"
  shows "ref_ok (br_branches (example_chain n))"
proof -
  have "\<exists>as. path_up (\<lambda>i. if 0 < i \<and> i < n then Some (i - 1) else None) i as" for i
    using example_chain_path[of i n] by (cases "i < n") (auto intro: exI[of _ "[]"])
  with assms show ?thesis by (auto simp: ref_ok_def example_chain_def)
qed

lemma example_chain_inv:
  assumes "0 < n"
  shows "branch_inv ref_ops ref_ok is_child (example_chain n)"
proof (rule ref.branch_invI, goal_cases)
  case 1
  show ?case using example_chain_ok[OF assms] .
next
  case (5 j p b c)
  then have "j = Suc p" "b = example_node (Suc p)" "c = example_node p"
    by (auto simp: example_chain_def ref_proj split: if_splits)
  then show ?case by (simp add: example_node_def is_child_def)
qed (auto simp: example_chain_def ref_proj example_node_def split: if_splits)

lemma example_fork_inv: "branch_inv ref_ops ref_ok is_child example_fork"
proof (rule ref.branch_invI, goal_cases)
  case 1
  have "path_up [1 \<mapsto> 0, 2 \<mapsto> (0 :: nat)] i (if i = 1 \<or> i = 2 then [0] else [])" for i :: nat
    by auto
  then show ?case by (auto simp: ref_ok_def example_fork_def split: if_splits)
next
  case (5 j p b c)
  then show ?case
    by (auto simp: example_fork_def ref_proj example_node_def is_child_def split: if_splits)
qed (auto simp: example_fork_def ref_proj example_node_def split: if_splits)

lemma in_branch_hashes:
  assumes "finite (dom (op_get T (br_branches br)))"
  shows "h \<in># branch_hashes T br \<longleftrightarrow> (\<exists>j b. op_get T (br_branches br) j = Some b \<and> blk_state_hash b = h)"
  using assms by (force simp: branch_hashes_def image_iff)

section \<open>Properties of branches\<close>

text \<open>
  C17: extending a well-formed branch by a block never panics.  When the branch holds the block's parent,
  the block becomes a node one higher than its parent, the branch stays well formed and holds exactly
  one block more; otherwise the branch is unchanged.
\<close>

theorem simple_extension_attaches:
  assumes "id_tree T ok" "branch_inv T ok is_child br"
  shows "if previous_state_hash pcb \<in># branch_hashes T br
    then \<exists>br' n p c. simple_extension T blake2b pcb br =
        Inr (br', Some (n, block_from_precomputed blake2b pcb (blk_height c + 1))) \<and>
      branch_inv T ok is_child br' \<and>
      branch_hashes T br' = add_mset (state_hash_of pcb) (branch_hashes T br) \<and>
      op_get T (br_branches br) p = Some c \<and> blk_state_hash c = previous_state_hash pcb \<and>
      op_parent T (br_branches br') n = Some p
    else simple_extension T blake2b pcb br = Inr (br, None)"
proof -
  note inv = assms(2) and loc = assms(1)
  have mem: "h \<in># branch_hashes T br \<longleftrightarrow>
      (\<exists>j b. op_get T (br_branches br) j = Some b \<and> blk_state_hash b = h)" for h
    by (intro in_branch_hashes id_tree.finite_nodes[OF loc] id_tree.invD(1)[OF loc inv])
  from id_tree.simple_extension_ok[OF loc inv, of blake2b pcb] show ?thesis
  proof (elim disjE conjE exE)
    fix p t' n and c :: block
    let ?b = "block_from_precomputed blake2b pcb (blk_height c + 1)"
    assume p: "op_get T (br_branches br) p = Some c" "blk_state_hash c = previous_state_hash pcb"
      and ins: "op_insert_under T p ?b (br_branches br) = Some (t', n)"
      and run: "simple_extension T blake2b pcb br = Inr (br\<lparr>br_branches := t'\<rparr>, Some (n, ?b))"
    have "is_child c ?b" using p(2) by (simp add: is_child_def)
    note grown = id_tree.inv_insert_under[OF loc inv p(1) ins _ this]
    then show ?thesis using p run mem by auto
  qed (use mem in auto)
qed

theorem simple_extension_attaches_witness:
  "previous_state_hash example_block \<in># branch_hashes ref_ops (example_chain 1) \<and>
   (\<exists>br' n b. simple_extension ref_ops id example_block (example_chain 1) = Inr (br', Some (n, b)) \<and>
     branch_hashes ref_ops br' = {#''3N1'', ''3N0''#})"
proof -
  have "branch_hashes ref_ops (example_chain 1) = {#''3N0''#}"
    by (simp add: branch_hashes_def ref_proj example_chain_def dom_def example_node_def example_hash_def)
  moreover have "previous_state_hash example_block = ''3N0''" "state_hash_of example_block = ''3N1''"
    by (simp_all add: example_block_def previous_state_hash_def example_state_def)
  ultimately show ?thesis
    using simple_extension_attaches[OF ref.id_tree_axioms example_chain_inv[of 1], of example_block id] by auto
qed

text \<open>
  Among the highest blocks of a branch of one genesis, the block that \<open>best_tip_with_id\<close> returns is
  the one that the chain selection ranks last.
\<close>

lemma best_tip_ranks_last:
  assumes "id_tree T ok" "branch_inv T ok is_child br"
    "\<And>j x. op_get T (br_branches br) j = Some x \<Longrightarrow> blk_genesis_state_hash x = g"
  shows "\<exists>i b. best_tip_with_id T br = Inr (Some (i, b)) \<and> op_get T (br_branches br) i = Some b \<and>
    blk_height b + 1 = branch_height T br \<and>
    (\<forall>j x. op_get T (br_branches br) j = Some x \<and> blk_height x + 1 = branch_height T br \<longrightarrow>
      select_key b \<le> select_key x)"
  using id_tree.best_tip_worst[OF assms] id_tree.best_tip_ok[OF assms(1,2)] by fastforce

theorem best_tip_ranks_last_witness:
  "\<exists>b. best_tip_with_id ref_ops example_fork = Inr (Some (1, b)) \<and>
     block_cmp ((example_node 1)\<lparr>blk_state_hash := ''3N0y''\<rparr>) b = Less"
proof -
  let ?get = "op_get ref_ops (br_branches example_fork)"
  have "blk_genesis_state_hash x = ''3N''" if "?get j = Some x" for j x
    using that by (auto simp: example_fork_def ref_proj example_node_def split: if_splits)
  then have "\<exists>i b. best_tip_with_id ref_ops example_fork = Inr (Some (i, b)) \<and> ?get i = Some b \<and>
    blk_height b + 1 = branch_height ref_ops example_fork \<and>
    (\<forall>j x. ?get j = Some x \<and> blk_height x + 1 = branch_height ref_ops example_fork \<longrightarrow>
      select_key b \<le> select_key x)"
    by (rule best_tip_ranks_last[OF ref.id_tree_axioms example_fork_inv])
  then obtain i b where b: "best_tip_with_id ref_ops example_fork = Inr (Some (i, b))" "?get i = Some b"
    "blk_height b + 1 = branch_height ref_ops example_fork"
    "\<And>j x. ?get j = Some x \<Longrightarrow> blk_height x + 1 = branch_height ref_ops example_fork \<Longrightarrow>
      select_key b \<le> select_key x" by blast
  have height: "branch_height ref_ops example_fork = 2" by code_simp
  have get: "?get = [0 \<mapsto> example_node 0, 1 \<mapsto> example_node 1,
      2 \<mapsto> (example_node 1)\<lparr>blk_state_hash := ''3N0y''\<rparr>]" by (simp add: ref_proj example_fork_def)
  have "i = 1" "b = example_node 1"
    using b(2,3) b(4)[of 1 "example_node 1"] unfolding height get
    by (auto simp: example_node_def select_key_def example_hash_def less_eq_prod_def split: if_splits)
  then show ?thesis
    using b(1) by (auto simp: block_cmp_Less_iff select_key_def example_node_def example_hash_def less_prod_def)
qed

end
