(* ===== verification/Branch_Merging.thy ===== *)
theory Branch_Merging
  imports Branches
begin

text \<open>
  Correctness of \<open>merge_on\<close>: a dangling branch is copied node by node under the junction, in level
  order, with its ids translated and its heights raised.
\<close>

text \<open>
  A partial merge: \<open>m\<close> maps the nodes of \<open>it\<close> copied so far to fresh nodes of \<open>t\<close>, with their heights
  raised and their parents carried over.
\<close>

definition raise_height :: "u32 \<Rightarrow> block \<Rightarrow> block" where
  "raise_height h b = b\<lparr>blk_height := blk_height b + (h + 1)\<rparr>"

definition merged :: "('t, 'n) tree_ops \<Rightarrow> ('t \<Rightarrow> bool) \<Rightarrow> 't \<Rightarrow> 't \<Rightarrow> 'n \<Rightarrow> u32 \<Rightarrow> ('n \<rightharpoonup> 'n) \<Rightarrow> 't \<Rightarrow> bool" where
  "merged T ok it t0 junction h m t \<longleftrightarrow>
     ok t \<and> op_root T t = op_root T t0 \<and> inj_on m (dom m) \<and> dom m \<subseteq> dom (op_get T it) \<and>
     (\<forall>j n. m j = Some n \<longrightarrow>
        op_get T t0 n = None \<and> op_get T t n = map_option (raise_height h) (op_get T it j) \<and>
        op_parent T t n = (case op_parent T it j of None \<Rightarrow> Some junction | Some p \<Rightarrow> m p)) \<and>
     (\<forall>j p. j \<in> dom m \<and> op_parent T it j = Some p \<longrightarrow> p \<in> dom m) \<and>
     (\<forall>k. k \<notin> ran m \<longrightarrow> op_get T t k = op_get T t0 k \<and> op_parent T t k = op_parent T t0 k)"

lemma mergedD:
  assumes "merged T ok it t0 junction h m t"
  shows "ok t" "op_root T t = op_root T t0" "inj_on m (dom m)" "dom m \<subseteq> dom (op_get T it)"
    "m j = Some n \<Longrightarrow> op_get T t0 n = None"
    "m j = Some n \<Longrightarrow> op_get T t n = map_option (raise_height h) (op_get T it j)"
    "m j = Some n \<Longrightarrow> op_parent T t n = (case op_parent T it j of None \<Rightarrow> Some junction | Some p \<Rightarrow> m p)"
    "m j = Some n \<Longrightarrow> op_parent T it j = Some p \<Longrightarrow> \<exists>q. m p = Some q"
    "k \<notin> ran m \<Longrightarrow> op_get T t k = op_get T t0 k"
    "k \<notin> ran m \<Longrightarrow> op_parent T t k = op_parent T t0 k"
  using assms unfolding merged_def by blast+

lemma parents_first_nth:
  assumes "parents_first par (xs @ y # ys)" "xs \<noteq> []"
  shows "\<exists>p\<in>set xs. par y = Some p"
proof -
  obtain k where k: "length xs = Suc k" using assms(2) by (cases xs) auto
  then show ?thesis using assms(1) unfolding parents_first_def
    by (metis append_eq_conv_conj length_append less_add_same_cancel1 list.size(4) nth_append_length
        zero_less_Suc add_Suc_right)
qed

context id_tree
begin

lemma merged_insert:
  assumes m: "merged T ok it t0 junction h m t" and c: "c \<notin> dom m" "op_get T it c = Some b"
    and p: "op_parent T it c = Some p" "m p = Some u"
    and ins: "op_insert_under T u (raise_height h b) t = Some (t', n)"
  shows "merged T ok it t0 junction h (m(c \<mapsto> n)) t'"
proof -
  note D = mergedD[OF m]
  have "op_get T t u \<noteq> None" using D(4) D(6)[OF p(2)] p(2) by auto
  then have t': "ok t'" "op_get T t n = None" "op_get T t' = (op_get T t)(n \<mapsto> raise_height h b)"
      "op_root T t' = op_root T t" "op_parent T t' = (op_parent T t)(n \<mapsto> u)"
    using insert_under[OF D(1), of u "raise_height h b"] ins by auto
  have "op_get T t k \<noteq> None" if "m j = Some k" for j k
    using D(4) D(6)[OF that] that by auto
  then have n: "m j \<noteq> Some n" for j using t'(2) by blast
  then have "n \<notin> ran m" by (auto simp: ran_def)
  then have n0: "op_get T t0 n = None" using D(9) t'(2) by simp
  have pc: "p' \<noteq> c" if "m j = Some k" "op_parent T it j = Some p'" for j k p'
    using D(8)[OF that] c(1) by auto
  have ran: "ran (m(c \<mapsto> n)) = insert n (ran m)" using c(1) by (simp add: domIff)
  have "inj_on (m(c \<mapsto> n)) (dom (m(c \<mapsto> n)))"
    using D(3) n by (auto simp: inj_on_def)
  moreover have "op_get T t0 k = None \<and> op_get T t' k = map_option (raise_height h) (op_get T it j) \<and>
      op_parent T t' k = (case op_parent T it j of None \<Rightarrow> Some junction | Some p \<Rightarrow> (m(c \<mapsto> n)) p)"
    if "(m(c \<mapsto> n)) j = Some k" for j k
  proof (cases "j = c")
    case True
    then show ?thesis using that n0 t' c p by auto
  next
    case False
    then have mj: "m j = Some k" "k \<noteq> n" using that n by auto
    then show ?thesis using D(5,6,7)[OF mj(1)] pc[OF mj(1)] t' by (auto split: option.splits)
  qed
  moreover have "\<And>j p'. j \<in> dom (m(c \<mapsto> n)) \<and> op_parent T it j = Some p' \<Longrightarrow> p' \<in> dom (m(c \<mapsto> n))"
    using D(8) p by (auto split: if_splits)
  moreover have "dom (m(c \<mapsto> n)) \<subseteq> dom (op_get T it)" using D(4) c(2) by auto
  moreover have "\<And>k. k \<notin> ran (m(c \<mapsto> n)) \<Longrightarrow>
      op_get T t' k = op_get T t0 k \<and> op_parent T t' k = op_parent T t0 k"
    unfolding ran using D(9,10) t'(3,5) by simp
  ultimately show ?thesis unfolding merged_def using t'(1,4) D(2) by simp
qed

lemma merge_children_ok:
  assumes "merged T ok it t0 junction h m t" "m old = Some u" "ok it" "distinct cs"
    "\<And>c. c \<in> set cs \<Longrightarrow> c \<notin> dom m \<and> op_parent T it c = Some old"
  shows "\<exists>t' ins. fold_ok (merge_child T it h u) cs (t, acc) = Inr (t', acc @ ins) \<and>
    merged T ok it t0 junction h (fold (\<lambda>(c, n) m. m(c \<mapsto> n)) ins m) t' \<and>
    dom (fold (\<lambda>(c, n) m. m(c \<mapsto> n)) ins m) = dom m \<union> set cs"
  using assms
proof (induction cs arbitrary: m t acc)
  case Nil
  then show ?case by (intro exI[of _ t] exI[of _ "[]"]) simp
next
  case (Cons c cs)
  note D = mergedD[OF Cons.prems(1)]
  have c: "c \<notin> dom m" "op_parent T it c = Some old" using Cons.prems(5) by auto
  then obtain b where b: "op_get T it c = Some b" using parent_node[OF Cons.prems(3)] by blast
  have "op_get T t u \<noteq> None" using D(4) D(6)[OF Cons.prems(2)] Cons.prems(2) by auto
  then obtain t1 n where t1: "op_insert_under T u (raise_height h b) t = Some (t1, n)"
    using insert_under[OF D(1)] by blast
  have m1: "merged T ok it t0 junction h (m(c \<mapsto> n)) t1"
    by (rule merged_insert[OF Cons.prems(1) c(1) b c(2) Cons.prems(2) t1])
  have old: "(m(c \<mapsto> n)) old = Some u" using c(1) Cons.prems(2) by auto
  have new: "\<And>c'. c' \<in> set cs \<Longrightarrow> c' \<notin> dom (m(c \<mapsto> n)) \<and> op_parent T it c' = Some old"
    using Cons.prems(4,5) by auto
  have "distinct cs" using Cons.prems(4) by simp
  then obtain t' ins where
    "fold_ok (merge_child T it h u) cs (t1, acc @ [(c, n)]) = Inr (t', (acc @ [(c, n)]) @ ins)"
    "merged T ok it t0 junction h (fold (\<lambda>(c, n) m. m(c \<mapsto> n)) ins (m(c \<mapsto> n))) t'"
    "dom (fold (\<lambda>(c, n) m. m(c \<mapsto> n)) ins (m(c \<mapsto> n))) = dom (m(c \<mapsto> n)) \<union> set cs"
    using Cons.IH[OF m1 old Cons.prems(3) _ new, of "acc @ [(c, n)]"] by blast
  moreover have "merge_child T it h u c (t, acc) = Inr (t1, acc @ [(c, n)])"
    using b t1 by (simp add: merge_child_def node_data_def raise_height_def)
  ultimately show ?case by (intro exI[of _ t'] exI[of _ "(c, n) # ins"]) (simp del: fun_upd_apply)
qed

lemma merge_fold_ok:
  assumes "merged T ok it t0 junction h m t" "ok it" "op_parent T it r = None"
    "distinct (xs @ ys)" "parents_first (op_parent T it) (xs @ ys)" "xs = [] \<Longrightarrow> ys \<noteq> [] \<Longrightarrow> hd ys = r"
    "set ys \<subseteq> dom (op_get T it)" "dom m = insert r {j. \<exists>p\<in>set xs. op_parent T it j = Some p}"
  shows "\<exists>t' m'. fold_ok (merge_node T it h) ys (t, m) = Inr (t', m') \<and>
    merged T ok it t0 junction h m' t' \<and>
    dom m' = insert r {j. \<exists>p\<in>set (xs @ ys). op_parent T it j = Some p}"
  using assms
proof (induction ys arbitrary: xs m t)
  case Nil
  then show ?case by auto
next
  case (Cons y ys)
  have "y \<in> dom m"
  proof (cases "xs = []")
    case True
    with Cons.prems(6,8) show ?thesis by simp
  next
    case False
    with parents_first_nth[OF Cons.prems(5)] Cons.prems(8) show ?thesis by auto
  qed
  then obtain u where u: "m y = Some u" by blast
  obtain cs where cs: "op_children T it y = Some cs" "distinct cs" "set cs = {j. op_parent T it j = Some y}"
    using children[OF Cons.prems(2), of y] Cons.prems(7) by auto
  have new: "c \<notin> dom m \<and> op_parent T it c = Some y" if "c \<in> set cs" for c
    using that cs(3) Cons.prems(3,4,8) by auto
  obtain t1 ins where t1: "fold_ok (merge_child T it h u) cs (t, []) = Inr (t1, ins)"
      "merged T ok it t0 junction h (fold (\<lambda>(c, n) m. m(c \<mapsto> n)) ins m) t1"
      "dom (fold (\<lambda>(c, n) m. m(c \<mapsto> n)) ins m) = dom m \<union> set cs"
    using merge_children_ok[OF Cons.prems(1) u Cons.prems(2) cs(2) new, of "[]"] by auto
  let ?m = "fold (\<lambda>(c, n) m. m(c \<mapsto> n)) ins m"
  have dom: "dom ?m = insert r {j. \<exists>p\<in>set (xs @ [y]). op_parent T it j = Some p}"
    using t1(3) Cons.prems(8) cs(3) by auto
  have "\<exists>t' m'. fold_ok (merge_node T it h) ys (t1, ?m) = Inr (t', m') \<and>
      merged T ok it t0 junction h m' t' \<and>
      dom m' = insert r {j. \<exists>p\<in>set ((xs @ [y]) @ ys). op_parent T it j = Some p}"
    using Cons.prems by (intro Cons.IH[OF t1(2) Cons.prems(2,3) _ _ _ _ dom]) auto
  moreover have "merge_node T it h y (t, m) = Inr (t1, ?m)"
    using u cs(1) t1(1) by (simp add: merge_node_def)
  ultimately show ?case by simp
qed

lemma merge_on_tree:
  assumes inv: "branch_inv T ok R br" and inc: "branch_inv T ok R inc"
    and j: "op_get T (br_branches br) j = Some c"
  shows "\<exists>t' m tip b. merge_on T j inc br = Inr (br\<lparr>br_branches := t'\<rparr>, m tip) \<and>
    merged T ok (br_branches inc) (br_branches br) j (blk_height c) m t' \<and>
    dom m = dom (op_get T (br_branches inc)) \<and>
    best_tip_with_id T inc = Inr (Some (tip, b)) \<and> op_get T (br_branches inc) tip = Some b"
proof -
  let ?t = "br_branches br" and ?it = "br_branches inc" and ?r = "br_root inc" and ?h = "blk_height c"
  note ok = invD(1)[OF inv] and iok = invD(1)[OF inc]
  obtain tip b where tip: "best_tip_with_id T inc = Inr (Some (tip, b))" "op_get T ?it tip = Some b"
    using best_tip_ok[OF inc] by blast
  obtain rb where rb: "op_get T ?it ?r = Some rb" "blk_height rb = 0"
    using root_get[OF inc] invD(4)[OF inc] by blast
  have raise: "rb\<lparr>blk_height := ?h + 1\<rparr> = raise_height ?h rb" using rb(2) by (simp add: raise_height_def)
  obtain t1 n where t1: "op_insert_under T j (raise_height ?h rb) ?t = Some (t1, n)" "ok t1"
      "op_get T ?t n = None" "op_get T t1 = (op_get T ?t)(n \<mapsto> raise_height ?h rb)"
      "op_root T t1 = op_root T ?t" "op_parent T t1 = (op_parent T ?t)(n \<mapsto> j)"
    using insert_under[OF ok, of j "raise_height ?h rb"] j by auto
  have start: "merged T ok ?it ?t j ?h [?r \<mapsto> n] t1"
    using t1 rb root_parent[OF inc] by (auto simp: merged_def split: if_splits)
  obtain xs where ids: "op_level T ?it ?r = Some (?r # xs)" "distinct (?r # xs)"
      "set (?r # xs) = dom (op_get T ?it)" "parents_first (op_parent T ?it) (?r # xs)"
    using level_ids[OF inc] by blast
  have "\<exists>t' m'. fold_ok (merge_node T ?it ?h) (?r # xs) (t1, [?r \<mapsto> n]) = Inr (t', m') \<and>
    merged T ok ?it ?t j ?h m' t' \<and>
    dom m' = insert ?r {j. \<exists>p\<in>set ([] @ (?r # xs)). op_parent T ?it j = Some p}"
    by (rule merge_fold_ok[OF start iok root_parent[OF inc]]) (use ids in auto)
  from this[unfolded append_Nil ids(3)] obtain t' m where fold: "fold_ok (merge_node T ?it ?h) (?r # xs) (t1, [?r \<mapsto> n]) = Inr (t', m)"
      "merged T ok ?it ?t j ?h m t'" "dom m = insert ?r {j. \<exists>p\<in>dom (op_get T ?it). op_parent T ?it j = Some p}"
    by blast
  have "dom m = dom (op_get T ?it)"
    unfolding fold(3) using parent_node[OF iok] invD(3)[OF inc] rb(1) by fast
  moreover have "merge_on T j inc br = Inr (br\<lparr>br_branches := t'\<rparr>, m tip)"
    using tip(1) invD(2)[OF inc] rb(1) j t1(1) ids(1) fold(1)
    by (simp add: merge_on_def node_data_def raise del: fold_ok.simps)
  ultimately show ?thesis using fold(2) tip by blast
qed

lemma merged_old:
  assumes "merged T ok it t0 j h m t'" "op_get T t0 p \<noteq> None"
  shows "op_get T t' p = op_get T t0 p"
proof (rule mergedD(9)[OF assms(1)])
  show "p \<notin> ran m" using assms(2) mergedD(5)[OF assms(1)] unfolding ran_def by fastforce
qed

lemma merged_inv:
  assumes inv: "branch_inv T ok R br" and inc: "branch_inv T ok R inc" and hf: "height_free R"
    and j: "op_get T (br_branches br) j = Some c"
    and root: "op_get T (br_branches inc) (br_root inc) = Some rb" "R c rb"
    and m: "merged T ok (br_branches inc) (br_branches br) j (blk_height c) m t'"
      "dom m = dom (op_get T (br_branches inc))"
  shows "branch_inv T ok R (br\<lparr>br_branches := t'\<rparr>)"
proof (rule branch_invI, goal_cases)
  case (3 k)
  then show ?case
  proof (cases "k \<in> ran m")
    case True
    then obtain i where i: "m i = Some k" by (auto simp: ran_def)
    show ?thesis using 3 mergedD(7,8)[OF m(1) i] by (auto split: option.splits)
  next
    case False
    then show ?thesis using 3 mergedD(9,10)[OF m(1)] invD(3)[OF inv] by simp
  qed
next
  case (5 k p b' c')
  note old = merged_old[OF m(1)]
  show ?case
  proof (cases "k \<in> ran m")
    case True
    then obtain i where i: "m i = Some k" by (auto simp: ran_def)
    then obtain b0 where b0: "op_get T (br_branches inc) i = Some b0" "b' = raise_height (blk_height c) b0"
      using 5(2) mergedD(6)[OF m(1) i] by auto
    show ?thesis
    proof (cases "op_parent T (br_branches inc) i")
      case None
      then have "i = br_root inc" using invD(3)[OF inc] b0 by blast
      then show ?thesis using 5 mergedD(7)[OF m(1) i] None b0 root j old[of j] hf invD(4)[OF inc root(1)]
        by (auto simp: raise_height_def height_free_def)
    next
      case (Some q)
      then have "m q = Some p" using 5(1) mergedD(7)[OF m(1) i] by simp
      then obtain c0 where c0: "op_get T (br_branches inc) q = Some c0" "c' = raise_height (blk_height c) c0"
        using 5(3) mergedD(6)[OF m(1)] by auto
      show ?thesis using invD(5)[OF inc Some b0(1) c0(1)] b0(2) c0(2) hf
        by (simp add: raise_height_def height_free_def)
    qed
  next
    case False
    then have "op_parent T (br_branches br) k = Some p" "op_get T (br_branches br) k = Some b'"
      using 5 mergedD(9,10)[OF m(1)] by auto
    moreover from this have "op_get T (br_branches br) p = Some c'"
      using 5(3) old[of p] parent_node[OF invD(1)[OF inv]] by simp
    ultimately show ?thesis using invD(5)[OF inv] by blast
  qed
qed (use mergedD(1,2)[OF m(1)] invD(2,4)[OF inv] root_get[OF inv] merged_old[OF m(1)] in auto)

lemma merged_hashes:
  assumes inv: "branch_inv T ok R br" and inc: "branch_inv T ok R inc"
    and m: "merged T ok (br_branches inc) (br_branches br) j h m t'" "dom m = dom (op_get T (br_branches inc))"
  shows "branch_hashes T (br\<lparr>br_branches := t'\<rparr>) = branch_hashes T br + branch_hashes T inc"
proof -
  let ?t = "br_branches br" and ?it = "br_branches inc"
  let ?hash = "\<lambda>t j. blk_state_hash (the (op_get T t j))"
  note D = mergedD[OF m(1)]
  have fin: "finite (dom (op_get T ?t))" "finite (dom (op_get T ?it))"
    using finite_nodes invD(1)[OF inv] invD(1)[OF inc] by auto
  have ran: "ran m = (\<lambda>i. the (m i)) ` dom m" by (force simp: ran_def dom_def)
  have inj: "inj_on (\<lambda>i. the (m i)) (dom m)" using D(3) by (auto simp: inj_on_def dom_def)
  have disj: "dom (op_get T ?t) \<inter> ran m = {}" using D(5) by (fastforce simp: ran_def)
  have dom: "dom (op_get T t') = dom (op_get T ?t) \<union> ran m"
  proof (intro set_eqI iffI)
    fix k assume "k \<in> dom (op_get T t')"
    then show "k \<in> dom (op_get T ?t) \<union> ran m" using D(9)[of k] by (cases "k \<in> ran m") (auto simp: domIff)
  next
    fix k assume k: "k \<in> dom (op_get T ?t) \<union> ran m"
    show "k \<in> dom (op_get T t')"
    proof (cases "k \<in> ran m")
      case True
      then obtain i where "m i = Some k" by (auto simp: ran_def)
      then show ?thesis using D(6) m(2) by (metis (no_types, lifting) domD domI option.simps(9))
    qed (use k D(9) in auto)
  qed
  have "image_mset (?hash t') (mset_set (ran m)) = image_mset (\<lambda>i. ?hash t' (the (m i))) (mset_set (dom m))"
    unfolding ran by (simp add: image_mset_mset_set[OF inj, symmetric] multiset.map_comp comp_def)
  also have "\<dots> = branch_hashes T inc"
    unfolding branch_hashes_def m(2)[symmetric]
  proof (rule image_mset_cong)
    fix i assume "i \<in># mset_set (dom m)"
    then have "i \<in> dom m" using fin(2) m(2) by simp
    then obtain n b where "m i = Some n" "op_get T ?it i = Some b" using m(2) by blast
    then show "?hash t' (the (m i)) = ?hash ?it i" using D(6) by (simp add: raise_height_def)
  qed
  finally have new: "image_mset (?hash t') (mset_set (ran m)) = branch_hashes T inc" .
  have "image_mset (?hash t') (mset_set (dom (op_get T ?t))) = branch_hashes T br"
    unfolding branch_hashes_def using fin(1) merged_old[OF m(1)]
    by (intro image_mset_cong) auto
  with new show ?thesis
    using fin ran m(2) disj by (simp add: branch_hashes_def[of T "br\<lparr>br_branches := t'\<rparr>"] dom mset_set_Union)
qed

lemma merge_on_ok:
  assumes inv: "branch_inv T ok R br" and inc: "branch_inv T ok R inc" and hf: "height_free R"
    and j: "op_get T (br_branches br) j = Some c"
    and root: "op_get T (br_branches inc) (br_root inc) = Some rb" "R c rb"
  shows "\<exists>br' n tip b. merge_on T j inc br = Inr (br', Some n) \<and> branch_inv T ok R br' \<and>
    br_root br' = br_root br \<and> branch_hashes T br' = branch_hashes T br + branch_hashes T inc \<and>
    best_tip_with_id T inc = Inr (Some (tip, b)) \<and>
    op_get T (br_branches br') n = Some (raise_height (blk_height c) b) \<and>
    (\<forall>p. op_get T (br_branches br) p \<noteq> None \<longrightarrow> op_get T (br_branches br') p = op_get T (br_branches br) p)"
proof -
  obtain t' m tip b where run: "merge_on T j inc br = Inr (br\<lparr>br_branches := t'\<rparr>, m tip)"
    and m: "merged T ok (br_branches inc) (br_branches br) j (blk_height c) m t'"
      "dom m = dom (op_get T (br_branches inc))"
    and tip: "best_tip_with_id T inc = Inr (Some (tip, b))" "op_get T (br_branches inc) tip = Some b"
    using merge_on_tree[OF inv inc j] by blast
  obtain n where n: "m tip = Some n" using m(2) tip(2) by blast
  then have "op_get T t' n = Some (raise_height (blk_height c) b)" using mergedD(6)[OF m(1) n] tip(2) by simp
  then show ?thesis
    using run n tip(1) merged_inv[OF inv inc hf j root m] merged_hashes[OF inv inc m] merged_old[OF m(1)]
    by (intro exI[of _ "br\<lparr>br_branches := t'\<rparr>"] exI[of _ n] exI[of _ tip] exI[of _ b]) simp
qed

end

section \<open>Property of merging\<close>

text \<open>
  C16: merging a dangling branch on the parent of its root never panics, keeps the branch well formed,
  loses and duplicates no block, and returns the copy of the dangling branch's best tip.
\<close>

theorem merge_on_joins:
  assumes "id_tree T ok" "branch_inv T ok is_child br" "branch_inv T ok is_child incoming"
    "op_get T (br_branches br) junction = Some c" "root_block T incoming = Inr r" "is_child c r"
  shows "\<exists>br' n tip b. merge_on T junction incoming br = Inr (br', Some n) \<and>
    branch_inv T ok is_child br' \<and> br_root br' = br_root br \<and>
    branch_hashes T br' = branch_hashes T br + branch_hashes T incoming \<and>
    best_tip_with_id T incoming = Inr (Some (tip, b)) \<and>
    op_get T (br_branches br') n = Some (b\<lparr>blk_height := blk_height b + (blk_height c + 1)\<rparr>)"
proof -
  have "op_get T (br_branches incoming) (br_root incoming) = Some r"
    using id_tree.root_block_ok[OF assms(1,3)] assms(5) by auto
  from id_tree.merge_on_ok[OF assms(1-3) height_free_is_child assms(4) this assms(6)]
  show ?thesis unfolding raise_height_def by blast
qed

theorem merge_on_joins_witness:
  "\<exists>br' n. merge_on ref_ops 0 ((example_chain 1)\<lparr>br_branches :=
      (br_branches (example_chain 1))\<lparr>rt_data := [0 \<mapsto> (example_node 1)\<lparr>blk_height := 0\<rparr>]\<rparr>\<rparr>) (example_chain 1)
     = Inr (br', Some n) \<and> size (branch_hashes ref_ops br') = 2"
proof -
  let ?inc = "(example_chain 1)\<lparr>br_branches :=
      (br_branches (example_chain 1))\<lparr>rt_data := [0 \<mapsto> (example_node 1)\<lparr>blk_height := 0\<rparr>]\<rparr>\<rparr>"
  have inc: "branch_inv ref_ops ref_ok is_child ?inc"
    by (rule ref.branch_invI)
      (auto simp: example_chain_def ref_proj ref_ok_def intro: exI[of _ "[]"] split: if_splits)
  have "root_block ref_ops ?inc = Inr ((example_node 1)\<lparr>blk_height := 0\<rparr>)"
    by (simp add: root_block_def node_data_def ref_proj example_chain_def)
  moreover have "op_get ref_ops (br_branches (example_chain 1)) 0 = Some (example_node 0)"
    by (simp add: ref_proj example_chain_def)
  moreover have "is_child (example_node 0) ((example_node 1)\<lparr>blk_height := 0\<rparr>)"
    by (simp add: is_child_def example_node_def)
  moreover have "size (branch_hashes ref_ops ?inc) = 1" "size (branch_hashes ref_ops (example_chain 1)) = 1"
    by (simp_all add: branch_hashes_def ref_proj example_chain_def dom_def)
  ultimately show ?thesis
    using merge_on_joins[OF ref.id_tree_axioms example_chain_inv[of 1] inc, of 0] by fastforce
qed

end
