(* ===== verification/Branch_Pruning.thy ===== *)
theory Branch_Pruning
  imports Branches
begin

text \<open>
  Correctness of \<open>prune_transition_frontier\<close>: the subtree of the new root survives, with its heights
  counted from it; a best tip with too few ancestors makes it panic.
\<close>

text \<open>Removing a set of nodes that is closed under descendants.\<close>

definition cut_down :: "('n \<Rightarrow> 'n option) \<Rightarrow> ('n \<Rightarrow> bool) \<Rightarrow> bool" where
  "cut_down par C \<longleftrightarrow> (\<forall>j p. par j = Some p \<and> C p \<longrightarrow> C j)"

definition cut_map :: "('n \<Rightarrow> bool) \<Rightarrow> ('n \<Rightarrow> 'a option) \<Rightarrow> 'n \<Rightarrow> 'a option" where
  "cut_map C f j = (if C j then None else f j)"

lemma cut_down_path: "path_up par j as \<Longrightarrow> cut_down par C \<Longrightarrow> C p \<Longrightarrow> p \<in> set as \<Longrightarrow> C j"
proof (induction rule: path_up.induct)
  case (up i q as)
  then show ?case unfolding cut_down_def by (metis set_ConsD)
qed simp

lemma below_cut:
  assumes down: "cut_down par C" and path: "\<And>j. \<exists>as. path_up par j as"
  shows "below (cut_map C par) i j \<longleftrightarrow> (if C j then j = i else below par i j)"
proof (cases "C j")
  case True
  then show ?thesis by (simp add: below_top cut_map_def)
next
  case False
  obtain as where as: "path_up par j as" using path by blast
  have "path_up (cut_map C par) j as"
    using as by (rule path_up_cong) (use False cut_down_path[OF as down] in \<open>auto simp: cut_map_def\<close>)
  with as False show ?thesis unfolding below_def using path_up_det by (metis (full_types))
qed

lemma cut_down_below:
  assumes "\<And>j. \<exists>as. path_up par j as"
  shows "cut_down par (below par i)"
  unfolding cut_down_def using assms below_up below_refl by metis

lemma cut_down_disj: "cut_down par C \<Longrightarrow> cut_down par D \<Longrightarrow> cut_down par (\<lambda>j. C j \<or> D j)"
  unfolding cut_down_def by blast

text \<open>A node is below another through exactly one of its children.\<close>

lemma below_child:
  assumes "below par p j" "j \<noteq> p"
  obtains c where "par c = Some p" "below par c j"
proof -
  obtain as where as: "path_up par j as" "p \<in> set as" using assms by (auto simp: below_def)
  then have "\<exists>c. par c = Some p \<and> below par c j"
  proof (induction rule: path_up.induct)
    case (up i q as)
    then show ?case
      by (cases "q = p") (auto simp: below_up intro: below_refl path_up.up, metis below_refl below_up path_up.up)
  qed simp
  with that show thesis by blast
qed

lemma path_comparable:
  "path_up par j as \<Longrightarrow> x \<in> set (j # as) \<Longrightarrow> y \<in> set (j # as) \<Longrightarrow> below par x y \<or> below par y x"
proof (induction rule: path_up.induct)
  case (top i)
  then show ?case by (simp add: below_top)
next
  case (up i p as)
  have path: "path_up par i (p # as)" using up.hyps by simp
  then have "below par z i" if "z \<in> set (i # p # as)" for z
    using that unfolding below_def by (intro exI[of _ "p # as"]) auto
  with up show ?case by (cases "x = i \<or> y = i") auto
qed

lemma below_siblings:
  assumes "par c = Some p" "par d = Some p" "below par c j" "below par d j"
  shows "c = d"
proof -
  have no: "\<not> below par x y" if "x \<noteq> y" "par x = Some p" "par y = Some p" for x y
  proof
    assume "below par x y"
    then have "below par x p" using that below_up by metis
    then obtain ps where "path_up par p ps" "x \<in> set (p # ps)" by (auto simp: below_def)
    moreover from this have "path_up par x (p # ps)" using that(2) by simp
    ultimately show False using path_up_distinct[of par x "p # ps"] by auto
  qed
  obtain as bs where as: "path_up par j as" "j = c \<or> c \<in> set as"
      and bs: "path_up par j bs" "j = d \<or> d \<in> set bs"
    using assms(3,4) unfolding below_def by blast
  have "bs = as" using as(1) bs(1) by (rule path_up_det)
  with as bs have "below par c d \<or> below par d c" by (intro path_comparable[OF as(1)]) auto
  then show ?thesis using no assms(1,2) by metis
qed

context id_tree
begin

lemma remove_drop_cut:
  assumes "ok t0" "ok t" "cut_down (op_parent T t0) C"
    "op_get T t = cut_map C (op_get T t0)" "op_parent T t = cut_map C (op_parent T t0)"
    "op_get T t0 i \<noteq> None" "\<not> C i" "op_root T t \<noteq> Some i"
  shows "\<exists>t'. op_remove_drop T i t = Some t' \<and> ok t' \<and> op_root T t' = op_root T t \<and>
    op_get T t' = cut_map (\<lambda>j. C j \<or> below (op_parent T t0) i j) (op_get T t0) \<and>
    op_parent T t' = cut_map (\<lambda>j. C j \<or> below (op_parent T t0) i j) (op_parent T t0)"
proof -
  have node: "op_get T t i \<noteq> None" using assms(4,6,7) by (simp add: cut_map_def)
  have below: "below (op_parent T t) i j \<longleftrightarrow> (if C j then j = i else below (op_parent T t0) i j)" for j
    unfolding assms(5) using below_cut[OF assms(3) path_ex[OF assms(1)]] .
  have eq: "(if below (op_parent T t) i j then None else cut_map C f j)
      = cut_map (\<lambda>j. C j \<or> below (op_parent T t0) i j) f j" for f :: "'n \<Rightarrow> 'x option" and j
    using assms(7) unfolding below cut_map_def by auto
  obtain t' where t': "op_remove_drop T i t = Some t'" "ok t'"
      "op_get T t' = (\<lambda>j. if below (op_parent T t) i j then None else op_get T t j)"
      "op_parent T t' = (\<lambda>j. if below (op_parent T t) i j then None else op_parent T t j)"
      "op_root T t' = op_root T t"
    using remove_drop[OF assms(2) node] assms(8) by auto
  have "op_get T t' = cut_map (\<lambda>j. C j \<or> below (op_parent T t0) i j) (op_get T t0)"
    unfolding t'(3) assms(4) using eq by blast
  moreover have "op_parent T t' = cut_map (\<lambda>j. C j \<or> below (op_parent T t0) i j) (op_parent T t0)"
    unfolding t'(4) using eq[of _ "op_parent T t0"] unfolding assms(5) by blast
  ultimately show ?thesis using t' by blast
qed

lemma remove_siblings_ok:
  assumes "ok t0" "ok t" "cut_down (op_parent T t0) C"
    "op_get T t = cut_map C (op_get T t0)" "op_parent T t = cut_map C (op_parent T t0)"
    "distinct cs" "\<And>c. c \<in> set cs \<Longrightarrow> op_parent T t0 c = Some p \<and> \<not> C c"
    "op_root T t = Some r" "op_parent T t0 r = None"
  shows "\<exists>t'. fold_ok (\<lambda>c t. if c \<noteq> keep then unwrap (op_remove_drop T c t) else Inr t) cs t = Inr t' \<and>
    ok t' \<and> op_root T t' = Some r \<and>
    op_get T t' = cut_map (\<lambda>j. C j \<or> (\<exists>c\<in>set cs - {keep}. below (op_parent T t0) c j)) (op_get T t0) \<and>
    op_parent T t' = cut_map (\<lambda>j. C j \<or> (\<exists>c\<in>set cs - {keep}. below (op_parent T t0) c j)) (op_parent T t0)"
  using assms
proof (induction cs arbitrary: t C)
  case Nil
  then show ?case by simp
next
  case (Cons c cs)
  note path = path_ex[OF Cons.prems(1)]
  show ?case
  proof (cases "c = keep")
    case True
    then have "set (c # cs) - {keep} = set cs - {keep}" by auto
    with True Cons.IH[OF Cons.prems(1-5) _ _ Cons.prems(8,9)] Cons.prems(6,7) show ?thesis by simp
  next
    case False
    have c: "op_parent T t0 c = Some p" "\<not> C c" using Cons.prems(7) by auto
    then have "op_get T t0 c \<noteq> None" "c \<noteq> r"
      using parent_node[OF Cons.prems(1)] Cons.prems(9) by auto
    then obtain t1 where t1: "op_remove_drop T c t = Some t1" "ok t1" "op_root T t1 = Some r"
        "op_get T t1 = cut_map (\<lambda>j. C j \<or> below (op_parent T t0) c j) (op_get T t0)"
        "op_parent T t1 = cut_map (\<lambda>j. C j \<or> below (op_parent T t0) c j) (op_parent T t0)"
      using remove_drop_cut[OF Cons.prems(1-5) _ c(2)] Cons.prems(8) by auto
    have sib: "\<not> below (op_parent T t0) c d" if "d \<in> set cs" for d
      using that Cons.prems(6,7) below_siblings[of "op_parent T t0" c p d d] path[of d] below_refl
      by (metis distinct.simps(2) list.set_intros)
    have "cut_down (op_parent T t0) (\<lambda>j. C j \<or> below (op_parent T t0) c j)"
      using cut_down_disj Cons.prems(3) cut_down_below[OF path] by blast
    note IH = Cons.IH[OF Cons.prems(1) t1(2) this t1(4,5) _ _ t1(3) Cons.prems(9)]
    have "(\<lambda>j. C j \<or> (\<exists>d\<in>set (c # cs) - {keep}. below (op_parent T t0) d j)) =
        (\<lambda>j. (C j \<or> below (op_parent T t0) c j) \<or> (\<exists>d\<in>set cs - {keep}. below (op_parent T t0) d j))"
      using False by auto
    with False t1(1) IH Cons.prems(6,7) sib show ?thesis by simp
  qed
qed

end

text \<open>The parents left when the siblings of \<open>nr\<close> and its parent \<open>pp\<close> are gone.\<close>

definition sibling_of :: "('n \<Rightarrow> 'n option) \<Rightarrow> 'n \<Rightarrow> 'n \<Rightarrow> 'n \<Rightarrow> bool" where
  "sibling_of par pp nr j \<longleftrightarrow> (\<exists>c. par c = Some pp \<and> c \<noteq> nr \<and> below par c j)"

definition orphaned :: "('n \<Rightarrow> 'n option) \<Rightarrow> 'n \<Rightarrow> 'n \<Rightarrow> 'n \<Rightarrow> 'n option" where
  "orphaned par pp nr j =
     (if sibling_of par pp nr j \<or> j = pp \<or> par j = Some pp then None else par j)"

lemma sibling_not_below: "par nr = Some pp \<Longrightarrow> below par nr j \<Longrightarrow> \<not> sibling_of par pp nr j"
  unfolding sibling_of_def using below_siblings[of par _ pp nr j] by blast

lemma sibling_cut_down:
  assumes "\<And>j. \<exists>as. path_up par j as"
  shows "cut_down par (sibling_of par pp nr)"
  using cut_down_below[OF assms] unfolding cut_down_def sibling_of_def by metis

lemma not_below_parent: "par nr = Some pp \<Longrightarrow> \<not> below par nr pp"
proof
  assume nr: "par nr = Some pp" and "below par nr pp"
  then obtain ps where "path_up par pp ps" "nr \<in> set (pp # ps)" by (auto simp: below_def)
  moreover from this nr have "path_up par nr (pp # ps)" by simp
  ultimately show False using path_up_distinct[of par nr "pp # ps"] by auto
qed

lemma below_has_parent:
  assumes "below par nr j" "j \<noteq> nr"
  shows "\<exists>p. par j = Some p \<and> below par nr p"
  using assms below_top[of par j nr] below_up[of par j _ nr] by (cases "par j") auto

lemma orphaned_keep:
  assumes nr: "par nr = Some pp" and r: "par r = None"
    and "path_up par j as" "below par nr j"
  shows "\<not> below (orphaned par pp nr) r j"
  using assms(3,4)
proof (induction rule: path_up.induct)
  case (top i)
  then show ?case using nr by (metis below_top option.distinct(1))
next
  case (up i p as)
  show ?case
  proof (cases "i = nr")
    case True
    then have "orphaned par pp nr i = None" using nr by (simp add: orphaned_def)
    then show ?thesis using True nr r by (auto simp: below_top)
  next
    case False
    then have below: "below par nr p" using up below_up[of par i p nr] by simp
    then have "orphaned par pp nr i = Some p" "i \<noteq> r"
      using up nr r sibling_not_below[of par nr pp i] not_below_parent[of par nr pp]
      by (auto simp: orphaned_def)
    then show ?thesis using up.IH[OF below] below_up[of "orphaned par pp nr" i p r] by simp
  qed
qed

lemma orphaned_drop:
  assumes "par r = None" "\<And>j. \<exists>as. path_up par j as"
    and "path_up par j as" "\<not> below par nr j" "\<not> sibling_of par pp nr j" "j \<noteq> pp"
    "\<And>i. i \<in> set (j # as) \<Longrightarrow> par i = None \<Longrightarrow> i = r"
  shows "below (orphaned par pp nr) r j"
  using assms(3-)
proof (induction rule: path_up.induct)
  case (top i)
  then have "i = r" by simp
  with assms(1) show ?case by (simp add: below_top orphaned_def)
next
  case (up i p as)
  have "p \<noteq> pp"
    using up.hyps(1) up.prems(1,2) assms(2) below_refl unfolding sibling_of_def by metis
  moreover have "\<not> below par nr p" "\<not> sibling_of par pp nr p"
    using up.hyps(1) up.prems(1,2) cut_down_below[OF assms(2), of nr] sibling_cut_down[OF assms(2), of pp nr]
    unfolding cut_down_def by blast+
  ultimately have "below (orphaned par pp nr) r p"
    by (intro up.IH) (auto intro: up.prems(4))
  moreover have "orphaned par pp nr i = Some p" "i \<noteq> r"
    using up.hyps(1) up.prems(2,3) \<open>p \<noteq> pp\<close> assms(1) by (auto simp: orphaned_def)
  ultimately show ?case using below_up[of "orphaned par pp nr" i p r] by simp
qed

lemma prune_kept:
  assumes "par nr = Some pp" "par r = None" "path_up par j as" "below par nr j"
  shows "\<not> below (orphaned par pp nr) r j" "\<not> sibling_of par pp nr j" "j \<noteq> pp"
    "orphaned par pp nr j = (if j = nr then None else par j)"
proof -
  show kept: "\<not> below (orphaned par pp nr) r j" "\<not> sibling_of par pp nr j" "j \<noteq> pp"
    using orphaned_keep[OF assms] sibling_not_below[of par nr pp j] not_below_parent[of par nr pp] assms
    by auto
  have "par j \<noteq> Some pp" if "j \<noteq> nr"
    using below_has_parent[OF assms(4) that] not_below_parent[of par nr pp] assms(1) by auto
  with kept assms(1) show "orphaned par pp nr j = (if j = nr then None else par j)"
    by (auto simp: orphaned_def)
qed

context id_tree
begin

lemma prune_dropped:
  assumes inv: "branch_inv T ok R br" and j: "op_get T (br_branches br) j \<noteq> None"
    and drop: "\<not> below (op_parent T (br_branches br)) nr j"
      "\<not> sibling_of (op_parent T (br_branches br)) pp nr j" "j \<noteq> pp"
  shows "below (orphaned (op_parent T (br_branches br)) pp nr) (br_root br) j"
proof -
  note ok = invD(1)[OF inv]
  obtain as where as: "path_up (op_parent T (br_branches br)) j as" using path_ex[OF ok] by blast
  have "set as \<subseteq> dom (op_get T (br_branches br))"
    using as by (rule path_up_nodes) (use parent_node[OF ok] in blast)
  then have "i = br_root br"
    if "i \<in> set (j # as)" "op_parent T (br_branches br) i = None" for i
    using that invD(3)[OF inv, of i] j by auto
  then show ?thesis by (rule orphaned_drop[OF root_parent[OF inv] path_ex[OF ok] as drop])
qed

lemma prune_siblings:
  assumes inv: "branch_inv T ok R br" and pp: "op_get T (br_branches br) pp \<noteq> None"
  obtains cs t where "op_children T (br_branches br) pp = Some cs"
    "fold_ok (\<lambda>c t. if c \<noteq> nr then unwrap (op_remove_drop T c t) else Inr t) cs (br_branches br) = Inr t"
    "ok t" "op_root T t = Some (br_root br)"
    "op_get T t = cut_map (sibling_of (op_parent T (br_branches br)) pp nr) (op_get T (br_branches br))"
    "op_parent T t = cut_map (sibling_of (op_parent T (br_branches br)) pp nr) (op_parent T (br_branches br))"
proof -
  let ?t = "br_branches br"
  let ?par = "op_parent T ?t" and ?get = "op_get T ?t"
  note ok = invD(1)[OF inv]
  obtain cs where cs: "op_children T ?t pp = Some cs" "distinct cs" "set cs = {j. ?par j = Some pp}"
    using children[OF ok pp] by blast
  have S: "(\<lambda>j. False \<or> (\<exists>c\<in>set cs - {nr}. below ?par c j)) = sibling_of ?par pp nr"
    using cs(3) by (auto simp: sibling_of_def fun_eq_iff)
  have "\<exists>t'. fold_ok (\<lambda>c t. if c \<noteq> nr then unwrap (op_remove_drop T c t) else Inr t) cs ?t = Inr t' \<and>
    ok t' \<and> op_root T t' = Some (br_root br) \<and>
    op_get T t' = cut_map (\<lambda>j. False \<or> (\<exists>c\<in>set cs - {nr}. below ?par c j)) ?get \<and>
    op_parent T t' = cut_map (\<lambda>j. False \<or> (\<exists>c\<in>set cs - {nr}. below ?par c j)) ?par"
    using cs root_parent[OF inv] invD(2)[OF inv]
    by (intro remove_siblings_ok[OF ok ok, of _ _ pp]) (auto simp: cut_down_def cut_map_def)
  with that[OF cs(1)] show thesis unfolding S by blast
qed

lemma prune_tree:
  assumes inv: "branch_inv T ok R br" and nr: "op_parent T (br_branches br) nr = Some pp" and pp: "pp \<noteq> br_root br"
  obtains cs t1 t2 t3 t4 where
    "op_children T (br_branches br) pp = Some cs"
    "fold_ok (\<lambda>c t. if c \<noteq> nr then unwrap (op_remove_drop T c t) else Inr t) cs (br_branches br) = Inr t1"
    "op_remove_orphan T pp t1 = Some t2" "op_root T t2 = Some (br_root br)"
    "op_remove_drop T (br_root br) t2 = Some t3" "op_move_root T nr t3 = Some t4"
    "ok t4" "op_root T t4 = Some nr"
    "op_get T t4 = cut_map (\<lambda>j. \<not> below (op_parent T (br_branches br)) nr j) (op_get T (br_branches br))"
    "op_parent T t4 = cut_map (\<lambda>j. j = nr \<or> \<not> below (op_parent T (br_branches br)) nr j)
       (op_parent T (br_branches br))"
proof -
  let ?t = "br_branches br" and ?r = "br_root br"
  let ?par = "op_parent T ?t" and ?get = "op_get T ?t"
  let ?S = "sibling_of ?par pp nr" and ?below = "below (orphaned ?par pp nr) ?r"
  note ok = invD(1)[OF inv] and path = path_ex[OF invD(1)[OF inv]]
  have node: "?get pp \<noteq> None" "?get nr \<noteq> None" using parent_node[OF ok nr] by auto
  obtain cs t1 where t1: "op_children T ?t pp = Some cs"
      "fold_ok (\<lambda>c t. if c \<noteq> nr then unwrap (op_remove_drop T c t) else Inr t) cs ?t = Inr t1"
      "ok t1" "op_root T t1 = Some ?r" "op_get T t1 = cut_map ?S ?get" "op_parent T t1 = cut_map ?S ?par"
    using prune_siblings[OF inv node(1)] by blast
  have "\<not> ?S pp" unfolding sibling_of_def using not_below_parent by metis
  then have "op_get T t1 pp \<noteq> None" using t1(5) node(1) by (simp add: cut_map_def)
  from remove_orphan[OF t1(3) this] obtain t2 where t2: "op_remove_orphan T pp t1 = Some t2" "ok t2"
      "op_root T t2 = Some ?r" "op_get T t2 = (cut_map ?S ?get)(pp := None)"
      "op_parent T t2 = (\<lambda>j. if j = pp \<or> cut_map ?S ?par j = Some pp then None else cut_map ?S ?par j)"
    unfolding t1(4-6) using pp by auto
  have par2: "op_parent T t2 = orphaned ?par pp nr"
    unfolding t2(5) by (auto simp: orphaned_def cut_map_def)
  have "op_get T t2 ?r \<noteq> None" using root_node[OF t2(2,3)] by simp
  from remove_drop[OF t2(2) this] obtain t3 where t3: "op_remove_drop T ?r t2 = Some t3" "ok t3"
      "op_root T t3 = None" "op_get T t3 = (\<lambda>j. if ?below j then None else op_get T t2 j)"
      "op_parent T t3 = (\<lambda>j. if ?below j then None else orphaned ?par pp nr j)"
    unfolding par2 using t2(3) by auto
  note kept = prune_kept[OF nr root_parent[OF inv]]
  have get3: "op_get T t3 j = cut_map (\<lambda>j. \<not> below ?par nr j) ?get j" for j
    using kept[of j] path[of j] prune_dropped[OF inv, of j nr pp] unfolding t3(4) t2(4)
    by (cases "below ?par nr j"; cases "?get j") (auto simp: cut_map_def)
  have par3: "op_parent T t3 j = cut_map (\<lambda>j. j = nr \<or> \<not> below ?par nr j) ?par j" for j
  proof (cases "below ?par nr j")
    case True
    then show ?thesis using kept[of j] path[of j] unfolding t3(5) by (auto simp: cut_map_def)
  next
    case False
    then have "op_get T t3 j = None" using get3 by (simp add: cut_map_def)
    then show ?thesis using parent_node[OF t3(2), of j] False by (cases "op_parent T t3 j") (auto simp: cut_map_def)
  qed
  have "op_get T t3 nr \<noteq> None" using get3 node(2) path[of nr] by (auto simp: cut_map_def below_refl)
  then obtain t4 where "op_move_root T nr t3 = Some t4" "ok t4" "op_root T t4 = Some nr"
      "op_get T t4 = op_get T t3" "op_parent T t4 = (op_parent T t3)(nr := None)"
    using move_root[OF t3(2), of nr] t3(3) by auto
  then show thesis using that[OF t1(1,2) t2(1,3) t3(1), of t4] get3 par3
    by (simp add: fun_eq_iff) (simp add: cut_map_def)
qed

end

lemma prune_points_spec:
  assumes "unat w + length as < 2 ^ 32" "unat k + 1 < 2 ^ 32"
  shows "prune_points k w (a, b) as =
    (if unat w < unat k \<and> unat k \<le> unat w + length as then Some (as ! (unat k - unat w - 1)) else a,
     if unat w \<le> unat k \<and> unat k < unat w + length as then Some (as ! (unat k - unat w)) else b)"
  using assms(1)
proof (induction as arbitrary: w a b)
  case (Cons x as)
  have w1: "unat (w + 1) = unat w + 1" using Cons.prems by (intro unat_plus_one) simp
  have eq: "w + 1 = k \<longleftrightarrow> unat w + 1 = unat k" "w = k \<longleftrightarrow> unat w = unat k"
    using w1 by (auto simp: word_unat_eq_iff)
  have "prune_points k w (a, b) (x # as) =
      prune_points k (w + 1) (if w + 1 = k then Some x else a, if w + 1 = k + 1 then Some x else b) as"
    by (simp add: Let_def)
  also have "\<dots> = (if unat w < unat k \<and> unat k \<le> unat w + length (x # as)
        then Some ((x # as) ! (unat k - unat w - 1)) else a,
      if unat w \<le> unat k \<and> unat k < unat w + length (x # as) then Some ((x # as) ! (unat k - unat w)) else b)"
    using Cons.prems by (subst Cons.IH) (auto simp: w1 eq nth_Cons' Suc_le_eq)
  finally show ?case .
qed auto

lemma path_up_nth_parent:
  "path_up par i as \<Longrightarrow> Suc m < length as \<Longrightarrow> par (as ! m) = Some (as ! Suc m)"
proof (induction arbitrary: m rule: path_up.induct)
  case (up i p as)
  then show ?case by (cases m; cases as) auto
qed simp

lemma path_up_last: "path_up par i as \<Longrightarrow> as \<noteq> [] \<Longrightarrow> par (last as) = None"
proof (induction rule: path_up.induct)
  case (up i p as)
  then show ?case by (cases as) auto
qed simp

context id_tree
begin

lemma leaf_node_id_ok:
  assumes inv: "branch_inv T ok R br" and get: "op_get T (br_branches br) i = Some b"
    and h: "blk_state_hash b = blk_state_hash tip"
  shows "\<exists>j b'. leaf_node_id T tip br = Inr (Some j) \<and> op_get T (br_branches br) j = Some b' \<and>
    blk_state_hash b' = blk_state_hash tip"
proof -
  obtain xs where xs: "level_blocks T br = Inr xs" "set xs = {(i, b). op_get T (br_branches br) i = Some b}"
    using level_blocks_ok[OF inv] by blast
  let ?P = "\<lambda>(_, x). blk_state_hash tip = blk_state_hash x"
  have "(i, b) \<in> set xs" "?P (i, b)" using xs(2) get h by auto
  then obtain j b' where find: "find ?P xs = Some (j, b')"
    by (cases "find ?P xs") (auto simp: find_None_iff)
  then have "(j, b') \<in> set xs" "?P (j, b')" by (auto simp: find_Some_iff nth_mem dest!: nth_mem)
  with xs find show ?thesis by (auto simp: leaf_node_id_def)
qed

lemma lower_subtree:
  assumes inv: "branch_inv T ok R br" and hf: "height_free R" and nr: "op_get T (br_branches br) nr = Some nb"
    and t4: "ok t4" "op_root T t4 = Some nr"
      "op_get T t4 = cut_map (\<lambda>j. \<not> below (op_parent T (br_branches br)) nr j) (op_get T (br_branches br))"
      "op_parent T t4 = cut_map (\<lambda>j. j = nr \<or> \<not> below (op_parent T (br_branches br)) nr j)
        (op_parent T (br_branches br))"
  shows "\<exists>ids t5. op_level T t4 nr = Some ids \<and>
    fold_ok (\<lambda>i t. bind_ok (node_data T t i) (\<lambda>b.
      unwrap (op_set T i (b\<lparr>blk_height := blk_height b - blk_height nb\<rparr>) t))) ids t4 = Inr t5 \<and>
    branch_inv T ok R \<lparr>br_root = nr, br_branches = t5\<rparr> \<and> op_parent T t5 = op_parent T t4 \<and>
    op_get T t5 = (\<lambda>j. map_option (\<lambda>b. b\<lparr>blk_height := blk_height b - blk_height nb\<rparr>) (op_get T t4 j))"
proof -
  let ?par = "op_parent T (br_branches br)" and ?get = "op_get T (br_branches br)"
  let ?low = "\<lambda>b. b\<lparr>blk_height := blk_height b - blk_height nb\<rparr>"
  have top: "j = nr" if "op_get T t4 j \<noteq> None" "op_parent T t4 j = None" for j
    using that below_has_parent[of ?par nr j] unfolding t4(3,4) by (auto simp: cut_map_def split: if_splits)
  then have dom: "{j. op_get T t4 j \<noteq> None \<and> below (op_parent T t4) nr j} = dom (op_get T t4)"
    using root_node[OF t4(1,2)] by (intro single_top_below t4) auto
  have node: "op_get T t4 nr \<noteq> None" using root_node[OF t4(1,2)] by simp
  obtain ids where ids: "op_level T t4 nr = Some ids" "distinct ids" "set ids = dom (op_get T t4)"
    using level[OF t4(1) node, unfolded dom] by metis
  obtain t5 where t5: "fold_ok (\<lambda>i t. bind_ok (node_data T t i) (\<lambda>b. unwrap (op_set T i (?low b) t))) ids t4 = Inr t5"
      "ok t5" "op_root T t5 = op_root T t4" "op_parent T t5 = op_parent T t4"
      "op_get T t5 = (\<lambda>j. if j \<in> set ids \<and> True then map_option ?low (op_get T t4 j) else op_get T t4 j)"
    using update_fold[OF t4(1) ids(2), of "\<lambda>_. True" ?low] ids(3) by auto
  have get5: "op_get T t5 = (\<lambda>j. map_option ?low (op_get T t4 j))"
    unfolding t5(5) ids(3) by (auto simp: fun_eq_iff domIff)
  have "branch_inv T ok R \<lparr>br_root = nr, br_branches = t5\<rparr>"
  proof (rule branch_invI, goal_cases)
    case (3 j)
    then show ?case using top[of j] t5(4) get5 by simp
  next
    case (4 b)
    then show ?case using nr get5 t4(3) by (auto simp: cut_map_def split: if_splits)
  next
    case (5 j p b c)
    then obtain b0 c0 where "?par j = Some p" "?get j = Some b0" "b = ?low b0" "?get p = Some c0" "c = ?low c0"
      using t5(4) get5 t4(3,4) by (auto simp: cut_map_def split: if_splits)
    then show ?case using invD(5)[OF inv, of j p b0 c0] hf by (auto simp: height_free_def)
  qed (use t5 t4(2) in simp_all)
  then show ?thesis using ids(1) t5(1,4) get5 by blast
qed

lemma prune_ok:
  assumes inv: "branch_inv T ok R br" and hf: "height_free R"
    and leaf: "leaf_node_id T tip br = Inr (Some i)" and i: "op_get T (br_branches br) i \<noteq> None"
    and as: "path_up (op_parent T (br_branches br)) i as"
    and k: "0 < unat k" "unat k + 1 < length as" "length as < 2 ^ 32"
  shows "\<exists>br'. prune_transition_frontier T k tip br = Inr br' \<and> branch_inv T ok R br' \<and>
    br_root br' = as ! (unat k - 1) \<and>
    op_get T (br_branches br') = cut_map (\<lambda>j. \<not> below (op_parent T (br_branches br)) (as ! (unat k - 1)) j)
      (\<lambda>j. map_option (\<lambda>b. b\<lparr>blk_height := blk_height b - of_nat (length as - unat k)\<rparr>)
        (op_get T (br_branches br) j))"
proof -
  let ?t = "br_branches br" and ?nr = "as ! (unat k - 1)" and ?pp = "as ! unat k"
  let ?par = "op_parent T ?t" and ?get = "op_get T ?t"
  note ok = invD(1)[OF inv]
  have points: "prune_points k 0 (None, None) as = (Some ?nr, Some ?pp)"
    using k by (subst prune_points_spec) auto
  have anc: "op_ancestors T ?t i = Some as" using ancestors[OF ok i] as path_up_det by metis
  have nr: "?par ?nr = Some ?pp" using path_up_nth_parent[OF as, of "unat k - 1"] k by simp
  have "as = take (unat k - 1) as @ ?nr # drop (unat k) as"
    using k by (metis Cons_nth_drop_Suc Suc_pred' add_lessD1 append_take_drop_id less_imp_diff_less)
  then have "path_up ?par ?nr (drop (unat k) as)" using as path_up_append by metis
  then obtain nb where nb: "?get ?nr = Some nb" "blk_height nb = of_nat (length as - unat k)"
    using height_path[OF inv, of ?nr "drop (unat k) as"] parent_node[OF ok nr] by auto
  have "?pp \<noteq> br_root br"
    using path_up_nth_parent[OF as, of "unat k"] k root_parent[OF inv] by auto
  with nr obtain cs t1 t2 t3 t4 where run: "op_children T ?t ?pp = Some cs"
    "fold_ok (\<lambda>c t. if c \<noteq> ?nr then unwrap (op_remove_drop T c t) else Inr t) cs ?t = Inr t1"
    "op_remove_orphan T ?pp t1 = Some t2" "op_root T t2 = Some (br_root br)"
    "op_remove_drop T (br_root br) t2 = Some t3" "op_move_root T ?nr t3 = Some t4"
    and t4: "ok t4" "op_root T t4 = Some ?nr" "op_get T t4 = cut_map (\<lambda>j. \<not> below ?par ?nr j) ?get"
    "op_parent T t4 = cut_map (\<lambda>j. j = ?nr \<or> \<not> below ?par ?nr j) ?par"
    using prune_tree[OF inv, of ?nr ?pp] by blast
  from lower_subtree[OF inv hf nb(1) t4] obtain ids t5 where t5: "op_level T t4 ?nr = Some ids"
    "fold_ok (\<lambda>i t. bind_ok (node_data T t i) (\<lambda>b.
      unwrap (op_set T i (b\<lparr>blk_height := blk_height b - blk_height nb\<rparr>) t))) ids t4 = Inr t5"
    "branch_inv T ok R \<lparr>br_root = ?nr, br_branches = t5\<rparr>"
    "op_get T t5 = (\<lambda>j. map_option (\<lambda>b. b\<lparr>blk_height := blk_height b - blk_height nb\<rparr>) (op_get T t4 j))"
    by blast
  have "node_data T t4 ?nr = Inr nb"
    using t4(3) nb(1) path_ex[OF ok, of ?nr] by (auto simp: node_data_def cut_map_def below_refl)
  then have "prune_transition_frontier T k tip br = Inr \<lparr>br_root = ?nr, br_branches = t5\<rparr>"
    unfolding prune_transition_frontier_def leaf using anc points run t5(1,2) by simp
  then show ?thesis using t5(3,4) t4(3) nb(2) by (auto simp: cut_map_def fun_eq_iff)
qed

text \<open>With the prune point at the root, removing it leaves a tree without a root.\<close>

lemma prune_too_short:
  assumes inv: "branch_inv T ok R br"
    and leaf: "leaf_node_id T tip br = Inr (Some i)" and i: "op_get T (br_branches br) i \<noteq> None"
    and as: "path_up (op_parent T (br_branches br)) i as"
    and k: "length as < unat k + 1" "unat k + 1 < 2 ^ 32"
  shows "prune_transition_frontier T k tip br = Inl UnwrapNone"
proof -
  have anc: "op_ancestors T (br_branches br) i = Some as"
    using ancestors[OF invD(1)[OF inv] i] as path_up_det by metis
  have "snd (prune_points k 0 (None, None) as) = None"
    using k by (subst prune_points_spec) auto
  then show ?thesis unfolding prune_transition_frontier_def leaf using anc
    by (cases "prune_points k 0 (None, None) as"; cases "fst (prune_points k 0 (None, None) as)") auto
qed

end

context id_tree
begin

lemma prune_at_root:
  assumes inv: "branch_inv T ok R br"
    and leaf: "leaf_node_id T tip br = Inr (Some i)" and i: "op_get T (br_branches br) i \<noteq> None"
    and as: "path_up (op_parent T (br_branches br)) i as"
    and k: "0 < unat k" "length as = unat k + 1" "length as < 2 ^ 32"
  shows "prune_transition_frontier T k tip br = Inl UnwrapNone"
proof -
  let ?nr = "as ! (unat k - 1)" and ?t = "br_branches br"
  note ok = invD(1)[OF inv]
  have anc: "op_ancestors T ?t i = Some as" using ancestors[OF ok i] as path_up_det by metis
  have root: "as ! unat k = br_root br"
  proof -
    have ne: "as \<noteq> []" using k(2) by auto
    then have last: "last as = as ! unat k" using k(2) by (simp add: last_conv_nth)
    have "set as \<subseteq> dom (op_get T ?t)" using as by (rule path_up_nodes) (use parent_node[OF ok] in blast)
    then have "op_get T ?t (last as) \<noteq> None" using ne last_in_set by blast
    then show ?thesis using invD(3)[OF inv] path_up_last[OF as ne] last by metis
  qed
  have points: "prune_points k 0 (None, None) as = (Some ?nr, Some (br_root br))"
    using k by (subst prune_points_spec) (auto simp: root)
  have "op_get T ?t (br_root br) \<noteq> None" using root_get[OF inv] by simp
  then obtain cs t1 where t1: "op_children T ?t (br_root br) = Some cs"
      "fold_ok (\<lambda>c t. if c \<noteq> ?nr then unwrap (op_remove_drop T c t) else Inr t) cs ?t = Inr t1"
      "ok t1" "op_root T t1 = Some (br_root br)"
    by (rule prune_siblings[OF inv, of _ ?nr])
  from root_node[OF t1(3,4)] have "op_get T t1 (br_root br) \<noteq> None" by simp
  from remove_orphan[OF t1(3) this] t1(4) obtain t2 where
    "op_remove_orphan T (br_root br) t1 = Some t2" "op_root T t2 = None" by auto
  then show ?thesis unfolding prune_transition_frontier_def leaf using anc points t1(1,2) by simp
qed

end

section \<open>Property of pruning\<close>

text \<open>
  C15: pruning with \<open>k\<close> at a block of the branch whose chain of ancestors fits in 32 bits: with more than
  \<open>k + 1\<close> ancestors the branch becomes the subtree of the \<open>k\<close>-th ancestor, with heights counted from it;
  with at most \<open>k + 1\<close>, the root among the two prune points, it panics.
\<close>

theorem prune_keeps_frontier:
  assumes "id_tree T ok" "branch_inv T ok is_child br"
    "leaf_node_id T tip br = Inr (Some i)" "op_get T (br_branches br) i \<noteq> None"
    "path_up (op_parent T (br_branches br)) i as" "0 < unat k" "unat k + 1 < 2 ^ 32" "length as < 2 ^ 32"
  shows "if unat k + 1 < length as
    then \<exists>br'. prune_transition_frontier T k tip br = Inr br' \<and> branch_inv T ok is_child br' \<and>
      br_root br' = as ! (unat k - 1) \<and>
      (\<forall>j. op_get T (br_branches br') j =
        (if below (op_parent T (br_branches br)) (as ! (unat k - 1)) j
         then map_option (\<lambda>b. b\<lparr>blk_height := blk_height b - of_nat (length as - unat k)\<rparr>)
           (op_get T (br_branches br) j)
         else None))
    else prune_transition_frontier T k tip br = Inl UnwrapNone"
proof (cases "unat k + 1 < length as")
  case True
  then show ?thesis
    using id_tree.prune_ok[OF assms(1,2) height_free_is_child assms(3-6) _ assms(8)]
    by (auto simp: cut_map_def)
next
  case False
  then show ?thesis
    using id_tree.prune_too_short[OF assms(1-5), of k] id_tree.prune_at_root[OF assms(1-6), of] assms(7,8)
    by (cases "length as = unat k + 1") auto
qed

theorem prune_keeps_frontier_witness:
  "\<exists>br'. prune_transition_frontier ref_ops 1 (example_node 3) (example_chain 4) = Inr br' \<and>
     br_root br' = 2 \<and> op_get ref_ops (br_branches br') 0 = None"
proof -
  have ids: "traverse_level_order_ids ref_ops (example_chain 4) = Inr [0, 1, 2, 3]"
    by code_simp
  have leaf: "leaf_node_id ref_ops (example_node 3) (example_chain 4) = Inr (Some 3)"
    unfolding leaf_node_id_def level_blocks_def ids
    by (simp add: node_data_def ref_proj example_chain_def example_node_def example_hash_def numeral_eq_Suc)
  have par: "op_parent ref_ops (br_branches (example_chain 4)) =
      (\<lambda>i. if 0 < i \<and> i < 4 then Some (i - 1) else None)" by (simp add: ref_proj example_chain_def)
  have path: "path_up (op_parent ref_ops (br_branches (example_chain 4))) 3 [2, 1, 0]"
    unfolding par by simp
  have "\<not> below (op_parent ref_ops (br_branches (example_chain 4))) 2 0"
    unfolding par by (subst below_top) auto
  then show ?thesis
    using prune_keeps_frontier[OF ref.id_tree_axioms example_chain_inv[of 4] leaf _ path, of 1]
    by (auto simp: ref_proj example_chain_def)
qed

end
