(* ===== verification/Witness_Tree.thy ===== *)
theory Witness_Tree
  imports Branch_Merging Branch_Pruning Block_Ledgers
begin

text \<open>
  The witness tree of the indexer state (\<open>state/mod.rs\<close>): the root branch, the dangling branches, the
  best tip, the canonical root with its ledger, and how a block moves them.  The writes to the database
  are the entries of a log, \<open>None\<close> for a state without a database.
\<close>

section \<open>State\<close>

record 'n tip =
  tip_state_hash :: state_hash
  tip_node_id :: 'n

datatype store_write =
    AddBlock state_hash u64
  | SetBestBlock state_hash
  | AddCanonicalBlock u32 u32 state_hash state_hash "state_hash option"
  | AddGenesisLedger state_hash ledger u32
  | AddStagedLedger state_hash ledger u32

record ('t, 'n) indexer_state =
  st_best_tip :: "'n tip"
  st_canonical_root :: "'n tip"
  st_ledger :: ledger
  st_ledger_cadence :: u32
  st_diffs_map :: "state_hash \<rightharpoonup> ledger_diff"
  st_root_branch :: "('t, 'n) branch"
  st_dangling_branches :: "('t, 'n) branch list"
  st_store :: "store_write list option"
  st_transition_frontier_length :: u32
  st_prune_interval :: u32
  st_reporting_freq :: u32
  st_canonical_update_threshold :: u32
  st_canonical_threshold :: u32
  st_blocks_processed :: u32
  st_bytes_processed :: u64

datatype extension_type =
    DanglingNew
  | DanglingSimpleForward
  | DanglingSimpleReverse
  | DanglingComplex
  | RootSimple block
  | RootComplex block
  | BlockNotAdded

datatype extension_direction = Forward | Reverse

datatype witness_tree_event = UpdateBestTip block "block list"

definition store_add :: "store_write \<Rightarrow> ('t, 'n) indexer_state \<Rightarrow> ('t, 'n) indexer_state" where
  "store_add w self = self\<lparr>st_store := map_option (\<lambda>log. log @ [w]) (st_store self)\<rparr>"

text \<open>\<open>Vec::remove\<close>.\<close>

definition remove_ok :: "nat \<Rightarrow> 'a list \<Rightarrow> 'a list run" where
  "remove_ok i xs = (if i < length xs then Inr (take i xs @ drop (Suc i) xs) else Inl IndexOutOfBounds)"

section \<open>Tips\<close>

definition get_block_from_id :: "('t, 'n) tree_ops \<Rightarrow> ('t, 'n) indexer_state \<Rightarrow> 'n \<Rightarrow> block run" where
  "get_block_from_id T self node_id = node_data T (br_branches (st_root_branch self)) node_id"

definition best_tip_block :: "('t, 'n) tree_ops \<Rightarrow> ('t, 'n) indexer_state \<Rightarrow> block run" where
  "best_tip_block T self = get_block_from_id T self (tip_node_id (st_best_tip self))"

definition canonical_root_block :: "('t, 'n) tree_ops \<Rightarrow> ('t, 'n) indexer_state \<Rightarrow> block run" where
  "canonical_root_block T self = get_block_from_id T self (tip_node_id (st_canonical_root self))"

definition is_length_within_root_bounds ::
    "('t, 'n) tree_ops \<Rightarrow> precomputed_block \<Rightarrow> ('t, 'n) indexer_state \<Rightarrow> bool run" where
  "is_length_within_root_bounds T pcb self =
     map_ok (\<lambda>b. blk_blockchain_length b + 1 \<ge> blockchain_length pcb) (best_tip_block T self)"

definition update_best_tip ::
    "('t, 'n) tree_ops \<Rightarrow> block \<Rightarrow> 'n \<Rightarrow> ('t, 'n) indexer_state \<Rightarrow> ('t, 'n) indexer_state run" where
  "update_best_tip T incoming_block node_id self =
     map_ok (\<lambda>old_best_tip.
       if block_cmp incoming_block old_best_tip = Less
       then self\<lparr>st_best_tip := \<lparr>tip_state_hash = blk_state_hash incoming_block, tip_node_id = node_id\<rparr>\<rparr>
       else self) (best_tip_block T self)"

definition is_reverse_extension ::
    "('t, 'n) tree_ops \<Rightarrow> precomputed_block \<Rightarrow> ('t, 'n) branch \<Rightarrow> bool run" where
  "is_reverse_extension T pcb branch =
     map_ok (\<lambda>root. state_hash_of pcb = blk_parent_hash root) (root_block T branch)"

section \<open>Extending the root branch\<close>

definition merge_dangling :: "('t, 'n) tree_ops \<Rightarrow> precomputed_block \<Rightarrow> 'n \<Rightarrow> nat \<times> ('t, 'n) branch \<Rightarrow>
    ('t, 'n) branch \<times> 'n list \<times> nat list \<Rightarrow> (('t, 'n) branch \<times> 'n list \<times> nat list) run" where
  "merge_dangling T pcb new_node_id = (\<lambda>(index, dangling_branch) (root, merged_tip_ids, branches_to_remove).
     bind_ok (is_reverse_extension T pcb dangling_branch) (\<lambda>reverse.
     if reverse
     then bind_ok (merge_on T new_node_id dangling_branch root) (\<lambda>(root', merged).
       bind_ok (unwrap merged) (\<lambda>tip_id.
       Inr (root', merged_tip_ids @ [tip_id], branches_to_remove @ [index])))
     else Inr (root, merged_tip_ids, branches_to_remove)))"

text \<open>An index that wraps below zero is past the end of the list.\<close>

definition remove_branches :: "nat list \<Rightarrow> 'a list \<Rightarrow> 'a list run" where
  "remove_branches branches_to_remove branches =
     fold_ok (\<lambda>(num_removed, index_to_remove) bs.
         if num_removed \<le> index_to_remove then remove_ok (index_to_remove - num_removed) bs else Inl IndexOutOfBounds)
       (enumerate 0 branches_to_remove) branches"

definition root_extension :: "('t, 'n) tree_ops \<Rightarrow> (u8 list \<Rightarrow> u8 list) \<Rightarrow> precomputed_block \<Rightarrow>
    ('t, 'n) indexer_state \<Rightarrow> (('t, 'n) indexer_state \<times> extension_type option) run" where
  "root_extension T blake2b pcb self =
     bind_ok (simple_extension T blake2b pcb (st_root_branch self)) (\<lambda>(root, extension).
     case extension of
       None \<Rightarrow> Inr (self\<lparr>st_root_branch := root\<rparr>, None)
     | Some (new_node_id, new_block) \<Rightarrow>
         bind_ok (fold_ok (merge_dangling T pcb new_node_id) (enumerate 0 (st_dangling_branches self))
           (root, [], [])) (\<lambda>(root', merged_tip_ids, branches_to_remove).
         bind_ok (traverse_ok (\<lambda>i. map_ok (Pair i) (node_data T (br_branches root') i)) merged_tip_ids)
           (\<lambda>merged_tips.
         let self = self\<lparr>st_root_branch := root'\<rparr> in
         bind_ok (case min_by (\<lambda>(_, a) (_, b). block_cmp a b) merged_tips of
             None \<Rightarrow> Inr self
           | Some (merged_tip_id, merged_tip_block) \<Rightarrow> update_best_tip T merged_tip_block merged_tip_id self)
           (\<lambda>self.
         bind_ok (update_best_tip T new_block new_node_id self) (\<lambda>self.
         bind_ok (remove_branches branches_to_remove (st_dangling_branches self)) (\<lambda>dangling.
         let self = self\<lparr>st_dangling_branches := dangling\<rparr> in
         map_ok (\<lambda>b. (self, Some (if branches_to_remove \<noteq> [] then RootComplex b else RootSimple b)))
           (best_tip_block T self)))))))"

section \<open>Dangling branches\<close>

fun dangling_scan :: "('t, 'n) tree_ops \<Rightarrow> (u8 list \<Rightarrow> u8 list) \<Rightarrow> precomputed_block \<Rightarrow> nat \<Rightarrow>
    ('t, 'n) branch list \<Rightarrow> (nat \<times> ('t, 'n) branch \<times> 'n \<times> extension_direction) option run" where
  "dangling_scan T blake2b pcb index [] = Inr None"
| "dangling_scan T blake2b pcb index (dangling_branch # branches) =
     bind_ok (map_ok blk_blockchain_length (root_block T dangling_branch)) (\<lambda>min_length.
     bind_ok (bind_ok (branch_best_tip T dangling_branch) unwrap) (\<lambda>tip.
     if blk_blockchain_length tip + 1 \<ge> blockchain_length pcb \<and> blockchain_length pcb + 1 \<ge> min_length
     then bind_ok (is_reverse_extension T pcb dangling_branch) (\<lambda>reverse.
       if reverse
       then bind_ok (new_root T blake2b pcb dangling_branch) (\<lambda>branch'.
         bind_ok (unwrap (op_root T (br_branches branch'))) (\<lambda>root_id.
         Inr (Some (index, branch', root_id, Reverse))))
       else bind_ok (simple_extension T blake2b pcb dangling_branch) (\<lambda>(branch', extension).
         case extension of
           Some (new_node_id, _) \<Rightarrow> Inr (Some (index, branch', new_node_id, Forward))
         | None \<Rightarrow> dangling_scan T blake2b pcb (Suc index) branches))
     else dangling_scan T blake2b pcb (Suc index) branches))"

definition dangling_extension :: "('t, 'n) tree_ops \<Rightarrow> (u8 list \<Rightarrow> u8 list) \<Rightarrow> precomputed_block \<Rightarrow>
    ('t, 'n) indexer_state \<Rightarrow> (('t, 'n) indexer_state \<times> (nat \<times> 'n \<times> extension_direction) option) run" where
  "dangling_extension T blake2b pcb self =
     map_ok (\<lambda>extension. case extension of
         None \<Rightarrow> (self, None)
       | Some (index, branch', node_id, direction) \<Rightarrow>
           (self\<lparr>st_dangling_branches := (st_dangling_branches self)[index := branch']\<rparr>,
            Some (index, node_id, direction)))
       (dangling_scan T blake2b pcb 0 (st_dangling_branches self))"

text \<open>
  One step of the merge loop.  \<open>dangling_branch_index - n - 1\<close> is an unsigned subtraction: below zero it
  wraps to an index that \<open>get_mut\<close> does not find.
\<close>

definition update_dangling_step :: "('t, 'n) tree_ops \<Rightarrow> nat \<Rightarrow> 'n \<Rightarrow> nat \<times> nat \<Rightarrow>
    ('t, 'n) branch \<times> ('t, 'n) branch list \<Rightarrow> (('t, 'n) branch \<times> ('t, 'n) branch list) run" where
  "update_dangling_step T extended_branch_index new_node_id =
     (\<lambda>(n, dangling_branch_index) (extended_branch, branches).
       bind_ok (if extended_branch_index < dangling_branch_index
           then if n + 1 \<le> dangling_branch_index then Inr (dangling_branch_index - n - 1) else Inl UnwrapNone
           else Inr dangling_branch_index) (\<lambda>index.
       bind_ok (if index < length branches then Inr (branches ! index) else Inl UnwrapNone)
         (\<lambda>branch_to_update.
       bind_ok (merge_on T new_node_id branch_to_update extended_branch) (\<lambda>(extended_branch', _).
       map_ok (Pair extended_branch') (remove_ok index branches)))))"

definition update_dangling :: "('t, 'n) tree_ops \<Rightarrow> precomputed_block \<Rightarrow> nat \<Rightarrow> 'n \<Rightarrow>
    extension_direction \<Rightarrow> ('t, 'n) indexer_state \<Rightarrow> (('t, 'n) indexer_state \<times> extension_type) run" where
  "update_dangling T pcb extended_branch_index new_node_id direction self =
     bind_ok (traverse_ok (is_reverse_extension T pcb) (st_dangling_branches self)) (\<lambda>reverse.
     let branches_to_update = map fst (filter snd (enumerate 0 reverse)) in
     if branches_to_update \<noteq> []
     then bind_ok (index_ok (st_dangling_branches self) extended_branch_index) (\<lambda>extended_branch.
       bind_ok (remove_ok extended_branch_index (st_dangling_branches self)) (\<lambda>branches.
       bind_ok (fold_ok (update_dangling_step T extended_branch_index new_node_id)
           (enumerate 0 branches_to_update) (extended_branch, branches)) (\<lambda>(extended_branch', branches').
       Inr (self\<lparr>st_dangling_branches := branches' @ [extended_branch']\<rparr>, DanglingComplex))))
     else Inr (self, case direction of Forward \<Rightarrow> DanglingSimpleForward | Reverse \<Rightarrow> DanglingSimpleReverse))"

definition new_dangling :: "('t, 'n) tree_ops \<Rightarrow> (u8 list \<Rightarrow> u8 list) \<Rightarrow> precomputed_block \<Rightarrow>
    ('t, 'n) indexer_state \<Rightarrow> ('t, 'n) indexer_state \<times> extension_type" where
  "new_dangling T blake2b pcb self =
     (self\<lparr>st_dangling_branches := st_dangling_branches self @ [branch_new T blake2b pcb]\<rparr>, DanglingNew)"

text \<open>The three ways to place a block: on the root branch, on a dangling branch, or on its own.\<close>

definition extend_witness_tree :: "('t, 'n) tree_ops \<Rightarrow> (u8 list \<Rightarrow> u8 list) \<Rightarrow> precomputed_block \<Rightarrow>
    ('t, 'n) indexer_state \<Rightarrow> (('t, 'n) indexer_state \<times> extension_type) run" where
  "extend_witness_tree T blake2b pcb self =
     bind_ok (is_length_within_root_bounds T pcb self) (\<lambda>within.
     bind_ok (if within then root_extension T blake2b pcb self else Inr (self, None)) (\<lambda>(self, extension).
     case extension of
       Some ext \<Rightarrow> Inr (self, ext)
     | None \<Rightarrow>
         bind_ok (dangling_extension T blake2b pcb self) (\<lambda>(self, dangling).
         case dangling of
           Some (extended_branch_index, new_node_id, direction) \<Rightarrow>
             update_dangling T pcb extended_branch_index new_node_id direction self
         | None \<Rightarrow> Inr (new_dangling T blake2b pcb self))))"

section \<open>Canonical root and ledger\<close>

definition is_canonical_updatable :: "('t, 'n) tree_ops \<Rightarrow> ('t, 'n) indexer_state \<Rightarrow> bool run" where
  "is_canonical_updatable T self =
     bind_ok (best_tip_block T self) (\<lambda>tip.
     map_ok (\<lambda>root. blk_height tip - blk_height root \<ge> st_canonical_update_threshold self)
       (canonical_root_block T self))"

definition get_new_canonical_blocks :: "('t, 'n) tree_ops \<Rightarrow> 'n \<Rightarrow> ('t, 'n) indexer_state \<Rightarrow>
    (('t, 'n) indexer_state \<times> block list) run" where
  "get_new_canonical_blocks T old_canonical_root_id self =
     bind_ok (unwrap (op_ancestors T (br_branches (st_root_branch self)) (tip_node_id (st_best_tip self))))
       (\<lambda>ids.
     let new_ids = takeWhile (\<lambda>i. i \<noteq> old_canonical_root_id) (drop (MAINNET_CANONICAL_THRESHOLD - 1) ids) in
     map_ok (\<lambda>blocks. case zip new_ids blocks of
         [] \<Rightarrow> (self, [])
       | (i, b) # _ \<Rightarrow>
           (self\<lparr>st_canonical_root := \<lparr>tip_state_hash = blk_state_hash b, tip_node_id = i\<rparr>\<rparr>, rev blocks))
       (traverse_ok (get_block_from_id T self) new_ids))"

definition update_ledger ::
    "block list \<Rightarrow> ('t, 'n) indexer_state \<Rightarrow> ('t, 'n) indexer_state run" where
  "update_ledger canonical_blocks self =
     (let diff = fold (\<lambda>b acc. case st_diffs_map self (blk_state_hash b) of
            Some d \<Rightarrow> ledger_diff_append acc d | None \<Rightarrow> acc) canonical_blocks ledger_diff_default
      in if ld_account_diffs diff \<noteq> []
         then map_ok (\<lambda>l. self\<lparr>st_ledger := l\<rparr>) (ledger_apply_diff diff (st_ledger self))
         else Inr self)"

definition store_canonical_ledger ::
    "block \<Rightarrow> ('t, 'n) indexer_state \<Rightarrow> ('t, 'n) indexer_state run" where
  "store_canonical_ledger b self =
     (if st_ledger_cadence self = 0 then Inl DivideByZero
      else Inr (if blk_blockchain_length b mod st_ledger_cadence self = 0
        then store_add (AddStagedLedger (blk_state_hash b) (st_ledger self) (blk_blockchain_length b)) self
        else self))"

definition update_ledger_store ::
    "block list \<Rightarrow> ('t, 'n) indexer_state \<Rightarrow> ('t, 'n) indexer_state run" where
  "update_ledger_store canonical_blocks self =
     (if st_store self = None then Inr self
      else fold_ok store_canonical_ledger canonical_blocks self)"

definition prune_diff ::
    "('t, 'n) tree_ops \<Rightarrow> 'n \<Rightarrow> ('t, 'n) indexer_state \<Rightarrow> ('t, 'n) indexer_state run" where
  "prune_diff T node_id self =
     bind_ok (get_block_from_id T self node_id) (\<lambda>b.
     map_ok (\<lambda>root. if b \<noteq> root \<and> blk_height b \<le> blk_height root
         then self\<lparr>st_diffs_map := (st_diffs_map self)(blk_state_hash b := None)\<rparr>
         else self) (canonical_root_block T self))"

definition prune_diffs_map ::
    "('t, 'n) tree_ops \<Rightarrow> 'n \<Rightarrow> ('t, 'n) indexer_state \<Rightarrow> ('t, 'n) indexer_state run" where
  "prune_diffs_map T old_canonical_root_id self =
     bind_ok (unwrap (op_level T (br_branches (st_root_branch self)) old_canonical_root_id)) (\<lambda>ids.
     fold_ok (prune_diff T) ids self)"

definition update_canonical ::
    "('t, 'n) tree_ops \<Rightarrow> ('t, 'n) indexer_state \<Rightarrow> (('t, 'n) indexer_state \<times> block list) run" where
  "update_canonical T self =
     bind_ok (is_canonical_updatable T self) (\<lambda>updatable.
     if updatable
     then let old_canonical_root_id = tip_node_id (st_canonical_root self) in
       bind_ok (get_new_canonical_blocks T old_canonical_root_id self) (\<lambda>(self, new_canonical_blocks).
       bind_ok (update_ledger new_canonical_blocks self) (\<lambda>self.
       bind_ok (update_ledger_store new_canonical_blocks self) (\<lambda>self.
       map_ok (\<lambda>self. (self, new_canonical_blocks)) (prune_diffs_map T old_canonical_root_id self))))
     else Inr (self, []))"

definition prune_root_branch ::
    "('t, 'n) tree_ops \<Rightarrow> ('t, 'n) indexer_state \<Rightarrow> (('t, 'n) indexer_state \<times> block list) run" where
  "prune_root_branch T self =
     bind_ok (update_canonical T self) (\<lambda>(self, canonical_event).
     if branch_height T (st_root_branch self) > st_prune_interval self * st_transition_frontier_length self
     then bind_ok (best_tip_block T self) (\<lambda>tip.
       map_ok (\<lambda>root. (self\<lparr>st_root_branch := root\<rparr>, canonical_event))
         (prune_transition_frontier T (st_transition_frontier_length self) tip (st_root_branch self)))
     else Inr (self, canonical_event))"

section \<open>Adding a block\<close>

definition add_block_to_witness_tree :: "('t, 'n) tree_ops \<Rightarrow> (u8 list \<Rightarrow> u8 list) \<Rightarrow>
    (string \<Rightarrow> amount option) \<Rightarrow> hash_order \<Rightarrow> precomputed_block \<Rightarrow> bool \<Rightarrow> bool \<Rightarrow>
    ('t, 'n) indexer_state \<Rightarrow>
    (('t, 'n) indexer_state \<times> extension_type \<times> witness_tree_event option) run" where
  "add_block_to_witness_tree T blake2b parse_amount order pcb increment_blocks insert_diff self =
     bind_ok (root_block T (st_root_branch self)) (\<lambda>root.
     if blk_blockchain_length root > blockchain_length pcb then Inr (self, BlockNotAdded, None)
     else bind_ok (if insert_diff
         then map_ok (\<lambda>d. self\<lparr>st_diffs_map := (st_diffs_map self)(state_hash_of pcb \<mapsto> d)\<rparr>)
           (from_precomputed parse_amount order pcb)
         else Inr self) (\<lambda>self.
       let self = (if increment_blocks then self\<lparr>st_blocks_processed := st_blocks_processed self + 1\<rparr>
         else self) in
       bind_ok (extend_witness_tree T blake2b pcb self) (\<lambda>(self, extension).
       case extension of
         RootSimple tip \<Rightarrow> map_ok (\<lambda>(self, bs). (self, extension, Some (UpdateBestTip tip bs)))
           (prune_root_branch T self)
       | RootComplex tip \<Rightarrow> map_ok (\<lambda>(self, bs). (self, extension, Some (UpdateBestTip tip bs)))
           (prune_root_branch T self)
       | _ \<Rightarrow> Inr (self, extension, None))))"

section \<open>Reading the best chain\<close>

fun up_to_top :: "('t, 'n) tree_ops \<Rightarrow> 't \<Rightarrow> 'n list \<Rightarrow> 'n list" where
  "up_to_top T t [] = []"
| "up_to_top T t (i # ids) = i # (if op_parent T t i = None then [] else up_to_top T t ids)"

definition best_chain :: "('t, 'n) tree_ops \<Rightarrow> ('t, 'n) indexer_state \<Rightarrow> block list run" where
  "best_chain T self =
     (let t = br_branches (st_root_branch self); tip_id = tip_node_id (st_best_tip self) in
      bind_ok (best_tip_block T self) (\<lambda>tip.
      bind_ok (unwrap (op_ancestors T t tip_id)) (\<lambda>ids.
      map_ok (\<lambda>bs. tip # bs) (traverse_ok (node_data T t) (up_to_top T t ids)))))"

text \<open>\<open>stored_diff\<close> is the lookup \<open>get_block_ledger_diff\<close> of the database.\<close>

definition best_ledger ::
    "('t, 'n) tree_ops \<Rightarrow> (state_hash \<Rightarrow> ledger_diff option) \<Rightarrow> ('t, 'n) indexer_state \<Rightarrow> ledger run" where
  "best_ledger T stored_diff self =
     bind_ok (best_chain T self) (\<lambda>chain.
     bind_ok (canonical_root_block T self) (\<lambda>root.
     fold_ok (\<lambda>b l.
       case (case st_diffs_map self (blk_state_hash b) of
           Some d \<Rightarrow> Some d
         | None \<Rightarrow> if st_store self = None then None else stored_diff (blk_state_hash b)) of
         Some d \<Rightarrow> ledger_apply_diff d l
       | None \<Rightarrow> Inl PanicCall)
       (drop 1 (dropWhile (\<lambda>b. b \<noteq> root) (rev chain))) (st_ledger self)))"

definition state_len :: "('t, 'n) tree_ops \<Rightarrow> ('t, 'n) indexer_state \<Rightarrow> u32 run" where
  "state_len T self =
     bind_ok (branch_len T (st_root_branch self)) (\<lambda>len.
     fold_ok (\<lambda>dangling len. map_ok (\<lambda>n. len + n) (branch_len T dangling)) (st_dangling_branches self) len)"

definition state_is_empty :: "('t, 'n) tree_ops \<Rightarrow> ('t, 'n) indexer_state \<Rightarrow> bool run" where
  "state_is_empty T self = map_ok (\<lambda>n. n = 0) (state_len T self)"

section \<open>Invariant\<close>

text \<open>
  \<open>L\<close> is the length of the chain that ends in a state hash.  A block agrees with it when its length is
  the one of its hash, one more than its parent's, and below the largest 32-bit number.
\<close>

definition length_ok :: "(state_hash \<Rightarrow> nat) \<Rightarrow> state_hash \<Rightarrow> state_hash \<Rightarrow> u32 \<Rightarrow> bool" where
  "length_ok L parent hash len \<longleftrightarrow> unat len = L hash \<and> L hash = L parent + 1 \<and> L hash + 1 < 2 ^ 32"

definition block_ok :: "(state_hash \<Rightarrow> nat) \<Rightarrow> block \<Rightarrow> bool" where
  "block_ok L b \<longleftrightarrow> length_ok L (blk_parent_hash b) (blk_state_hash b) (blk_blockchain_length b)"

definition pcb_ok :: "(state_hash \<Rightarrow> nat) \<Rightarrow> precomputed_block \<Rightarrow> bool" where
  "pcb_ok L pcb \<longleftrightarrow> length_ok L (previous_state_hash pcb) (state_hash_of pcb) (blockchain_length pcb)"

definition links :: "(state_hash \<Rightarrow> nat) \<Rightarrow> block \<Rightarrow> block \<Rightarrow> bool" where
  "links L c b \<longleftrightarrow> is_child c b \<and> block_ok L b"

definition good_branch ::
    "('t, 'n) tree_ops \<Rightarrow> ('t \<Rightarrow> bool) \<Rightarrow> (state_hash \<Rightarrow> nat) \<Rightarrow> ('t, 'n) branch \<Rightarrow> bool" where
  "good_branch T ok L br \<longleftrightarrow> branch_inv T ok (links L) br \<and>
     (\<forall>b. op_get T (br_branches br) (br_root br) = Some b \<longrightarrow> block_ok L b)"

definition forest :: "('t, 'n) indexer_state \<Rightarrow> ('t, 'n) branch list" where
  "forest st = st_root_branch st # st_dangling_branches st"

definition forest_inv ::
    "('t, 'n) tree_ops \<Rightarrow> ('t \<Rightarrow> bool) \<Rightarrow> (state_hash \<Rightarrow> nat) \<Rightarrow> ('t, 'n) indexer_state \<Rightarrow> bool" where
  "forest_inv T ok L st \<longleftrightarrow> (\<forall>br\<in>set (forest st). good_branch T ok L br) \<and>
     op_get T (br_branches (st_root_branch st)) (tip_node_id (st_best_tip st)) \<noteq> None"

definition forest_hashes :: "('t, 'n) tree_ops \<Rightarrow> ('t, 'n) indexer_state \<Rightarrow> state_hash multiset" where
  "forest_hashes T st = sum_list (map (branch_hashes T) (forest st))"

definition reverse_of :: "('t, 'n) tree_ops \<Rightarrow> precomputed_block \<Rightarrow> ('t, 'n) branch \<Rightarrow> bool" where
  "reverse_of T pcb br \<longleftrightarrow>
     blk_parent_hash (the (op_get T (br_branches br) (br_root br))) = state_hash_of pcb"

definition pcb_node :: "(u8 list \<Rightarrow> u8 list) \<Rightarrow> precomputed_block \<Rightarrow> block \<Rightarrow> bool" where
  "pcb_node blake2b pcb b \<longleftrightarrow> (\<exists>h. b = block_from_precomputed blake2b pcb h)"

lemma height_free_links: "height_free (links L)"
  by (simp add: height_free_def links_def is_child_def block_ok_def)

lemma block_ok_precomputed [simp]: "block_ok L (block_from_precomputed blake2b pcb h) \<longleftrightarrow> pcb_ok L pcb"
  by (simp add: block_ok_def pcb_ok_def)

lemma block_ok_raise [simp]: "block_ok L (b\<lparr>blk_height := h\<rparr>) = block_ok L b"
  by (simp add: block_ok_def)

section \<open>Index arithmetic of the removal loops\<close>

definition matching :: "('a \<Rightarrow> bool) \<Rightarrow> nat \<Rightarrow> 'a list \<Rightarrow> nat list" where
  "matching P k xs = map fst (filter (P \<circ> snd) (enumerate k xs))"

lemma matching_simps [simp]:
  "matching P k [] = []"
  "matching P k (x # xs) = (if P x then k # matching P (Suc k) xs else matching P (Suc k) xs)"
  by (simp_all add: matching_def)

lemma matching_append: "matching P k (xs @ ys) = matching P k xs @ matching P (k + length xs) ys"
  by (induction xs arbitrary: k) auto

lemma matching_none: "(\<And>x. x \<in> set xs \<Longrightarrow> \<not> P x) \<Longrightarrow> matching P k xs = []"
  by (induction xs arbitrary: k) auto

lemma matching_Nil_iff: "matching P k xs = [] \<longleftrightarrow> (\<forall>x\<in>set xs. \<not> P x)"
  by (induction xs arbitrary: k) auto

lemma matching_map: "map fst (filter snd (enumerate k (map P xs))) = matching P k xs"
  by (induction xs arbitrary: k) auto

lemma remove_ok_nth [simp]: "remove_ok (length ys) (ys @ z # zs) = Inr (ys @ zs)"
  by (simp add: remove_ok_def)

lemma remove_branches_matching_gen:
  "fold_ok (\<lambda>(n, i) bs. if n \<le> i then remove_ok (i - n) bs else Inl IndexOutOfBounds) (enumerate n (matching P (length ys + n) zs)) (ys @ zs)
    = Inr (ys @ filter (\<lambda>z. \<not> P z) zs)"
proof (induction zs arbitrary: ys n)
  case (Cons z zs)
  show ?case
  proof (cases "P z")
    case True
    then show ?thesis using Cons[of "Suc n" ys] by simp
  next
    case False
    then show ?thesis using Cons[of n "ys @ [z]"] by simp
  qed
qed simp

lemma remove_branches_matching: "remove_branches (matching P 0 xs) xs = Inr (filter (\<lambda>x. \<not> P x) xs)"
  unfolding remove_branches_def using remove_branches_matching_gen[of 0 P "[]" xs] by simp

context id_tree
begin

lemma goodD:
  assumes "good_branch T ok L br"
  shows "branch_inv T ok (links L) br" "op_get T (br_branches br) (br_root br) = Some b \<Longrightarrow> block_ok L b"
  using assms by (simp_all add: good_branch_def)

lemma is_reverse_ok:
  assumes "good_branch T ok L br"
  shows "is_reverse_extension T pcb br = Inr (reverse_of T pcb br)"
  using root_block_ok[OF goodD(1)[OF assms]] by (auto simp: is_reverse_extension_def reverse_of_def)

lemma node_length:
  assumes good: "good_branch T ok L br" and "op_get T (br_branches br) j = Some b"
    and root: "op_get T (br_branches br) (br_root br) = Some r"
  shows "L (blk_state_hash r) \<le> L (blk_state_hash b) \<and> block_ok L b"
proof -
  note inv = goodD(1)[OF good]
  obtain as where "path_up (op_parent T (br_branches br)) j as" using path_ex invD(1)[OF inv] by blast
  then show ?thesis using assms(2)
  proof (induction arbitrary: b rule: path_up.induct)
    case (top i)
    then have "i = br_root br" using invD(3)[OF inv] by blast
    with top root goodD(2)[OF good root] show ?case by simp
  next
    case (up i p as)
    obtain c where c: "op_get T (br_branches br) p = Some c"
      using parent_node[OF invD(1)[OF inv] up.hyps(1)] by blast
    with invD(5)[OF inv up.hyps(1) up.prems c] up.IH[OF c] show ?case
      by (auto simp: links_def is_child_def block_ok_def length_ok_def)
  qed
qed

lemma extension_good:
  assumes good: "good_branch T ok L br" and pcb: "pcb_ok L pcb"
  shows "simple_extension T blake2b pcb br = Inr (br, None) \<or>
    (\<exists>br' n b. simple_extension T blake2b pcb br = Inr (br', Some (n, b)) \<and> good_branch T ok L br' \<and>
      br_root br' = br_root br \<and> op_get T (br_branches br') n = Some b \<and> pcb_node blake2b pcb b \<and>
      branch_hashes T br' = add_mset (state_hash_of pcb) (branch_hashes T br) \<and>
      (\<forall>j. op_get T (br_branches br) j \<noteq> None \<longrightarrow> op_get T (br_branches br') j = op_get T (br_branches br) j))"
proof -
  note inv = goodD(1)[OF good]
  from simple_extension_ok[OF inv, of blake2b pcb] show ?thesis
  proof (elim disjE conjE exE)
    fix p t' n and c :: block
    let ?b = "block_from_precomputed blake2b pcb (blk_height c + 1)"
    assume p: "op_get T (br_branches br) p = Some c" "blk_state_hash c = previous_state_hash pcb"
      and ins: "op_insert_under T p ?b (br_branches br) = Some (t', n)"
      and run: "simple_extension T blake2b pcb br = Inr (br\<lparr>br_branches := t'\<rparr>, Some (n, ?b))"
    have "links L c ?b" using p(2) pcb by (simp add: links_def is_child_def)
    note grown = inv_insert_under[OF inv p(1) ins _ this]
    then have "n \<noteq> br_root br" using root_get[OF inv] by auto
    then have "good_branch T ok L (br\<lparr>br_branches := t'\<rparr>)"
      using grown goodD(2)[OF good] by (simp add: good_branch_def)
    then show ?thesis using grown run by (auto simp: pcb_node_def)
  qed simp
qed

lemma merge_good:
  assumes good: "good_branch T ok L br" "good_branch T ok L inc"
    and j: "op_get T (br_branches br) j = Some c" "pcb_node blake2b pcb c" and rev: "reverse_of T pcb inc"
  shows "\<exists>br' n. merge_on T j inc br = Inr (br', Some n) \<and> good_branch T ok L br' \<and>
    br_root br' = br_root br \<and> op_get T (br_branches br') n \<noteq> None \<and>
    branch_hashes T br' = branch_hashes T br + branch_hashes T inc \<and>
    (\<forall>p. op_get T (br_branches br) p \<noteq> None \<longrightarrow> op_get T (br_branches br') p = op_get T (br_branches br) p)"
proof -
  note inv = goodD(1)[OF good(1)] and invi = goodD(1)[OF good(2)]
  obtain rb where rb: "op_get T (br_branches inc) (br_root inc) = Some rb" using root_get[OF invi] by blast
  have "links L c rb"
    using rb rev j(2) goodD(2)[OF good(2) rb] by (auto simp: links_def is_child_def reverse_of_def pcb_node_def)
  from merge_on_ok[OF inv invi height_free_links j(1) rb this] obtain br' n where br':
    "merge_on T j inc br = Inr (br', Some n)" "branch_inv T ok (links L) br'" "br_root br' = br_root br"
    "branch_hashes T br' = branch_hashes T br + branch_hashes T inc" "op_get T (br_branches br') n \<noteq> None"
    "\<And>p. op_get T (br_branches br) p \<noteq> None \<Longrightarrow> op_get T (br_branches br') p = op_get T (br_branches br) p"
    by blast
  then have "good_branch T ok L br'" using root_get[OF inv] goodD(2)[OF good(1)] by (auto simp: good_branch_def)
  with br' show ?thesis by blast
qed

end

context id_tree
begin

lemma merge_dangling_fold:
  assumes "good_branch T ok L root" "op_get T (br_branches root) new = Some c" "pcb_node blake2b pcb c"
    "\<And>d. d \<in> set ds \<Longrightarrow> good_branch T ok L d"
    "\<And>i. i \<in> set tips \<Longrightarrow> op_get T (br_branches root) i \<noteq> None"
  shows "\<exists>root' tips'. fold_ok (merge_dangling T pcb new) (enumerate k ds) (root, tips, idx) =
      Inr (root', tips', idx @ matching (reverse_of T pcb) k ds) \<and> good_branch T ok L root' \<and>
    (\<forall>p. op_get T (br_branches root) p \<noteq> None \<longrightarrow> op_get T (br_branches root') p = op_get T (br_branches root) p) \<and>
    (\<forall>i\<in>set tips'. op_get T (br_branches root') i \<noteq> None) \<and>
    branch_hashes T root' =
      branch_hashes T root + sum_list (map (branch_hashes T) (filter (reverse_of T pcb) ds))"
  using assms
proof (induction ds arbitrary: root tips idx k)
  case (Cons d ds)
  have d: "good_branch T ok L d" using Cons.prems(4) by auto
  note rev = is_reverse_ok[OF d, of pcb]
  show ?case
  proof (cases "reverse_of T pcb d")
    case False
    then have "merge_dangling T pcb new (k, d) (root, tips, idx) = Inr (root, tips, idx)"
      using rev by (simp add: merge_dangling_def)
    then show ?thesis using Cons.IH[where k = "Suc k" and idx = idx, OF Cons.prems(1-3) _ Cons.prems(5)] Cons.prems(4) False by simp
  next
    case True
    obtain root1 n where r1: "merge_on T new d root = Inr (root1, Some n)" "good_branch T ok L root1"
        "op_get T (br_branches root1) n \<noteq> None"
        "branch_hashes T root1 = branch_hashes T root + branch_hashes T d"
        "\<And>p. op_get T (br_branches root) p \<noteq> None \<Longrightarrow> op_get T (br_branches root1) p = op_get T (br_branches root) p"
      using merge_good[OF Cons.prems(1) d Cons.prems(2,3) True] by blast
    have step: "merge_dangling T pcb new (k, d) (root, tips, idx) = Inr (root1, tips @ [n], idx @ [k])"
      using rev True r1(1) by (simp add: merge_dangling_def)
    have new: "op_get T (br_branches root1) new = Some c" using r1(5)[of new] Cons.prems(2) by simp
    have tips: "op_get T (br_branches root1) i \<noteq> None" if "i \<in> set (tips @ [n])" for i
      using that r1(3) r1(5)[of i] Cons.prems(5)[of i] by auto
    have "\<exists>root' tips'. fold_ok (merge_dangling T pcb new) (enumerate (Suc k) ds) (root1, tips @ [n], idx @ [k]) =
        Inr (root', tips', (idx @ [k]) @ matching (reverse_of T pcb) (Suc k) ds) \<and> good_branch T ok L root' \<and>
      (\<forall>p. op_get T (br_branches root1) p \<noteq> None \<longrightarrow> op_get T (br_branches root') p = op_get T (br_branches root1) p) \<and>
      (\<forall>i\<in>set tips'. op_get T (br_branches root') i \<noteq> None) \<and>
      branch_hashes T root' =
        branch_hashes T root1 + sum_list (map (branch_hashes T) (filter (reverse_of T pcb) ds))"
      using Cons.prems(4) by (intro Cons.IH[OF r1(2) new Cons.prems(3) _ tips]) auto
    then show ?thesis using step True r1(4,5) by (auto simp: add.assoc)
  qed
qed auto

lemma update_best_tip_ok:
  assumes "op_get T (br_branches (st_root_branch st)) (tip_node_id (st_best_tip st)) \<noteq> None"
    "op_get T (br_branches (st_root_branch st)) i \<noteq> None"
  shows "\<exists>st'. update_best_tip T b i st = Inr st' \<and> st_root_branch st' = st_root_branch st \<and>
    st_dangling_branches st' = st_dangling_branches st \<and>
    op_get T (br_branches (st_root_branch st')) (tip_node_id (st_best_tip st')) \<noteq> None"
  using assms by (auto simp: update_best_tip_def best_tip_block_def get_block_from_id_def node_data_def)

lemma merged_tips_ok:
  assumes tip: "op_get T (br_branches (st_root_branch st)) (tip_node_id (st_best_tip st)) \<noteq> None"
    and tips: "\<And>i. i \<in> set tips \<Longrightarrow> op_get T (br_branches (st_root_branch st)) i \<noteq> None"
  shows "\<exists>ps st'. traverse_ok (\<lambda>i. map_ok (Pair i) (node_data T (br_branches (st_root_branch st)) i)) tips = Inr ps \<and>
    (case min_by (\<lambda>(_, a) (_, b). block_cmp a b) ps of None \<Rightarrow> Inr st
      | Some (i, b) \<Rightarrow> update_best_tip T b i st) = Inr st' \<and>
    st_root_branch st' = st_root_branch st \<and> st_dangling_branches st' = st_dangling_branches st \<and>
    op_get T (br_branches (st_root_branch st')) (tip_node_id (st_best_tip st')) \<noteq> None"
proof -
  let ?get = "op_get T (br_branches (st_root_branch st))"
  let ?ps = "map (\<lambda>i. (i, the (?get i))) tips"
  have trav: "traverse_ok (\<lambda>i. map_ok (Pair i) (node_data T (br_branches (st_root_branch st)) i)) tips = Inr ?ps"
    by (rule traverse_ok_total) (use tips in \<open>fastforce simp: node_data_def\<close>)
  show ?thesis
  proof (cases "min_by (\<lambda>(_, a) (_, b). block_cmp a b) ?ps")
    case None
    then show ?thesis using trav tip by (intro exI[of _ ?ps] exI[of _ st]) simp
  next
    case (Some p)
    then have "fst p \<in> set tips" using min_by_in by fastforce
    then obtain st' where "update_best_tip T (snd p) (fst p) st = Inr st'"
        "st_root_branch st' = st_root_branch st" "st_dangling_branches st' = st_dangling_branches st"
        "op_get T (br_branches (st_root_branch st')) (tip_node_id (st_best_tip st')) \<noteq> None"
      using update_best_tip_ok[OF tip tips] by blast
    then show ?thesis using trav Some by (intro exI[of _ ?ps] exI[of _ st']) (simp add: case_prod_unfold)
  qed
qed

lemma root_extension_ok:
  assumes inv: "forest_inv T ok L st" and pcb: "pcb_ok L pcb"
  shows "root_extension T blake2b pcb st = Inr (st, None) \<or>
    (\<exists>st' b. root_extension T blake2b pcb st =
        Inr (st', Some (if \<exists>d\<in>set (st_dangling_branches st). reverse_of T pcb d then RootComplex b else RootSimple b)) \<and>
      best_tip_block T st' = Inr b \<and> forest_inv T ok L st' \<and>
      forest_hashes T st' = add_mset (state_hash_of pcb) (forest_hashes T st))"
proof -
  let ?root = "st_root_branch st" and ?ds = "st_dangling_branches st" and ?P = "reverse_of T pcb"
  have good: "good_branch T ok L ?root" "\<And>d. d \<in> set ?ds \<Longrightarrow> good_branch T ok L d"
    and tip: "op_get T (br_branches ?root) (tip_node_id (st_best_tip st)) \<noteq> None"
    using inv by (auto simp: forest_inv_def forest_def)
  from extension_good[OF good(1) pcb, of blake2b] show ?thesis
  proof (elim disjE exE conjE)
    fix root new b
    assume ext: "simple_extension T blake2b pcb ?root = Inr (root, Some (new, b))" and root: "good_branch T ok L root"
      "op_get T (br_branches root) new = Some b" "pcb_node blake2b pcb b"
      "branch_hashes T root = add_mset (state_hash_of pcb) (branch_hashes T ?root)"
      and old: "\<forall>j. op_get T (br_branches ?root) j \<noteq> None \<longrightarrow> op_get T (br_branches root) j = op_get T (br_branches ?root) j"
    obtain root' tips where fold: "fold_ok (merge_dangling T pcb new) (enumerate 0 ?ds) (root, [], []) =
        Inr (root', tips, matching ?P 0 ?ds)" "good_branch T ok L root'"
        "\<forall>p. op_get T (br_branches root) p \<noteq> None \<longrightarrow> op_get T (br_branches root') p = op_get T (br_branches root) p"
        "\<forall>i\<in>set tips. op_get T (br_branches root') i \<noteq> None"
        "branch_hashes T root' = branch_hashes T root + sum_list (map (branch_hashes T) (filter ?P ?ds))"
      using merge_dangling_fold[where k = 0 and idx = "[]" and tips = "[]" and ds = "st_dangling_branches st",
          OF root(1-3) good(2)] by auto
    let ?st1 = "st\<lparr>st_root_branch := root'\<rparr>"
    obtain ps st2 where st2:
        "traverse_ok (\<lambda>i. map_ok (Pair i) (node_data T (br_branches root') i)) tips = Inr ps"
        "(case min_by (\<lambda>(_, a) (_, b). block_cmp a b) ps of None \<Rightarrow> Inr ?st1
          | Some (i, b) \<Rightarrow> update_best_tip T b i ?st1) = Inr st2" "st_root_branch st2 = root'"
        "st_dangling_branches st2 = ?ds" "op_get T (br_branches root') (tip_node_id (st_best_tip st2)) \<noteq> None"
      using merged_tips_ok[of ?st1 tips] tip old fold(3,4) by auto
    obtain st3 where st3: "update_best_tip T b new st2 = Inr st3" "st_root_branch st3 = root'"
        "st_dangling_branches st3 = ?ds" "op_get T (br_branches root') (tip_node_id (st_best_tip st3)) \<noteq> None"
      using update_best_tip_ok[of st2 new b] st2 root(2) fold(3) by auto
    let ?st = "st3\<lparr>st_dangling_branches := filter (\<lambda>d. \<not> ?P d) ?ds\<rparr>"
    obtain tb where tb: "best_tip_block T ?st = Inr tb"
      using st3 by (auto simp: best_tip_block_def get_block_from_id_def node_data_def)
    have run: "root_extension T blake2b pcb st = Inr (?st, Some (if \<exists>d\<in>set ?ds. ?P d then RootComplex tb else RootSimple tb))"
      using ext fold(1) st2(1,2) st3(1,3) remove_branches_matching[of ?P ?ds] tb
      by (simp add: root_extension_def Let_def matching_Nil_iff)
    have "forest_inv T ok L ?st" using st3 fold(2) good(2) by (auto simp: forest_inv_def forest_def)
    moreover have "forest_hashes T ?st = add_mset (state_hash_of pcb) (forest_hashes T st)"
      using st3(2) fold(5) root(4) sum_list_partition[of "branch_hashes T" ?P ?ds]
      by (simp add: forest_hashes_def forest_def add.assoc)
    ultimately show ?thesis using run tb by blast
  qed (simp add: root_extension_def)
qed

end

text \<open>What the scan of the dangling branches finds: the \<open>e\<close>-th one, extended to \<open>d'\<close> by the node \<open>n\<close>.\<close>

definition scan_found :: "('t, 'n) tree_ops \<Rightarrow> ('t \<Rightarrow> bool) \<Rightarrow> (state_hash \<Rightarrow> nat) \<Rightarrow>
    (u8 list \<Rightarrow> u8 list) \<Rightarrow> precomputed_block \<Rightarrow> ('t, 'n) branch list \<Rightarrow> nat \<Rightarrow> ('t, 'n) branch \<Rightarrow> 'n \<Rightarrow> bool" where
  "scan_found T ok L blake2b pcb ds e d' n \<longleftrightarrow>
     (\<exists>xs d ys b. ds = xs @ d # ys \<and> e = length xs \<and> good_branch T ok L d' \<and>
       op_get T (br_branches d') n = Some b \<and> pcb_node blake2b pcb b \<and>
       branch_hashes T d' = add_mset (state_hash_of pcb) (branch_hashes T d) \<and>
       \<not> reverse_of T pcb d' \<and> (\<forall>x\<in>set xs. \<not> reverse_of T pcb x))"

lemma pcb_parent_differs:
  assumes "pcb_ok L pcb"
  shows "previous_state_hash pcb \<noteq> state_hash_of pcb"
proof
  assume "previous_state_hash pcb = state_hash_of pcb"
  then have "L (previous_state_hash pcb) = L (state_hash_of pcb)" by (rule arg_cong)
  with assms show False unfolding pcb_ok_def length_ok_def by linarith
qed

lemma scan_found_here:
  assumes "good_branch T ok L d'" "op_get T (br_branches d') n = Some b" "pcb_node blake2b pcb b"
    "branch_hashes T d' = add_mset (state_hash_of pcb) (branch_hashes T d)" "\<not> reverse_of T pcb d'"
  shows "scan_found T ok L blake2b pcb (d # ds) 0 d' n"
  unfolding scan_found_def using assms
  by (intro exI[of _ "[]"] exI[of _ d] exI[of _ ds] exI[of _ b]) simp

lemma scan_found_later:
  assumes "scan_found T ok L blake2b pcb ds e d' n" "\<not> reverse_of T pcb d"
  shows "scan_found T ok L blake2b pcb (d # ds) (Suc e) d' n"
proof -
  obtain xs c ys b where "ds = xs @ c # ys" "e = length xs" "good_branch T ok L d'"
    "op_get T (br_branches d') n = Some b" "pcb_node blake2b pcb b"
    "branch_hashes T d' = add_mset (state_hash_of pcb) (branch_hashes T c)"
    "\<not> reverse_of T pcb d'" "\<forall>x\<in>set xs. \<not> reverse_of T pcb x"
    using assms(1) unfolding scan_found_def by blast
  with assms(2) show ?thesis unfolding scan_found_def
    by (intro exI[of _ "d # xs"] exI[of _ c] exI[of _ ys] exI[of _ b]) simp
qed

context id_tree
begin

lemma new_root_good:
  assumes good: "good_branch T ok L br" and pcb: "pcb_ok L pcb" and rev: "reverse_of T pcb br"
  shows "\<exists>br' b. new_root T blake2b pcb br = Inr br' \<and> good_branch T ok L br' \<and>
    op_get T (br_branches br') (br_root br') = Some b \<and> pcb_node blake2b pcb b \<and>
    branch_hashes T br' = add_mset (state_hash_of pcb) (branch_hashes T br)"
proof -
  note inv = goodD(1)[OF good]
  obtain rb where rb: "root_block T br = Inr rb" "op_get T (br_branches br) (br_root br) = Some rb"
    using root_block_ok[OF inv] by blast
  have "links L (block_from_precomputed blake2b pcb 0) rb"
    using rb(2) rev goodD(2)[OF good rb(2)] by (simp add: links_def is_child_def reverse_of_def)
  from new_root_ok[OF inv height_free_links rb(1) this] show ?thesis
    using pcb by (fastforce simp: good_branch_def pcb_node_def)
qed

text \<open>The bounds on lengths never hide a branch that the block connects to from below.\<close>

lemma reverse_in_bounds:
  assumes good: "good_branch T ok L br" and pcb: "pcb_ok L pcb" and rev: "reverse_of T pcb br"
    and rb: "op_get T (br_branches br) (br_root br) = Some rb" and tip: "op_get T (br_branches br) i = Some tip"
  shows "blk_blockchain_length tip + 1 \<ge> blockchain_length pcb \<and>
    blockchain_length pcb + 1 \<ge> blk_blockchain_length rb"
proof -
  have "block_ok L rb" "blk_parent_hash rb = state_hash_of pcb"
    using goodD(2)[OF good rb] rb rev by (auto simp: reverse_of_def)
  then have len: "unat (blk_blockchain_length rb) = unat (blockchain_length pcb) + 1"
    "unat (blockchain_length pcb) + 1 < 2 ^ 32"
    using pcb by (auto simp: block_ok_def pcb_ok_def length_ok_def)
  have tip_len: "unat (blk_blockchain_length rb) \<le> unat (blk_blockchain_length tip)"
    "unat (blk_blockchain_length tip) + 1 < 2 ^ 32"
    using node_length[OF good tip rb] \<open>block_ok L rb\<close> by (auto simp: block_ok_def length_ok_def)
  have "unat (blk_blockchain_length tip + 1) = unat (blk_blockchain_length tip) + 1"
    "unat (blockchain_length pcb + 1) = unat (blockchain_length pcb) + 1"
    by (rule unat_plus_one, use tip_len len in simp)+
  then show ?thesis using len tip_len by (simp add: word_le_nat_alt)
qed

lemma scan_step:
  assumes d: "good_branch T ok L d" and pcb: "pcb_ok L pcb"
  shows "(\<not> reverse_of T pcb d \<and>
      dangling_scan T blake2b pcb k (d # ds) = dangling_scan T blake2b pcb (Suc k) ds) \<or>
    (\<exists>d' n dir. dangling_scan T blake2b pcb k (d # ds) = Inr (Some (k, d', n, dir)) \<and>
      scan_found T ok L blake2b pcb (d # ds) 0 d' n)"
proof -
  note inv = goodD(1)[OF d] and rev = is_reverse_ok[OF d, of pcb]
  obtain rb where rb: "root_block T d = Inr rb" "op_get T (br_branches d) (br_root d) = Some rb"
    using root_block_ok[OF inv] by blast
  obtain i tip where tip: "best_tip_with_id T d = Inr (Some (i, tip))" "op_get T (br_branches d) i = Some tip"
    using best_tip_ok[OF inv] by blast
  have unfold: "map_ok blk_blockchain_length (root_block T d) = Inr (blk_blockchain_length rb)"
    "bind_ok (branch_best_tip T d) unwrap = Inr tip" using rb tip by (simp_all add: branch_best_tip_def)
  note scan = dangling_scan.simps(2)[of T blake2b pcb k d ds, unfolded unfold rev bind_ok.simps]
  show ?thesis
  proof (cases "reverse_of T pcb d")
    case True
    then obtain d' b where d': "new_root T blake2b pcb d = Inr d'" "good_branch T ok L d'"
        "op_get T (br_branches d') (br_root d') = Some b" "pcb_node blake2b pcb b"
        "branch_hashes T d' = add_mset (state_hash_of pcb) (branch_hashes T d)"
      using new_root_good[OF d pcb True] by blast
    have "\<not> reverse_of T pcb d'" using d'(3,4) pcb_parent_differs[OF pcb] by (auto simp: reverse_of_def pcb_node_def)
    then have "scan_found T ok L blake2b pcb (d # ds) 0 d' (br_root d')"
      using scan_found_here[OF d'(2-5)] by blast
    moreover have "dangling_scan T blake2b pcb k (d # ds) = Inr (Some (k, d', br_root d', Reverse))"
      unfolding scan using reverse_in_bounds[OF d pcb True rb(2) tip(2)] True d'(1) invD(2)[OF goodD(1)[OF d'(2)]]
      by simp
    ultimately show ?thesis by blast
  next
    case False
    from extension_good[OF d pcb, of blake2b] show ?thesis
    proof (elim disjE exE conjE)
      assume "simple_extension T blake2b pcb d = Inr (d, None)"
      then show ?thesis unfolding scan using False by simp
    next
      fix d' n b
      assume ext: "simple_extension T blake2b pcb d = Inr (d', Some (n, b))" and d': "good_branch T ok L d'"
        "op_get T (br_branches d') n = Some b" "pcb_node blake2b pcb b"
        "branch_hashes T d' = add_mset (state_hash_of pcb) (branch_hashes T d)"
        and old: "br_root d' = br_root d"
        "\<forall>j. op_get T (br_branches d) j \<noteq> None \<longrightarrow> op_get T (br_branches d') j = op_get T (br_branches d) j"
      have "\<not> reverse_of T pcb d'" using False old rb(2) by (simp add: reverse_of_def)
      then have "scan_found T ok L blake2b pcb (d # ds) 0 d' n" using scan_found_here[OF d'] by blast
      then show ?thesis unfolding scan using False ext by simp
    qed
  qed
qed

lemma dangling_scan_ok:
  assumes "\<forall>d\<in>set ds. good_branch T ok L d" and pcb: "pcb_ok L pcb"
  shows "dangling_scan T blake2b pcb k ds = Inr None \<or>
    (\<exists>e d' n dir. dangling_scan T blake2b pcb k ds = Inr (Some (k + e, d', n, dir)) \<and>
      scan_found T ok L blake2b pcb ds e d' n)"
  using assms(1)
proof (induction ds arbitrary: k)
  case (Cons d ds)
  have d: "good_branch T ok L d" using Cons.prems by simp
  from scan_step[OF d pcb, of blake2b k ds] show ?case
  proof (elim disjE exE conjE)
    assume skip: "\<not> reverse_of T pcb d"
      "dangling_scan T blake2b pcb k (d # ds) = dangling_scan T blake2b pcb (Suc k) ds"
    have "dangling_scan T blake2b pcb (Suc k) ds = Inr None \<or>
      (\<exists>e d' n dir. dangling_scan T blake2b pcb (Suc k) ds = Inr (Some (Suc k + e, d', n, dir)) \<and>
        scan_found T ok L blake2b pcb ds e d' n)"
      using Cons.IH[of "Suc k"] Cons.prems by simp
    then show ?thesis unfolding skip(2) using scan_found_later[OF _ skip(1)] by (metis add_Suc_shift)
  next
    fix d' n dir
    assume "dangling_scan T blake2b pcb k (d # ds) = Inr (Some (k, d', n, dir))"
      "scan_found T ok L blake2b pcb (d # ds) 0 d' n"
    then show ?thesis by (metis add_0_right)
  qed
qed simp

lemma update_dangling_fold:
  assumes "good_branch T ok L ext" "op_get T (br_branches ext) new = Some c" "pcb_node blake2b pcb c"
    "\<And>d. d \<in> set zs \<Longrightarrow> good_branch T ok L d" "e < Suc (length ys + n)"
  shows "\<exists>ext'. fold_ok (update_dangling_step T e new)
      (enumerate n (matching (reverse_of T pcb) (Suc (length ys + n)) zs)) (ext, ys @ zs) =
      Inr (ext', ys @ filter (\<lambda>z. \<not> reverse_of T pcb z) zs) \<and> good_branch T ok L ext' \<and>
    branch_hashes T ext' = branch_hashes T ext + sum_list (map (branch_hashes T) (filter (reverse_of T pcb) zs))"
  using assms
proof (induction zs arbitrary: ys n ext)
  case (Cons z zs)
  have z: "good_branch T ok L z" using Cons.prems(4) by auto
  show ?case
  proof (cases "reverse_of T pcb z")
    case False
    then show ?thesis using Cons.IH[of ext "ys @ [z]" n] Cons.prems by simp
  next
    case True
    obtain ext1 m where e1: "merge_on T new z ext = Inr (ext1, Some m)" "good_branch T ok L ext1"
        "branch_hashes T ext1 = branch_hashes T ext + branch_hashes T z"
        "\<And>p. op_get T (br_branches ext) p \<noteq> None \<Longrightarrow> op_get T (br_branches ext1) p = op_get T (br_branches ext) p"
      using merge_good[OF Cons.prems(1) z Cons.prems(2,3) True] by blast
    have "update_dangling_step T e new (n, Suc (length ys + n)) (ext, ys @ z # zs) = Inr (ext1, ys @ zs)"
      using e1(1) Cons.prems(5) by (simp add: update_dangling_step_def)
    moreover have "op_get T (br_branches ext1) new = Some c" using e1(4)[of new] Cons.prems(2) by simp
    ultimately show ?thesis
      using Cons.IH[of ext1 ys "Suc n"] Cons.prems(3-5) True e1(2,3) by (auto simp: add.assoc)
  qed
qed simp

lemma update_dangling_ok:
  assumes ds: "st_dangling_branches st = xs @ d # ys"
    and good: "\<And>x. x \<in> set (xs @ d # ys) \<Longrightarrow> good_branch T ok L x"
    and d: "op_get T (br_branches d) n = Some b" "pcb_node blake2b pcb b"
    and rev: "\<not> reverse_of T pcb d" "\<And>x. x \<in> set xs \<Longrightarrow> \<not> reverse_of T pcb x"
  shows "\<exists>ds' ext. update_dangling T pcb (length xs) n dir st = Inr (st\<lparr>st_dangling_branches := ds'\<rparr>, ext) \<and>
    (\<forall>x\<in>set ds'. good_branch T ok L x) \<and>
    sum_list (map (branch_hashes T) ds') = sum_list (map (branch_hashes T) (xs @ d # ys))"
proof -
  let ?P = "reverse_of T pcb"
  have trav: "traverse_ok (is_reverse_extension T pcb) (xs @ d # ys) = Inr (map ?P (xs @ d # ys))"
    using good is_reverse_ok by (intro traverse_ok_total) blast
  have idx: "map fst (filter snd (enumerate 0 (map ?P (xs @ d # ys)))) = matching ?P (Suc (length xs)) ys"
    unfolding matching_map using rev by (simp add: matching_append matching_none)
  show ?thesis
  proof (cases "matching ?P (Suc (length xs)) ys = []")
    case True
    have "update_dangling T pcb (length xs) n dir st = Inr (st\<lparr>st_dangling_branches := xs @ d # ys\<rparr>,
        case dir of Forward \<Rightarrow> DanglingSimpleForward | Reverse \<Rightarrow> DanglingSimpleReverse)"
      unfolding update_dangling_def ds trav bind_ok.simps Let_def idx using True by (simp flip: ds)
    then show ?thesis using good by blast
  next
    case False
    obtain d' where d': "fold_ok (update_dangling_step T (length xs) n)
        (enumerate 0 (matching ?P (Suc (length xs)) ys)) (d, xs @ ys) = Inr (d', xs @ filter (\<lambda>z. \<not> ?P z) ys)"
        "good_branch T ok L d'" "branch_hashes T d' = branch_hashes T d + sum_list (map (branch_hashes T) (filter ?P ys))"
      using update_dangling_fold[of L d n b blake2b pcb ys "length xs" xs 0] good d by auto
    have "update_dangling T pcb (length xs) n dir st =
        Inr (st\<lparr>st_dangling_branches := (xs @ filter (\<lambda>z. \<not> ?P z) ys) @ [d']\<rparr>, DanglingComplex)"
      unfolding update_dangling_def ds trav bind_ok.simps Let_def idx
      using False d'(1) by (simp add: index_ok_def)
    then show ?thesis using good d'(2,3) sum_list_partition[of "branch_hashes T" ?P ys]
      by (intro exI[of _ "(xs @ filter (\<lambda>z. \<not> ?P z) ys) @ [d']"] exI[of _ DanglingComplex])
        (auto simp: ac_simps)
  qed
qed

lemma place_dangling_ok:
  assumes inv: "forest_inv T ok L st" and pcb: "pcb_ok L pcb"
  shows "\<exists>st' ext. bind_ok (dangling_extension T blake2b pcb st) (\<lambda>(self, dangling).
       case dangling of
         Some (extended_branch_index, new_node_id, direction) \<Rightarrow>
           update_dangling T pcb extended_branch_index new_node_id direction self
       | None \<Rightarrow> Inr (new_dangling T blake2b pcb self)) = Inr (st', ext) \<and>
    forest_inv T ok L st' \<and> forest_hashes T st' = add_mset (state_hash_of pcb) (forest_hashes T st)"
proof -
  let ?ds = "st_dangling_branches st"
  have ds: "\<forall>d\<in>set ?ds. good_branch T ok L d"
    using inv by (auto simp: forest_inv_def forest_def)
  from dangling_scan_ok[OF ds pcb, of blake2b 0] show ?thesis
  proof (elim disjE exE conjE, goal_cases)
    case 1
    have "good_branch T ok L (branch_new T blake2b pcb)"
    proof -
      have "b = block_from_precomputed blake2b pcb 0"
        if "op_get T (br_branches (branch_new T blake2b pcb)) (br_root (branch_new T blake2b pcb)) = Some b" for b
        using that insert_root[OF new(1), of "block_from_precomputed blake2b pcb 0"]
        by (auto simp: branch_new_def split: prod.splits)
      then show ?thesis using branch_new_ok(1)[of "links L"] pcb by (auto simp: good_branch_def)
    qed
    then show ?thesis using 1 inv branch_new_ok(2)[of blake2b pcb]
      by (auto simp: dangling_extension_def new_dangling_def forest_inv_def forest_def forest_hashes_def)
  next
    case (2 e d' n dir)
    from 2(2) obtain xs d ys b where found: "?ds = xs @ d # ys" "e = length xs" "good_branch T ok L d'"
      "op_get T (br_branches d') n = Some b" "pcb_node blake2b pcb b"
      "branch_hashes T d' = add_mset (state_hash_of pcb) (branch_hashes T d)"
      "\<not> reverse_of T pcb d'" "\<forall>x\<in>set xs. \<not> reverse_of T pcb x"
      unfolding scan_found_def by auto
    let ?st1 = "st\<lparr>st_dangling_branches := xs @ d' # ys\<rparr>"
    have ext: "dangling_extension T blake2b pcb st = Inr (?st1, Some (length xs, n, dir))"
      using 2(1) found(1,2) by (simp add: dangling_extension_def)
    have "\<exists>ds' ext. update_dangling T pcb (length xs) n dir ?st1 = Inr (?st1\<lparr>st_dangling_branches := ds'\<rparr>, ext) \<and>
      (\<forall>x\<in>set ds'. good_branch T ok L x) \<and>
      sum_list (map (branch_hashes T) ds') = sum_list (map (branch_hashes T) (xs @ d' # ys))"
      using found ds by (intro update_dangling_ok[where b = b and blake2b = blake2b]) auto
    then obtain ds' ext where upd: "update_dangling T pcb (length xs) n dir ?st1 = Inr (?st1\<lparr>st_dangling_branches := ds'\<rparr>, ext)"
      "\<forall>x\<in>set ds'. good_branch T ok L x"
      "sum_list (map (branch_hashes T) ds') = sum_list (map (branch_hashes T) (xs @ d' # ys))" by blast
    have "forest_inv T ok L (?st1\<lparr>st_dangling_branches := ds'\<rparr>)"
      using inv upd(2) by (simp add: forest_inv_def forest_def)
    moreover have "forest_hashes T (?st1\<lparr>st_dangling_branches := ds'\<rparr>) = add_mset (state_hash_of pcb) (forest_hashes T st)"
      using upd(3) found by (simp add: forest_hashes_def forest_def)
    ultimately show ?thesis using ext upd(1) by simp
  qed
qed

lemma extend_witness_tree_ok:
  assumes inv: "forest_inv T ok L st" and pcb: "pcb_ok L pcb"
  shows "\<exists>st' ext. extend_witness_tree T blake2b pcb st = Inr (st', ext) \<and> forest_inv T ok L st' \<and>
    forest_hashes T st' = add_mset (state_hash_of pcb) (forest_hashes T st)"
proof -
  obtain tip where "best_tip_block T st = Inr tip"
    using inv by (auto simp: forest_inv_def best_tip_block_def get_block_from_id_def node_data_def)
  then obtain within where within: "is_length_within_root_bounds T pcb st = Inr within"
    by (simp add: is_length_within_root_bounds_def)
  have rest: ?thesis if "(if within then root_extension T blake2b pcb st else Inr (st, None)) = Inr (st, None)"
    using place_dangling_ok[OF inv pcb, of blake2b] within that by (simp add: extend_witness_tree_def)
  show ?thesis
  proof (cases within)
    case True
    from root_extension_ok[OF inv pcb, of blake2b] show ?thesis
    proof (elim disjE exE conjE, goal_cases)
      case 1
      then show ?thesis using rest True by simp
    next
      case (2 st' b)
      then show ?thesis using within True by (simp add: extend_witness_tree_def)
    qed
  qed (use rest in simp)
qed

end

section \<open>Examples\<close>

definition example_length :: "state_hash \<Rightarrow> nat" where
  "example_length h = (if h = ''3N1'' then 2 else length h - 2)"

definition example_witness_tree :: "nat \<Rightarrow> (ref_tree, nat) indexer_state" where
  "example_witness_tree n = \<lparr>
     st_best_tip = \<lparr>tip_state_hash = example_hash (n - 1), tip_node_id = n - 1\<rparr>,
     st_canonical_root = \<lparr>tip_state_hash = example_hash 0, tip_node_id = 0\<rparr>,
     st_ledger = example_ledger, st_ledger_cadence = 100,
     st_diffs_map = (\<lambda>_. Some (example_diff [])),
     st_root_branch = example_chain n, st_dangling_branches = [], st_store = None,
     st_transition_frontier_length = 290, st_prune_interval = 10, st_reporting_freq = 1000, st_canonical_update_threshold = 2,
     st_canonical_threshold = 10, st_blocks_processed = 1, st_bytes_processed = 0\<rparr>"

lemma example_witness_tree_simps [simp]:
  "st_ledger (example_witness_tree n) = example_ledger"
  "st_diffs_map (example_witness_tree n) h = Some (example_diff [])"
  "st_ledger_cadence (example_witness_tree n) = 100"
  by (simp_all add: example_witness_tree_def)

lemma example_hash_inj: "example_hash i = example_hash j \<longleftrightarrow> i = j"
proof
  assume "example_hash i = example_hash j"
  then have "length (example_hash i) = length (example_hash j)" by simp
  then show "i = j" by (simp add: example_hash_def)
qed simp

lemma example_forest_inv: "forest_inv ref_ops ref_ok example_length (example_witness_tree 1)"
proof -
  have "branch_inv ref_ops ref_ok (links example_length) (example_chain 1)"
    by (rule ref.branch_invI) (use example_chain_ok[of 1] in
      \<open>auto simp: example_chain_def ref_proj example_node_def split: if_splits\<close>)
  then show ?thesis
    by (auto simp: forest_inv_def forest_def good_branch_def example_witness_tree_def ref_proj example_chain_def
        example_node_def example_hash_def block_ok_def length_ok_def example_length_def)
qed

section \<open>Properties of the witness tree\<close>

text \<open>
  C3: blocks that agree on the length of the chain below them, added in any order, are placed one by one
  without a panic, and the root branch and the dangling branches together hold each of them exactly as
  often as it was added: merging and re-rooting branches loses and duplicates none.
\<close>

theorem witness_tree_keeps_blocks:
  assumes "id_tree T ok" "forest_inv T ok L st" "\<forall>pcb\<in>set pcbs. pcb_ok L pcb"
  shows "\<exists>st'. fold_ok (\<lambda>pcb s. map_ok fst (extend_witness_tree T blake2b pcb s)) pcbs st = Inr st' \<and>
    forest_inv T ok L st' \<and>
    forest_hashes T st' = forest_hashes T st + mset (map state_hash_of pcbs)"
  using assms(2,3)
proof (induction pcbs arbitrary: st)
  case (Cons pcb pcbs)
  obtain st1 ext where st1: "extend_witness_tree T blake2b pcb st = Inr (st1, ext)" "forest_inv T ok L st1"
    "forest_hashes T st1 = add_mset (state_hash_of pcb) (forest_hashes T st)"
    using id_tree.extend_witness_tree_ok[OF assms(1) Cons.prems(1), of pcb blake2b] Cons.prems(2) by auto
  with Cons.IH[OF st1(2)] Cons.prems(2) show ?case by simp
qed simp

theorem witness_tree_keeps_blocks_witness:
  "\<exists>st'. fold_ok (\<lambda>pcb s. map_ok fst (extend_witness_tree ref_ops id pcb s)) [example_block] (example_witness_tree 1)
      = Inr st' \<and> forest_hashes ref_ops st' = {#''3N1'', ''3N0''#}"
proof -
  have "forest_hashes ref_ops (example_witness_tree 1) = {#''3N0''#}"
    by (simp add: forest_hashes_def forest_def example_witness_tree_def branch_hashes_def ref_proj example_chain_def
        dom_def example_node_def example_hash_def)
  moreover have "\<forall>pcb\<in>set [example_block]. pcb_ok example_length pcb" "state_hash_of example_block = ''3N1''"
    by (simp_all add: pcb_ok_def length_ok_def example_length_def example_block_def previous_state_hash_def
        example_state_def)
  ultimately show ?thesis
    using witness_tree_keeps_blocks[OF ref.id_tree_axioms example_forest_inv, of "[example_block]" id] by auto
qed

end
