(* ===== verification/Canonical_Ledger.thy ===== *)
theory Canonical_Ledger
  imports Witness_Tree
begin

text \<open>
  The canonical root and its ledger: a canonical update moves the root up the best chain and the diffs
  of the passed blocks into the ledger, and the ledger of the best tip stays what it was.
\<close>

section \<open>The best chain\<close>

definition block_at :: "('t, 'n) tree_ops \<Rightarrow> ('t, 'n) indexer_state \<Rightarrow> 'n \<Rightarrow> block" where
  "block_at T st i = the (op_get T (br_branches (st_root_branch st)) i)"

text \<open>
  A best chain \<open>i # xs @ c # ys\<close> from the best tip \<open>i\<close> over the canonical root \<open>c\<close> to the root of the
  branch, in a branch where no two nodes have the same state hash.
\<close>

definition on_best_chain :: "('t, 'n) tree_ops \<Rightarrow> ('t \<Rightarrow> bool) \<Rightarrow> ('t, 'n) indexer_state \<Rightarrow>
    'n \<Rightarrow> 'n list \<Rightarrow> 'n \<Rightarrow> 'n list \<Rightarrow> bool" where
  "on_best_chain T ok st i xs c ys \<longleftrightarrow>
     branch_inv T ok is_child (st_root_branch st) \<and>
     tip_node_id (st_best_tip st) = i \<and> tip_node_id (st_canonical_root st) = c \<and>
     op_get T (br_branches (st_root_branch st)) i \<noteq> None \<and>
     path_up (op_parent T (br_branches (st_root_branch st))) i (xs @ c # ys) \<and>
     length (xs @ c # ys) < 2 ^ 32 \<and>
     inj_on (\<lambda>j. blk_state_hash (block_at T st j)) (dom (op_get T (br_branches (st_root_branch st))))"

text \<open>The diff that \<open>best_ledger\<close> applies for a block.\<close>

definition apply_best :: "(state_hash \<Rightarrow> ledger_diff option) \<Rightarrow> ('t, 'n) indexer_state \<Rightarrow> block \<Rightarrow>
    ledger \<Rightarrow> ledger run" where
  "apply_best stored_diff st b l =
     (case (case st_diffs_map st (blk_state_hash b) of
           Some d \<Rightarrow> Some d
         | None \<Rightarrow> if st_store st = None then None else stored_diff (blk_state_hash b)) of
        Some d \<Rightarrow> ledger_apply_diff d l
      | None \<Rightarrow> Inl PanicCall)"

lemma up_to_top_path: "path_up (op_parent T t) i as \<Longrightarrow> up_to_top T t as = as"
proof (induction rule: path_up.induct)
  case (up i p as)
  then show ?case by (cases as) auto
qed simp

lemma dropWhile_to:
  "inj_on f (set (us @ c # vs)) \<Longrightarrow> distinct (us @ c # vs) \<Longrightarrow>
    dropWhile (\<lambda>x. x \<noteq> f c) (map f (us @ c # vs)) = f c # map f vs"
  by (induction us) (auto simp: inj_on_def)

context id_tree
begin

lemma chain_nodes:
  assumes "on_best_chain T ok st i xs c ys" "j \<in> set (i # xs @ c # ys)"
  shows "op_get T (br_branches (st_root_branch st)) j = Some (block_at T st j)"
proof -
  let ?t = "br_branches (st_root_branch st)"
  have ok: "ok ?t" using assms(1) invD(1) unfolding on_best_chain_def by blast
  have "path_up (op_parent T ?t) i (xs @ c # ys)" using assms(1) by (simp add: on_best_chain_def)
  then have "set (xs @ c # ys) \<subseteq> dom (op_get T ?t)" by (rule path_up_nodes) (use parent_node[OF ok] in blast)
  then show ?thesis using assms by (auto simp: on_best_chain_def block_at_def)
qed

lemma chain_height:
  assumes chain: "on_best_chain T ok st i xs c ys" and split: "i # xs @ c # ys = us @ j # vs"
  shows "unat (blk_height (block_at T st j)) = length vs"
proof -
  let ?par = "op_parent T (br_branches (st_root_branch st))"
  have path: "path_up ?par i (xs @ c # ys)" and inv: "branch_inv T ok is_child (st_root_branch st)"
    and len: "length (xs @ c # ys) < 2 ^ 32" using chain by (auto simp: on_best_chain_def)
  have "path_up ?par j vs" using path split path_up_append by (cases us) auto
  moreover have "j \<in> set (i # xs @ c # ys)" unfolding split by simp
  ultimately have "blk_height (block_at T st j) = of_nat (length vs)"
    using height_path[OF inv] chain_nodes[OF chain] by blast
  moreover have "length vs \<le> length (xs @ c # ys)" using arg_cong[OF split, of length] by simp
  ultimately show ?thesis using len by (simp add: unat_of_nat)
qed

lemma best_ledger_chain:
  assumes chain: "on_best_chain T ok st i xs c ys"
  shows "best_ledger T stored_diff st =
    fold_ok (apply_best stored_diff st) (map (block_at T st) (rev (i # xs))) (st_ledger st)"
proof -
  let ?t = "br_branches (st_root_branch st)" and ?B = "block_at T st"
  have path: "path_up (op_parent T ?t) i (xs @ c # ys)" and inv: "branch_inv T ok is_child (st_root_branch st)"
    and ids: "tip_node_id (st_best_tip st) = i" "tip_node_id (st_canonical_root st) = c"
    using chain by (auto simp: on_best_chain_def)
  note nodes = chain_nodes[OF chain]
  have anc: "op_ancestors T ?t i = Some (xs @ c # ys)"
    using ancestors[OF invD(1)[OF inv], of i] path path_up_det nodes[of i] by fastforce
  have "traverse_ok (node_data T ?t) (xs @ c # ys) = Inr (map ?B (xs @ c # ys))"
    using nodes by (intro traverse_ok_total) (auto simp: node_data_def)
  then have best: "best_chain T st = Inr (map ?B (i # xs @ c # ys))"
    using anc nodes[of i] ids up_to_top_path[OF path]
    by (simp add: best_chain_def best_tip_block_def get_block_from_id_def node_data_def Let_def)
  have "inj_on ?B (set (i # xs @ c # ys))"
  proof (rule inj_onI)
    fix j k assume jk: "j \<in> set (i # xs @ c # ys)" "k \<in> set (i # xs @ c # ys)" "?B j = ?B k"
    then have "j \<in> dom (op_get T ?t)" "k \<in> dom (op_get T ?t)" using nodes by blast+
    then show "j = k" using chain jk(3) unfolding on_best_chain_def inj_on_def by metis
  qed
  moreover have "distinct (i # xs @ c # ys)" by (rule path_up_distinct[OF path])
  ultimately have "dropWhile (\<lambda>b. b \<noteq> ?B c) (map ?B (rev ys @ c # rev (i # xs))) = ?B c # map ?B (rev (i # xs))"
    by (intro dropWhile_to) (auto simp: Un_commute insert_commute)
  then have "drop 1 (dropWhile (\<lambda>b. b \<noteq> ?B c) (rev (map ?B (i # xs @ c # ys)))) = map ?B (rev (i # xs))"
    by (simp add: rev_map)
  moreover have "canonical_root_block T st = Inr (?B c)"
    using nodes[of c] ids by (simp add: canonical_root_block_def get_block_from_id_def node_data_def)
  moreover have "apply_best stored_diff st = (\<lambda>b l.
       case (case st_diffs_map st (blk_state_hash b) of
           Some d \<Rightarrow> Some d
         | None \<Rightarrow> if st_store st = None then None else stored_diff (blk_state_hash b)) of
         Some d \<Rightarrow> ledger_apply_diff d l
       | None \<Rightarrow> Inl PanicCall)" by (simp add: fun_eq_iff apply_best_def)
  ultimately show ?thesis by (simp only: best_ledger_def best bind_ok.simps)
qed

lemma prune_diffs_fold:
  assumes "\<And>j. j \<in> set ids \<Longrightarrow> op_get T (br_branches (st_root_branch st)) j = Some (block_at T st j)"
    "canonical_root_block T st = Inr root"
  shows "\<exists>D. fold_ok (prune_diff T) ids st = Inr (st\<lparr>st_diffs_map := D\<rparr>) \<and>
    (\<forall>h. (\<forall>j\<in>set ids. blk_state_hash (block_at T st j) = h \<longrightarrow> blk_height (block_at T st j) > blk_height root) \<longrightarrow>
      D h = st_diffs_map st h)"
  using assms
proof (induction ids arbitrary: st)
  case Nil
  then show ?case by (intro exI[of _ "st_diffs_map st"]) simp
next
  case (Cons i ids)
  let ?b = "block_at T st i"
  define st1 where "st1 = (if ?b \<noteq> root \<and> blk_height ?b \<le> blk_height root
    then st\<lparr>st_diffs_map := (st_diffs_map st)(blk_state_hash ?b := None)\<rparr> else st)"
  have same: "st_root_branch st1 = st_root_branch st" "st_canonical_root st1 = st_canonical_root st"
    "\<And>j. block_at T st1 j = block_at T st j" "\<And>D. st1\<lparr>st_diffs_map := D\<rparr> = st\<lparr>st_diffs_map := D\<rparr>"
    by (simp_all add: st1_def block_at_def)
  have root: "canonical_root_block T st1 = Inr root"
    using Cons.prems(2) same by (simp add: canonical_root_block_def get_block_from_id_def)
  have step: "prune_diff T i st = Inr st1"
    using Cons.prems by (simp add: prune_diff_def get_block_from_id_def node_data_def st1_def)
  obtain D where D: "fold_ok (prune_diff T) ids st1 = Inr (st1\<lparr>st_diffs_map := D\<rparr>)"
    "\<And>h. \<forall>j\<in>set ids. blk_state_hash (block_at T st j) = h \<longrightarrow> blk_height (block_at T st j) > blk_height root \<Longrightarrow>
      D h = st_diffs_map st1 h"
    using Cons.IH[of st1] Cons.prems(1) root unfolding same by auto
  show ?case
  proof (intro exI[of _ D] conjI allI impI)
    fix h assume h: "\<forall>j\<in>set (i # ids). blk_state_hash (block_at T st j) = h \<longrightarrow>
      blk_height root < blk_height (block_at T st j)"
    then have "D h = st_diffs_map st1 h" using D(2) by simp
    then show "D h = st_diffs_map st h" using h by (auto simp: st1_def split: if_splits)
  qed (use D(1) step same(4) in simp)
qed

lemma prune_diffs_map_ok:
  assumes inv: "branch_inv T ok is_child (st_root_branch st)"
    and old: "op_get T (br_branches (st_root_branch st)) old \<noteq> None"
    and root: "canonical_root_block T st = Inr root"
  shows "\<exists>D. prune_diffs_map T old st = Inr (st\<lparr>st_diffs_map := D\<rparr>) \<and>
    (\<forall>h. (\<forall>j\<in>dom (op_get T (br_branches (st_root_branch st))). blk_state_hash (block_at T st j) = h \<longrightarrow>
        blk_height (block_at T st j) > blk_height root) \<longrightarrow> D h = st_diffs_map st h)"
proof -
  obtain ids where ids: "op_level T (br_branches (st_root_branch st)) old = Some ids"
      "set ids \<subseteq> dom (op_get T (br_branches (st_root_branch st)))"
    using level[OF invD(1)[OF inv] old] by fastforce
  have nodes: "\<And>j. j \<in> set ids \<Longrightarrow> op_get T (br_branches (st_root_branch st)) j = Some (block_at T st j)"
    using ids(2) by (auto simp: block_at_def)
  from prune_diffs_fold[OF nodes root] obtain D where D: "fold_ok (prune_diff T) ids st = Inr (st\<lparr>st_diffs_map := D\<rparr>)"
    "\<forall>h. (\<forall>j\<in>set ids. blk_state_hash (block_at T st j) = h \<longrightarrow> blk_height (block_at T st j) > blk_height root) \<longrightarrow>
      D h = st_diffs_map st h" by blast
  then show ?thesis using ids by (auto simp: prune_diffs_map_def subset_iff)
qed

end

section \<open>Canonical updates\<close>

lemma update_ledger_fold:
  assumes "\<forall>b\<in>set bs. st_diffs_map st (blk_state_hash b) \<noteq> None"
  shows "ledger_apply_diff (fold (\<lambda>b acc. case st_diffs_map st (blk_state_hash b) of
      Some d \<Rightarrow> ledger_diff_append acc d | None \<Rightarrow> acc) bs acc) l =
    bind_ok (ledger_apply_diff acc l) (fold_ok (apply_best stored_diff st) bs)"
  using assms
proof (induction bs arbitrary: acc)
  case Nil
  then show ?case by (cases "ledger_apply_diff acc l") simp_all
next
  case (Cons b bs)
  then obtain d where d: "st_diffs_map st (blk_state_hash b) = Some d" by auto
  then have "apply_best stored_diff st b = ledger_apply_diff d" by (simp add: apply_best_def fun_eq_iff)
  with Cons d show ?case
    by (cases "ledger_apply_diff acc l") (simp_all add: ledger_apply_diff_append)
qed

lemma update_ledger_ok:
  assumes "\<forall>b\<in>set bs. st_diffs_map st (blk_state_hash b) \<noteq> None"
    "fold_ok (apply_best stored_diff st) bs (st_ledger st) = Inr l"
  shows "update_ledger bs st = Inr (st\<lparr>st_ledger := l\<rparr>)"
proof -
  let ?d = "fold (\<lambda>b acc. case st_diffs_map st (blk_state_hash b) of
      Some d \<Rightarrow> ledger_diff_append acc d | None \<Rightarrow> acc) bs ledger_diff_default"
  have d: "ledger_apply_diff ?d (st_ledger st) = Inr l"
    using update_ledger_fold[OF assms(1), of ledger_diff_default "st_ledger st" stored_diff] assms(2)
    by (simp add: ledger_apply_diff_def ledger_diff_default_def)
  then have "l = st_ledger st" if "ld_account_diffs ?d = []" using that by (simp add: ledger_apply_diff_def)
  with d show ?thesis by (auto simp: update_ledger_def Let_def)
qed

lemma update_ledger_store_ok:
  assumes "st_ledger_cadence st \<noteq> 0"
  shows "\<exists>w. update_ledger_store bs st = Inr (st\<lparr>st_store := w\<rparr>) \<and> (w = None \<longleftrightarrow> st_store st = None)"
proof (cases "st_store st")
  case None
  then show ?thesis by (intro exI[of _ None]) (simp add: update_ledger_store_def flip: None)
next
  case (Some log)
  have "\<exists>w. fold_ok store_canonical_ledger bs (st\<lparr>st_store := Some log\<rparr>) = Inr (st\<lparr>st_store := Some w\<rparr>)"
    using assms by (induction bs arbitrary: log) (auto simp: store_canonical_ledger_def store_add_def)
  then obtain w where w: "fold_ok store_canonical_ledger bs (st\<lparr>st_store := Some log\<rparr>) = Inr (st\<lparr>st_store := Some w\<rparr>)" ..
  have "st\<lparr>st_store := Some log\<rparr> = st" by (simp flip: Some)
  with w Some show ?thesis by (intro exI[of _ "Some w"]) (simp add: update_ledger_store_def)
qed

context id_tree
begin

lemma new_canonical_ok:
  assumes chain: "on_best_chain T ok st i (us @ vs) c ys" and us: "length us = MAINNET_CANONICAL_THRESHOLD - 1"
  shows "get_new_canonical_blocks T c st =
    Inr (if vs = [] then st else st\<lparr>st_canonical_root :=
        \<lparr>tip_state_hash = blk_state_hash (block_at T st (hd vs)), tip_node_id = hd vs\<rparr>\<rparr>,
      map (block_at T st) (rev vs))"
proof -
  let ?t = "br_branches (st_root_branch st)"
  have path: "path_up (op_parent T ?t) i (us @ vs @ c # ys)" and inv: "branch_inv T ok is_child (st_root_branch st)"
    and ids: "tip_node_id (st_best_tip st) = i"
    using chain by (auto simp: on_best_chain_def)
  have anc: "op_ancestors T ?t i = Some (us @ vs @ c # ys)"
    using ancestors[OF invD(1)[OF inv], of i] path path_up_det chain_nodes[OF chain, of i] by fastforce
  have "c \<notin> set vs" using path_up_distinct[OF path] by auto
  then have take: "takeWhile (\<lambda>i. i \<noteq> c) (drop (MAINNET_CANONICAL_THRESHOLD - 1) (us @ vs @ c # ys)) = vs"
    unfolding us[symmetric] by (simp add: takeWhile_append)
  have "traverse_ok (get_block_from_id T st) vs = Inr (map (block_at T st) vs)"
    using chain_nodes[OF chain] by (intro traverse_ok_total) (auto simp: get_block_from_id_def node_data_def)
  then show ?thesis
    unfolding get_new_canonical_blocks_def ids anc unwrap_simps bind_ok.simps Let_def take
    by (cases vs) (auto simp: rev_map)
qed

lemma chain_above:
  assumes chain: "on_best_chain T ok st i xs c ys" and split: "i # xs @ c # ys = us @ k # zs" and j: "j \<in> set us"
    and m: "m \<in> dom (op_get T (br_branches (st_root_branch st)))"
      "blk_state_hash (block_at T st m) = blk_state_hash (block_at T st j)"
  shows "blk_height (block_at T st k) < blk_height (block_at T st m)"
proof -
  have "j \<in> set (i # xs @ c # ys)" unfolding split using j by simp
  then have "j \<in> dom (op_get T (br_branches (st_root_branch st)))" using chain_nodes[OF chain] by blast
  then have "m = j" using chain m unfolding on_best_chain_def inj_on_def by metis
  obtain ps qs where "us = ps @ j # qs" using j by (meson split_list)
  then have "i # xs @ c # ys = ps @ j # (qs @ k # zs)" unfolding split by simp
  from chain_height[OF chain this] chain_height[OF chain split]
  show ?thesis unfolding \<open>m = j\<close> word_less_nat_alt by simp
qed

lemma update_canonical_state:
  assumes chain: "on_best_chain T ok st i (us @ vs) c ys" and us: "length us = MAINNET_CANONICAL_THRESHOLD - 1"
    and diffs: "\<forall>j\<in>set vs. st_diffs_map st (blk_state_hash (block_at T st j)) \<noteq> None"
    and cadence: "st_ledger_cadence st \<noteq> 0" and upd: "is_canonical_updatable T st = Inr True"
    and led: "fold_ok (apply_best stored_diff st) (map (block_at T st) (rev vs)) (st_ledger st) = Inr l"
  shows "\<exists>st'. update_canonical T st = Inr (st', map (block_at T st) (rev vs)) \<and>
    st_root_branch st' = st_root_branch st \<and> st_best_tip st' = st_best_tip st \<and>
    tip_node_id (st_canonical_root st') = hd (vs @ [c]) \<and> st_ledger st' = l \<and>
    (st_store st' = None \<longleftrightarrow> st_store st = None) \<and>
    (\<forall>j\<in>set (i # us). st_diffs_map st' (blk_state_hash (block_at T st j)) =
      st_diffs_map st (blk_state_hash (block_at T st j)))"
proof -
  let ?B = "block_at T st" and ?c = "hd (vs @ [c])" and ?ys = "tl (vs @ c # ys)"
  define st1 where "st1 = (if vs = [] then st else st\<lparr>st_canonical_root :=
        \<lparr>tip_state_hash = blk_state_hash (?B (hd vs)), tip_node_id = hd vs\<rparr>\<rparr>)"
  have st1: "st_diffs_map st1 = st_diffs_map st" "st_ledger st1 = st_ledger st" "st_store st1 = st_store st"
      "st_root_branch st1 = st_root_branch st" "st_ledger_cadence st1 = st_ledger_cadence st"
      "st_best_tip st1 = st_best_tip st" "tip_node_id (st_canonical_root st1) = ?c"
    using chain by (auto simp: st1_def on_best_chain_def)
  have "apply_best stored_diff st1 = apply_best stored_diff st"
    unfolding apply_best_def fun_eq_iff st1(1,3) by simp
  then have led1: "update_ledger (map ?B (rev vs)) st1 = Inr (st1\<lparr>st_ledger := l\<rparr>)"
    using led diffs st1 by (intro update_ledger_ok[where stored_diff = stored_diff]) auto
  obtain w where w: "update_ledger_store (map ?B (rev vs)) (st1\<lparr>st_ledger := l\<rparr>) =
      Inr (st1\<lparr>st_ledger := l, st_store := w\<rparr>)" "w = None \<longleftrightarrow> st_store st = None"
    using update_ledger_store_ok[of "st1\<lparr>st_ledger := l\<rparr>" "map ?B (rev vs)"] cadence st1 by auto
  let ?st2 = "st1\<lparr>st_ledger := l, st_store := w\<rparr>"
  have B2: "block_at T ?st2 = ?B" by (simp add: block_at_def st1 fun_eq_iff)
  have "op_get T (br_branches (st_root_branch st)) ?c = Some (?B ?c)"
    by (rule chain_nodes[OF chain]) (cases vs; simp)
  then have root: "canonical_root_block T ?st2 = Inr (?B ?c)"
    using st1 by (simp add: canonical_root_block_def get_block_from_id_def node_data_def)
  have inv: "branch_inv T ok is_child (st_root_branch ?st2)" and c: "op_get T (br_branches (st_root_branch ?st2)) c \<noteq> None"
    using chain chain_nodes[OF chain, of c] st1 by (auto simp: on_best_chain_def)
  from prune_diffs_map_ok[OF inv c root, unfolded B2] obtain D where
    D: "prune_diffs_map T c ?st2 = Inr (?st2\<lparr>st_diffs_map := D\<rparr>)"
    "\<And>h. \<forall>j\<in>dom (op_get T (br_branches (st_root_branch st))). blk_state_hash (?B j) = h \<longrightarrow>
      blk_height (?B ?c) < blk_height (?B j) \<Longrightarrow> D h = st_diffs_map st h"
    using st1 by auto
  have split: "i # (us @ vs) @ c # ys = (i # us) @ ?c # ?ys" by (cases vs) auto
  have keep: "D (blk_state_hash (?B j)) = st_diffs_map st (blk_state_hash (?B j))" if "j \<in> set (i # us)" for j
    using chain_above[OF chain split that] by (intro D(2)) blast
  have "tip_node_id (st_canonical_root st) = c" using chain by (simp add: on_best_chain_def)
  then have "update_canonical T st = Inr (?st2\<lparr>st_diffs_map := D\<rparr>, map ?B (rev vs))"
    using upd new_canonical_ok[OF chain us] led1 w(1) D(1)
    by (simp add: update_canonical_def Let_def st1_def[symmetric])
  then show ?thesis using keep w(2) st1 by (intro exI[of _ "?st2\<lparr>st_diffs_map := D\<rparr>"]) simp
qed

lemma update_canonical_ok:
  assumes chain: "on_best_chain T ok st i (us @ vs) c ys" and us: "length us = MAINNET_CANONICAL_THRESHOLD - 1"
    and diffs: "\<forall>j\<in>set (i # us @ vs). st_diffs_map st (blk_state_hash (block_at T st j)) \<noteq> None"
    and cadence: "st_ledger_cadence st \<noteq> 0" and best: "best_ledger T stored_diff st = Inr l"
    and upd: "is_canonical_updatable T st = Inr True"
  shows "\<exists>st'. update_canonical T st = Inr (st', map (block_at T st) (rev vs)) \<and>
    tip_node_id (st_canonical_root st') = hd (vs @ [c]) \<and> best_ledger T stored_diff st' = Inr l"
proof -
  let ?B = "block_at T st"
  obtain lc where lc: "fold_ok (apply_best stored_diff st) (map ?B (rev vs)) (st_ledger st) = Inr lc"
      "fold_ok (apply_best stored_diff st) (map ?B (rev (i # us))) lc = Inr l"
    using best unfolding best_ledger_chain[OF chain]
    by (auto simp: fold_ok_append bind_ok_Inr_iff simp del: fold_ok.simps)
  have vs: "\<forall>j\<in>set vs. st_diffs_map st (blk_state_hash (?B j)) \<noteq> None" using diffs by simp
  obtain st' where st': "update_canonical T st = Inr (st', map ?B (rev vs))"
    "st_root_branch st' = st_root_branch st" "st_best_tip st' = st_best_tip st"
    "tip_node_id (st_canonical_root st') = hd (vs @ [c])" "st_ledger st' = lc"
    "st_store st' = None \<longleftrightarrow> st_store st = None"
    "\<forall>j\<in>set (i # us). st_diffs_map st' (blk_state_hash (?B j)) = st_diffs_map st (blk_state_hash (?B j))"
    using update_canonical_state[OF chain us vs cadence upd lc(1)] by (elim exE conjE, intro that)
  have B: "block_at T st' = ?B" by (simp add: block_at_def st' fun_eq_iff)
  have "on_best_chain T ok st' i us (hd (vs @ [c])) (tl (vs @ c # ys))"
    using chain st' by (cases vs) (simp_all add: on_best_chain_def B)
  from best_ledger_chain[OF this, of stored_diff] have "best_ledger T stored_diff st' =
      fold_ok (apply_best stored_diff st') (map ?B (rev (i # us))) lc" unfolding B st'(5) .
  also have "\<dots> = fold_ok (apply_best stored_diff st) (map ?B (rev (i # us))) lc"
    by (rule fold_ok_cong) (use st'(6,7) diffs in \<open>auto simp: apply_best_def\<close>)
  finally show ?thesis using st'(1,4) lc(2) by simp
qed

end

section \<open>Property of canonical updates\<close>

lemma example_on_best_chain:
  "on_best_chain ref_ops ref_ok (example_witness_tree 13) 12 [11, 10, 9, 8, 7, 6, 5, 4, 3, 2, 1] 0 []"
proof -
  have "path_up (\<lambda>i. if 0 < i \<and> i < 13 then Some (i - 1) else None) 12 (rev [0..<12])"
    by (rule example_chain_path) simp
  moreover have "rev [0..<12] = [11, 10, 9, 8, 7, 6, 5, 4, 3, 2, 1, 0 :: nat]" by (simp add: upt_rec)
  moreover have "inj_on (\<lambda>j. blk_state_hash (block_at ref_ops (example_witness_tree 13) j)) {j. j < 13}"
    by (rule inj_onI) (simp add: block_at_def example_witness_tree_def example_chain_def ref_proj
        example_node_def example_hash_inj)
  ultimately show ?thesis using example_chain_inv[of 13]
    by (simp add: on_best_chain_def example_witness_tree_def ref_proj example_chain_def dom_def)
qed

text \<open>
  C4: when the old canonical root is an ancestor of the best tip at least the canonical threshold below
  it and the diffs of the blocks between them are at hand, a canonical update makes exactly the blocks
  between the old and the new canonical root canonical, lowest first, and the ledger of the best tip
  stays the same: the diffs move into the canonical ledger without being lost or applied twice.
\<close>

theorem canonical_update_keeps_best_ledger:
  assumes "id_tree T ok" "on_best_chain T ok st i (us @ vs) c ys"
    "length us = MAINNET_CANONICAL_THRESHOLD - 1"
    "\<forall>j\<in>set (i # us @ vs). st_diffs_map st (blk_state_hash (block_at T st j)) \<noteq> None"
    "st_ledger_cadence st \<noteq> 0" "best_ledger T stored_diff st = Inr l"
    "is_canonical_updatable T st = Inr True"
  shows "\<exists>st'. update_canonical T st = Inr (st', map (block_at T st) (rev vs)) \<and>
    tip_node_id (st_canonical_root st') = hd (vs @ [c]) \<and> best_ledger T stored_diff st' = Inr l"
  using id_tree.update_canonical_ok[OF assms] .

theorem canonical_update_keeps_best_ledger_witness:
  "\<exists>st'. update_canonical ref_ops (example_witness_tree 13) =
       Inr (st', map (block_at ref_ops (example_witness_tree 13)) [1, 2]) \<and>
     tip_node_id (st_canonical_root st') = 2 \<and> best_ledger ref_ops (\<lambda>_. None) st' = Inr example_ledger"
proof -
  let ?st = "example_witness_tree 13"
  have chain: "on_best_chain ref_ops ref_ok ?st 12 ([11, 10, 9, 8, 7, 6, 5, 4, 3] @ [2, 1]) 0 []"
    using example_on_best_chain by simp
  have "apply_best (\<lambda>_. None) ?st b l = Inr l" for b l
    by (simp add: apply_best_def example_diff_def ledger_apply_diff_def)
  then have "fold_ok (apply_best (\<lambda>_. None) ?st) bs l = Inr l" for bs l by (induction bs) simp_all
  then have best: "best_ledger ref_ops (\<lambda>_. None) ?st = Inr example_ledger"
    unfolding ref.best_ledger_chain[OF chain] by (simp del: fold_ok.simps)
  have "is_canonical_updatable ref_ops ?st = Inr True"
    by (simp add: is_canonical_updatable_def best_tip_block_def canonical_root_block_def get_block_from_id_def
        node_data_def example_witness_tree_def example_chain_def ref_proj example_node_def)
  then show ?thesis
    using canonical_update_keeps_best_ledger[OF ref.id_tree_axioms chain _ _ _ best]
    by (simp add: MAINNET_CANONICAL_THRESHOLD_def)
qed

end
