(* ===== verification/Indexer_Init.thy ===== *)
theory Indexer_Init
  imports Witness_Tree
begin

text \<open>
  The first states of the indexer (\<open>state/mod.rs\<close>): from the genesis block, and after the deep canonical
  blocks that bypass the witness tree.  The genesis blocks and ledgers are files the crate embeds, here
  arguments.
\<close>

section \<open>Configuration\<close>

record state_config =
  cf_genesis_ledger :: ledger
  cf_genesis_state_hash :: state_hash
  cf_genesis_prev_hash :: state_hash
  cf_genesis_blockchain_length :: u32
  cf_genesis_global_slot :: u32
  cf_genesis_last_vrf_output :: "u8 list"
  cf_transition_frontier_length :: u32
  cf_prune_interval :: u32
  cf_canonical_threshold :: u32
  cf_canonical_update_threshold :: u32
  cf_ledger_cadence :: u32
  cf_reporting_freq :: u32

definition state_config_new :: "ledger \<Rightarrow> state_hash \<Rightarrow> state_hash \<Rightarrow> u32 \<Rightarrow> u32 \<Rightarrow> u8 list \<Rightarrow>
    u32 \<Rightarrow> u32 \<Rightarrow> state_config" where
  "state_config_new genesis_ledger genesis_hash genesis_prev genesis_length genesis_slot genesis_vrf
     canonical_threshold transition_frontier_length = \<lparr>
       cf_genesis_ledger = genesis_ledger, cf_genesis_state_hash = genesis_hash,
       cf_genesis_prev_hash = genesis_prev, cf_genesis_blockchain_length = genesis_length,
       cf_genesis_global_slot = genesis_slot, cf_genesis_last_vrf_output = genesis_vrf,
       cf_transition_frontier_length = transition_frontier_length,
       cf_prune_interval = of_nat PRUNE_INTERVAL_DEFAULT, cf_canonical_threshold = canonical_threshold,
       cf_canonical_update_threshold = of_nat CANONICAL_UPDATE_THRESHOLD,
       cf_ledger_cadence = of_nat LEDGER_CADENCE,
       cf_reporting_freq = of_nat BLOCK_REPORTING_FREQ_NUM\<rparr>"

section \<open>Genesis states\<close>

definition new_from_config :: "('t, 'n) tree_ops \<Rightarrow> (u8 list \<Rightarrow> u8 list) \<Rightarrow> (string \<Rightarrow> amount option) \<Rightarrow>
    hash_order \<Rightarrow> precomputed_block \<Rightarrow> u64 \<Rightarrow> state_config \<Rightarrow> ('t, 'n) indexer_state run" where
  "new_from_config T blake2b parse_amount order genesis_block genesis_bytes config =
     (let root_branch = branch_new_block T (block_from_precomputed blake2b genesis_block 0);
          hash = state_hash_of genesis_block; prev = previous_state_hash genesis_block in
      bind_ok (root_block T root_branch) (\<lambda>root.
      let tip = \<lparr>tip_state_hash = blk_state_hash root, tip_node_id = br_root root_branch\<rparr> in
      bind_ok (ledger_apply_diff_from_precomputed parse_amount order genesis_block (cf_genesis_ledger config))
        (\<lambda>l.
      map_ok (\<lambda>diff. \<lparr>
          st_best_tip = tip, st_canonical_root = tip, st_ledger = l,
          st_ledger_cadence = cf_ledger_cadence config, st_diffs_map = [hash \<mapsto> diff],
          st_root_branch = root_branch, st_dangling_branches = [],
          st_store = Some [
            AddBlock hash genesis_bytes,
            AddCanonicalBlock (blockchain_length genesis_block) (global_slot_since_genesis genesis_block)
              hash hash (Some prev),
            AddGenesisLedger prev (cf_genesis_ledger config) (cf_genesis_blockchain_length config),
            SetBestBlock hash],
          st_transition_frontier_length = cf_transition_frontier_length config,
          st_prune_interval = cf_prune_interval config, st_reporting_freq = cf_reporting_freq config,
          st_canonical_update_threshold = cf_canonical_update_threshold config,
          st_canonical_threshold = cf_canonical_threshold config,
          st_blocks_processed = 1, st_bytes_processed = genesis_bytes\<rparr>)
        (from_precomputed parse_amount order genesis_block))))"

definition new_without_genesis_events ::
    "('t, 'n) tree_ops \<Rightarrow> state_config \<Rightarrow> ('t, 'n) indexer_state run" where
  "new_without_genesis_events T config =
     (let root_branch = branch_new_genesis T (cf_genesis_state_hash config) (cf_genesis_prev_hash config)
            (cf_genesis_blockchain_length config) (cf_genesis_global_slot config)
            (cf_genesis_last_vrf_output config) in
      map_ok (\<lambda>root.
        let tip = \<lparr>tip_state_hash = blk_state_hash root, tip_node_id = br_root root_branch\<rparr> in \<lparr>
          st_best_tip = tip, st_canonical_root = tip, st_ledger = cf_genesis_ledger config,
          st_ledger_cadence = cf_ledger_cadence config, st_diffs_map = Map.empty,
          st_root_branch = root_branch, st_dangling_branches = [], st_store = Some [],
          st_transition_frontier_length = cf_transition_frontier_length config,
          st_prune_interval = cf_prune_interval config, st_reporting_freq = cf_reporting_freq config,
          st_canonical_update_threshold = cf_canonical_update_threshold config,
          st_canonical_threshold = cf_canonical_threshold config,
          st_blocks_processed = 0, st_bytes_processed = 0\<rparr>) (root_block T root_branch))"

section \<open>Deep canonical blocks\<close>

text \<open>What the block parser returns, with the size of the file.\<close>

datatype parsed_block =
    DeepCanonical precomputed_block
  | Recent precomputed_block
  | OrphanedBlock precomputed_block

text \<open>
  The progress report of the loop; the messages and the rates in them are left out, the remainder by the
  reporting frequency is not.
\<close>

definition report_from_block_count :: "('t, 'n) indexer_state \<Rightarrow> unit run" where
  "report_from_block_count self =
     (if st_blocks_processed self > 0 \<and> st_reporting_freq self = 0 then Inl DivideByZero else Inr ())"

text \<open>
  The body of the loop for one block: the store writes, the ledger at the cadence, and the root branch
  on the last block.
\<close>

definition deep_canonical_step :: "('t, 'n) tree_ops \<Rightarrow> (u8 list \<Rightarrow> u8 list) \<Rightarrow>
    (string \<Rightarrow> amount option) \<Rightarrow> hash_order \<Rightarrow> u32 \<Rightarrow> precomputed_block \<Rightarrow> u64 \<Rightarrow>
    ledger_diff list \<times> ('t, 'n) indexer_state \<Rightarrow> (ledger_diff list \<times> ('t, 'n) indexer_state) run" where
  "deep_canonical_step T blake2b parse_amount order num_deep b bytes = (\<lambda>(ledger_diffs, self).
     let hash = state_hash_of b;
         self = self\<lparr>st_bytes_processed := st_bytes_processed self + bytes\<rparr> in
     bind_ok (from_precomputed parse_amount order b) (\<lambda>diff.
     let ledger_diffs = ledger_diffs @ [diff];
         self = store_add (AddCanonicalBlock (blockchain_length b) (global_slot_since_genesis b) hash
             (genesis_state_hash b) None) (store_add (SetBestBlock hash) (store_add (AddBlock hash bytes) self)) in
     bind_ok (if st_ledger_cadence self = 0 then Inl DivideByZero
       else if st_blocks_processed self mod st_ledger_cadence self = 0
       then map_ok (\<lambda>l. ([], store_add (AddStagedLedger hash l (blockchain_length b)) (self\<lparr>st_ledger := l\<rparr>)))
         (fold_ok ledger_apply_diff ledger_diffs (st_ledger self))
       else Inr (ledger_diffs, self)) (\<lambda>(ledger_diffs, self).
     if st_blocks_processed self > num_deep
     then let root_branch = branch_new T blake2b b in
       bind_ok (ledger_apply_diff diff (st_ledger self)) (\<lambda>l.
       map_ok (\<lambda>root.
         let tip = \<lparr>tip_state_hash = blk_state_hash root, tip_node_id = br_root root_branch\<rparr> in
         (ledger_diffs, self\<lparr>st_root_branch := root_branch, st_ledger := l, st_best_tip := tip,
           st_canonical_root := tip\<rparr>)) (root_block T root_branch))
     else Inr (ledger_diffs, self))))"

text \<open>
  The loop, over the blocks the parser returns next; \<open>None\<close> is the error for a missing or other block.
\<close>

fun deep_canonical_loop :: "('t, 'n) tree_ops \<Rightarrow> (u8 list \<Rightarrow> u8 list) \<Rightarrow>
    (string \<Rightarrow> amount option) \<Rightarrow> hash_order \<Rightarrow> u32 \<Rightarrow> (parsed_block \<times> u64) list \<Rightarrow>
    ledger_diff list \<times> ('t, 'n) indexer_state \<Rightarrow>
    (('t, 'n) indexer_state \<times> (parsed_block \<times> u64) list) option run" where
  "deep_canonical_loop T blake2b parse_amount order num_deep next_blocks (ledger_diffs, self) =
     (if st_blocks_processed self \<le> num_deep
      then let self = self\<lparr>st_blocks_processed := st_blocks_processed self + 1\<rparr> in
        bind_ok (report_from_block_count self) (\<lambda>_.
        case next_blocks of
          (DeepCanonical b, bytes) # rest \<Rightarrow>
            bind_ok (deep_canonical_step T blake2b parse_amount order num_deep b bytes (ledger_diffs, self))
              (deep_canonical_loop T blake2b parse_amount order num_deep rest)
        | _ \<Rightarrow> Inr None)
      else Inr (Some (self, next_blocks)))"

definition initialize_deep_canonical :: "('t, 'n) tree_ops \<Rightarrow> (u8 list \<Rightarrow> u8 list) \<Rightarrow>
    (string \<Rightarrow> amount option) \<Rightarrow> hash_order \<Rightarrow> u32 \<Rightarrow> (parsed_block \<times> u64) list \<Rightarrow>
    ('t, 'n) indexer_state \<Rightarrow> (('t, 'n) indexer_state \<times> (parsed_block \<times> u64) list) option run" where
  "initialize_deep_canonical T blake2b parse_amount order num_deep next_blocks self =
     bind_ok
       (if st_store self = None then Inr (Some (self, next_blocks))
        else bind_ok (deep_canonical_loop T blake2b parse_amount order num_deep next_blocks ([], self)) (\<lambda>res.
          case res of
            None \<Rightarrow> Inr None
          | Some (self, rest) \<Rightarrow>
              if st_blocks_processed self = num_deep + 1 then Inr (Some (self, rest)) else Inl AssertionFailed))
       (\<lambda>res. case res of
            None \<Rightarrow> Inr None
          | Some (self, rest) \<Rightarrow> map_ok (\<lambda>_. Some (self, rest)) (report_from_block_count self))"

declare deep_canonical_loop.simps [simp del]

section \<open>Lemmas\<close>

context id_tree
begin

lemma branch_new_root: "root_block T (branch_new T blake2b b) = Inr (block_from_precomputed blake2b b 0)"
proof -
  obtain t r where tr: "op_insert_root T (block_from_precomputed blake2b b 0) (op_new T) = (t, r)" by fastforce
  then show ?thesis using insert_root[OF new(1) tr] by (simp add: branch_new_def root_block_def node_data_def)
qed

text \<open>The state made from the genesis block satisfies the invariant of the witness tree.\<close>

lemma new_from_config_ok:
  assumes "from_precomputed parse_amount order genesis = Inr d"
    "ledger_apply_diff d (cf_genesis_ledger config) = Inr l" "pcb_ok L genesis"
  shows "\<exists>st. new_from_config T blake2b parse_amount order genesis bytes config = Inr st \<and>
    forest_inv T ok L st \<and> forest_hashes T st = {#state_hash_of genesis#} \<and> st_ledger st = l"
proof -
  let ?br = "branch_new T blake2b genesis"
  have br: "branch_new_block T (block_from_precomputed blake2b genesis 0) = ?br"
    by (simp add: branch_new_block_def branch_new_def)
  note inv = branch_new_ok(1)[of "links L" blake2b genesis] and root = branch_new_root[of blake2b genesis]
  have get: "op_get T (br_branches ?br) (br_root ?br) = Some (block_from_precomputed blake2b genesis 0)"
    using root by (simp add: root_block_def node_data_def run_simps)
  then have "good_branch T ok L ?br" using inv assms(3) by (simp add: good_branch_def)
  then show ?thesis using assms get branch_new_ok(2)[of blake2b genesis]
    by (simp add: new_from_config_def br root Let_def ledger_apply_diff_from_precomputed_def forest_inv_def
        forest_def forest_hashes_def)
qed

text \<open>Before the first cadence, a step leaves the ledger alone unless it is the last.\<close>

lemma deep_step_ok:
  assumes "from_precomputed parse_amount order b = Inr diff" "st_ledger_cadence st \<noteq> 0"
    "st_blocks_processed st mod st_ledger_cadence st \<noteq> 0"
    "st_blocks_processed st > num \<Longrightarrow> ledger_apply_diff diff (st_ledger st) = Inr l"
  shows "\<exists>st'. deep_canonical_step T blake2b parse_amount order num b bytes (pending, st) = Inr (pending @ [diff], st') \<and>
    st_blocks_processed st' = st_blocks_processed st \<and> st_ledger_cadence st' = st_ledger_cadence st \<and>
    st_reporting_freq st' = st_reporting_freq st \<and>
    st_ledger st' = (if st_blocks_processed st > num then l else st_ledger st)"
  using assms branch_new_root[of blake2b b]
  by (auto simp: deep_canonical_step_def Let_def store_add_def)

end

lemma deep_counter:
  assumes "m < n" "n < unat (c :: u32)"
  shows "(of_nat m + 1 :: u32) = of_nat (Suc m)" "(of_nat (Suc m) :: u32) mod c \<noteq> 0"
    "(of_nat (Suc m) :: u32) \<le> of_nat n"
proof -
  have small: "unat (of_nat k :: u32) = k" if "k \<le> n" for k
    using that assms(2) unat_u32_less[of c] by (simp add: unat_of_nat)
  show "(of_nat m + 1 :: u32) = of_nat (Suc m)" by simp
  have "unat (of_nat (Suc m) mod c) = Suc m"
    using small[of "Suc m"] assms by (simp add: unat_mod)
  then show "(of_nat (Suc m) :: u32) mod c \<noteq> 0" by (metis nat.distinct(1) unat_0)
  show "(of_nat (Suc m) :: u32) \<le> of_nat n"
    using small[of "Suc m"] small[of n] assms by (simp add: word_le_nat_alt del: of_nat_Suc)
qed

context id_tree
begin

lemma deep_loop_ok:
  assumes "bs \<noteq> []" "\<forall>(b, _)\<in>set bs. \<exists>d. from_precomputed parse_amount order b = Inr d"
    "from_precomputed parse_amount order (fst (last bs)) = Inr diff" "ledger_apply_diff diff (st_ledger st) = Inr l"
    "st_blocks_processed st = of_nat m" "m + length bs = Suc n" "Suc n < unat (st_ledger_cadence st)"
    "st_reporting_freq st \<noteq> 0"
  shows "\<exists>st'. deep_canonical_loop T blake2b parse_amount order (of_nat n)
      (map (\<lambda>(b, bytes). (DeepCanonical b, bytes)) bs @ rest) (pending, st) = Inr (Some (st', rest)) \<and>
    st_blocks_processed st' = of_nat n + 1 \<and> st_reporting_freq st' \<noteq> 0 \<and> st_ledger st' = l"
  using assms
proof (induction bs arbitrary: st m pending)
  case (Cons p bs)
  obtain b bytes where p: "p = (b, bytes)" by fastforce
  obtain d where d: "from_precomputed parse_amount order b = Inr d" using Cons.prems(2) p by auto
  let ?st = "st\<lparr>st_blocks_processed := of_nat (Suc m)\<rparr>"
  have m: "m < Suc n" using Cons.prems(6) by simp
  note count = deep_counter[OF m Cons.prems(7)]
  have nsmall: "(of_nat n :: u32) < of_nat (Suc n)"
    using Cons.prems(7) unat_u32_less[of "st_ledger_cadence st"] by (simp add: word_less_nat_alt unat_of_nat del: of_nat_Suc)
  have le: "(of_nat m :: u32) \<le> of_nat n"
    using m Cons.prems(7) unat_u32_less[of "st_ledger_cadence st"] by (simp add: word_le_nat_alt unat_of_nat)
  have last: "(of_nat (Suc m) :: u32) > of_nat n \<longleftrightarrow> bs = []"
    using m Cons.prems(6,7) nsmall unat_u32_less[of "st_ledger_cadence st"]
    by (cases bs) (auto simp: word_less_nat_alt unat_of_nat simp del: of_nat_Suc)
  have "st_ledger_cadence ?st \<noteq> 0" using Cons.prems(7) by auto
  moreover have "ledger_apply_diff d (st_ledger ?st) = Inr l" if "st_blocks_processed ?st > of_nat n"
    using that last Cons.prems(3,4) d p by simp
  ultimately obtain st1 where st1: "deep_canonical_step T blake2b parse_amount order (of_nat n) b bytes (pending, ?st)
      = Inr (pending @ [d], st1)" "st_blocks_processed st1 = of_nat (Suc m)"
      "st_ledger_cadence st1 = st_ledger_cadence st" "st_reporting_freq st1 = st_reporting_freq st" "st_ledger st1 = (if bs = [] then l else st_ledger st)"
    using deep_step_ok[OF d, of ?st "of_nat n" l blake2b bytes pending] count(2) last by auto
  have step: "deep_canonical_loop T blake2b parse_amount order (of_nat n)
      (map (\<lambda>(b, bytes). (DeepCanonical b, bytes)) (p # bs) @ rest) (pending, st) =
      deep_canonical_loop T blake2b parse_amount order (of_nat n)
      (map (\<lambda>(b, bytes). (DeepCanonical b, bytes)) bs @ rest) (pending @ [d], st1)"
    using le count(1) st1(1) p Cons.prems(5,8)
    by (subst deep_canonical_loop.simps) (simp add: Let_def report_from_block_count_def del: of_nat_Suc)
  show ?case
  proof (cases "bs = []")
    case True
    then have "m = n" using Cons.prems(6) by simp
    then have "deep_canonical_loop T blake2b parse_amount order (of_nat n) rest (pending @ [d], st1) = Inr (Some (st1, rest))"
      using st1(2) nsmall by (subst deep_canonical_loop.simps) (simp add: not_le[symmetric] del: of_nat_Suc)
    then show ?thesis using step st1 True Cons.prems(8) \<open>m = n\<close> by (simp add: add.commute)
  next
    case False
    then show ?thesis unfolding step
      using Cons.prems p st1 by (intro Cons.IH[of st1 "Suc m"]) auto
  qed
qed simp

end

section \<open>Property of the initialization\<close>

text \<open>
  C31: initialization from \<open>n > 0\<close> deep canonical blocks, with \<open>n + 1\<close> below the ledger cadence (the genesis
  block counts as processed, so no processed count reaches a multiple of the cadence) and a reporting
  frequency other than zero: the ledger at the root of the witness tree has only the diff of the last block
  applied; the diffs of all earlier ones, still pending, are dropped.
\<close>

theorem deep_canonical_ledger_drops_diffs:
  assumes "id_tree T ok" "st_store st \<noteq> None" "st_blocks_processed st = 1"
    "bs \<noteq> []" "Suc (length bs) < unat (st_ledger_cadence st)"
    "st_reporting_freq st \<noteq> 0"
    "\<forall>(b, _)\<in>set bs. \<exists>d. from_precomputed parse_amount order b = Inr d"
    "from_precomputed parse_amount order (fst (last bs)) = Inr diff" "ledger_apply_diff diff (st_ledger st) = Inr l"
  shows "\<exists>st'. initialize_deep_canonical T blake2b parse_amount order (of_nat (length bs))
      (map (\<lambda>(b, bytes). (DeepCanonical b, bytes)) bs @ rest) st = Inr (Some (st', rest)) \<and> st_ledger st' = l"
  using id_tree.deep_loop_ok[OF assms(1,4,7-9), of 1 "length bs" blake2b rest "[]"] assms(2,3,5,6)
  by (auto simp: initialize_deep_canonical_def report_from_block_count_def)

theorem deep_canonical_ledger_drops_diffs_witness:
  "\<exists>d l st'. from_precomputed (\<lambda>_. None) (\<lambda>_ m. m) example_block = Inr d \<and>
     ledger_apply_diff d example_ledger = Inr l \<and>
     initialize_deep_canonical ref_ops id (\<lambda>_. None) (\<lambda>_ m. m) 2
       [(DeepCanonical example_block, 7), (DeepCanonical example_block, 8)]
       ((example_witness_tree 1)\<lparr>st_store := Some []\<rparr>) = Inr (Some (st', [])) \<and> st_ledger st' = l"
proof -
  let ?st = "(example_witness_tree 1)\<lparr>st_store := Some []\<rparr>"
  have "block_valid (\<lambda>_. None) example_block" by (simp add: example_block_def)
  from ledger_block_safe[OF this example_ledger_wf, of "\<lambda>_ m. m"] obtain d l where
    dl: "from_precomputed (\<lambda>_. None) (\<lambda>_ m. m) example_block = Inr d" "ledger_apply_diff d example_ledger = Inr l"
    by (auto simp: ledger_apply_diff_from_precomputed_def run_simps)
  then show ?thesis
    using deep_canonical_ledger_drops_diffs[OF ref.id_tree_axioms, of ?st "[(example_block, 7), (example_block, 8)]"
        "\<lambda>_. None" "\<lambda>_ m. m" d l id "[]"]
    by (simp add: example_witness_tree_def)
qed

end
