(* ===== verification/Store_Keys.thy ===== *)
theory Store_Keys
  imports Precomputed
begin

text \<open>
  The keys of the database (\<open>utility/store/\<close>, \<open>TxnHash\<close> of \<open>command/signed/txn_hash.rs\<close>).  A byte is a
  \<open>char\<close>, so a key is a string and the order of the database's iterators is the order of
  \<open>List_Lexorder\<close>.  Numbers are written in big endian, which makes that order the numeric one; a key is
  a fixed sequence of parts of fixed lengths, and copying a part of another length panics.
\<close>

section \<open>Big endian numbers\<close>

type_synonym bytes = string

fun be_digits :: "nat \<Rightarrow> nat \<Rightarrow> bytes" where
  "be_digits 0 v = []"
| "be_digits (Suc n) v = be_digits n (v div 256) @ [char_of (v mod 256)]"

definition be_value :: "bytes \<Rightarrow> nat" where
  "be_value bs = foldl (\<lambda>a c. a * 256 + of_char c) 0 bs"

text \<open>\<open>to_be_bytes\<close> and \<open>from_be_bytes\<close> of the unsigned types; \<open>i64\<close> has the same bytes.\<close>

definition to_be_bytes :: "'a::len word \<Rightarrow> bytes" where
  "to_be_bytes w = be_digits (LENGTH('a) div 8) (unat w)"

definition word_of_be :: "bytes \<Rightarrow> 'a::len word" where
  "word_of_be bs = word_of_nat (be_value bs)"

definition U32_LEN :: nat where "U32_LEN = 4"
definition U64_LEN :: nat where "U64_LEN = 8"
definition I64_LEN :: nat where "I64_LEN = 8"
definition PUBLIC_KEY_LEN :: nat where "PUBLIC_KEY_LEN = 55"
definition STATE_HASH_LEN :: nat where "STATE_HASH_LEN = 52"
definition TOKEN_ADDRESS_LEN :: nat where "TOKEN_ADDRESS_LEN = 50"
definition LEDGER_HASH_LEN :: nat where "LEDGER_HASH_LEN = 51"
definition TXN_HASH_V1_LEN :: nat where "TXN_HASH_V1_LEN = 53"
definition TXN_HASH_V2_LEN :: nat where "TXN_HASH_V2_LEN = 52"

lemmas len_defs = U32_LEN_def U64_LEN_def I64_LEN_def PUBLIC_KEY_LEN_def STATE_HASH_LEN_def
  TOKEN_ADDRESS_LEN_def LEDGER_HASH_LEN_def TXN_HASH_V1_LEN_def TXN_HASH_V2_LEN_def

text \<open>An \<open>anyhow::Error\<close> of a parser is \<open>None\<close>.\<close>

definition u32_from_be_bytes :: "bytes \<Rightarrow> u32 option" where
  "u32_from_be_bytes bs = (if length bs \<noteq> U32_LEN then None else Some (word_of_be bs))"

definition u64_from_be_bytes :: "bytes \<Rightarrow> u64 option" where
  "u64_from_be_bytes bs = (if length bs \<noteq> U64_LEN then None else Some (word_of_be bs))"

definition i64_from_be_bytes :: "bytes \<Rightarrow> 64 word option" where
  "i64_from_be_bytes bs = (if length bs \<noteq> I64_LEN then None else Some (word_of_be bs))"

definition from_be_bytes :: "bytes \<Rightarrow> u32 run" where
  "from_be_bytes bs = (if length bs = U32_LEN then Inr (word_of_be bs) else Inl AssertionFailed)"

section \<open>Slices\<close>

text \<open>\<open>dst.copy_from_slice(src)\<close> for a \<open>dst\<close> of \<open>n\<close> bytes, \<open>&key[n..]\<close> and \<open>&key[..n]\<close>.\<close>

definition copy_slice :: "nat \<Rightarrow> bytes \<Rightarrow> bytes run" where
  "copy_slice n s = (if length s = n then Inr s else Inl PanicCall)"

definition slice_from :: "nat \<Rightarrow> bytes \<Rightarrow> bytes run" where
  "slice_from n s = (if n \<le> length s then Inr (drop n s) else Inl IndexOutOfBounds)"

definition slice_to :: "nat \<Rightarrow> bytes \<Rightarrow> bytes run" where
  "slice_to n s = (if n \<le> length s then Inr (take n s) else Inl IndexOutOfBounds)"

text \<open>A key is an array filled part by part.\<close>

definition key_of :: "(nat \<times> bytes) list \<Rightarrow> bytes run" where
  "key_of parts = map_ok concat (traverse_ok (\<lambda>(n, s). copy_slice n s) parts)"

section \<open>Strings from bytes\<close>

definition from_utf8 :: "bytes \<Rightarrow> string option" where
  "from_utf8 bs = (if utf8_valid (bytes_of_string bs) then Some bs else None)"

definition state_hash_from_bytes :: "bytes \<Rightarrow> state_hash option" where
  "state_hash_from_bytes bs = Option.bind (from_utf8 bs) state_hash_from_str"

definition public_key_from_bytes :: "bytes \<Rightarrow> public_key option" where
  "public_key_from_bytes bs = Option.bind (from_utf8 bs) public_key_from_str"

definition token_address_from_bytes :: "bytes \<Rightarrow> token_address option" where
  "token_address_from_bytes bs = from_utf8 bs"

definition ledger_hash_from_bytes :: "bytes \<Rightarrow> ledger_hash option" where
  "ledger_hash_from_bytes bs = Option.bind (from_utf8 bs) ledger_hash_new"

definition username_from_bytes :: "bytes \<Rightarrow> username option" where
  "username_from_bytes bs = from_utf8 bs"

datatype txn_hash = TxnV1 string | TxnV2 string

fun txn_hash_inner :: "txn_hash \<Rightarrow> string" where
  "txn_hash_inner (TxnV1 h) = h"
| "txn_hash_inner (TxnV2 h) = h"

definition txn_hash_is_valid_v1 :: "string \<Rightarrow> bool" where
  "txn_hash_is_valid_v1 h \<longleftrightarrow> starts_with h ''Ckp'' \<and> length h = TXN_HASH_V1_LEN"

definition txn_hash_is_valid_v2 :: "string \<Rightarrow> bool" where
  "txn_hash_is_valid_v2 h \<longleftrightarrow> starts_with h ''5J'' \<and> length h = TXN_HASH_V2_LEN"

fun txn_hash_is_valid :: "txn_hash \<Rightarrow> bool" where
  "txn_hash_is_valid (TxnV1 h) = txn_hash_is_valid_v1 h"
| "txn_hash_is_valid (TxnV2 h) = txn_hash_is_valid_v2 h"

definition txn_hash_new :: "string \<Rightarrow> txn_hash option" where
  "txn_hash_new h =
     (if txn_hash_is_valid_v1 h then Some (TxnV1 h)
      else if txn_hash_is_valid_v2 h then Some (TxnV2 h) else None)"

text \<open>\<open>Vec::remove\<close> panics past the end.\<close>

definition txn_hash_from_bytes :: "bytes \<Rightarrow> txn_hash option run" where
  "txn_hash_from_bytes bs =
     (if starts_with bs ''5J''
      then if TXN_HASH_V2_LEN < length bs
        then Inr (Option.bind (from_utf8 (take TXN_HASH_V2_LEN bs @ drop (Suc TXN_HASH_V2_LEN) bs)) txn_hash_new)
        else Inl IndexOutOfBounds
      else Inr (Option.bind (from_utf8 bs) txn_hash_new))"

fun right_pad_v2 :: "txn_hash \<Rightarrow> bytes run" where
  "right_pad_v2 (TxnV1 h) = copy_slice TXN_HASH_V1_LEN h"
| "right_pad_v2 (TxnV2 h) = map_ok (\<lambda>s. s @ [char_of (0 :: nat)]) (copy_slice TXN_HASH_V2_LEN h)"

section \<open>Common keys\<close>

definition token_pk_key :: "token_address \<Rightarrow> public_key \<Rightarrow> bytes run" where
  "token_pk_key token pk = key_of [(TOKEN_ADDRESS_LEN, token), (PUBLIC_KEY_LEN, pk)]"

definition token_pk_index_key :: "token_address \<Rightarrow> public_key \<Rightarrow> u32 \<Rightarrow> bytes run" where
  "token_pk_index_key token pk index =
     key_of [(TOKEN_ADDRESS_LEN, token), (PUBLIC_KEY_LEN, pk), (U32_LEN, to_be_bytes index)]"

definition block_index_key :: "state_hash \<Rightarrow> u32 \<Rightarrow> bytes run" where
  "block_index_key state_hash index =
     key_of [(STATE_HASH_LEN, state_hash), (U32_LEN, to_be_bytes index)]"

definition pk_index_key :: "public_key \<Rightarrow> u32 \<Rightarrow> bytes run" where
  "pk_index_key pk index = key_of [(PUBLIC_KEY_LEN, pk), (U32_LEN, to_be_bytes index)]"

text \<open>\<open>key.len() - StateHash::LEN\<close> wraps in a release build, and the slice then panics.\<close>

definition state_hash_suffix :: "bytes \<Rightarrow> state_hash option run" where
  "state_hash_suffix key =
     (if length key < STATE_HASH_LEN then Inl IndexOutOfBounds
      else map_ok state_hash_from_bytes (slice_from (length key - STATE_HASH_LEN) key))"

definition block_u32_prefix_from_key :: "bytes \<Rightarrow> u32 option run" where
  "block_u32_prefix_from_key key = map_ok u32_from_be_bytes (slice_to U32_LEN key)"

definition u32_prefix_key :: "u32 \<Rightarrow> public_key \<Rightarrow> bytes run" where
  "u32_prefix_key prefix pk = key_of [(U32_LEN, to_be_bytes prefix), (PUBLIC_KEY_LEN, pk)]"

definition u64_prefix_key :: "u64 \<Rightarrow> public_key \<Rightarrow> bytes run" where
  "u64_prefix_key prefix pk = key_of [(U64_LEN, to_be_bytes prefix), (PUBLIC_KEY_LEN, pk)]"

definition pk_key_prefix :: "bytes \<Rightarrow> public_key run" where
  "pk_key_prefix key =
     (if length key \<ge> PUBLIC_KEY_LEN
      then bind_ok (slice_to PUBLIC_KEY_LEN key) (\<lambda>s. unwrap (public_key_from_bytes s))
      else Inl AssertionFailed)"

definition balance_key_prefix :: "bytes \<Rightarrow> u64 run" where
  "balance_key_prefix key = bind_ok (slice_to U64_LEN key) (\<lambda>s. unwrap (u64_from_be_bytes s))"

definition pk_txn_sort_key_sort :: "bytes \<Rightarrow> u32 run" where
  "pk_txn_sort_key_sort key =
     bind_ok (slice_from PUBLIC_KEY_LEN key) (\<lambda>s. bind_ok (slice_to U32_LEN s) (\<lambda>s.
     unwrap (u32_from_be_bytes s)))"

section \<open>Block keys\<close>

definition block_height_key :: "precomputed_block \<Rightarrow> bytes run" where
  "block_height_key b =
     key_of [(U32_LEN, to_be_bytes (blockchain_length b)), (STATE_HASH_LEN, state_hash_of b)]"

definition block_global_slot_key :: "precomputed_block \<Rightarrow> bytes run" where
  "block_global_slot_key b =
     key_of [(U32_LEN, to_be_bytes (global_slot_since_genesis b)), (STATE_HASH_LEN, state_hash_of b)]"

definition pk_block_sort_key :: "public_key \<Rightarrow> u32 \<Rightarrow> state_hash \<Rightarrow> bytes run" where
  "pk_block_sort_key pk sort_value state_hash =
     key_of [(PUBLIC_KEY_LEN, pk), (U32_LEN, to_be_bytes sort_value), (STATE_HASH_LEN, state_hash)]"

definition block_num_key :: "u32 \<Rightarrow> u32 \<Rightarrow> bytes run" where
  "block_num_key prefix num = key_of [(U32_LEN, to_be_bytes prefix), (U32_LEN, to_be_bytes num)]"

definition epoch_pk_key :: "u32 \<Rightarrow> public_key \<Rightarrow> bytes run" where
  "epoch_pk_key epoch pk = key_of [(U32_LEN, to_be_bytes epoch), (PUBLIC_KEY_LEN, pk)]"

definition epoch_pk_num_key :: "u32 \<Rightarrow> public_key \<Rightarrow> u32 \<Rightarrow> bytes run" where
  "epoch_pk_num_key epoch pk num =
     key_of [(U32_LEN, to_be_bytes epoch), (PUBLIC_KEY_LEN, pk), (U32_LEN, to_be_bytes num)]"

definition epoch_block_num_key :: "u32 \<Rightarrow> u32 \<Rightarrow> public_key \<Rightarrow> bytes run" where
  "epoch_block_num_key epoch num pk =
     key_of [(U32_LEN, to_be_bytes epoch), (U32_LEN, to_be_bytes num), (PUBLIC_KEY_LEN, pk)]"

section \<open>Ledger keys\<close>

definition best_account_key :: "token_address \<Rightarrow> public_key \<Rightarrow> bytes run" where
  "best_account_key token pk = key_of [(TOKEN_ADDRESS_LEN, token), (PUBLIC_KEY_LEN, pk)]"

definition best_account_sort_key :: "token_address \<Rightarrow> u64 \<Rightarrow> public_key \<Rightarrow> bytes run" where
  "best_account_sort_key token balance pk =
     key_of [(TOKEN_ADDRESS_LEN, token), (U64_LEN, to_be_bytes balance), (PUBLIC_KEY_LEN, pk)]"

definition split_best_account_sort_key ::
    "bytes \<Rightarrow> (token_address \<times> u64 \<times> public_key) option run" where
  "split_best_account_sort_key key =
     (if length key = TOKEN_ADDRESS_LEN + U64_LEN + PUBLIC_KEY_LEN
      then bind_ok (slice_to TOKEN_ADDRESS_LEN key) (\<lambda>t.
        bind_ok (unwrap (token_address_from_bytes t)) (\<lambda>token.
        bind_ok (slice_from TOKEN_ADDRESS_LEN key) (\<lambda>rest.
        bind_ok (balance_key_prefix rest) (\<lambda>balance.
        bind_ok (slice_from U64_LEN rest) (\<lambda>rest.
        map_ok (\<lambda>pk. Some (token, balance, pk)) (pk_key_prefix rest))))))
      else Inr None)"

definition staged_account_key :: "state_hash \<Rightarrow> token_address \<Rightarrow> public_key \<Rightarrow> bytes run" where
  "staged_account_key state_hash token pk =
     key_of [(STATE_HASH_LEN, state_hash), (TOKEN_ADDRESS_LEN, token), (PUBLIC_KEY_LEN, pk)]"

definition staged_account_balance_sort_key ::
    "state_hash \<Rightarrow> token_address \<Rightarrow> u64 \<Rightarrow> public_key \<Rightarrow> bytes run" where
  "staged_account_balance_sort_key state_hash token balance pk =
     key_of [(STATE_HASH_LEN, state_hash), (TOKEN_ADDRESS_LEN, token), (U64_LEN, to_be_bytes balance),
       (PUBLIC_KEY_LEN, pk)]"

definition split_staged_account_balance_sort_key ::
    "bytes \<Rightarrow> (state_hash \<times> token_address \<times> u64 \<times> public_key) option run" where
  "split_staged_account_balance_sort_key key =
     (if length key = STATE_HASH_LEN + TOKEN_ADDRESS_LEN + U64_LEN + PUBLIC_KEY_LEN
      then bind_ok (slice_to STATE_HASH_LEN key) (\<lambda>h.
        bind_ok (unwrap (state_hash_from_bytes h)) (\<lambda>state_hash.
        bind_ok (slice_from STATE_HASH_LEN key) (\<lambda>rest.
        bind_ok (slice_to TOKEN_ADDRESS_LEN rest) (\<lambda>t.
        bind_ok (unwrap (token_address_from_bytes t)) (\<lambda>token.
        bind_ok (slice_from TOKEN_ADDRESS_LEN rest) (\<lambda>rest.
        bind_ok (balance_key_prefix rest) (\<lambda>balance.
        bind_ok (slice_from U64_LEN rest) (\<lambda>rest.
        map_ok (\<lambda>pk. Some (state_hash, token, balance, pk)) (pk_key_prefix rest)))))))))
      else Inr None)"

definition staking_ledger_sort_key :: "u32 \<Rightarrow> u64 \<Rightarrow> public_key \<Rightarrow> bytes run" where
  "staking_ledger_sort_key epoch amount pk =
     key_of [(U32_LEN, to_be_bytes epoch), (U64_LEN, to_be_bytes amount), (PUBLIC_KEY_LEN, pk)]"

definition split_staking_ledger_sort_key :: "bytes \<Rightarrow> (u32 \<times> u64 \<times> public_key) option run" where
  "split_staking_ledger_sort_key key =
     (if length key = U32_LEN + U64_LEN + PUBLIC_KEY_LEN
      then bind_ok (slice_to U32_LEN key) (\<lambda>e.
        case u32_from_be_bytes e of None \<Rightarrow> Inr None
        | Some epoch \<Rightarrow>
            bind_ok (slice_from U32_LEN key) (\<lambda>rest.
            bind_ok (balance_key_prefix rest) (\<lambda>balance_or_stake.
            bind_ok (slice_from U64_LEN rest) (\<lambda>rest.
            map_ok (\<lambda>pk. Some (epoch, balance_or_stake, pk)) (pk_key_prefix rest)))))
      else Inr None)"

definition staking_ledger_account_key ::
    "state_hash \<Rightarrow> u32 \<Rightarrow> ledger_hash \<Rightarrow> public_key \<Rightarrow> bytes run" where
  "staking_ledger_account_key genesis_hash epoch ledger_hash pk =
     key_of [(STATE_HASH_LEN, genesis_hash), (U32_LEN, to_be_bytes epoch),
       (LEDGER_HASH_LEN, ledger_hash), (PUBLIC_KEY_LEN, pk)]"

definition staking_ledger_epoch_key_prefix :: "state_hash \<Rightarrow> u32 \<Rightarrow> bytes run" where
  "staking_ledger_epoch_key_prefix genesis_hash epoch =
     key_of [(STATE_HASH_LEN, genesis_hash), (U32_LEN, to_be_bytes epoch)]"

definition staking_ledger_epoch_key :: "state_hash \<Rightarrow> u32 \<Rightarrow> ledger_hash \<Rightarrow> bytes run" where
  "staking_ledger_epoch_key genesis_hash epoch ledger_hash =
     bind_ok (staking_ledger_epoch_key_prefix genesis_hash epoch) (\<lambda>prefix.
     key_of [(STATE_HASH_LEN + U32_LEN, prefix), (LEDGER_HASH_LEN, ledger_hash)])"

definition split_staking_ledger_epoch_key ::
    "bytes \<Rightarrow> (state_hash \<times> u32 \<times> ledger_hash) option run" where
  "split_staking_ledger_epoch_key key =
     (if length key = STATE_HASH_LEN + U32_LEN + LEDGER_HASH_LEN
      then bind_ok (slice_to STATE_HASH_LEN key) (\<lambda>h.
        bind_ok (slice_from STATE_HASH_LEN key) (\<lambda>rest.
        bind_ok (slice_to U32_LEN rest) (\<lambda>e.
        map_ok (\<lambda>l.
          Option.bind (state_hash_from_bytes h) (\<lambda>genesis_hash.
          Option.bind (u32_from_be_bytes e) (\<lambda>epoch.
          map_option (\<lambda>ledger_hash. (genesis_hash, epoch, ledger_hash)) (ledger_hash_from_bytes l))))
          (slice_from U32_LEN rest))))
      else Inr None)"

section \<open>Command keys\<close>

definition internal_commmand_block_key :: "state_hash \<Rightarrow> u32 \<Rightarrow> bytes run" where
  "internal_commmand_block_key state_hash index =
     key_of [(STATE_HASH_LEN, state_hash), (U32_LEN, to_be_bytes index)]"

definition internal_commmand_pk_key :: "public_key \<Rightarrow> u32 \<Rightarrow> bytes run" where
  "internal_commmand_pk_key pk index = key_of [(PUBLIC_KEY_LEN, pk), (U32_LEN, to_be_bytes index)]"

definition internal_commmand_sort_key :: "u32 \<Rightarrow> state_hash \<Rightarrow> u32 \<Rightarrow> bytes run" where
  "internal_commmand_sort_key prefix state_hash index =
     key_of [(U32_LEN, to_be_bytes prefix), (STATE_HASH_LEN, state_hash), (U32_LEN, to_be_bytes index)]"

definition internal_commmand_pk_sort_key ::
    "public_key \<Rightarrow> u32 \<Rightarrow> state_hash \<Rightarrow> u32 \<Rightarrow> u8 \<Rightarrow> bytes run" where
  "internal_commmand_pk_sort_key pk sort_value state_hash index kind =
     key_of [(PUBLIC_KEY_LEN, pk), (U32_LEN, to_be_bytes sort_value), (STATE_HASH_LEN, state_hash),
       (U32_LEN, to_be_bytes index), (1, to_be_bytes kind)]"

definition internal_command_pk_key :: "public_key \<Rightarrow> u32 \<Rightarrow> bytes run" where
  "internal_command_pk_key pk index = key_of [(PUBLIC_KEY_LEN, pk), (U32_LEN, to_be_bytes index)]"

definition internal_command_pk_sort_key_state_hash :: "bytes \<Rightarrow> state_hash run" where
  "internal_command_pk_sort_key_state_hash key =
     bind_ok (slice_from (PUBLIC_KEY_LEN + U32_LEN) key) (\<lambda>s.
     bind_ok (slice_to STATE_HASH_LEN s) (\<lambda>s. unwrap (state_hash_from_bytes s)))"

definition internal_command_pk_sort_key_index :: "bytes \<Rightarrow> u32 run" where
  "internal_command_pk_sort_key_index key =
     bind_ok (slice_from PUBLIC_KEY_LEN key) (\<lambda>s. bind_ok (slice_from U32_LEN s) (\<lambda>s.
     bind_ok (slice_from STATE_HASH_LEN s) (\<lambda>s. bind_ok (slice_to U32_LEN s) (\<lambda>s.
     unwrap (u32_from_be_bytes s)))))"

definition internal_command_pk_sort_key_kind :: "bytes \<Rightarrow> u8 run" where
  "internal_command_pk_sort_key_kind key =
     map_ok (\<lambda>c. word_of_nat (of_char c))
       (index_ok key (PUBLIC_KEY_LEN + U32_LEN + STATE_HASH_LEN + U32_LEN))"

definition txn_sort_key :: "u32 \<Rightarrow> txn_hash \<Rightarrow> state_hash \<Rightarrow> bytes run" where
  "txn_sort_key prefix txn_hash state_hash =
     bind_ok (right_pad_v2 txn_hash) (\<lambda>txn.
     key_of [(U32_LEN, to_be_bytes prefix), (TXN_HASH_V1_LEN, txn), (STATE_HASH_LEN, state_hash)])"

text \<open>The public key is copied before the transaction hash is padded.\<close>

definition pk_txn_sort_key ::
    "public_key \<Rightarrow> u32 \<Rightarrow> u32 \<Rightarrow> txn_hash \<Rightarrow> state_hash \<Rightarrow> bytes run" where
  "pk_txn_sort_key pk sort_value nonce txn_hash state_hash =
     bind_ok (copy_slice PUBLIC_KEY_LEN pk) (\<lambda>pk.
     bind_ok (right_pad_v2 txn_hash) (\<lambda>txn.
     key_of [(PUBLIC_KEY_LEN, pk), (U32_LEN, to_be_bytes sort_value), (U32_LEN, to_be_bytes nonce),
       (TXN_HASH_V1_LEN, txn), (STATE_HASH_LEN, state_hash)]))"

definition pk_txn_sort_key_prefix :: "public_key \<Rightarrow> u32 \<Rightarrow> bytes run" where
  "pk_txn_sort_key_prefix public_key sort_value =
     key_of [(PUBLIC_KEY_LEN, public_key), (U32_LEN, to_be_bytes sort_value)]"

definition pk_txn_sort_key_nonce :: "bytes \<Rightarrow> nonce run" where
  "pk_txn_sort_key_nonce key =
     bind_ok (slice_from PUBLIC_KEY_LEN key) (\<lambda>s. bind_ok (slice_from U32_LEN s) (\<lambda>s.
     bind_ok (slice_to U32_LEN s) (\<lambda>s. unwrap (u32_from_be_bytes s))))"

definition txn_hash_of_key :: "bytes \<Rightarrow> txn_hash run" where
  "txn_hash_of_key key =
     bind_ok (slice_from PUBLIC_KEY_LEN key) (\<lambda>s. bind_ok (slice_from U32_LEN s) (\<lambda>s.
     bind_ok (slice_from U32_LEN s) (\<lambda>s. bind_ok (slice_to TXN_HASH_V1_LEN s) (\<lambda>s.
     bind_ok (txn_hash_from_bytes s) unwrap))))"

definition pk_txn_sort_key_state_hash :: "bytes \<Rightarrow> state_hash run" where
  "pk_txn_sort_key_state_hash key = bind_ok (state_hash_suffix key) unwrap"

definition txn_block_key :: "txn_hash \<Rightarrow> state_hash \<Rightarrow> bytes run" where
  "txn_block_key txn_hash state_hash =
     bind_ok (right_pad_v2 txn_hash) (\<lambda>txn.
     key_of [(TXN_HASH_V1_LEN, txn), (STATE_HASH_LEN, state_hash)])"

definition user_commands_iterator_u32_prefix :: "bytes \<Rightarrow> u32 run" where
  "user_commands_iterator_u32_prefix key =
     bind_ok (slice_to U32_LEN key) (\<lambda>s. unwrap (u32_from_be_bytes s))"

definition user_commands_iterator_txn_hash :: "bytes \<Rightarrow> txn_hash option run" where
  "user_commands_iterator_txn_hash key =
     bind_ok (slice_from U32_LEN key) (\<lambda>s. bind_ok (slice_to TXN_HASH_V1_LEN s) txn_hash_from_bytes)"

definition user_commands_iterator_state_hash :: "bytes \<Rightarrow> state_hash option run" where
  "user_commands_iterator_state_hash key =
     bind_ok (slice_from U32_LEN key) (\<lambda>s. map_ok state_hash_from_bytes (slice_from TXN_HASH_V1_LEN s))"

section \<open>SNARK and zkapp keys\<close>

definition snark_epoch_key :: "u32 \<Rightarrow> public_key \<Rightarrow> bytes run" where
  "snark_epoch_key epoch pk = key_of [(U32_LEN, to_be_bytes epoch), (PUBLIC_KEY_LEN, pk)]"

definition snark_fee_sort_key :: "u64 \<Rightarrow> u32 \<Rightarrow> public_key \<Rightarrow> state_hash \<Rightarrow> u32 \<Rightarrow> bytes run" where
  "snark_fee_sort_key fee u32_sort pk state_hash index =
     key_of [(U64_LEN, to_be_bytes fee), (U32_LEN, to_be_bytes u32_sort), (PUBLIC_KEY_LEN, pk),
       (STATE_HASH_LEN, state_hash), (U32_LEN, to_be_bytes index)]"

definition snark_prover_sort_key :: "public_key \<Rightarrow> u32 \<Rightarrow> u32 \<Rightarrow> bytes run" where
  "snark_prover_sort_key prover u32_sort index =
     key_of [(PUBLIC_KEY_LEN, prover), (U32_LEN, to_be_bytes u32_sort), (U32_LEN, to_be_bytes index)]"

definition snark_fee_epoch_sort_key :: "u32 \<Rightarrow> u64 \<Rightarrow> public_key \<Rightarrow> bytes run" where
  "snark_fee_epoch_sort_key epoch fee prover =
     key_of [(U32_LEN, to_be_bytes epoch), (U64_LEN, to_be_bytes fee), (PUBLIC_KEY_LEN, prover)]"

definition zkapp_actions_key :: "token_address \<Rightarrow> public_key \<Rightarrow> u32 \<Rightarrow> bytes run" where
  "zkapp_actions_key token pk index = token_pk_index_key token pk index"

definition zkapp_actions_pk_num_key :: "token_address \<Rightarrow> public_key \<Rightarrow> bytes run" where
  "zkapp_actions_pk_num_key token pk = token_pk_key token pk"

definition zkapp_events_key :: "token_address \<Rightarrow> public_key \<Rightarrow> u32 \<Rightarrow> bytes run" where
  "zkapp_events_key token pk index = token_pk_index_key token pk index"

definition zkapp_events_pk_num_key :: "token_address \<Rightarrow> public_key \<Rightarrow> bytes run" where
  "zkapp_events_pk_num_key token pk = token_pk_key token pk"

section \<open>Numbers and their bytes\<close>

lemma length_be_digits [simp]: "length (be_digits n v) = n"
  by (induction n arbitrary: v) auto

lemma be_value_snoc: "be_value (bs @ [c]) = be_value bs * 256 + of_char c"
  by (simp add: be_value_def)

lemma be_value_digits: "be_value (be_digits n v) = v mod 256 ^ n"
proof (induction n arbitrary: v)
  case (Suc n)
  have "v mod 256 ^ Suc n = (v div 256) mod 256 ^ n * 256 + v mod 256"
    using mod_mult2_eq[of v 256 "256 ^ n"] by simp
  with Suc show ?case by (simp add: be_value_snoc)
qed (simp add: be_value_def)

lemma length_to_be_bytes [simp]:
  "length (to_be_bytes (w :: u32)) = U32_LEN" "length (to_be_bytes (x :: u64)) = U64_LEN"
  "length (to_be_bytes (y :: u8)) = 1"
  by (simp_all add: to_be_bytes_def len_defs)

lemma word_of_be_to_be: "8 dvd LENGTH('a) \<Longrightarrow> word_of_be (to_be_bytes (w :: 'a::len word)) = w"
proof -
  assume "8 dvd LENGTH('a)"
  then obtain k where k: "LENGTH('a) = 8 * k" by blast
  have "unat w < 256 ^ k"
    using unsigned_less[of w, where ?'a = nat] by (simp add: k power_mult)
  then show ?thesis by (simp add: word_of_be_def to_be_bytes_def be_value_digits k)
qed

lemma from_be_to_be [simp]:
  "u32_from_be_bytes (to_be_bytes w) = Some w" "u64_from_be_bytes (to_be_bytes x) = Some x"
  "i64_from_be_bytes (to_be_bytes x) = Some x" "from_be_bytes (to_be_bytes w) = Inr w"
  by (simp_all add: u32_from_be_bytes_def u64_from_be_bytes_def i64_from_be_bytes_def from_be_bytes_def
      word_of_be_to_be I64_LEN_def U64_LEN_def[symmetric])

lemma to_be_bytes_inject:
  "8 dvd LENGTH('a) \<Longrightarrow> to_be_bytes (v :: 'a::len word) = to_be_bytes w \<longleftrightarrow> v = w"
  by (metis word_of_be_to_be)

lemma to_be_bytes_inject_u [simp]:
  "to_be_bytes (a :: u32) = to_be_bytes b \<longleftrightarrow> a = b" "to_be_bytes (c :: u64) = to_be_bytes d \<longleftrightarrow> c = d"
  by (simp_all add: to_be_bytes_inject)

lemma append_less_iff:
  "length xs = length ys \<Longrightarrow> xs @ us < ys @ vs \<longleftrightarrow> xs < ys \<or> xs = ys \<and> us < (vs :: 'a::linorder list)"
  by (induction xs ys rule: list_induct2) auto

lemma be_digits_less_iff:
  "v < 256 ^ n \<Longrightarrow> w < 256 ^ n \<Longrightarrow> be_digits n v < be_digits n w \<longleftrightarrow> v < w"
proof (induction n arbitrary: v w)
  case (Suc n)
  have IH: "be_digits n (v div 256) < be_digits n (w div 256) \<longleftrightarrow> v div 256 < w div 256"
    using Suc by (simp add: less_mult_imp_div_less mult.commute)
  have eq: "be_digits n (v div 256) = be_digits n (w div 256) \<longleftrightarrow> v div 256 = w div 256"
    using Suc.prems be_value_digits[of n "v div 256"] be_value_digits[of n "w div 256"]
    by (metis less_mult_imp_div_less mod_less mult.commute power_Suc)
  have "v < w \<longleftrightarrow> v div 256 < w div 256 \<or> v div 256 = w div 256 \<and> v mod 256 < w mod 256"
    using div_mult_mod_eq[of v 256] div_mult_mod_eq[of w 256] mod_less_divisor[of 256 v]
      mod_less_divisor[of 256 w] by linarith
  then show ?case by (simp add: append_less_iff IH eq less_char_def)
qed simp

lemma to_be_bytes_less_iff:
  "8 dvd LENGTH('a) \<Longrightarrow> to_be_bytes (v :: 'a::len word) < to_be_bytes w \<longleftrightarrow> v < w"
proof -
  assume "8 dvd LENGTH('a)"
  then obtain k where k: "LENGTH('a) = 8 * k" by blast
  have "unat x < 256 ^ k" for x :: "'a word"
    using unsigned_less[of x, where ?'a = nat] by (simp add: k power_mult)
  then show ?thesis by (simp add: to_be_bytes_def be_digits_less_iff k word_less_nat_alt)
qed

lemma to_be_bytes_less_iff_u [simp]:
  "to_be_bytes (a :: u32) < to_be_bytes b \<longleftrightarrow> a < b" "to_be_bytes (c :: u64) < to_be_bytes d \<longleftrightarrow> c < d"
  by (simp_all add: to_be_bytes_less_iff)

section \<open>Parts of keys\<close>

lemma copy_slice_Inr_iff [run_simps]: "copy_slice n s = Inr t \<longleftrightarrow> length s = n \<and> t = s"
  by (auto simp: copy_slice_def)

lemma copy_slice_same [simp]: "length s = n \<Longrightarrow> copy_slice n s = Inr s"
  by (simp add: copy_slice_def)

lemma key_of_simps [simp]:
  "key_of [] = Inr []"
  "length s = n \<Longrightarrow> key_of ((n, s) # parts) = map_ok (\<lambda>k. s @ k) (key_of parts)"
  by (cases "traverse_ok (\<lambda>(n, s). copy_slice n s) parts"; simp add: key_of_def)+

lemma slice_append [simp]:
  "length s = n \<Longrightarrow> slice_from n (s @ t) = Inr t"
  "length s = n \<Longrightarrow> slice_to n (s @ t) = Inr s"
  "length s = n \<Longrightarrow> slice_to n s = Inr s"
  by (auto simp: slice_from_def slice_to_def)

lemma public_key_from_bytes_valid:
  "public_key_from_bytes s = Some pk \<longleftrightarrow> s = pk \<and> utf8_valid (bytes_of_string pk) \<and> public_key_is_valid pk"
  by (auto simp: public_key_from_bytes_def from_utf8_def public_key_from_str_def)

lemma state_hash_from_bytes_valid:
  "state_hash_from_bytes s = Some h \<longleftrightarrow> s = h \<and> utf8_valid (bytes_of_string h) \<and> state_hash_is_valid h"
  by (auto simp: state_hash_from_bytes_def from_utf8_def state_hash_from_str_def)

text \<open>What a stored string must satisfy to be read back.\<close>

definition pk_stored :: "public_key \<Rightarrow> bool" where
  "pk_stored pk \<longleftrightarrow> utf8_valid (bytes_of_string pk) \<and> public_key_is_valid pk"

definition hash_stored :: "state_hash \<Rightarrow> bool" where
  "hash_stored h \<longleftrightarrow> utf8_valid (bytes_of_string h) \<and> state_hash_is_valid h"

lemma pk_stored_length [simp]: "pk_stored pk \<Longrightarrow> length pk = PUBLIC_KEY_LEN"
  by (simp add: pk_stored_def public_key_is_valid_def len_defs)

lemma hash_stored_length [simp]: "hash_stored h \<Longrightarrow> length h = STATE_HASH_LEN"
  by (simp add: hash_stored_def state_hash_is_valid_def len_defs)

lemma pk_stored_read [simp]: "pk_stored pk \<Longrightarrow> public_key_from_bytes pk = Some pk"
  by (simp add: public_key_from_bytes_valid pk_stored_def)

lemma hash_stored_read [simp]: "hash_stored h \<Longrightarrow> state_hash_from_bytes h = Some h"
  by (simp add: state_hash_from_bytes_valid hash_stored_def)

lemma key_parts_read [simp]:
  "pk_stored pk \<Longrightarrow> pk_key_prefix pk = Inr pk"
  "balance_key_prefix (to_be_bytes w @ k) = Inr w"
  by (simp_all add: pk_key_prefix_def balance_key_prefix_def)

lemma txn_hash_padded:
  assumes "txn_hash_is_valid h" "utf8_valid (bytes_of_string (txn_hash_inner h))"
  shows "\<exists>s. right_pad_v2 h = Inr s \<and> length s = TXN_HASH_V1_LEN \<and> txn_hash_from_bytes s = Inr (Some h)"
proof (cases h)
  case (TxnV1 x)
  then have v1: "starts_with x ''Ckp''" "length x = TXN_HASH_V1_LEN"
    using assms(1) by (auto simp: txn_hash_is_valid_v1_def)
  then have "\<not> starts_with x ''5J''"
    by (cases x) (auto simp: starts_with_def)
  with v1 TxnV1 assms(2) show ?thesis
    by (simp add: txn_hash_from_bytes_def from_utf8_def txn_hash_new_def txn_hash_is_valid_v1_def)
next
  case (TxnV2 x)
  then have v2: "starts_with x ''5J''" "length x = TXN_HASH_V2_LEN"
    using assms(1) by (auto simp: txn_hash_is_valid_v2_def)
  then have "\<not> txn_hash_is_valid_v1 x" by (simp add: txn_hash_is_valid_v1_def len_defs)
  moreover have "starts_with (x @ [c]) ''5J''" for c
    using v2 by (simp add: starts_with_def len_defs)
  ultimately show ?thesis using v2 TxnV2 assms
    by (simp add: txn_hash_from_bytes_def from_utf8_def txn_hash_new_def txn_hash_is_valid_v2_def len_defs)
qed

section \<open>Properties of the keys\<close>

text \<open>
  C34: on tokens and public keys of the stored lengths the database orders the balance keys of the best
  ledger by token, then balance as a number, then public key.
\<close>

theorem best_account_sort_key_order:
  assumes "length token = TOKEN_ADDRESS_LEN" "length token' = TOKEN_ADDRESS_LEN"
    "length pk = PUBLIC_KEY_LEN" "length pk' = PUBLIC_KEY_LEN"
  shows "\<exists>k k'. best_account_sort_key token balance pk = Inr k \<and>
    best_account_sort_key token' balance' pk' = Inr k' \<and>
    (k < k' \<longleftrightarrow> (token, balance, pk) < (token', balance', pk'))"
  using assms by (auto simp: best_account_sort_key_def append_less_iff)

theorem best_account_sort_key_order_witness:
  "\<exists>k k'. best_account_sort_key MINA_TOKEN_ADDRESS 255 public_key_default = Inr k \<and>
    best_account_sort_key MINA_TOKEN_ADDRESS 256 public_key_lower_bound = Inr k' \<and>
    (k < k' \<longleftrightarrow> (MINA_TOKEN_ADDRESS, 255 :: u64, public_key_default) <
      (MINA_TOKEN_ADDRESS, 256, public_key_lower_bound))"
  by (rule best_account_sort_key_order)
    (simp_all add: len_defs MINA_TOKEN_ADDRESS_def public_key_default_def public_key_lower_bound_def)

text \<open>
  The keys of the best, staged and staking ledgers of well-formed parts are built without a panic, and
  the functions that split them give the parts back.
\<close>

lemma ledger_keys_split:
  assumes "pk_stored pk" "hash_stored hash" "length token = TOKEN_ADDRESS_LEN"
    "utf8_valid (bytes_of_string token)" "ledger_hash_is_valid ledger" "utf8_valid (bytes_of_string ledger)"
  shows
    "bind_ok (best_account_sort_key token balance pk) split_best_account_sort_key =
       Inr (Some (token, balance, pk)) \<and>
     bind_ok (staged_account_balance_sort_key hash token balance pk) split_staged_account_balance_sort_key =
       Inr (Some (hash, token, balance, pk)) \<and>
     bind_ok (staking_ledger_sort_key epoch balance pk) split_staking_ledger_sort_key =
       Inr (Some (epoch, balance, pk)) \<and>
     bind_ok (staking_ledger_epoch_key hash epoch ledger) split_staking_ledger_epoch_key =
       Inr (Some (hash, epoch, ledger))"
proof -
  have "length ledger = LEDGER_HASH_LEN" using assms(5) by (simp add: ledger_hash_is_valid_def len_defs)
  with assms show ?thesis
    by (simp add: best_account_sort_key_def split_best_account_sort_key_def token_address_from_bytes_def
        from_utf8_def staged_account_balance_sort_key_def split_staged_account_balance_sort_key_def
        staking_ledger_sort_key_def split_staking_ledger_sort_key_def staking_ledger_epoch_key_def
        staking_ledger_epoch_key_prefix_def split_staking_ledger_epoch_key_def ledger_hash_from_bytes_def
        ledger_hash_new_def)
qed

theorem ledger_keys_split_witness:
  "bind_ok (best_account_sort_key MINA_TOKEN_ADDRESS 5 public_key_default) split_best_account_sort_key =
       Inr (Some (MINA_TOKEN_ADDRESS, 5, public_key_default)) \<and>
     bind_ok (staged_account_balance_sort_key state_hash_default MINA_TOKEN_ADDRESS 5 public_key_default)
       split_staged_account_balance_sort_key =
       Inr (Some (state_hash_default, MINA_TOKEN_ADDRESS, 5, public_key_default)) \<and>
     bind_ok (staking_ledger_sort_key 7 5 public_key_default) split_staking_ledger_sort_key =
       Inr (Some (7, 5, public_key_default)) \<and>
     bind_ok (staking_ledger_epoch_key state_hash_default 7 ledger_hash_default)
       split_staking_ledger_epoch_key =
       Inr (Some (state_hash_default, 7, ledger_hash_default))"
  by (rule ledger_keys_split)
    (simp_all add: pk_stored_def hash_stored_def len_defs MINA_TOKEN_ADDRESS_def public_key_default_def
      state_hash_default_def ledger_hash_default_def bytes_of_string_def public_key_is_valid_def
      state_hash_is_valid_def ledger_hash_is_valid_def starts_with_def)

text \<open>
  The key that sorts a transaction by sender or receiver, built from a valid transaction hash of
  either version, gives back its sort value, nonce, transaction hash and block.
\<close>

lemma txn_sort_key_parts:
  assumes "length pk = PUBLIC_KEY_LEN" "hash_stored block_hash" "txn_hash_is_valid txn"
    "utf8_valid (bytes_of_string (txn_hash_inner txn))"
  shows "\<exists>k. pk_txn_sort_key pk sort_value nonce txn block_hash = Inr k \<and>
    pk_txn_sort_key_sort k = Inr sort_value \<and> pk_txn_sort_key_nonce k = Inr nonce \<and>
    txn_hash_of_key k = Inr txn \<and> pk_txn_sort_key_state_hash k = Inr block_hash"
proof -
  obtain s where s: "right_pad_v2 txn = Inr s" "length s = TXN_HASH_V1_LEN"
    "txn_hash_from_bytes s = Inr (Some txn)" using txn_hash_padded assms(3,4) by blast
  let ?front = "pk @ to_be_bytes sort_value @ to_be_bytes nonce @ s"
  have "state_hash_suffix (?front @ block_hash) = Inr (Some block_hash)"
    using assms(2) by (simp add: state_hash_suffix_def slice_from_def)
  with s assms(1,2) show ?thesis
    by (simp add: pk_txn_sort_key_def pk_txn_sort_key_sort_def pk_txn_sort_key_nonce_def txn_hash_of_key_def
        pk_txn_sort_key_state_hash_def)
qed

theorem txn_sort_key_parts_witness:
  "\<exists>k. pk_txn_sort_key public_key_default 9 3
      (TxnV2 ''5JBOGUSBOGUSBOGUSBOGUSBOGUSBOGUSBOGUSBOGUSBOGUSBOGUS'') state_hash_default = Inr k \<and>
    pk_txn_sort_key_sort k = Inr 9 \<and> pk_txn_sort_key_nonce k = Inr 3 \<and>
    txn_hash_of_key k = Inr (TxnV2 ''5JBOGUSBOGUSBOGUSBOGUSBOGUSBOGUSBOGUSBOGUSBOGUSBOGUS'') \<and>
    pk_txn_sort_key_state_hash k = Inr state_hash_default"
  by (rule txn_sort_key_parts)
    (simp_all add: hash_stored_def len_defs public_key_default_def state_hash_default_def bytes_of_string_def
      txn_hash_is_valid_v2_def state_hash_is_valid_def starts_with_def)

end
