(* ===== verification/Column_Families.thy ===== *)
theory Column_Families
  imports Mina_Prelude
begin

text \<open>
  The column families of the database: the names with which the store opens it (\<open>store/mod.rs\<close>) and the
  helpers that look up a handle by name (\<open>store/column_families_impl.rs\<close>).  A handle is the name; that
  the \<open>expect\<close> of every helper succeeds and that no two helpers share a family is proved below.
\<close>

type_synonym column_family = string

section \<open>The families the store opens\<close>

definition COLUMN_FAMILIES :: "string list" where
  "COLUMN_FAMILIES = [
     ''blocks'', ''blocks-state-hash'', ''blocks-version'', ''blocks-at-length'',
     ''blocks-at-slot'', ''blocks-height'', ''blocks-global-slot'', ''blocks-parent-hash'',
     ''blocks-date-time'', ''blocks-epoch'', ''blocks-genesis-hash'',
     ''blocks-height-to-slots'', ''blocks-slot-to-heights'', ''blocks-height-sort'',
     ''blocks-global-slot-sort'', ''blocks-comparison'', ''blocks-coinbase-receiver'',
     ''blocks-creator'', ''block-creator-height-sort'', ''block-creator-slot-sort'',
     ''coinbase-receiver-height-sort'', ''coinbase-receiver-slot-sort'',
     ''block-epoch-slots-produced'', ''block-pk-epoch-slots-produced'', ''blocks-pk-count'',
     ''canonicity-length'', ''canonicity-slot'', ''user-commands'', ''user-commands-pk'',
     ''user-commands-pk-num'', ''user-commands-block'', ''user-commands-block-order'',
     ''user-commands-num-blocks'', ''user-commands-slot-sort'', ''user-commands-height-sort'',
     ''user-commands-to-global-slot'', ''user-commands-to-block-height'',
     ''user-command-state-hashes'', ''txn-from-slot-sort'', ''txn-from-height-sort'',
     ''txn-to-slot-sort'', ''txn-to-height-sort'', ''zkapp-actions'', ''zkapp-actions-pk-num'',
     ''zkapp-events'', ''zkapp-events-pk-num'', ''internal-commands'',
     ''internal-commands-block-num'', ''internal-commands-global-slot-sort'',
     ''internal-commands-block-height-sort'', ''internal-commands-pk'',
     ''internal-commands-pk-num'', ''internal-commands-pk-global-slot-sort'',
     ''internal-commands-pk-block-height-sort'', ''snarks'', ''snarks-prover'',
     ''snark-prover-fees'', ''snark-prover-fees-epoch'', ''snark-prover-fees-historical'',
     ''snark-prover-fees-epoch-historical'', ''snark-prover-total-fees-sort'',
     ''snark-prover-total-fees-epoch-sort'', ''snark-prover-max-fee'',
     ''snark-prover-max-fee-epoch'', ''snark-prover-max-fee-sort'',
     ''snark-prover-max-fee-epoch-sort'', ''snark-prover-min-fee'',
     ''snark-prover-min-fee-epoch'', ''snark-prover-min-fee-sort'',
     ''snark-prover-min-fee-epoch-sort'', ''snark-prover-block-height-sort'',
     ''snark-prover-global-slot-sort'', ''snark-work-fees-block-height-sort'',
     ''snark-work-fees-global-slot-sort'', ''events'', ''best-ledger-accounts'',
     ''best-ledger-account-balance-sort'', ''best-ledger-account-num-delegations'',
     ''best-ledger-account-delegations'', ''zkapp-best-ledger-accounts'',
     ''zkapp-best-ledger-account-balance-sort'', ''staged-ledger-accounts'',
     ''staged-ledger-account-balance-sort'', ''staged-ledger-account-num-delegations'',
     ''staged-ledger-account-delegations'', ''staged-ledger-hash-to-block'',
     ''staged-ledger-persisted'', ''staged-ledger-accounts-min-block'', ''blocks-ledger-diff'',
     ''blocks-staged-ledger-hash'', ''staking-ledger-accounts'', ''staking-ledger-delegations'',
     ''staking-ledger-persisted'', ''staking-ledger-epoch-to-hash'',
     ''staking-ledger-hash-to-epoch'', ''staking-ledger-genesis-hash'',
     ''staking-ledger-total-currency'', ''staking-ledger-balance-sort'',
     ''staking-ledger-stake-sort'', ''staking-ledger-accounts-count-epoch'',
     ''chain-id-to-network'', ''username-pk-num'', ''username-pk-index'',
     ''usernames-per-block'', ''block-production-pk-epoch'',
     ''block-production-pk-canonical-epoch'', ''block-production-pk-canonical-epoch-sort'',
     ''block-production-pk-supercharged-epoch'', ''block-production-pk-total'',
     ''block-production-pk-canonical-total'', ''block-production-pk-supercharged-total'',
     ''block-production-epoch'', ''block-production-canonical-epoch'',
     ''block-production-supercharged-epoch'', ''block-snark-counts'',
     ''block-user-command-counts'', ''block-internal-command-counts'',
     ''block-epoch-slots-produced-count'', ''block-pk-epoch-slots-produced-count'',
     ''block-pk-epoch-slots-produced-count-sort'', ''user-commands-epoch'',
     ''user-commands-pk-epoch'', ''user-commands-pk-total'', ''internal-commands-epoch'',
     ''internal-commands-pk-epoch'', ''internal-commands-pk-total'', ''snarks-epoch'',
     ''snarks-pk-epoch'', ''snarks-pk-total'']"

section \<open>Block store CFs\<close>

definition blocks_cf :: column_family where
  "blocks_cf = ''blocks''"

definition blocks_state_hash_cf :: column_family where
  "blocks_state_hash_cf = ''blocks-state-hash''"

definition block_version_cf :: column_family where
  "block_version_cf = ''blocks-version''"

definition blocks_global_slot_sort_cf :: column_family where
  "blocks_global_slot_sort_cf = ''blocks-global-slot-sort''"

definition blocks_height_sort_cf :: column_family where
  "blocks_height_sort_cf = ''blocks-height-sort''"

definition block_height_to_global_slots_cf :: column_family where
  "block_height_to_global_slots_cf = ''blocks-height-to-slots''"

definition block_global_slot_to_heights_cf :: column_family where
  "block_global_slot_to_heights_cf = ''blocks-slot-to-heights''"

definition block_date_time_cf :: column_family where
  "block_date_time_cf = ''blocks-date-time''"

definition block_parent_hash_cf :: column_family where
  "block_parent_hash_cf = ''blocks-parent-hash''"

definition block_height_cf :: column_family where
  "block_height_cf = ''blocks-height''"

definition block_global_slot_cf :: column_family where
  "block_global_slot_cf = ''blocks-global-slot''"

definition block_epoch_cf :: column_family where
  "block_epoch_cf = ''blocks-epoch''"

definition block_genesis_state_hash_cf :: column_family where
  "block_genesis_state_hash_cf = ''blocks-genesis-hash''"

definition block_creator_cf :: column_family where
  "block_creator_cf = ''blocks-creator''"

definition block_coinbase_receiver_cf :: column_family where
  "block_coinbase_receiver_cf = ''blocks-coinbase-receiver''"

definition block_coinbase_height_sort_cf :: column_family where
  "block_coinbase_height_sort_cf = ''coinbase-receiver-height-sort''"

definition block_coinbase_slot_sort_cf :: column_family where
  "block_coinbase_slot_sort_cf = ''coinbase-receiver-slot-sort''"

definition block_creator_height_sort_cf :: column_family where
  "block_creator_height_sort_cf = ''block-creator-height-sort''"

definition block_creator_slot_sort_cf :: column_family where
  "block_creator_slot_sort_cf = ''block-creator-slot-sort''"

definition blocks_at_height_cf :: column_family where
  "blocks_at_height_cf = ''blocks-at-length''"

definition blocks_at_global_slot_cf :: column_family where
  "blocks_at_global_slot_cf = ''blocks-at-slot''"

definition block_comparison_cf :: column_family where
  "block_comparison_cf = ''blocks-comparison''"

definition block_epoch_slots_produced_cf :: column_family where
  "block_epoch_slots_produced_cf = ''block-epoch-slots-produced''"

definition block_pk_epoch_slots_produced_cf :: column_family where
  "block_pk_epoch_slots_produced_cf = ''block-pk-epoch-slots-produced''"

definition blocks_pk_count_cf :: column_family where
  "blocks_pk_count_cf = ''blocks-pk-count''"

section \<open>User command store CFs\<close>

definition user_commands_pk_cf :: column_family where
  "user_commands_pk_cf = ''user-commands-pk''"

definition user_commands_pk_num_cf :: column_family where
  "user_commands_pk_num_cf = ''user-commands-pk-num''"

definition user_command_state_hashes_cf :: column_family where
  "user_command_state_hashes_cf = ''user-command-state-hashes''"

definition user_commands_cf :: column_family where
  "user_commands_cf = ''user-commands''"

definition user_commands_per_block_cf :: column_family where
  "user_commands_per_block_cf = ''user-commands-block''"

definition user_commands_block_order_cf :: column_family where
  "user_commands_block_order_cf = ''user-commands-block-order''"

definition user_commands_num_containing_blocks_cf :: column_family where
  "user_commands_num_containing_blocks_cf = ''user-commands-num-blocks''"

definition user_commands_height_sort_cf :: column_family where
  "user_commands_height_sort_cf = ''user-commands-height-sort''"

definition user_commands_slot_sort_cf :: column_family where
  "user_commands_slot_sort_cf = ''user-commands-slot-sort''"

definition user_commands_txn_hash_to_block_height_cf :: column_family where
  "user_commands_txn_hash_to_block_height_cf = ''user-commands-to-block-height''"

definition user_commands_txn_hash_to_global_slot_cf :: column_family where
  "user_commands_txn_hash_to_global_slot_cf = ''user-commands-to-global-slot''"

definition txn_from_slot_sort_cf :: column_family where
  "txn_from_slot_sort_cf = ''txn-from-slot-sort''"

definition txn_from_height_sort_cf :: column_family where
  "txn_from_height_sort_cf = ''txn-from-height-sort''"

definition txn_to_slot_sort_cf :: column_family where
  "txn_to_slot_sort_cf = ''txn-to-slot-sort''"

definition txn_to_height_sort_cf :: column_family where
  "txn_to_height_sort_cf = ''txn-to-height-sort''"

section \<open>Zkapp store CFs\<close>

definition zkapp_actions_cf :: column_family where
  "zkapp_actions_cf = ''zkapp-actions''"

definition zkapp_actions_pk_num_cf :: column_family where
  "zkapp_actions_pk_num_cf = ''zkapp-actions-pk-num''"

definition zkapp_events_cf :: column_family where
  "zkapp_events_cf = ''zkapp-events''"

definition zkapp_events_pk_num_cf :: column_family where
  "zkapp_events_pk_num_cf = ''zkapp-events-pk-num''"

section \<open>Internal command store CFs\<close>

definition internal_commands_cf :: column_family where
  "internal_commands_cf = ''internal-commands''"

definition internal_commands_block_num_cf :: column_family where
  "internal_commands_block_num_cf = ''internal-commands-block-num''"

definition internal_commands_pk_cf :: column_family where
  "internal_commands_pk_cf = ''internal-commands-pk''"

definition internal_commands_pk_num_cf :: column_family where
  "internal_commands_pk_num_cf = ''internal-commands-pk-num''"

definition internal_commands_block_height_sort_cf :: column_family where
  "internal_commands_block_height_sort_cf = ''internal-commands-block-height-sort''"

definition internal_commands_global_slot_sort_cf :: column_family where
  "internal_commands_global_slot_sort_cf = ''internal-commands-global-slot-sort''"

definition internal_commands_pk_block_height_sort_cf :: column_family where
  "internal_commands_pk_block_height_sort_cf = ''internal-commands-pk-block-height-sort''"

definition internal_commands_pk_global_slot_sort_cf :: column_family where
  "internal_commands_pk_global_slot_sort_cf = ''internal-commands-pk-global-slot-sort''"

section \<open>Canonicity store CFs\<close>

definition canonicity_length_cf :: column_family where
  "canonicity_length_cf = ''canonicity-length''"

definition canonicity_slot_cf :: column_family where
  "canonicity_slot_cf = ''canonicity-slot''"

section \<open>Best ledger store CFs\<close>

definition best_ledger_accounts_cf :: column_family where
  "best_ledger_accounts_cf = ''best-ledger-accounts''"

definition best_ledger_accounts_balance_sort_cf :: column_family where
  "best_ledger_accounts_balance_sort_cf = ''best-ledger-account-balance-sort''"

definition zkapp_best_ledger_accounts_cf :: column_family where
  "zkapp_best_ledger_accounts_cf = ''zkapp-best-ledger-accounts''"

definition zkapp_best_ledger_accounts_balance_sort_cf :: column_family where
  "zkapp_best_ledger_accounts_balance_sort_cf = ''zkapp-best-ledger-account-balance-sort''"

definition best_ledger_accounts_num_delegations_cf :: column_family where
  "best_ledger_accounts_num_delegations_cf = ''best-ledger-account-num-delegations''"

definition best_ledger_accounts_delegations_cf :: column_family where
  "best_ledger_accounts_delegations_cf = ''best-ledger-account-delegations''"

section \<open>Staged ledger store CFs\<close>

definition staged_ledger_accounts_cf :: column_family where
  "staged_ledger_accounts_cf = ''staged-ledger-accounts''"

definition staged_ledger_account_balance_sort_cf :: column_family where
  "staged_ledger_account_balance_sort_cf = ''staged-ledger-account-balance-sort''"

definition staged_ledger_account_num_delegations_cf :: column_family where
  "staged_ledger_account_num_delegations_cf = ''staged-ledger-account-num-delegations''"

definition staged_ledger_account_delegations_cf :: column_family where
  "staged_ledger_account_delegations_cf = ''staged-ledger-account-delegations''"

definition staged_ledger_hash_to_block_cf :: column_family where
  "staged_ledger_hash_to_block_cf = ''staged-ledger-hash-to-block''"

definition staged_ledgers_persisted_cf :: column_family where
  "staged_ledgers_persisted_cf = ''staged-ledger-persisted''"

definition staged_ledger_accounts_min_block_cf :: column_family where
  "staged_ledger_accounts_min_block_cf = ''staged-ledger-accounts-min-block''"

definition block_ledger_diff_cf :: column_family where
  "block_ledger_diff_cf = ''blocks-ledger-diff''"

definition block_staged_ledger_hash_cf :: column_family where
  "block_staged_ledger_hash_cf = ''blocks-staged-ledger-hash''"

section \<open>Staking ledger store CFs\<close>

definition staking_ledger_accounts_cf :: column_family where
  "staking_ledger_accounts_cf = ''staking-ledger-accounts''"

definition staking_delegations_cf :: column_family where
  "staking_delegations_cf = ''staking-ledger-delegations''"

definition staking_ledger_persisted_cf :: column_family where
  "staking_ledger_persisted_cf = ''staking-ledger-persisted''"

definition staking_ledger_epoch_to_hash_cf :: column_family where
  "staking_ledger_epoch_to_hash_cf = ''staking-ledger-epoch-to-hash''"

definition staking_ledger_hash_to_epoch_cf :: column_family where
  "staking_ledger_hash_to_epoch_cf = ''staking-ledger-hash-to-epoch''"

definition staking_ledger_genesis_hash_cf :: column_family where
  "staking_ledger_genesis_hash_cf = ''staking-ledger-genesis-hash''"

definition staking_ledger_total_currency_cf :: column_family where
  "staking_ledger_total_currency_cf = ''staking-ledger-total-currency''"

definition staking_ledger_balance_sort_cf :: column_family where
  "staking_ledger_balance_sort_cf = ''staking-ledger-balance-sort''"

definition staking_ledger_stake_sort_cf :: column_family where
  "staking_ledger_stake_sort_cf = ''staking-ledger-stake-sort''"

definition staking_ledger_accounts_count_epoch_cf :: column_family where
  "staking_ledger_accounts_count_epoch_cf = ''staking-ledger-accounts-count-epoch''"

section \<open>SNARK store CFs\<close>

definition snarks_cf :: column_family where
  "snarks_cf = ''snarks''"

definition snarks_prover_cf :: column_family where
  "snarks_prover_cf = ''snarks-prover''"

definition snark_prover_fees_cf :: column_family where
  "snark_prover_fees_cf = ''snark-prover-fees''"

definition snark_prover_fees_epoch_cf :: column_family where
  "snark_prover_fees_epoch_cf = ''snark-prover-fees-epoch''"

definition snark_prover_fees_historical_cf :: column_family where
  "snark_prover_fees_historical_cf = ''snark-prover-fees-historical''"

definition snark_prover_fees_epoch_historical_cf :: column_family where
  "snark_prover_fees_epoch_historical_cf = ''snark-prover-fees-epoch-historical''"

definition snark_prover_total_fees_sort_cf :: column_family where
  "snark_prover_total_fees_sort_cf = ''snark-prover-total-fees-sort''"

definition snark_prover_total_fees_epoch_sort_cf :: column_family where
  "snark_prover_total_fees_epoch_sort_cf = ''snark-prover-total-fees-epoch-sort''"

definition snark_prover_max_fee_cf :: column_family where
  "snark_prover_max_fee_cf = ''snark-prover-max-fee''"

definition snark_prover_max_fee_epoch_cf :: column_family where
  "snark_prover_max_fee_epoch_cf = ''snark-prover-max-fee-epoch''"

definition snark_prover_max_fee_sort_cf :: column_family where
  "snark_prover_max_fee_sort_cf = ''snark-prover-max-fee-sort''"

definition snark_prover_max_fee_epoch_sort_cf :: column_family where
  "snark_prover_max_fee_epoch_sort_cf = ''snark-prover-max-fee-epoch-sort''"

definition snark_prover_min_fee_cf :: column_family where
  "snark_prover_min_fee_cf = ''snark-prover-min-fee''"

definition snark_prover_min_fee_epoch_cf :: column_family where
  "snark_prover_min_fee_epoch_cf = ''snark-prover-min-fee-epoch''"

definition snark_prover_min_fee_sort_cf :: column_family where
  "snark_prover_min_fee_sort_cf = ''snark-prover-min-fee-sort''"

definition snark_prover_min_fee_epoch_sort_cf :: column_family where
  "snark_prover_min_fee_epoch_sort_cf = ''snark-prover-min-fee-epoch-sort''"

definition snark_prover_block_height_sort_cf :: column_family where
  "snark_prover_block_height_sort_cf = ''snark-prover-block-height-sort''"

definition snark_prover_global_slot_sort_cf :: column_family where
  "snark_prover_global_slot_sort_cf = ''snark-prover-global-slot-sort''"

definition snark_work_fees_block_height_sort_cf :: column_family where
  "snark_work_fees_block_height_sort_cf = ''snark-work-fees-block-height-sort''"

definition snark_work_fees_global_slot_sort_cf :: column_family where
  "snark_work_fees_global_slot_sort_cf = ''snark-work-fees-global-slot-sort''"

section \<open>Username store CFs\<close>

definition username_pk_num_cf :: column_family where
  "username_pk_num_cf = ''username-pk-num''"

definition username_pk_index_cf :: column_family where
  "username_pk_index_cf = ''username-pk-index''"

definition usernames_per_block_cf :: column_family where
  "usernames_per_block_cf = ''usernames-per-block''"

section \<open>Chain store CFs\<close>

definition chain_id_to_network_cf :: column_family where
  "chain_id_to_network_cf = ''chain-id-to-network''"

section \<open>Event store CFs\<close>

definition events_cf :: column_family where
  "events_cf = ''events''"

section \<open>Data count CFs\<close>

definition block_production_pk_epoch_cf :: column_family where
  "block_production_pk_epoch_cf = ''block-production-pk-epoch''"

definition block_production_pk_canonical_epoch_cf :: column_family where
  "block_production_pk_canonical_epoch_cf = ''block-production-pk-canonical-epoch''"

definition block_production_pk_canonical_epoch_sort_cf :: column_family where
  "block_production_pk_canonical_epoch_sort_cf = ''block-production-pk-canonical-epoch-sort''"

definition block_production_pk_supercharged_epoch_cf :: column_family where
  "block_production_pk_supercharged_epoch_cf = ''block-production-pk-supercharged-epoch''"

definition block_production_pk_total_cf :: column_family where
  "block_production_pk_total_cf = ''block-production-pk-total''"

definition block_production_pk_canonical_total_cf :: column_family where
  "block_production_pk_canonical_total_cf = ''block-production-pk-canonical-total''"

definition block_production_pk_supercharged_total_cf :: column_family where
  "block_production_pk_supercharged_total_cf = ''block-production-pk-supercharged-total''"

definition block_production_epoch_cf :: column_family where
  "block_production_epoch_cf = ''block-production-epoch''"

definition block_production_canonical_epoch_cf :: column_family where
  "block_production_canonical_epoch_cf = ''block-production-canonical-epoch''"

definition block_production_supercharged_epoch_cf :: column_family where
  "block_production_supercharged_epoch_cf = ''block-production-supercharged-epoch''"

definition block_snark_counts_cf :: column_family where
  "block_snark_counts_cf = ''block-snark-counts''"

definition block_user_command_counts_cf :: column_family where
  "block_user_command_counts_cf = ''block-user-command-counts''"

definition block_internal_command_counts_cf :: column_family where
  "block_internal_command_counts_cf = ''block-internal-command-counts''"

definition block_epoch_slots_produced_count_cf :: column_family where
  "block_epoch_slots_produced_count_cf = ''block-epoch-slots-produced-count''"

definition block_pk_epoch_slots_produced_count_cf :: column_family where
  "block_pk_epoch_slots_produced_count_cf = ''block-pk-epoch-slots-produced-count''"

definition block_pk_epoch_slots_produced_count_sort_cf :: column_family where
  "block_pk_epoch_slots_produced_count_sort_cf = ''block-pk-epoch-slots-produced-count-sort''"

definition user_commands_pk_epoch_cf :: column_family where
  "user_commands_pk_epoch_cf = ''user-commands-pk-epoch''"

definition user_commands_pk_total_cf :: column_family where
  "user_commands_pk_total_cf = ''user-commands-pk-total''"

definition user_commands_epoch_cf :: column_family where
  "user_commands_epoch_cf = ''user-commands-epoch''"

definition internal_commands_pk_epoch_cf :: column_family where
  "internal_commands_pk_epoch_cf = ''internal-commands-pk-epoch''"

definition internal_commands_pk_total_cf :: column_family where
  "internal_commands_pk_total_cf = ''internal-commands-pk-total''"

definition internal_commands_epoch_cf :: column_family where
  "internal_commands_epoch_cf = ''internal-commands-epoch''"

definition snarks_pk_epoch_cf :: column_family where
  "snarks_pk_epoch_cf = ''snarks-pk-epoch''"

definition snarks_pk_total_cf :: column_family where
  "snarks_pk_total_cf = ''snarks-pk-total''"

definition snarks_epoch_cf :: column_family where
  "snarks_epoch_cf = ''snarks-epoch''"

section \<open>All helpers\<close>

definition cf_helpers :: "column_family list" where
  "cf_helpers = [
     blocks_cf, blocks_state_hash_cf, block_version_cf, blocks_global_slot_sort_cf,
     blocks_height_sort_cf, block_height_to_global_slots_cf, block_global_slot_to_heights_cf,
     block_date_time_cf, block_parent_hash_cf, block_height_cf, block_global_slot_cf,
     block_epoch_cf, block_genesis_state_hash_cf, block_creator_cf, block_coinbase_receiver_cf,
     block_coinbase_height_sort_cf, block_coinbase_slot_sort_cf, block_creator_height_sort_cf,
     block_creator_slot_sort_cf, blocks_at_height_cf, blocks_at_global_slot_cf,
     block_comparison_cf, block_epoch_slots_produced_cf, block_pk_epoch_slots_produced_cf,
     blocks_pk_count_cf, user_commands_pk_cf, user_commands_pk_num_cf,
     user_command_state_hashes_cf, user_commands_cf, user_commands_per_block_cf,
     user_commands_block_order_cf, user_commands_num_containing_blocks_cf,
     user_commands_height_sort_cf, user_commands_slot_sort_cf,
     user_commands_txn_hash_to_block_height_cf, user_commands_txn_hash_to_global_slot_cf,
     txn_from_slot_sort_cf, txn_from_height_sort_cf, txn_to_slot_sort_cf, txn_to_height_sort_cf,
     zkapp_actions_cf, zkapp_actions_pk_num_cf, zkapp_events_cf, zkapp_events_pk_num_cf,
     internal_commands_cf, internal_commands_block_num_cf, internal_commands_pk_cf,
     internal_commands_pk_num_cf, internal_commands_block_height_sort_cf,
     internal_commands_global_slot_sort_cf, internal_commands_pk_block_height_sort_cf,
     internal_commands_pk_global_slot_sort_cf, canonicity_length_cf, canonicity_slot_cf,
     best_ledger_accounts_cf, best_ledger_accounts_balance_sort_cf,
     zkapp_best_ledger_accounts_cf, zkapp_best_ledger_accounts_balance_sort_cf,
     best_ledger_accounts_num_delegations_cf, best_ledger_accounts_delegations_cf,
     staged_ledger_accounts_cf, staged_ledger_account_balance_sort_cf,
     staged_ledger_account_num_delegations_cf, staged_ledger_account_delegations_cf,
     staged_ledger_hash_to_block_cf, staged_ledgers_persisted_cf,
     staged_ledger_accounts_min_block_cf, block_ledger_diff_cf, block_staged_ledger_hash_cf,
     staking_ledger_accounts_cf, staking_delegations_cf, staking_ledger_persisted_cf,
     staking_ledger_epoch_to_hash_cf, staking_ledger_hash_to_epoch_cf,
     staking_ledger_genesis_hash_cf, staking_ledger_total_currency_cf,
     staking_ledger_balance_sort_cf, staking_ledger_stake_sort_cf,
     staking_ledger_accounts_count_epoch_cf, snarks_cf, snarks_prover_cf, snark_prover_fees_cf,
     snark_prover_fees_epoch_cf, snark_prover_fees_historical_cf,
     snark_prover_fees_epoch_historical_cf, snark_prover_total_fees_sort_cf,
     snark_prover_total_fees_epoch_sort_cf, snark_prover_max_fee_cf,
     snark_prover_max_fee_epoch_cf, snark_prover_max_fee_sort_cf,
     snark_prover_max_fee_epoch_sort_cf, snark_prover_min_fee_cf, snark_prover_min_fee_epoch_cf,
     snark_prover_min_fee_sort_cf, snark_prover_min_fee_epoch_sort_cf,
     snark_prover_block_height_sort_cf, snark_prover_global_slot_sort_cf,
     snark_work_fees_block_height_sort_cf, snark_work_fees_global_slot_sort_cf,
     username_pk_num_cf, username_pk_index_cf, usernames_per_block_cf, chain_id_to_network_cf,
     events_cf, block_production_pk_epoch_cf, block_production_pk_canonical_epoch_cf,
     block_production_pk_canonical_epoch_sort_cf, block_production_pk_supercharged_epoch_cf,
     block_production_pk_total_cf, block_production_pk_canonical_total_cf,
     block_production_pk_supercharged_total_cf, block_production_epoch_cf,
     block_production_canonical_epoch_cf, block_production_supercharged_epoch_cf,
     block_snark_counts_cf, block_user_command_counts_cf, block_internal_command_counts_cf,
     block_epoch_slots_produced_count_cf, block_pk_epoch_slots_produced_count_cf,
     block_pk_epoch_slots_produced_count_sort_cf, user_commands_pk_epoch_cf,
     user_commands_pk_total_cf, user_commands_epoch_cf, internal_commands_pk_epoch_cf,
     internal_commands_pk_total_cf, internal_commands_epoch_cf, snarks_pk_epoch_cf,
     snarks_pk_total_cf, snarks_epoch_cf]"

lemmas cf_name_defs =
  blocks_cf_def blocks_state_hash_cf_def block_version_cf_def blocks_global_slot_sort_cf_def
  blocks_height_sort_cf_def block_height_to_global_slots_cf_def
  block_global_slot_to_heights_cf_def block_date_time_cf_def block_parent_hash_cf_def
  block_height_cf_def block_global_slot_cf_def block_epoch_cf_def
  block_genesis_state_hash_cf_def block_creator_cf_def block_coinbase_receiver_cf_def
  block_coinbase_height_sort_cf_def block_coinbase_slot_sort_cf_def
  block_creator_height_sort_cf_def block_creator_slot_sort_cf_def blocks_at_height_cf_def
  blocks_at_global_slot_cf_def block_comparison_cf_def block_epoch_slots_produced_cf_def
  block_pk_epoch_slots_produced_cf_def blocks_pk_count_cf_def user_commands_pk_cf_def
  user_commands_pk_num_cf_def user_command_state_hashes_cf_def user_commands_cf_def
  user_commands_per_block_cf_def user_commands_block_order_cf_def
  user_commands_num_containing_blocks_cf_def user_commands_height_sort_cf_def
  user_commands_slot_sort_cf_def user_commands_txn_hash_to_block_height_cf_def
  user_commands_txn_hash_to_global_slot_cf_def txn_from_slot_sort_cf_def
  txn_from_height_sort_cf_def txn_to_slot_sort_cf_def txn_to_height_sort_cf_def
  zkapp_actions_cf_def zkapp_actions_pk_num_cf_def zkapp_events_cf_def
  zkapp_events_pk_num_cf_def internal_commands_cf_def internal_commands_block_num_cf_def
  internal_commands_pk_cf_def internal_commands_pk_num_cf_def
  internal_commands_block_height_sort_cf_def internal_commands_global_slot_sort_cf_def
  internal_commands_pk_block_height_sort_cf_def internal_commands_pk_global_slot_sort_cf_def
  canonicity_length_cf_def canonicity_slot_cf_def best_ledger_accounts_cf_def
  best_ledger_accounts_balance_sort_cf_def zkapp_best_ledger_accounts_cf_def
  zkapp_best_ledger_accounts_balance_sort_cf_def best_ledger_accounts_num_delegations_cf_def
  best_ledger_accounts_delegations_cf_def staged_ledger_accounts_cf_def
  staged_ledger_account_balance_sort_cf_def staged_ledger_account_num_delegations_cf_def
  staged_ledger_account_delegations_cf_def staged_ledger_hash_to_block_cf_def
  staged_ledgers_persisted_cf_def staged_ledger_accounts_min_block_cf_def
  block_ledger_diff_cf_def block_staged_ledger_hash_cf_def staking_ledger_accounts_cf_def
  staking_delegations_cf_def staking_ledger_persisted_cf_def staking_ledger_epoch_to_hash_cf_def
  staking_ledger_hash_to_epoch_cf_def staking_ledger_genesis_hash_cf_def
  staking_ledger_total_currency_cf_def staking_ledger_balance_sort_cf_def
  staking_ledger_stake_sort_cf_def staking_ledger_accounts_count_epoch_cf_def snarks_cf_def
  snarks_prover_cf_def snark_prover_fees_cf_def snark_prover_fees_epoch_cf_def
  snark_prover_fees_historical_cf_def snark_prover_fees_epoch_historical_cf_def
  snark_prover_total_fees_sort_cf_def snark_prover_total_fees_epoch_sort_cf_def
  snark_prover_max_fee_cf_def snark_prover_max_fee_epoch_cf_def snark_prover_max_fee_sort_cf_def
  snark_prover_max_fee_epoch_sort_cf_def snark_prover_min_fee_cf_def
  snark_prover_min_fee_epoch_cf_def snark_prover_min_fee_sort_cf_def
  snark_prover_min_fee_epoch_sort_cf_def snark_prover_block_height_sort_cf_def
  snark_prover_global_slot_sort_cf_def snark_work_fees_block_height_sort_cf_def
  snark_work_fees_global_slot_sort_cf_def username_pk_num_cf_def username_pk_index_cf_def
  usernames_per_block_cf_def chain_id_to_network_cf_def events_cf_def
  block_production_pk_epoch_cf_def block_production_pk_canonical_epoch_cf_def
  block_production_pk_canonical_epoch_sort_cf_def block_production_pk_supercharged_epoch_cf_def
  block_production_pk_total_cf_def block_production_pk_canonical_total_cf_def
  block_production_pk_supercharged_total_cf_def block_production_epoch_cf_def
  block_production_canonical_epoch_cf_def block_production_supercharged_epoch_cf_def
  block_snark_counts_cf_def block_user_command_counts_cf_def
  block_internal_command_counts_cf_def block_epoch_slots_produced_count_cf_def
  block_pk_epoch_slots_produced_count_cf_def block_pk_epoch_slots_produced_count_sort_cf_def
  user_commands_pk_epoch_cf_def user_commands_pk_total_cf_def user_commands_epoch_cf_def
  internal_commands_pk_epoch_cf_def internal_commands_pk_total_cf_def
  internal_commands_epoch_cf_def snarks_pk_epoch_cf_def snarks_pk_total_cf_def
  snarks_epoch_cf_def

text \<open>The names in order; a strictly ascending list is checked in one pass.\<close>

definition sorted_names :: "string list" where
  "sorted_names = [
     ''best-ledger-account-balance-sort'', ''best-ledger-account-delegations'',
     ''best-ledger-account-num-delegations'', ''best-ledger-accounts'',
     ''block-creator-height-sort'', ''block-creator-slot-sort'', ''block-epoch-slots-produced'',
     ''block-epoch-slots-produced-count'', ''block-internal-command-counts'',
     ''block-pk-epoch-slots-produced'', ''block-pk-epoch-slots-produced-count'',
     ''block-pk-epoch-slots-produced-count-sort'', ''block-production-canonical-epoch'',
     ''block-production-epoch'', ''block-production-pk-canonical-epoch'',
     ''block-production-pk-canonical-epoch-sort'', ''block-production-pk-canonical-total'',
     ''block-production-pk-epoch'', ''block-production-pk-supercharged-epoch'',
     ''block-production-pk-supercharged-total'', ''block-production-pk-total'',
     ''block-production-supercharged-epoch'', ''block-snark-counts'',
     ''block-user-command-counts'', ''blocks'', ''blocks-at-length'', ''blocks-at-slot'',
     ''blocks-coinbase-receiver'', ''blocks-comparison'', ''blocks-creator'',
     ''blocks-date-time'', ''blocks-epoch'', ''blocks-genesis-hash'', ''blocks-global-slot'',
     ''blocks-global-slot-sort'', ''blocks-height'', ''blocks-height-sort'',
     ''blocks-height-to-slots'', ''blocks-ledger-diff'', ''blocks-parent-hash'',
     ''blocks-pk-count'', ''blocks-slot-to-heights'', ''blocks-staged-ledger-hash'',
     ''blocks-state-hash'', ''blocks-version'', ''canonicity-length'', ''canonicity-slot'',
     ''chain-id-to-network'', ''coinbase-receiver-height-sort'',
     ''coinbase-receiver-slot-sort'', ''events'', ''internal-commands'',
     ''internal-commands-block-height-sort'', ''internal-commands-block-num'',
     ''internal-commands-epoch'', ''internal-commands-global-slot-sort'',
     ''internal-commands-pk'', ''internal-commands-pk-block-height-sort'',
     ''internal-commands-pk-epoch'', ''internal-commands-pk-global-slot-sort'',
     ''internal-commands-pk-num'', ''internal-commands-pk-total'',
     ''snark-prover-block-height-sort'', ''snark-prover-fees'', ''snark-prover-fees-epoch'',
     ''snark-prover-fees-epoch-historical'', ''snark-prover-fees-historical'',
     ''snark-prover-global-slot-sort'', ''snark-prover-max-fee'',
     ''snark-prover-max-fee-epoch'', ''snark-prover-max-fee-epoch-sort'',
     ''snark-prover-max-fee-sort'', ''snark-prover-min-fee'', ''snark-prover-min-fee-epoch'',
     ''snark-prover-min-fee-epoch-sort'', ''snark-prover-min-fee-sort'',
     ''snark-prover-total-fees-epoch-sort'', ''snark-prover-total-fees-sort'',
     ''snark-work-fees-block-height-sort'', ''snark-work-fees-global-slot-sort'', ''snarks'',
     ''snarks-epoch'', ''snarks-pk-epoch'', ''snarks-pk-total'', ''snarks-prover'',
     ''staged-ledger-account-balance-sort'', ''staged-ledger-account-delegations'',
     ''staged-ledger-account-num-delegations'', ''staged-ledger-accounts'',
     ''staged-ledger-accounts-min-block'', ''staged-ledger-hash-to-block'',
     ''staged-ledger-persisted'', ''staking-ledger-accounts'',
     ''staking-ledger-accounts-count-epoch'', ''staking-ledger-balance-sort'',
     ''staking-ledger-delegations'', ''staking-ledger-epoch-to-hash'',
     ''staking-ledger-genesis-hash'', ''staking-ledger-hash-to-epoch'',
     ''staking-ledger-persisted'', ''staking-ledger-stake-sort'',
     ''staking-ledger-total-currency'', ''txn-from-height-sort'', ''txn-from-slot-sort'',
     ''txn-to-height-sort'', ''txn-to-slot-sort'', ''user-command-state-hashes'',
     ''user-commands'', ''user-commands-block'', ''user-commands-block-order'',
     ''user-commands-epoch'', ''user-commands-height-sort'', ''user-commands-num-blocks'',
     ''user-commands-pk'', ''user-commands-pk-epoch'', ''user-commands-pk-num'',
     ''user-commands-pk-total'', ''user-commands-slot-sort'', ''user-commands-to-block-height'',
     ''user-commands-to-global-slot'', ''username-pk-index'', ''username-pk-num'',
     ''usernames-per-block'', ''zkapp-actions'', ''zkapp-actions-pk-num'',
     ''zkapp-best-ledger-account-balance-sort'', ''zkapp-best-ledger-accounts'',
     ''zkapp-events'', ''zkapp-events-pk-num'']"

definition opened_ranks :: "nat list" where
  "opened_ranks = [
     24, 43, 44, 25, 26, 35, 33, 39, 30, 31, 32, 37, 41, 36, 34, 28, 27, 29, 4, 5, 48, 49, 6, 9,
     40, 45, 46, 107, 113, 115, 108, 109, 112, 117, 111, 119, 118, 106, 103, 102, 105, 104, 123,
     124, 127, 128, 51, 53, 55, 52, 56, 60, 59, 57, 80, 84, 63, 64, 66, 65, 77, 76, 68, 69, 71,
     70, 72, 73, 75, 74, 62, 67, 78, 79, 50, 3, 0, 2, 1, 126, 125, 88, 85, 87, 86, 90, 91, 89,
     38, 42, 92, 95, 99, 96, 98, 97, 101, 94, 100, 93, 47, 121, 120, 122, 17, 14, 15, 18, 20,
     16, 19, 13, 12, 21, 22, 23, 8, 7, 10, 11, 110, 114, 116, 54, 58, 61, 81, 82, 83]"

definition helper_ranks :: "nat list" where
  "helper_ranks = [
     24, 43, 44, 34, 36, 37, 41, 30, 39, 35, 33, 31, 32, 29, 27, 48, 49, 4, 5, 25, 26, 28, 6, 9,
     40, 113, 115, 106, 107, 108, 109, 112, 111, 117, 118, 119, 103, 102, 105, 104, 123, 124,
     127, 128, 51, 53, 56, 60, 52, 55, 57, 59, 45, 46, 3, 0, 126, 125, 2, 1, 88, 85, 87, 86, 90,
     91, 89, 38, 42, 92, 95, 99, 96, 98, 97, 101, 94, 100, 93, 80, 84, 63, 64, 66, 65, 77, 76,
     68, 69, 71, 70, 72, 73, 75, 74, 62, 67, 78, 79, 121, 120, 122, 47, 50, 17, 14, 15, 18, 20,
     16, 19, 13, 12, 21, 22, 23, 8, 7, 10, 11, 114, 116, 110, 58, 61, 54, 82, 83, 81]"

lemma sorted_names_distinct: "distinct sorted_names"
proof -
  have "sorted_wrt (<) sorted_names"
    unfolding sorted_names_def by (simp only: sorted_wrt2[OF transp_on_less] sorted_wrt1) (simp add: less_char_def)
  then show ?thesis by (simp add: strict_sorted_iff)
qed

lemma opened_by_rank: "COLUMN_FAMILIES = map (\<lambda>i. sorted_names ! i) opened_ranks"
  by (simp add: COLUMN_FAMILIES_def opened_ranks_def sorted_names_def)

lemma helpers_by_rank: "cf_helpers = map (\<lambda>i. sorted_names ! i) helper_ranks"
  by (simp add: cf_helpers_def cf_name_defs helper_ranks_def sorted_names_def)

lemma ranks_permute:
  "sort helper_ranks = [0..<129]" "sort opened_ranks = [0..<129]" "length sorted_names = 129"
  by (code_simp, code_simp, simp add: sorted_names_def)

text \<open>
  Every helper asks for a family the store opens, no two helpers ask for the same one, and every family
  opened has a helper.
\<close>

lemma column_family_helpers:
  "distinct cf_helpers \<and> set cf_helpers = set COLUMN_FAMILIES"
proof -
  have sets: "set helper_ranks = {0..<129}" "set opened_ranks = {0..<129}"
    using ranks_permute by (metis set_sort set_upt)+
  have "distinct helper_ranks" using ranks_permute(1) by (metis distinct_sort distinct_upt)
  then have "distinct cf_helpers"
    using sorted_names_distinct sets(1) ranks_permute(3)
    by (auto simp: helpers_by_rank distinct_map inj_on_def nth_eq_iff_index_eq)
  with sets show ?thesis by (simp add: helpers_by_rank opened_by_rank)
qed

end
