(* ===== verification/Database.thy ===== *)
theory Database
  imports Store_Keys Column_Families
begin

text \<open>
  The database crate \<open>speedb\<close> and the serialisation crate \<open>serde_json\<close> as interfaces.  The operations the
  stores call are the fields of \<open>db_ops\<close>, an argument of every definition that reads or writes; the
  locale \<open>key_value_db\<close> states their documented behaviour: a write is seen by the reads of its key and by
  no other, and an iterator yields the entries of a column family in key order.  Failing disk operations
  (the \<open>?\<close> on a database call) are left out.  \<open>assoc_ops\<close> is an executable implementation.
\<close>

section \<open>Values and writes\<close>

text \<open>
  A stored value is a string of raw bytes, or raw bytes followed by a document of \<open>serde_json\<close>; the
  documents are of an abstract type.
\<close>

datatype 'j stored = Raw bytes | Json bytes 'j

text \<open>The default column family holds the fixed keys.\<close>

definition DEFAULT_CF :: column_family where
  "DEFAULT_CF = ''default''"

datatype iterator_mode = FromStart | FromEnd | IterForward bytes | IterReverse bytes

record ('d, 'j) db_ops =
  db_get :: "'d \<Rightarrow> column_family \<Rightarrow> bytes \<Rightarrow> 'j stored option"
  db_put :: "column_family \<Rightarrow> bytes \<Rightarrow> 'j stored \<Rightarrow> 'd \<Rightarrow> 'd"
  db_delete :: "column_family \<Rightarrow> bytes \<Rightarrow> 'd \<Rightarrow> 'd"
  db_iterator :: "'d \<Rightarrow> column_family \<Rightarrow> iterator_mode \<Rightarrow> (bytes \<times> 'j stored) list"

text \<open>A \<open>WriteBatch\<close> collects writes; \<open>DB::write\<close> performs them in order.\<close>

type_synonym 'j batch = "(column_family \<times> bytes \<times> 'j stored) list"

definition batch_put :: "column_family \<Rightarrow> bytes \<Rightarrow> 'j stored \<Rightarrow> 'j batch \<Rightarrow> 'j batch" where
  "batch_put cf k v b = b @ [(cf, k, v)]"

definition db_write :: "('d, 'j) db_ops \<Rightarrow> 'j batch \<Rightarrow> 'd \<Rightarrow> 'd" where
  "db_write D b d = fold (\<lambda>(cf, k, v). db_put D cf k v) b d"

text \<open>Reading raw bytes; a document in their place is never a number and panics or fails to parse.\<close>

fun raw_bytes :: "'j stored \<Rightarrow> bytes option" where
  "raw_bytes (Raw b) = Some b"
| "raw_bytes (Json b j) = None"

definition stored_u32 :: "'j stored \<Rightarrow> u32 run" where
  "stored_u32 v = (case v of Raw b \<Rightarrow> from_be_bytes b | Json b j \<Rightarrow> Inl AssertionFailed)"

definition raw_u32 :: "u32 \<Rightarrow> 'j stored" where
  "raw_u32 n = Raw (to_be_bytes n)"

lemma stored_raw_u32 [simp]: "stored_u32 (raw_u32 n) = Inr n"
  by (simp add: stored_u32_def raw_u32_def)

text \<open>\<open>get_cf(..)?.map(from_be_bytes)\<close> and \<open>get_cf(..)?.map_or(0, from_be_bytes)\<close>.\<close>

definition get_u32 :: "('d, 'j) db_ops \<Rightarrow> column_family \<Rightarrow> bytes \<Rightarrow> 'd \<Rightarrow> u32 option run" where
  "get_u32 D cf k d =
     (case db_get D d cf k of None \<Rightarrow> Inr None | Some v \<Rightarrow> map_ok Some (stored_u32 v))"

definition get_count :: "('d, 'j) db_ops \<Rightarrow> column_family \<Rightarrow> bytes \<Rightarrow> 'd \<Rightarrow> u32 run" where
  "get_count D cf k d = map_ok (\<lambda>n. unwrap_or n 0) (get_u32 D cf k d)"

text \<open>\<open>get_cf(..)?.and_then(|bytes| StateHash::from_bytes(&bytes).ok())\<close> and the same for public keys.\<close>

definition get_hash :: "('d, 'j) db_ops \<Rightarrow> column_family \<Rightarrow> bytes \<Rightarrow> 'd \<Rightarrow> state_hash option" where
  "get_hash D cf k d =
     Option.bind (Option.bind (db_get D d cf k) raw_bytes) state_hash_from_bytes"

definition get_pk :: "('d, 'j) db_ops \<Rightarrow> column_family \<Rightarrow> bytes \<Rightarrow> 'd \<Rightarrow> public_key option" where
  "get_pk D cf k d =
     Option.bind (Option.bind (db_get D d cf k) raw_bytes) public_key_from_bytes"

text \<open>\<open>u64_from_be_bytes(&bytes).expect(..)\<close> on a stored value.\<close>

definition get_u64 :: "('d, 'j) db_ops \<Rightarrow> column_family \<Rightarrow> bytes \<Rightarrow> 'd \<Rightarrow> u64 option run" where
  "get_u64 D cf k d =
     (case db_get D d cf k of None \<Rightarrow> Inr None
      | Some v \<Rightarrow> map_ok Some (bind_ok (unwrap (raw_bytes v)) (\<lambda>b. unwrap (u64_from_be_bytes b))))"

text \<open>The common counter step: read a count, write it back changed.\<close>

definition change_count ::
    "('d, 'j) db_ops \<Rightarrow> column_family \<Rightarrow> bytes \<Rightarrow> (u32 \<Rightarrow> u32) \<Rightarrow> 'd \<Rightarrow> 'd run" where
  "change_count D cf k f d =
     map_ok (\<lambda>acc. db_put D cf k (raw_u32 (f acc)) d) (get_count D cf k d)"

section \<open>Documents\<close>

text \<open>\<open>serde_json::to_vec\<close> and \<open>serde_json::from_slice\<close> for one type.\<close>

record ('a, 'j) codec =
  to_vec :: "'a \<Rightarrow> 'j"
  from_slice :: "'j \<Rightarrow> 'a option"

definition json :: "('a, 'j) codec \<Rightarrow> 'a \<Rightarrow> 'j stored" where
  "json C x = Json [] (to_vec C x)"

text \<open>\<open>serde_json::from_slice(&bytes).ok()\<close>; raw bytes are not a document.\<close>

fun parse_json :: "('a, 'j) codec \<Rightarrow> 'j stored \<Rightarrow> 'a option" where
  "parse_json C (Json [] j) = from_slice C j"
| "parse_json C v = None"

definition get_json :: "('d, 'j) db_ops \<Rightarrow> ('a, 'j) codec \<Rightarrow> column_family \<Rightarrow> bytes \<Rightarrow> 'd \<Rightarrow> 'a option" where
  "get_json D C cf k d = Option.bind (db_get D d cf k) (parse_json C)"

text \<open>\<open>.map(|bytes| serde_json::from_slice(&bytes).unwrap())\<close>.\<close>

definition expect_json ::
    "('d, 'j) db_ops \<Rightarrow> ('a, 'j) codec \<Rightarrow> column_family \<Rightarrow> bytes \<Rightarrow> 'd \<Rightarrow> 'a option run" where
  "expect_json D C cf k d =
     (case db_get D d cf k of None \<Rightarrow> Inr None | Some v \<Rightarrow> map_ok Some (unwrap (parse_json C v)))"

locale json_codec =
  fixes C :: "('a, 'j) codec"
  assumes from_to: "from_slice C (to_vec C x) = Some x"
begin

lemma parse_json_json [simp]: "parse_json C (json C x) = Some x"
  by (simp add: json_def from_to)

end

definition id_codec :: "('a, 'a) codec" where
  "id_codec = \<lparr>to_vec = (\<lambda>x. x), from_slice = Some\<rparr>"

interpretation idc: json_codec id_codec
  by unfold_locales (simp add: id_codec_def)

text \<open>Documents of two kinds, for examples.\<close>

definition left_codec :: "('a, 'a + 'b) codec" where
  "left_codec = \<lparr>to_vec = Inl, from_slice = (\<lambda>j. case j of Inl a \<Rightarrow> Some a | Inr _ \<Rightarrow> None)\<rparr>"

definition right_codec :: "('b, 'a + 'b) codec" where
  "right_codec = \<lparr>to_vec = Inr, from_slice = (\<lambda>j. case j of Inl _ \<Rightarrow> None | Inr b \<Rightarrow> Some b)\<rparr>"

lemma left_codec_json: "json_codec left_codec"
  by unfold_locales (simp add: left_codec_def)

lemma right_codec_json: "json_codec right_codec"
  by unfold_locales (simp add: right_codec_def)

section \<open>The contract\<close>

locale key_value_db =
  fixes D :: "('d, 'j) db_ops"
  assumes get_put: "db_get D (db_put D cf k v d) cf' k' =
      (if cf' = cf \<and> k' = k then Some v else db_get D d cf' k')"
    and get_delete: "db_get D (db_delete D cf k d) cf' k' =
      (if cf' = cf \<and> k' = k then None else db_get D d cf' k')"
    and iterator_entries: "set (db_iterator D d cf FromStart) = {(k, v). db_get D d cf k = Some v}"
    and iterator_order: "sorted_wrt (<) (map fst (db_iterator D d cf FromStart))"
    and iterator_end: "db_iterator D d cf FromEnd = rev (db_iterator D d cf FromStart)"
    and iterator_forward:
      "db_iterator D d cf (IterForward k) = filter (\<lambda>e. k \<le> fst e) (db_iterator D d cf FromStart)"
    and iterator_reverse:
      "db_iterator D d cf (IterReverse k) = rev (filter (\<lambda>e. fst e \<le> k) (db_iterator D d cf FromStart))"
begin

lemma get_u32_put [simp]:
  "get_u32 D cf' k' (db_put D cf k v d) =
     (if cf' = cf \<and> k' = k then map_ok Some (stored_u32 v) else get_u32 D cf' k' d)"
  by (simp add: get_u32_def get_put)

lemma get_u32_delete [simp]:
  "get_u32 D cf' k' (db_delete D cf k d) =
     (if cf' = cf \<and> k' = k then Inr None else get_u32 D cf' k' d)"
  by (simp add: get_u32_def get_delete)

lemma get_count_put [simp]:
  "get_count D cf' k' (db_put D cf k v d) =
     (if cf' = cf \<and> k' = k then stored_u32 v else get_count D cf' k' d)"
  by (cases "stored_u32 v") (simp_all add: get_count_def)

lemma get_count_delete [simp]:
  "get_count D cf' k' (db_delete D cf k d) = (if cf' = cf \<and> k' = k then Inr 0 else get_count D cf' k' d)"
  by (simp add: get_count_def)

lemma get_hash_put [simp]:
  "get_hash D cf' k' (db_put D cf k v d) =
     (if cf' = cf \<and> k' = k then Option.bind (raw_bytes v) state_hash_from_bytes else get_hash D cf' k' d)"
  by (simp add: get_hash_def get_put)

lemma get_hash_delete [simp]:
  "get_hash D cf' k' (db_delete D cf k d) = (if cf' = cf \<and> k' = k then None else get_hash D cf' k' d)"
  by (simp add: get_hash_def get_delete)

lemma get_pk_put [simp]:
  "get_pk D cf' k' (db_put D cf k v d) =
     (if cf' = cf \<and> k' = k then Option.bind (raw_bytes v) public_key_from_bytes else get_pk D cf' k' d)"
  by (simp add: get_pk_def get_put)

lemma get_pk_delete [simp]:
  "get_pk D cf' k' (db_delete D cf k d) = (if cf' = cf \<and> k' = k then None else get_pk D cf' k' d)"
  by (simp add: get_pk_def get_delete)

lemma get_json_put [simp]:
  "get_json D C cf' k' (db_put D cf k v d) =
     (if cf' = cf \<and> k' = k then parse_json C v else get_json D C cf' k' d)"
  by (simp add: get_json_def get_put)

lemma get_json_delete [simp]:
  "get_json D C cf' k' (db_delete D cf k d) = (if cf' = cf \<and> k' = k then None else get_json D C cf' k' d)"
  by (simp add: get_json_def get_delete)

lemma expect_json_put [simp]:
  "expect_json D C cf' k' (db_put D cf k v d) =
     (if cf' = cf \<and> k' = k then map_ok Some (unwrap (parse_json C v)) else expect_json D C cf' k' d)"
  by (simp add: expect_json_def get_put)

lemma expect_json_delete [simp]:
  "expect_json D C cf' k' (db_delete D cf k d) =
     (if cf' = cf \<and> k' = k then Inr None else expect_json D C cf' k' d)"
  by (simp add: expect_json_def get_delete)

lemma db_write_Nil [simp]: "db_write D [] d = d"
  by (simp add: db_write_def)

lemma db_write_snoc: "db_write D (b @ [(cf, k, v)]) d = db_put D cf k v (db_write D b d)"
  by (simp add: db_write_def)

lemma db_write_append: "db_write D (a @ b) d = db_write D b (db_write D a d)"
  by (simp add: db_write_def)

lemma get_write_other: "\<forall>v. (cf, k, v) \<notin> set b \<Longrightarrow> db_get D (db_write D b d) cf k = db_get D d cf k"
  by (induction b rule: rev_induct) (auto simp: db_write_snoc get_put)

lemma iterator_distinct: "distinct (db_iterator D d cf FromStart)"
  using iterator_order[of d cf] by (metis distinct_map strict_sorted_iff)

lemma iterator_det:
  assumes "\<And>k. db_get D d cf k = db_get D e cf k"
  shows "db_iterator D d cf FromStart = db_iterator D e cf FromStart"
proof -
  let ?xs = "db_iterator D d cf FromStart" and ?ys = "db_iterator D e cf FromStart"
  have "set ?xs = set ?ys" using assms by (simp add: iterator_entries)
  then have keys: "map fst ?xs = map fst ?ys"
    using iterator_order by (metis list.set_map strict_sorted_equal)
  have "x = y" if "x \<in> set ?xs" "y \<in> set ?ys" "fst x = fst y" for x y
    using that assms by (auto simp: iterator_entries)
  with keys show ?thesis by (metis (no_types, lifting) list.inj_map_strong)
qed

end

section \<open>A reference implementation\<close>

text \<open>One association list of entries; a later write of a key is found first.\<close>

type_synonym 'j assoc_db = "((column_family \<times> bytes) \<times> 'j stored) list"

definition assoc_entries :: "'j assoc_db \<Rightarrow> column_family \<Rightarrow> (bytes \<times> 'j stored) list" where
  "assoc_entries d cf =
     map (\<lambda>k. (k, the (map_of d (cf, k)))) (sorted_list_of_set (snd ` fst ` set (filter (\<lambda>e. fst (fst e) = cf) d)))"

definition assoc_ops :: "('j assoc_db, 'j) db_ops" where
  "assoc_ops = \<lparr>
     db_get = (\<lambda>d cf k. map_of d (cf, k)),
     db_put = (\<lambda>cf k v d. ((cf, k), v) # filter (\<lambda>e. fst e \<noteq> (cf, k)) d),
     db_delete = (\<lambda>cf k d. filter (\<lambda>e. fst e \<noteq> (cf, k)) d),
     db_iterator = (\<lambda>d cf mode. case mode of
       FromStart \<Rightarrow> assoc_entries d cf
     | FromEnd \<Rightarrow> rev (assoc_entries d cf)
     | IterForward k \<Rightarrow> filter (\<lambda>e. k \<le> fst e) (assoc_entries d cf)
     | IterReverse k \<Rightarrow> rev (filter (\<lambda>e. fst e \<le> k) (assoc_entries d cf)))\<rparr>"

lemma assoc_ops_simps [simp]:
  "db_get assoc_ops d cf k = map_of d (cf, k)"
  "db_put assoc_ops cf k v d = ((cf, k), v) # filter (\<lambda>e. fst e \<noteq> (cf, k)) d"
  "db_delete assoc_ops cf k d = filter (\<lambda>e. fst e \<noteq> (cf, k)) d"
  by (simp_all add: assoc_ops_def)

lemma map_of_filter_key: "map_of (filter (\<lambda>e. fst e \<noteq> k) d) k' = (if k' = k then None else map_of d k')"
  by (induction d) auto

lemma assoc_entries_set: "set (assoc_entries d cf) = {(k, v). map_of d (cf, k) = Some v}"
proof -
  have "k \<in> snd ` fst ` set (filter (\<lambda>e. fst (fst e) = cf) d) \<longleftrightarrow> map_of d (cf, k) \<noteq> None" for k
    by (force simp: map_of_eq_None_iff image_iff)
  then have "snd ` fst ` set (filter (\<lambda>e. fst (fst e) = cf) d) = {k. map_of d (cf, k) \<noteq> None}" by blast
  moreover have "finite (snd ` fst ` set (filter (\<lambda>e. fst (fst e) = cf) d))" by simp
  ultimately show ?thesis by (auto simp: assoc_entries_def image_iff)
qed

lemma assoc_entries_sorted: "sorted_wrt (<) (map fst (assoc_entries d cf))"
  by (simp add: assoc_entries_def comp_def)

interpretation assoc: key_value_db assoc_ops
  by unfold_locales
    (auto simp: map_of_filter_key assoc_entries_set assoc_entries_sorted assoc_ops_def)

end
