(* ===== verification/Counted_Lists.thy ===== *)
theory Counted_Lists
  imports Database
begin

text \<open>
  The pattern most indices of the stores follow: a list kept as a count under one key and the elements
  under consecutive numbers.  The locale \<open>counted_list\<close> asks that the keys do not collide; appending,
  dropping the last element and reading back are proved there once and used by the stores through
  \<open>sublocale\<close> for each pair of column families.
\<close>

section \<open>Lists in the database\<close>

definition holds_list :: "('d, 'j) db_ops \<Rightarrow> column_family \<Rightarrow> bytes \<Rightarrow> column_family \<Rightarrow> (u32 \<Rightarrow> bytes) \<Rightarrow>
    'd \<Rightarrow> 'j stored list \<Rightarrow> bool" where
  "holds_list D num_cf num_key elem_cf elem_key d vs \<longleftrightarrow>
     length vs < 2 ^ 32 \<and> get_count D num_cf num_key d = Inr (word_of_nat (length vs)) \<and>
     (\<forall>i<length vs. db_get D d elem_cf (elem_key (word_of_nat i)) = Some (vs ! i))"

lemma word_of_nat_u32_eq:
  "m < 2 ^ 32 \<Longrightarrow> n < 2 ^ 32 \<Longrightarrow> (word_of_nat m :: u32) = word_of_nat n \<longleftrightarrow> m = n"
  by (auto simp: word_unat_eq_iff unat_of_nat)

lemma unat_word_of_nat_u32: "n < 2 ^ 32 \<Longrightarrow> unat (word_of_nat n :: u32) = n"
  by (simp add: unat_of_nat)

lemma holds_list_count:
  "holds_list D num_cf num_key elem_cf elem_key d vs \<Longrightarrow>
     get_count D num_cf num_key d = Inr (word_of_nat (length vs))"
  by (simp add: holds_list_def)

lemma holds_list_elem:
  "holds_list D num_cf num_key elem_cf elem_key d vs \<Longrightarrow> i < length vs \<Longrightarrow>
     db_get D d elem_cf (elem_key (word_of_nat i)) = Some (vs ! i)"
  by (simp add: holds_list_def)

text \<open>Databases that agree on the list's keys hold the same list.\<close>

lemma holds_list_cong:
  assumes "holds_list D num_cf num_key elem_cf elem_key d vs"
    "db_get D e num_cf num_key = db_get D d num_cf num_key"
    "\<And>i. db_get D e elem_cf (elem_key i) = db_get D d elem_cf (elem_key i)"
  shows "holds_list D num_cf num_key elem_cf elem_key e vs"
  using assms by (simp add: holds_list_def get_count_def get_u32_def)

locale counted_list = key_value_db D
  for D :: "('d, 'j) db_ops" +
  fixes num_cf :: column_family and num_key :: bytes
    and elem_cf :: column_family and elem_key :: "u32 \<Rightarrow> bytes"
  assumes num_not_elem: "elem_cf = num_cf \<Longrightarrow> elem_key i \<noteq> num_key"
    and elem_key_inject: "elem_key i = elem_key j \<longleftrightarrow> i = j"
begin

lemma append_elem:
  assumes "holds_list D num_cf num_key elem_cf elem_key d vs" "Suc (length vs) < 2 ^ 32"
  shows "holds_list D num_cf num_key elem_cf elem_key
    (db_put D elem_cf (elem_key (word_of_nat (length vs))) v
      (db_put D num_cf num_key (raw_u32 (word_of_nat (length vs) + 1)) d)) (vs @ [v])"
proof -
  have "db_get D (db_put D elem_cf (elem_key (word_of_nat (length vs))) v
      (db_put D num_cf num_key (raw_u32 (word_of_nat (length vs) + 1)) d)) elem_cf (elem_key (word_of_nat i)) =
      Some ((vs @ [v]) ! i)" if "i < Suc (length vs)" for i
    using that assms num_not_elem
    by (auto simp: get_put elem_key_inject word_of_nat_u32_eq nth_append holds_list_elem less_Suc_eq)
  then show ?thesis
    using assms(2) num_not_elem by (auto simp: holds_list_def add.commute)
qed

lemma append_elem':
  assumes "holds_list D num_cf num_key elem_cf elem_key d vs" "Suc (length vs) < 2 ^ 32"
  shows "holds_list D num_cf num_key elem_cf elem_key
    (db_put D num_cf num_key (raw_u32 (word_of_nat (length vs) + 1))
      (db_put D elem_cf (elem_key (word_of_nat (length vs))) v d)) (vs @ [v])"
  by (rule holds_list_cong[OF append_elem[OF assms, of v]]) (use num_not_elem in \<open>auto simp: get_put\<close>)

lemma drop_last:
  assumes "holds_list D num_cf num_key elem_cf elem_key d (vs @ [v])"
  shows "holds_list D num_cf num_key elem_cf elem_key
    (db_put D num_cf num_key (raw_u32 (word_of_nat (length vs)))
      (db_delete D elem_cf (elem_key (word_of_nat (length vs))) d)) vs"
proof -
  have "db_get D (db_put D num_cf num_key (raw_u32 (word_of_nat (length vs)))
      (db_delete D elem_cf (elem_key (word_of_nat (length vs))) d)) elem_cf (elem_key (word_of_nat i)) =
      Some (vs ! i)" if "i < length vs" for i
    using that assms num_not_elem holds_list_elem[OF assms, of i]
    by (auto simp: get_put get_delete elem_key_inject word_of_nat_u32_eq nth_append holds_list_def)
  then show ?thesis using assms by (simp add: holds_list_def)
qed

lemma put_other:
  assumes "holds_list D num_cf num_key elem_cf elem_key d vs"
    "(cf, k) \<noteq> (num_cf, num_key)" "\<And>i. (cf, k) \<noteq> (elem_cf, elem_key i)"
  shows "holds_list D num_cf num_key elem_cf elem_key (db_put D cf k v d) vs"
  by (rule holds_list_cong[OF assms(1)]) (use assms(2,3) in \<open>auto simp: get_put\<close>)

end

end
