(* ===== verification/Event_Store.thy ===== *)
theory Event_Store
  imports Counted_Lists Witness_Tree
begin

text \<open>
  The event log (\<open>event/\<close>, \<open>store/event_store_impl.rs\<close>): events under consecutive sequence numbers, each
  prefixed with a block height and its kind.
\<close>

section \<open>Events\<close>

datatype db_block_event = NewBlock state_hash u32 | NewBestTip state_hash u32

datatype db_canonicity_event = NewCanonicalBlock state_hash u32

datatype db_ledger_event = NewLedger state_hash u32 ledger_hash

datatype db_staking_ledger_event =
    NewStakingLedger u32 ledger_hash state_hash
  | AggregateDelegations u32 state_hash

datatype db_event =
    BlockEvent db_block_event
  | CanonicityEvent db_canonicity_event
  | LedgerEvent db_ledger_event
  | StakingLedgerEvent db_staking_ledger_event

datatype indexer_event = DbEvt db_event | WitnessTreeEvt witness_tree_event

fun is_canonical_block_event :: "indexer_event \<Rightarrow> bool" where
  "is_canonical_block_event (DbEvt (CanonicityEvent (NewCanonicalBlock h n))) = True"
| "is_canonical_block_event _ = False"

fun is_new_block_event :: "indexer_event \<Rightarrow> bool" where
  "is_new_block_event (DbEvt (BlockEvent (NewBlock h n))) = True"
| "is_new_block_event _ = False"

fun event_kind :: "indexer_event \<Rightarrow> u8" where
  "event_kind (DbEvt (BlockEvent (NewBlock h n))) = 0"
| "event_kind (DbEvt (BlockEvent (NewBestTip h n))) = 1"
| "event_kind (DbEvt (CanonicityEvent (NewCanonicalBlock h n))) = 2"
| "event_kind _ = 3"

text \<open>The block height stored in front of an event.\<close>

fun event_height :: "indexer_event \<Rightarrow> u32" where
  "event_height (DbEvt (BlockEvent (NewBestTip h n))) = n"
| "event_height (DbEvt (BlockEvent (NewBlock h n))) = n"
| "event_height _ = 0"

fun is_best_tip_update :: "indexer_event \<Rightarrow> bool" where
  "is_best_tip_update (WitnessTreeEvt (UpdateBestTip tip blocks)) = True"
| "is_best_tip_update _ = False"

section \<open>The log\<close>

definition NEXT_EVENT_SEQ_NUM_KEY :: bytes where
  "NEXT_EVENT_SEQ_NUM_KEY = ''next_event_seq_num''"

definition get_next_seq_num :: "('d, 'j) db_ops \<Rightarrow> 'd \<Rightarrow> u32 run" where
  "get_next_seq_num D d = get_count D DEFAULT_CF NEXT_EVENT_SEQ_NUM_KEY d"

text \<open>The value stored for an event: block height, kind, document.\<close>

definition event_value :: "(indexer_event, 'j) codec \<Rightarrow> indexer_event \<Rightarrow> 'j stored" where
  "event_value E event = Json (to_be_bytes (event_height event) @ to_be_bytes (event_kind event)) (to_vec E event)"

definition add_event ::
    "('d, 'j) db_ops \<Rightarrow> (indexer_event, 'j) codec \<Rightarrow> indexer_event \<Rightarrow> 'd \<Rightarrow> (u32 \<times> 'd) run" where
  "add_event D E event d =
     bind_ok (get_next_seq_num D d) (\<lambda>seq_num.
     if is_best_tip_update event then Inr (seq_num, d)
     else let
         d = db_put D events_cf (to_be_bytes seq_num) (event_value E event) d;
         next_seq_num = seq_num + 1;
         d = db_put D DEFAULT_CF NEXT_EVENT_SEQ_NUM_KEY (raw_u32 next_seq_num) d
       in Inr (next_seq_num, d))"

text \<open>\<open>serde_json::from_slice(&bytes[5..]).ok()\<close>: the document starts after the first five bytes.\<close>

fun parse_event :: "(indexer_event, 'j) codec \<Rightarrow> 'j stored \<Rightarrow> indexer_event option run" where
  "parse_event E (Json p j) = Inr (if length p = 5 then from_slice E j else None)"
| "parse_event E (Raw b) = (if 5 \<le> length b then Inr None else Inl IndexOutOfBounds)"

definition get_event ::
    "('d, 'j) db_ops \<Rightarrow> (indexer_event, 'j) codec \<Rightarrow> u32 \<Rightarrow> 'd \<Rightarrow> indexer_event option run" where
  "get_event D E seq_num d =
     (case db_get D d events_cf (to_be_bytes seq_num) of None \<Rightarrow> Inr None | Some v \<Rightarrow> parse_event E v)"

definition get_event_log ::
    "('d, 'j) db_ops \<Rightarrow> (indexer_event, 'j) codec \<Rightarrow> 'd \<Rightarrow> indexer_event list run" where
  "get_event_log D E d =
     bind_ok (get_next_seq_num D d) (\<lambda>num.
     fold_ok (\<lambda>n events. map_ok (\<lambda>e. case e of Some event \<Rightarrow> events @ [event] | None \<Rightarrow> events)
       (get_event D E (word_of_nat n) d)) [0..<unat num] [])"

section \<open>The log as a list\<close>

text \<open>The store holds exactly the events \<open>es\<close>.\<close>

definition holds_events ::
    "('d, 'j) db_ops \<Rightarrow> (indexer_event, 'j) codec \<Rightarrow> 'd \<Rightarrow> indexer_event list \<Rightarrow> bool" where
  "holds_events D E d es \<longleftrightarrow>
     holds_list D DEFAULT_CF NEXT_EVENT_SEQ_NUM_KEY events_cf to_be_bytes d (map (event_value E) es)"

lemma default_not_events [simp]: "DEFAULT_CF \<noteq> events_cf" "events_cf \<noteq> DEFAULT_CF"
  by (simp_all add: DEFAULT_CF_def events_cf_def)

sublocale key_value_db \<subseteq> event_log: counted_list D DEFAULT_CF NEXT_EVENT_SEQ_NUM_KEY events_cf to_be_bytes
  by unfold_locales simp_all

lemma fold_ok_collect:
  assumes "\<And>i. i < n \<Longrightarrow> f i = Inr (Some (xs ! i))" "n \<le> length xs"
  shows "fold_ok (\<lambda>i acc. map_ok (\<lambda>e. case e of Some x \<Rightarrow> acc @ [x] | None \<Rightarrow> acc) (f i)) [0..<n] [] =
    Inr (take n xs)"
  using assms by (induction n) (simp_all add: fold_ok_append take_Suc_conv_app_nth)

lemma get_event_log_holds:
  assumes "json_codec E" "holds_events D E d es"
  shows "get_event_log D E d = Inr es"
proof -
  have "get_event D E (word_of_nat i) d = Inr (Some (es ! i))" if "i < length es" for i
    using holds_list_elem[OF assms(2)[unfolded holds_events_def], of i] that json_codec.from_to[OF assms(1)]
    by (simp add: get_event_def event_value_def len_defs)
  moreover have "unat (word_of_nat (length es) :: u32) = length es"
    using assms(2) by (simp add: holds_events_def holds_list_def unat_of_nat)
  ultimately show ?thesis
    using assms(2) fold_ok_collect[of "length es" "\<lambda>i. get_event D E (word_of_nat i) d" es]
    by (simp add: get_event_log_def get_next_seq_num_def holds_events_def holds_list_def)
qed

context key_value_db
begin

lemma add_event_holds:
  assumes "holds_events D E d es" "Suc (length es) < 2 ^ 32"
  shows "\<exists>n d'. add_event D E ev d = Inr (n, d') \<and>
    holds_events D E d' (if is_best_tip_update ev then es else es @ [ev])"
  using assms event_log.append_elem'[of d "map (event_value E) es" "event_value E ev"]
  by (auto simp: add_event_def get_next_seq_num_def holds_events_def holds_list_count Let_def)

lemma add_events_hold:
  assumes "holds_events D E d es" "length es + length evs < 2 ^ 32"
  shows "\<exists>d'. fold_ok (\<lambda>ev d. map_ok snd (add_event D E ev d)) evs d = Inr d' \<and>
    holds_events D E d' (es @ filter (\<lambda>ev. \<not> is_best_tip_update ev) evs)"
  using assms
proof (induction evs arbitrary: d es)
  case (Cons ev evs)
  let ?es = "if is_best_tip_update ev then es else es @ [ev]"
  obtain n d1 where d1: "add_event D E ev d = Inr (n, d1)" "holds_events D E d1 ?es"
    using add_event_holds[OF Cons.prems(1)] Cons.prems(2) by fastforce
  moreover have "length ?es + length evs < 2 ^ 32" using Cons.prems(2) by simp
  ultimately show ?case using Cons.IH[of d1 ?es] by (auto split: if_splits)
qed simp

end

section \<open>Properties of the event log\<close>

text \<open>
  C32: a store that holds the events \<open>es\<close> and records further ones holds the old events followed by the
  new ones in order, best tip updates left out, and reading the log gives exactly that list.
\<close>

theorem event_log_appends:
  assumes "key_value_db D" "json_codec E" "holds_events D E d es" "length es + length evs < 2 ^ 32"
  shows "\<exists>d'. fold_ok (\<lambda>ev d. map_ok snd (add_event D E ev d)) evs d = Inr d' \<and>
    get_event_log D E d' = Inr (es @ filter (\<lambda>ev. \<not> is_best_tip_update ev) evs)"
  using key_value_db.add_events_hold[OF assms(1,3,4)] by (auto intro!: get_event_log_holds[OF assms(2)])

theorem event_log_appends_witness:
  "\<exists>d'. fold_ok (\<lambda>ev d. map_ok snd (add_event assoc_ops id_codec ev d))
      [DbEvt (BlockEvent (NewBlock ''3N'' 1)), DbEvt (BlockEvent (NewBestTip ''3N'' 1))] [] = Inr d' \<and>
    get_event_log assoc_ops id_codec d' = Inr ([] @ filter (\<lambda>ev. \<not> is_best_tip_update ev)
      [DbEvt (BlockEvent (NewBlock ''3N'' 1)), DbEvt (BlockEvent (NewBestTip ''3N'' 1))])"
  by (rule event_log_appends[OF assoc.key_value_db_axioms idc.json_codec_axioms])
    (simp_all add: holds_events_def holds_list_def get_next_seq_num_def get_count_def get_u32_def)

end
