(* ===== verification/Block_Store.thy ===== *)
theory Block_Store
  imports Event_Store
begin

text \<open>
  The block store (\<open>store/block_store_impl.rs\<close>): the indices of a block, the lists of blocks at a height, a
  slot or a public key, the production counts and the walk between two tips.  \<open>D\<close> are the operations of
  the database, \<open>d\<close> its contents; the setters of \<open>add_block\<close> extend a batch.
\<close>

section \<open>Keys\<close>

definition BEST_TIP_STATE_HASH_KEY :: bytes where
  "BEST_TIP_STATE_HASH_KEY = ''best_tip_state_hash''"

definition TOTAL_NUM_BLOCKS_KEY :: bytes where
  "TOTAL_NUM_BLOCKS_KEY = ''total_num_blocks''"

definition TOTAL_NUM_BLOCKS_SUPERCHARGED_KEY :: bytes where
  "TOTAL_NUM_BLOCKS_SUPERCHARGED_KEY = ''total_num_blocks_supercharged''"

definition NUM_BLOCK_BYTES_PROCESSED :: bytes where
  "NUM_BLOCK_BYTES_PROCESSED = ''num_block_bytes_processed''"

definition MAINNET_GENESIS_PREV_STATE_HASH :: state_hash where
  "MAINNET_GENESIS_PREV_STATE_HASH = ''3NLoKn22eMnyQ7rxh5pxB6vBA3XhSAhhrf7akdqS6HbAKD14Dh1d''"

definition HARDFORK_GENESIS_PREV_STATE_HASH :: state_hash where
  "HARDFORK_GENESIS_PREV_STATE_HASH = ''3NLRTfY4kZyJtvaP4dFenDcxfoMfT3uEpkWS913KkeXLtziyVd15''"

definition HARDFORK_GENESIS_BLOCKCHAIN_LENGTH :: u32 where
  "HARDFORK_GENESIS_BLOCKCHAIN_LENGTH = 359605"

definition MAINNET_EPOCH_SLOT_COUNT :: u32 where
  "MAINNET_EPOCH_SLOT_COUNT = 7140"

record block_update =
  bu_state_hash :: state_hash
  bu_blockchain_length :: u32
  bu_global_slot_since_genesis :: u32

record 'a db_update =
  du_apply :: "'a list"
  du_unapply :: "'a list"

section \<open>Indices of a block\<close>

text \<open>The size of the file in front of the block's document.\<close>

fun parse_block :: "(precomputed_block, 'j) codec \<Rightarrow> 'j stored \<Rightarrow> (precomputed_block \<times> u64) option run" where
  "parse_block B (Json p j) =
     (if length p = U64_LEN
      then case from_slice B j of None \<Rightarrow> Inr None
        | Some block \<Rightarrow> map_ok (\<lambda>n. Some (block, n)) (unwrap (u64_from_be_bytes p))
      else Inr None)"
| "parse_block B (Raw b) = (if U64_LEN \<le> length b then Inr None else Inl IndexOutOfBounds)"

definition get_block :: "('d, 'j) db_ops \<Rightarrow> (precomputed_block, 'j) codec \<Rightarrow> state_hash \<Rightarrow> 'd \<Rightarrow>
    (precomputed_block \<times> u64) option run" where
  "get_block D B state_hash d =
     (case db_get D d blocks_cf state_hash of None \<Rightarrow> Inr None | Some v \<Rightarrow> parse_block B v)"

definition get_best_block_hash :: "('d, 'j) db_ops \<Rightarrow> 'd \<Rightarrow> state_hash option" where
  "get_best_block_hash D d = get_hash D DEFAULT_CF BEST_TIP_STATE_HASH_KEY d"

definition get_best_block ::
    "('d, 'j) db_ops \<Rightarrow> (precomputed_block, 'j) codec \<Rightarrow> 'd \<Rightarrow> precomputed_block option run" where
  "get_best_block D B d =
     (case get_best_block_hash D d of None \<Rightarrow> Inr None
      | Some state_hash \<Rightarrow> map_ok (map_option fst) (get_block D B state_hash d))"

definition get_block_height :: "('d, 'j) db_ops \<Rightarrow> state_hash \<Rightarrow> 'd \<Rightarrow> u32 option run" where
  "get_block_height D state_hash d =
     (if state_hash = MAINNET_GENESIS_PREV_STATE_HASH then Inr (Some 0)
      else if state_hash = HARDFORK_GENESIS_PREV_STATE_HASH
      then Inr (Some (HARDFORK_GENESIS_BLOCKCHAIN_LENGTH - 1))
      else get_u32 D block_height_cf state_hash d)"

definition get_block_global_slot :: "('d, 'j) db_ops \<Rightarrow> state_hash \<Rightarrow> 'd \<Rightarrow> u32 option run" where
  "get_block_global_slot D state_hash d = get_u32 D block_global_slot_cf state_hash d"

definition get_block_parent_hash :: "('d, 'j) db_ops \<Rightarrow> state_hash \<Rightarrow> 'd \<Rightarrow> state_hash option" where
  "get_block_parent_hash D state_hash d = get_hash D block_parent_hash_cf state_hash d"

definition get_block_genesis_state_hash :: "('d, 'j) db_ops \<Rightarrow> state_hash \<Rightarrow> 'd \<Rightarrow> state_hash option" where
  "get_block_genesis_state_hash D state_hash d = get_hash D block_genesis_state_hash_cf state_hash d"

definition get_block_epoch :: "('d, 'j) db_ops \<Rightarrow> state_hash \<Rightarrow> 'd \<Rightarrow> u32 option run" where
  "get_block_epoch D state_hash d = get_u32 D block_epoch_cf state_hash d"

definition get_block_creator :: "('d, 'j) db_ops \<Rightarrow> state_hash \<Rightarrow> 'd \<Rightarrow> public_key option" where
  "get_block_creator D state_hash d = get_pk D block_creator_cf state_hash d"

definition get_coinbase_receiver :: "('d, 'j) db_ops \<Rightarrow> state_hash \<Rightarrow> 'd \<Rightarrow> public_key option" where
  "get_coinbase_receiver D state_hash d = get_pk D block_coinbase_receiver_cf state_hash d"

definition get_block_date_time :: "('d, 'j) db_ops \<Rightarrow> state_hash \<Rightarrow> 'd \<Rightarrow> 64 word option" where
  "get_block_date_time D state_hash d =
     Option.bind (Option.bind (db_get D d block_date_time_cf state_hash) raw_bytes) i64_from_be_bytes"

definition get_block_version ::
    "('d, 'j) db_ops \<Rightarrow> (pcb_version, 'j) codec \<Rightarrow> state_hash \<Rightarrow> 'd \<Rightarrow> pcb_version option" where
  "get_block_version D C state_hash d = get_json D C block_version_cf state_hash d"

definition get_block_ledger_diff ::
    "('d, 'j) db_ops \<Rightarrow> (ledger_diff, 'j) codec \<Rightarrow> state_hash \<Rightarrow> 'd \<Rightarrow> ledger_diff option" where
  "get_block_ledger_diff D L state_hash d = get_json D L block_ledger_diff_cf state_hash d"

definition get_block_account_diffs ::
    "('d, 'j) db_ops \<Rightarrow> (ledger_diff, 'j) codec \<Rightarrow> state_hash \<Rightarrow> 'd \<Rightarrow> account_diff list option" where
  "get_block_account_diffs D L state_hash d =
     map_option (\<lambda>diff. concat (ld_account_diffs diff)) (get_block_ledger_diff D L state_hash d)"

definition get_block_comparison ::
    "('d, 'j) db_ops \<Rightarrow> (block_comparison, 'j) codec \<Rightarrow> state_hash \<Rightarrow> 'd \<Rightarrow> block_comparison option" where
  "get_block_comparison D K state_hash d = get_json D K block_comparison_cf state_hash d"

text \<open>\<open>BlockStore::block_cmp\<close>; the outer \<open>None\<close> is the error of a comparison that does not parse.\<close>

definition store_block_cmp :: "('d, 'j) db_ops \<Rightarrow> (block_comparison, 'j) codec \<Rightarrow> state_hash \<Rightarrow> state_hash \<Rightarrow>
    'd \<Rightarrow> ordering option option" where
  "store_block_cmp D K block other d =
     (case (db_get D d block_comparison_cf block, db_get D d block_comparison_cf other) of
        (Some v1, Some v2) \<Rightarrow>
          (case (parse_json K v1, parse_json K v2) of
             (Some bc1, Some bc2) \<Rightarrow> Some (Some (block_comparison_cmp bc1 bc2))
           | _ \<Rightarrow> None)
      | _ \<Rightarrow> Some None)"

text \<open>The best block's indices; an error of the inner lookup is dropped, a panic is not.\<close>

definition get_best_block_height :: "('d, 'j) db_ops \<Rightarrow> 'd \<Rightarrow> u32 option run" where
  "get_best_block_height D d =
     (case get_best_block_hash D d of None \<Rightarrow> Inr None | Some h \<Rightarrow> get_block_height D h d)"

definition get_best_block_global_slot :: "('d, 'j) db_ops \<Rightarrow> 'd \<Rightarrow> u32 option run" where
  "get_best_block_global_slot D d =
     (case get_best_block_hash D d of None \<Rightarrow> Inr None | Some h \<Rightarrow> get_block_global_slot D h d)"

definition get_best_block_genesis_hash :: "('d, 'j) db_ops \<Rightarrow> 'd \<Rightarrow> state_hash option" where
  "get_best_block_genesis_hash D d =
     Option.bind (get_best_block_hash D d) (\<lambda>h. get_block_genesis_state_hash D h d)"

definition get_current_epoch :: "('d, 'j) db_ops \<Rightarrow> 'd \<Rightarrow> u32 run" where
  "get_current_epoch D d =
     map_ok (\<lambda>e. unwrap_or e 0)
       (case get_best_block_hash D d of None \<Rightarrow> Inr None | Some h \<Rightarrow> get_block_epoch D h d)"

section \<open>Setters\<close>

definition set_block_parent_hash_batch :: "state_hash \<Rightarrow> state_hash \<Rightarrow> 'j batch \<Rightarrow> 'j batch" where
  "set_block_parent_hash_batch state_hash previous_hash batch =
     batch_put block_parent_hash_cf state_hash (Raw previous_hash) batch"

definition set_block_date_time_batch :: "state_hash \<Rightarrow> 64 word \<Rightarrow> 'j batch \<Rightarrow> 'j batch" where
  "set_block_date_time_batch state_hash date_time batch =
     batch_put block_date_time_cf state_hash (Raw (to_be_bytes date_time)) batch"

definition set_block_height_batch :: "state_hash \<Rightarrow> u32 \<Rightarrow> 'j batch \<Rightarrow> 'j batch" where
  "set_block_height_batch state_hash len batch = batch_put block_height_cf state_hash (raw_u32 len) batch"

definition set_block_global_slot_batch :: "state_hash \<Rightarrow> u32 \<Rightarrow> 'j batch \<Rightarrow> 'j batch" where
  "set_block_global_slot_batch state_hash slot batch =
     batch_put block_global_slot_cf state_hash (raw_u32 slot) batch"

definition set_block_epoch_batch :: "state_hash \<Rightarrow> u32 \<Rightarrow> 'j batch \<Rightarrow> 'j batch" where
  "set_block_epoch_batch state_hash epoch batch = batch_put block_epoch_cf state_hash (raw_u32 epoch) batch"

definition set_block_genesis_state_hash_batch :: "state_hash \<Rightarrow> state_hash \<Rightarrow> 'j batch \<Rightarrow> 'j batch" where
  "set_block_genesis_state_hash_batch state_hash genesis_hash batch =
     batch_put block_genesis_state_hash_cf state_hash (Raw genesis_hash) batch"

definition set_block_version_batch ::
    "(pcb_version, 'j) codec \<Rightarrow> state_hash \<Rightarrow> pcb_version \<Rightarrow> 'j batch \<Rightarrow> 'j batch" where
  "set_block_version_batch C state_hash version batch =
     batch_put block_version_cf state_hash (json C version) batch"

text \<open>Despite its name it writes to the database at once.\<close>

definition set_block_comparison_batch :: "('d, 'j) db_ops \<Rightarrow> (block_comparison, 'j) codec \<Rightarrow> state_hash \<Rightarrow>
    block_comparison \<Rightarrow> 'd \<Rightarrow> 'd" where
  "set_block_comparison_batch D K state_hash comparison d =
     db_put D block_comparison_cf state_hash (json K comparison) d"

definition set_block_creator_batch :: "precomputed_block \<Rightarrow> 'j batch \<Rightarrow> 'j batch run" where
  "set_block_creator_batch block batch =
     (let state_hash = state_hash_of block; creator = block_creator block;
          batch = batch_put block_creator_cf state_hash (Raw creator) batch in
      bind_ok (pk_block_sort_key creator (blockchain_length block) state_hash) (\<lambda>height_key.
      let batch = batch_put block_creator_height_sort_cf height_key (Raw []) batch in
      map_ok (\<lambda>slot_key. batch_put block_creator_slot_sort_cf slot_key (Raw []) batch)
        (pk_block_sort_key creator (global_slot_since_genesis block) state_hash)))"

definition set_coinbase_receiver_batch :: "precomputed_block \<Rightarrow> 'j batch \<Rightarrow> 'j batch run" where
  "set_coinbase_receiver_batch block batch =
     (let state_hash = state_hash_of block; receiver = coinbase_receiver block;
          batch = batch_put block_coinbase_receiver_cf state_hash (Raw receiver) batch in
      bind_ok (pk_block_sort_key receiver (blockchain_length block) state_hash) (\<lambda>height_key.
      let batch = batch_put block_coinbase_height_sort_cf height_key (Raw []) batch in
      map_ok (\<lambda>slot_key. batch_put block_coinbase_slot_sort_cf slot_key (Raw []) batch)
        (pk_block_sort_key receiver (global_slot_since_genesis block) state_hash)))"

definition get_block_global_slots_from_height ::
    "('d, 'j) db_ops \<Rightarrow> (u32 list, 'j) codec \<Rightarrow> u32 \<Rightarrow> 'd \<Rightarrow> u32 list option" where
  "get_block_global_slots_from_height D N len d =
     get_json D N block_height_to_global_slots_cf (to_be_bytes len) d"

definition get_block_heights_from_global_slot ::
    "('d, 'j) db_ops \<Rightarrow> (u32 list, 'j) codec \<Rightarrow> u32 \<Rightarrow> 'd \<Rightarrow> u32 list option" where
  "get_block_heights_from_global_slot D N slot d =
     get_json D N block_global_slot_to_heights_cf (to_be_bytes slot) d"

definition set_block_height_global_slot_pair_batch ::
    "('d, 'j) db_ops \<Rightarrow> (u32 list, 'j) codec \<Rightarrow> u32 \<Rightarrow> u32 \<Rightarrow> 'd \<Rightarrow> 'j batch \<Rightarrow> 'j batch" where
  "set_block_height_global_slot_pair_batch D N len slot d batch =
     (let heights = unwrap_or (get_block_heights_from_global_slot D N slot d) [];
          batch = (if len \<in> set heights then batch
            else batch_put block_global_slot_to_heights_cf (to_be_bytes slot) (json N (sort (heights @ [len]))) batch);
          slots = unwrap_or (get_block_global_slots_from_height D N len d) []
      in if slot \<in> set slots then batch
         else batch_put block_height_to_global_slots_cf (to_be_bytes len) (json N (sort (slots @ [slot]))) batch)"

section \<open>Lists of blocks\<close>

text \<open>
  Blocks at a height, a global slot or a public key: a count, and the hashes under consecutive numbers.
  Reading stops at the first missing number; a value that is no state hash is an error, \<open>None\<close>.
\<close>

fun collect_hashes :: "('d, 'j) db_ops \<Rightarrow> column_family \<Rightarrow> (u32 \<Rightarrow> bytes run) \<Rightarrow> 'd \<Rightarrow> nat list \<Rightarrow>
    state_hash list \<Rightarrow> state_hash list option run" where
  "collect_hashes D cf key d [] blocks = Inr (Some blocks)"
| "collect_hashes D cf key d (n # ns) blocks =
     bind_ok (key (word_of_nat n)) (\<lambda>k.
     case db_get D d cf k of None \<Rightarrow> Inr (Some blocks)
     | Some v \<Rightarrow>
         (case Option.bind (raw_bytes v) state_hash_from_bytes of None \<Rightarrow> Inr None
          | Some h \<Rightarrow> collect_hashes D cf key d ns (blocks @ [h])))"

definition get_num_blocks_at_height :: "('d, 'j) db_ops \<Rightarrow> u32 \<Rightarrow> 'd \<Rightarrow> u32 run" where
  "get_num_blocks_at_height D len d = get_count D blocks_at_height_cf (to_be_bytes len) d"

definition add_block_at_height_batch ::
    "('d, 'j) db_ops \<Rightarrow> state_hash \<Rightarrow> u32 \<Rightarrow> 'd \<Rightarrow> 'j batch \<Rightarrow> 'j batch run" where
  "add_block_at_height_batch D state_hash len d batch =
     bind_ok (get_num_blocks_at_height D len d) (\<lambda>num.
     let batch = batch_put blocks_at_height_cf (to_be_bytes len) (raw_u32 (num + 1)) batch in
     map_ok (\<lambda>k. batch_put blocks_at_height_cf k (Raw state_hash) batch) (block_num_key len num))"

definition get_num_blocks_at_slot :: "('d, 'j) db_ops \<Rightarrow> u32 \<Rightarrow> 'd \<Rightarrow> u32 run" where
  "get_num_blocks_at_slot D slot d = get_count D blocks_at_global_slot_cf (to_be_bytes slot) d"

definition add_block_at_slot_batch ::
    "('d, 'j) db_ops \<Rightarrow> state_hash \<Rightarrow> u32 \<Rightarrow> 'd \<Rightarrow> 'j batch \<Rightarrow> 'j batch run" where
  "add_block_at_slot_batch D state_hash slot d batch =
     bind_ok (get_num_blocks_at_slot D slot d) (\<lambda>num.
     let batch = batch_put blocks_at_global_slot_cf (to_be_bytes slot) (raw_u32 (num + 1)) batch in
     map_ok (\<lambda>k. batch_put blocks_at_global_slot_cf k (Raw state_hash) batch) (block_num_key slot num))"

definition get_num_blocks_at_public_key :: "('d, 'j) db_ops \<Rightarrow> public_key \<Rightarrow> 'd \<Rightarrow> u32 run" where
  "get_num_blocks_at_public_key D pk d = get_count D blocks_pk_count_cf pk d"

definition add_block_at_public_key_batch ::
    "('d, 'j) db_ops \<Rightarrow> public_key \<Rightarrow> state_hash \<Rightarrow> 'd \<Rightarrow> 'j batch \<Rightarrow> 'j batch run" where
  "add_block_at_public_key_batch D pk state_hash d batch =
     bind_ok (get_num_blocks_at_public_key D pk d) (\<lambda>num.
     let batch = batch_put blocks_pk_count_cf pk (raw_u32 (num + 1)) batch in
     map_ok (\<lambda>k. batch_put blocks_cf k (Raw state_hash) batch) (pk_index_key pk num))"

section \<open>Canonicity of a block\<close>

text \<open>\<open>get_canonical_hash_at_height\<close> and \<open>get_block_canonicity\<close> of \<open>store/canonicity_store_impl.rs\<close>.\<close>

definition get_canonical_hash_at_height :: "('d, 'j) db_ops \<Rightarrow> u32 \<Rightarrow> 'd \<Rightarrow> state_hash option" where
  "get_canonical_hash_at_height D height d = get_hash D canonicity_length_cf (to_be_bytes height) d"

definition get_canonical_hash_at_slot :: "('d, 'j) db_ops \<Rightarrow> u32 \<Rightarrow> 'd \<Rightarrow> state_hash option" where
  "get_canonical_hash_at_slot D slot d = get_hash D canonicity_slot_cf (to_be_bytes slot) d"

definition get_block_canonicity :: "('d, 'j) db_ops \<Rightarrow> state_hash \<Rightarrow> 'd \<Rightarrow> canonicity option run" where
  "get_block_canonicity D state_hash d =
     map_ok (\<lambda>height. Option.bind height (\<lambda>height.
         map_option (\<lambda>canonical_hash. if state_hash = canonical_hash then Canonical else Orphaned)
           (get_canonical_hash_at_height D height d)))
       (get_block_height D state_hash d)"

section \<open>Reading lists of blocks\<close>

text \<open>
  The comparator of \<open>block_cmp\<close>, on the canonicity and the comparison of each block.  \<open>sort_by\<close> compares
  every element of a list of two or more, so each must have a comparison.
\<close>

fun ranked_block_cmp :: "canonicity option \<times> block_comparison \<Rightarrow> canonicity option \<times> block_comparison \<Rightarrow> ordering" where
  "ranked_block_cmp (Some Canonical, a_cmp) (_, b_cmp) = Less"
| "ranked_block_cmp (_, a_cmp) (Some Canonical, b_cmp) = Greater"
| "ranked_block_cmp (_, a_cmp) (_, b_cmp) = block_comparison_cmp a_cmp b_cmp"

definition rank_block :: "('d, 'j) db_ops \<Rightarrow> (block_comparison, 'j) codec \<Rightarrow> 'd \<Rightarrow> state_hash \<Rightarrow>
    (state_hash \<times> canonicity option \<times> block_comparison) run" where
  "rank_block D K d h =
     bind_ok (get_block_canonicity D h d) (\<lambda>c.
     map_ok (\<lambda>bc. (h, c, bc)) (unwrap (get_block_comparison D K h d)))"

definition sort_blocks ::
    "('d, 'j) db_ops \<Rightarrow> (block_comparison, 'j) codec \<Rightarrow> 'd \<Rightarrow> state_hash list \<Rightarrow> state_hash list run" where
  "sort_blocks D K d blocks =
     (if length blocks < 2 then Inr blocks
      else map_ok (\<lambda>ranked. map fst (sort_by (\<lambda>a b. ranked_block_cmp (snd a) (snd b)) ranked))
        (traverse_ok (rank_block D K d) blocks))"

definition sort_collected :: "('d, 'j) db_ops \<Rightarrow> (block_comparison, 'j) codec \<Rightarrow> 'd \<Rightarrow>
    state_hash list option \<Rightarrow> state_hash list option run" where
  "sort_collected D K d blocks =
     (case blocks of None \<Rightarrow> Inr None | Some bs \<Rightarrow> map_ok Some (sort_blocks D K d bs))"

definition get_blocks_at_height ::
    "('d, 'j) db_ops \<Rightarrow> (block_comparison, 'j) codec \<Rightarrow> u32 \<Rightarrow> 'd \<Rightarrow> state_hash list option run" where
  "get_blocks_at_height D K len d =
     bind_ok (get_num_blocks_at_height D len d) (\<lambda>num.
     bind_ok (collect_hashes D blocks_at_height_cf (block_num_key len) d [0..<unat num] [])
       (sort_collected D K d))"

definition get_blocks_at_slot ::
    "('d, 'j) db_ops \<Rightarrow> (block_comparison, 'j) codec \<Rightarrow> u32 \<Rightarrow> 'd \<Rightarrow> state_hash list option run" where
  "get_blocks_at_slot D K slot d =
     bind_ok (get_num_blocks_at_slot D slot d) (\<lambda>num.
     bind_ok (collect_hashes D blocks_at_global_slot_cf (block_num_key slot) d [0..<unat num] [])
       (sort_collected D K d))"

definition get_blocks_at_public_key ::
    "('d, 'j) db_ops \<Rightarrow> (block_comparison, 'j) codec \<Rightarrow> public_key \<Rightarrow> 'd \<Rightarrow> state_hash list option run" where
  "get_blocks_at_public_key D K pk d =
     bind_ok (get_num_blocks_at_public_key D pk d) (\<lambda>num.
     bind_ok (collect_hashes D blocks_cf (pk_index_key pk) d [0..<unat num] [])
       (sort_collected D K d))"

definition get_block_children ::
    "('d, 'j) db_ops \<Rightarrow> (block_comparison, 'j) codec \<Rightarrow> state_hash \<Rightarrow> 'd \<Rightarrow> state_hash list option run" where
  "get_block_children D K state_hash d =
     bind_ok (get_block_height D state_hash d) (\<lambda>height.
     case height of None \<Rightarrow> Inr None
     | Some height \<Rightarrow>
         bind_ok (get_blocks_at_height D K (height + 1) d) (\<lambda>blocks.
         sort_collected D K d
           (map_option (filter (\<lambda>b. get_block_parent_hash D b d = Some state_hash)) blocks)))"

section \<open>Epoch slots\<close>

definition epoch_or_current :: "('d, 'j) db_ops \<Rightarrow> u32 option \<Rightarrow> 'd \<Rightarrow> u32 run" where
  "epoch_or_current D epoch d = map_ok (unwrap_or epoch) (get_current_epoch D d)"

definition get_epoch_slots_produced_count :: "('d, 'j) db_ops \<Rightarrow> u32 option \<Rightarrow> 'd \<Rightarrow> u32 run" where
  "get_epoch_slots_produced_count D epoch d =
     bind_ok (epoch_or_current D epoch d) (\<lambda>epoch.
     get_count D block_epoch_slots_produced_count_cf (to_be_bytes epoch) d)"

definition get_pk_epoch_slots_produced_count ::
    "('d, 'j) db_ops \<Rightarrow> public_key \<Rightarrow> u32 option \<Rightarrow> 'd \<Rightarrow> u32 run" where
  "get_pk_epoch_slots_produced_count D pk epoch d =
     bind_ok (epoch_or_current D epoch d) (\<lambda>epoch.
     bind_ok (epoch_pk_key epoch pk) (\<lambda>k. get_count D block_pk_epoch_slots_produced_count_cf k d))"

definition add_epoch_slots_produced :: "('d, 'j) db_ops \<Rightarrow> u32 \<Rightarrow> u32 \<Rightarrow> public_key \<Rightarrow> 'd \<Rightarrow> 'd run" where
  "add_epoch_slots_produced D epoch epoch_slot pk d =
     bind_ok (block_num_key epoch epoch_slot) (\<lambda>key.
     bind_ok (if db_get D d block_epoch_slots_produced_cf key = None
       then let d = db_put D block_epoch_slots_produced_cf key (Raw []) d in
         map_ok (\<lambda>acc. db_put D block_epoch_slots_produced_count_cf (to_be_bytes epoch) (raw_u32 (acc + 1)) d)
           (get_epoch_slots_produced_count D (Some epoch) d)
       else Inr d) (\<lambda>d.
     bind_ok (epoch_pk_num_key epoch pk epoch_slot) (\<lambda>key.
     if db_get D d block_pk_epoch_slots_produced_cf key = None
     then let d = db_put D block_pk_epoch_slots_produced_cf key (Raw []) d in
       bind_ok (get_pk_epoch_slots_produced_count D pk (Some epoch) d) (\<lambda>acc.
       map_ok (\<lambda>k. db_put D block_pk_epoch_slots_produced_count_cf k (raw_u32 (acc + 1)) d)
         (epoch_pk_key epoch pk))
     else Inr d)))"

text \<open>The global slot of an entry \<open>{epoch}{epoch slot}\<close>.\<close>

definition slot_of_key :: "bytes \<Rightarrow> u32 run" where
  "slot_of_key key =
     bind_ok (bind_ok (slice_to U32_LEN key) (\<lambda>s. unwrap (u32_from_be_bytes s))) (\<lambda>epoch.
     map_ok (\<lambda>epoch_slot. epoch * MAINNET_EPOCH_SLOT_COUNT + epoch_slot)
       (bind_ok (slice_from U32_LEN key) (\<lambda>s. unwrap (u32_from_be_bytes s))))"

definition get_next_global_slot_produced :: "('d, 'j) db_ops \<Rightarrow> u32 \<Rightarrow> 'd \<Rightarrow> u32 option run" where
  "get_next_global_slot_produced D slot d =
     bind_ok (block_num_key (slot div MAINNET_EPOCH_SLOT_COUNT) (slot mod MAINNET_EPOCH_SLOT_COUNT)) (\<lambda>start.
     case db_iterator D d block_epoch_slots_produced_cf (IterForward start) of
       [] \<Rightarrow> Inr None
     | (key, _) # _ \<Rightarrow> map_ok Some (slot_of_key key))"

definition get_prev_global_slot_produced :: "('d, 'j) db_ops \<Rightarrow> u32 \<Rightarrow> 'd \<Rightarrow> u32 run" where
  "get_prev_global_slot_produced D slot d =
     bind_ok (block_num_key (slot div MAINNET_EPOCH_SLOT_COUNT) (slot mod MAINNET_EPOCH_SLOT_COUNT)) (\<lambda>start.
     case db_iterator D d block_epoch_slots_produced_cf (IterReverse start) of
       [] \<Rightarrow> Inr 0
     | (key, _) # _ \<Rightarrow> slot_of_key key)"

section \<open>Blocks in order\<close>

definition blocks_by_keys :: "('d, 'j) db_ops \<Rightarrow> (precomputed_block, 'j) codec \<Rightarrow> 'd \<Rightarrow> bytes list \<Rightarrow>
    precomputed_block list option run" where
  "blocks_by_keys D B d keys =
     fold_ok (\<lambda>key blocks. case blocks of None \<Rightarrow> Inr None
       | Some bs \<Rightarrow> bind_ok (state_hash_suffix key) (\<lambda>h. case h of None \<Rightarrow> Inr None
         | Some h \<Rightarrow> bind_ok (get_block D B h d) (\<lambda>b. map_ok (\<lambda>b. Some (bs @ [fst b])) (unwrap b))))
       keys (Some [])"

definition blocks_via_height :: "('d, 'j) db_ops \<Rightarrow> (precomputed_block, 'j) codec \<Rightarrow> iterator_mode \<Rightarrow> 'd \<Rightarrow>
    precomputed_block list option run" where
  "blocks_via_height D B mode d =
     blocks_by_keys D B d (map fst (db_iterator D d blocks_height_sort_cf mode))"

definition blocks_via_global_slot :: "('d, 'j) db_ops \<Rightarrow> (precomputed_block, 'j) codec \<Rightarrow> iterator_mode \<Rightarrow> 'd \<Rightarrow>
    precomputed_block list option run" where
  "blocks_via_global_slot D B mode d =
     blocks_by_keys D B d (map fst (db_iterator D d blocks_global_slot_sort_cf mode))"

end
