(* ===== verification/Block_Lists.thy ===== *)
theory Block_Lists
  imports Block_Store
begin

text \<open>
  What the block store's lists hold: the blocks at a height, a slot or a public key are counted lists, the
  produced slots are read in numeric order.
\<close>

section \<open>Keys of the lists\<close>

lemma block_num_key_ok [simp]: "block_num_key a b = Inr (to_be_bytes a @ to_be_bytes b)"
  by (simp add: block_num_key_def)

lemma pk_index_key_ok [simp]:
  "length pk = PUBLIC_KEY_LEN \<Longrightarrow> pk_index_key pk n = Inr (pk @ to_be_bytes n)"
  by (simp add: pk_index_key_def)

sublocale key_value_db \<subseteq> at_height: counted_list D blocks_at_height_cf "to_be_bytes len" blocks_at_height_cf
    "\<lambda>n. to_be_bytes len @ to_be_bytes n" for len :: u32
  by unfold_locales (auto dest: arg_cong[of _ _ length] simp: len_defs)

sublocale key_value_db \<subseteq> at_slot: counted_list D blocks_at_global_slot_cf "to_be_bytes slot"
    blocks_at_global_slot_cf "\<lambda>n. to_be_bytes slot @ to_be_bytes n" for slot :: u32
  by unfold_locales (auto dest: arg_cong[of _ _ length] simp: len_defs)

sublocale key_value_db \<subseteq> at_pk: counted_list D blocks_pk_count_cf pk blocks_cf
    "\<lambda>n. pk @ to_be_bytes n" for pk
  by unfold_locales (simp_all add: blocks_pk_count_cf_def blocks_cf_def)

definition holds_at_height :: "('d, 'j) db_ops \<Rightarrow> u32 \<Rightarrow> 'd \<Rightarrow> state_hash list \<Rightarrow> bool" where
  "holds_at_height D len d hs \<longleftrightarrow> holds_list D blocks_at_height_cf (to_be_bytes len) blocks_at_height_cf
     (\<lambda>n. to_be_bytes len @ to_be_bytes n) d (map Raw hs)"

section \<open>Reading a counted list of blocks\<close>

lemma collect_hashes_holds:
  assumes "\<And>i. key i = Inr (ek i)" "holds_list D ncf nk ecf ek d (map Raw hs)" "\<forall>h\<in>set hs. hash_stored h"
    "n \<le> length hs"
  shows "collect_hashes D ecf key d [n..<length hs] acc = Inr (Some (acc @ drop n hs))"
  using assms(4)
proof (induction "length hs - n" arbitrary: n acc)
  case (Suc k)
  then have n: "n < length hs" "[n..<length hs] = n # [Suc n..<length hs]" "k = length hs - Suc n"
    by (simp_all add: upt_conv_Cons)
  have "hash_stored (hs ! n)" using n(1) assms(3) by simp
  moreover have "db_get D d ecf (ek (word_of_nat n)) = Some (Raw (hs ! n))"
    using holds_list_elem[OF assms(2), of n] n(1) by simp
  ultimately show ?case
    using Suc.hyps(1)[OF n(3)] n(1) by (simp add: n(2) assms(1) Cons_nth_drop_Suc[symmetric])
qed simp

lemma mset_sort_blocks: "sort_blocks D K d blocks = Inr bs \<Longrightarrow> mset bs = mset blocks"
proof (cases "length blocks < 2")
  case False
  assume "sort_blocks D K d blocks = Inr bs"
  then obtain ranked where r: "list_all2 (\<lambda>h r. rank_block D K d h = Inr r) blocks ranked"
    "bs = map fst (sort_by (\<lambda>a b. ranked_block_cmp (snd a) (snd b)) ranked)"
    using False by (auto simp: sort_blocks_def run_simps)
  have "map fst ranked = blocks"
    using r(1) by (induction rule: list_all2_induct) (auto simp: rank_block_def run_simps)
  moreover have "mset bs = image_mset fst (mset ranked)" by (simp add: r(2) mset_sort_by)
  ultimately show ?thesis by (simp flip: mset_map)
qed (simp add: sort_blocks_def)

text \<open>Every block has a comparison and readable indices: sorting does not panic.\<close>

definition sortable :: "('d, 'j) db_ops \<Rightarrow> (block_comparison, 'j) codec \<Rightarrow> 'd \<Rightarrow> state_hash \<Rightarrow> bool" where
  "sortable D K d h \<longleftrightarrow> (\<exists>c bc. get_block_canonicity D h d = Inr c \<and> get_block_comparison D K h d = Some bc)"

lemma sort_blocks_total: "\<forall>h\<in>set blocks. sortable D K d h \<Longrightarrow> \<exists>bs. sort_blocks D K d blocks = Inr bs"
proof -
  assume "\<forall>h\<in>set blocks. sortable D K d h"
  then have "\<exists>rs. traverse_ok (rank_block D K d) blocks = Inr rs \<and> (\<forall>r\<in>set rs. True)"
    by (intro traverse_ok_ex) (auto simp: sortable_def rank_block_def)
  then show ?thesis by (auto simp: sort_blocks_def)
qed

section \<open>Produced slots\<close>

text \<open>Every entry of the family is the epoch and the slot of a global slot that fits in 32 bits.\<close>

definition slot_key :: "u32 \<Rightarrow> bytes" where
  "slot_key s = to_be_bytes (s div MAINNET_EPOCH_SLOT_COUNT) @ to_be_bytes (s mod MAINNET_EPOCH_SLOT_COUNT)"

definition produced :: "('d, 'j) db_ops \<Rightarrow> 'd \<Rightarrow> u32 \<Rightarrow> bool" where
  "produced D d s \<longleftrightarrow> db_get D d block_epoch_slots_produced_cf (slot_key s) \<noteq> None"

definition slots_wf :: "('d, 'j) db_ops \<Rightarrow> 'd \<Rightarrow> bool" where
  "slots_wf D d \<longleftrightarrow> (\<forall>k. db_get D d block_epoch_slots_produced_cf k \<noteq> None \<longrightarrow> (\<exists>s. k = slot_key s))"

lemma slot_of_slot_key [simp]: "slot_of_key (slot_key s) = Inr s"
  by (simp add: slot_of_key_def slot_key_def word_mod_div_equality)

lemma less_div_mod: "v < w \<longleftrightarrow> v div n < w div n \<or> v div n = w div n \<and> v mod n < (w mod n :: nat)"
proof (cases "v div n" "w div n" rule: linorder_cases)
  case less
  then show ?thesis using div_le_mono[of w v n] by fastforce
next
  case equal
  then show ?thesis
    using div_mult_mod_eq[of v n] div_mult_mod_eq[of w n] by (metis nat_add_left_cancel_less nat_neq_iff)
next
  case greater
  then show ?thesis using div_le_mono[of v w n] by fastforce
qed

lemma slot_key_less_iff: "slot_key s < slot_key t \<longleftrightarrow> s < t"
  using less_div_mod[of "unat s" "unat t" 7140]
  by (simp add: slot_key_def append_less_iff MAINNET_EPOCH_SLOT_COUNT_def word_less_nat_alt word_unat_eq_iff
      unat_div unat_mod)

lemma slot_key_inject [simp]: "slot_key s = slot_key t \<longleftrightarrow> s = t"
  using slot_key_less_iff[of s t] slot_key_less_iff[of t s] by (metis neq_iff)

lemma slot_key_le_iff: "slot_key s \<le> slot_key t \<longleftrightarrow> s \<le> t"
  by (auto simp: order_le_less slot_key_less_iff)

context key_value_db
begin

lemma slot_queries:
  "get_next_global_slot_produced D s d =
     (case filter (\<lambda>e. slot_key s \<le> fst e) (db_iterator D d block_epoch_slots_produced_cf FromStart) of
        [] \<Rightarrow> Inr None | (key, _) # _ \<Rightarrow> map_ok Some (slot_of_key key))"
  "get_prev_global_slot_produced D s d =
     (case rev (filter (\<lambda>e. fst e \<le> slot_key s) (db_iterator D d block_epoch_slots_produced_cf FromStart)) of
        [] \<Rightarrow> Inr 0 | (key, _) # _ \<Rightarrow> slot_of_key key)"
  by (simp_all add: get_next_global_slot_produced_def get_prev_global_slot_produced_def iterator_forward
      iterator_reverse slot_key_def)

lemma slot_entries:
  assumes "slots_wf D d"
  shows "fst ` set (db_iterator D d block_epoch_slots_produced_cf FromStart) = slot_key ` {s. produced D d s}"
  using assms by (force simp: iterator_entries produced_def slots_wf_def image_iff)

lemma slot_entries_filter:
  assumes "slots_wf D d"
  shows "fst ` set (filter (\<lambda>e. P (fst e)) (db_iterator D d block_epoch_slots_produced_cf FromStart)) =
    slot_key ` {t. P (slot_key t) \<and> produced D d t}"
proof -
  have "fst ` set (filter (\<lambda>e. P (fst e)) (db_iterator D d block_epoch_slots_produced_cf FromStart)) =
      {k \<in> slot_key ` {t. produced D d t}. P k}"
    unfolding slot_entries[OF assms, symmetric] by auto
  then show ?thesis by auto
qed

lemma next_slot:
  assumes "slots_wf D d"
  shows "\<exists>r. get_next_global_slot_produced D s d = Inr r \<and>
    (case r of None \<Rightarrow> \<forall>t. s \<le> t \<longrightarrow> \<not> produced D d t
     | Some t \<Rightarrow> s \<le> t \<and> produced D d t \<and> (\<forall>u. s \<le> u \<and> produced D d u \<longrightarrow> t \<le> u))"
proof -
  let ?es = "filter (\<lambda>e. slot_key s \<le> fst e) (db_iterator D d block_epoch_slots_produced_cf FromStart)"
  note keys = slot_entries_filter[OF assms, of "\<lambda>k. slot_key s \<le> k", unfolded slot_key_le_iff]
  show ?thesis
  proof (cases ?es)
    case Nil
    then show ?thesis using keys by (auto simp: slot_queries)
  next
    case (Cons e es)
    have sorted: "sorted_wrt (<) (map fst ?es)"
      using iterator_order by (simp add: sorted_wrt_map sorted_wrt_filter)
    have "fst e \<in> fst ` set ?es" unfolding Cons by simp
    then obtain t where t: "fst e = slot_key t" "s \<le> t" "produced D d t" unfolding keys by blast
    have "t \<le> u" if "s \<le> u" "produced D d u" for u
    proof -
      have "slot_key u \<in> fst ` set ?es" unfolding keys using that by blast
      then have "fst e \<le> slot_key u" using sorted unfolding Cons by (auto simp: less_imp_le)
      then show ?thesis by (simp add: t(1) slot_key_le_iff)
    qed
    then show ?thesis using t Cons by (cases e) (auto simp: slot_queries)
  qed
qed

lemma prev_slot:
  assumes "slots_wf D d"
  shows "\<exists>r. get_prev_global_slot_produced D s d = Inr r \<and>
    (if (\<exists>t. t \<le> s \<and> produced D d t) then r \<le> s \<and> produced D d r \<and> (\<forall>u. u \<le> s \<and> produced D d u \<longrightarrow> u \<le> r)
     else r = 0)"
proof -
  let ?es = "filter (\<lambda>e. fst e \<le> slot_key s) (db_iterator D d block_epoch_slots_produced_cf FromStart)"
  note keys = slot_entries_filter[OF assms, of "\<lambda>k. k \<le> slot_key s", unfolded slot_key_le_iff]
  show ?thesis
  proof (cases ?es rule: rev_cases)
    case Nil
    then show ?thesis using keys by (auto simp: slot_queries)
  next
    case (snoc es e)
    have sorted: "sorted_wrt (<) (map fst ?es)"
      using iterator_order by (simp add: sorted_wrt_map sorted_wrt_filter)
    have "fst e \<in> fst ` set ?es" unfolding snoc by simp
    then obtain t where t: "fst e = slot_key t" "t \<le> s" "produced D d t" unfolding keys by blast
    have "u \<le> t" if "u \<le> s" "produced D d u" for u
    proof -
      have "slot_key u \<in> fst ` set ?es" unfolding keys using that by blast
      then have "slot_key u \<le> fst e" using sorted unfolding snoc by (auto simp: sorted_wrt_append less_imp_le)
      then show ?thesis by (simp add: t(1) slot_key_le_iff)
    qed
    then show ?thesis using t snoc by (cases e) (auto simp: slot_queries)
  qed
qed

lemma sortable_other:
  assumes "\<And>cf k. cf \<in> {block_height_cf, canonicity_length_cf, block_comparison_cf} \<Longrightarrow> db_get D e cf k = db_get D d cf k"
  shows "sortable D K e h \<longleftrightarrow> sortable D K d h"
  using assms
  by (simp add: sortable_def get_block_canonicity_def get_block_height_def get_u32_def
      get_canonical_hash_at_height_def get_hash_def get_block_comparison_def get_json_def)

lemma at_height_not:
  "blocks_at_height_cf \<notin> {block_height_cf, canonicity_length_cf, block_comparison_cf}"
  by (simp add: blocks_at_height_cf_def block_height_cf_def canonicity_length_cf_def block_comparison_cf_def)

lemma blocks_at_height_read:
  assumes "holds_at_height D len d hs"
    "\<forall>h\<in>set hs. hash_stored h \<and> sortable D K d h"
  shows "\<exists>bs. get_blocks_at_height D K len d = Inr (Some bs) \<and> mset bs = mset hs"
proof -
  have num: "get_num_blocks_at_height D len d = Inr (word_of_nat (length hs))" "length hs < 2 ^ 32"
    using assms(1) by (simp_all add: get_num_blocks_at_height_def holds_at_height_def holds_list_def)
  have key: "block_num_key len i = Inr (to_be_bytes len @ to_be_bytes i)" for i by simp
  have read: "collect_hashes D blocks_at_height_cf (block_num_key len) d [0..<length hs] [] = Inr (Some hs)"
    using collect_hashes_holds[where key = "block_num_key len", OF key assms(1)[unfolded holds_at_height_def], of 0 "[]"]
      assms(2) by simp
  obtain bs where bs: "sort_blocks D K d hs = Inr bs" using sort_blocks_total[of hs D K d] assms(2) by auto
  have "get_blocks_at_height D K len d = Inr (Some bs)"
    by (simp add: get_blocks_at_height_def sort_collected_def num(1) unat_word_of_nat_u32[OF num(2)] read bs)
  then show ?thesis using mset_sort_blocks[OF bs] by (intro exI[of _ bs]) simp
qed

lemma blocks_at_height_append:
  assumes "Suc (length hs) < 2 ^ 32" "\<forall>h\<in>set (hs @ [h]). hash_stored h \<and> sortable D K d h"
    "holds_at_height D len d hs"
  shows "\<exists>batch. add_block_at_height_batch D h len d [] = Inr batch \<and>
    holds_at_height D len (db_write D batch d) (hs @ [h]) \<and>
    (\<exists>bs. get_blocks_at_height D K len (db_write D batch d) = Inr (Some bs) \<and> mset bs = mset (hs @ [h]))"
proof -
  let ?n = "word_of_nat (length hs) :: u32"
  let ?batch = "[(blocks_at_height_cf, to_be_bytes len, raw_u32 (?n + 1)),
    (blocks_at_height_cf, to_be_bytes len @ to_be_bytes ?n, Raw h)]"
  have batch: "add_block_at_height_batch D h len d [] = Inr ?batch"
    using holds_list_count[OF assms(3)[unfolded holds_at_height_def]]
    by (simp add: add_block_at_height_batch_def get_num_blocks_at_height_def batch_put_def Let_def)
  have holds: "holds_at_height D len (db_write D ?batch d) (hs @ [h])"
    using at_height.append_elem[OF assms(3)[unfolded holds_at_height_def], of "Raw h"] assms(1)
    by (simp add: db_write_def holds_at_height_def)
  have other: "db_get D (db_write D ?batch d) cf k = db_get D d cf k" if "cf \<noteq> blocks_at_height_cf" for cf k
    using that by (simp add: db_write_def get_put)
  have "sortable D K (db_write D ?batch d) x \<longleftrightarrow> sortable D K d x" for x
    by (rule sortable_other, rule other) (use at_height_not in auto)
  with assms(2) have "\<forall>x\<in>set (hs @ [h]). hash_stored x \<and> sortable D K (db_write D ?batch d) x" by blast
  then show ?thesis using batch holds blocks_at_height_read[OF holds] by (intro exI[of _ ?batch] conjI)
qed

end

text \<open>A store with the comparison of one block.\<close>

definition example_blocks :: "block_comparison assoc_db" where
  "example_blocks = [((block_comparison_cf, state_hash_default), json id_codec
     \<lparr>bc_state_hash = state_hash_default, bc_blockchain_length = 7, bc_hash_last_vrf_output = [], bc_version = PcbV1\<rparr>)]"

text \<open>A store with one produced slot.\<close>

definition example_slots :: "unit assoc_db" where
  "example_slots = [((block_epoch_slots_produced_cf, slot_key 9), Raw [])]"

section \<open>Properties of the lists\<close>

text \<open>
  C33: a store that holds the blocks \<open>hs\<close> at a height and writes the batch for one more holds that block
  last, and reading the height gives every block exactly once per addition.
\<close>

theorem blocks_at_height_grow:
  assumes "key_value_db D" "Suc (length hs) < 2 ^ 32" "\<forall>h\<in>set (hs @ [h]). hash_stored h \<and> sortable D K d h"
    "holds_at_height D len d hs"
  shows "\<exists>batch. add_block_at_height_batch D h len d [] = Inr batch \<and>
    holds_at_height D len (db_write D batch d) (hs @ [h]) \<and>
    (\<exists>bs. get_blocks_at_height D K len (db_write D batch d) = Inr (Some bs) \<and> mset bs = mset (hs @ [h]))"
  using key_value_db.blocks_at_height_append[OF assms] .

theorem blocks_at_height_grow_witness:
  "\<exists>batch. add_block_at_height_batch assoc_ops state_hash_default 7 example_blocks [] = Inr batch \<and>
    holds_at_height assoc_ops 7 (db_write assoc_ops batch example_blocks) ([] @ [state_hash_default]) \<and>
    (\<exists>bs. get_blocks_at_height assoc_ops id_codec 7 (db_write assoc_ops batch example_blocks) = Inr (Some bs) \<and>
      mset bs = mset ([] @ [state_hash_default]))"
  by (rule blocks_at_height_grow[OF assoc.key_value_db_axioms])
    (simp_all add: example_blocks_def holds_at_height_def holds_list_def sortable_def get_block_canonicity_def get_block_height_def
      get_u32_def get_count_def get_block_comparison_def get_json_def hash_stored_def state_hash_is_valid_def
      starts_with_def bytes_of_string_def state_hash_default_def MAINNET_GENESIS_PREV_STATE_HASH_def
      HARDFORK_GENESIS_PREV_STATE_HASH_def json_def id_codec_def block_comparison_cf_def block_height_cf_def
      blocks_at_height_cf_def)

text \<open>
  With well-formed keys, the next and the previous produced slot are the least produced slot at or
  above and the greatest at or below the given one; without any, the answers are none and zero.
\<close>

lemma produced_slots:
  assumes "key_value_db D" "slots_wf D d"
  shows "(\<exists>r. get_next_global_slot_produced D s d = Inr r \<and>
      (case r of None \<Rightarrow> \<forall>t. s \<le> t \<longrightarrow> \<not> produced D d t
       | Some t \<Rightarrow> s \<le> t \<and> produced D d t \<and> (\<forall>u. s \<le> u \<and> produced D d u \<longrightarrow> t \<le> u))) \<and>
    (\<exists>r. get_prev_global_slot_produced D s d = Inr r \<and>
      (if (\<exists>t. t \<le> s \<and> produced D d t)
       then r \<le> s \<and> produced D d r \<and> (\<forall>u. u \<le> s \<and> produced D d u \<longrightarrow> u \<le> r) else r = 0))"
  using key_value_db.next_slot[OF assms] key_value_db.prev_slot[OF assms] by blast

theorem produced_slots_witness:
  "(\<exists>r. get_next_global_slot_produced assoc_ops 5 example_slots = Inr r \<and>
      (case r of None \<Rightarrow> \<forall>t. 5 \<le> t \<longrightarrow> \<not> produced assoc_ops example_slots t
       | Some t \<Rightarrow> 5 \<le> t \<and> produced assoc_ops example_slots t \<and>
         (\<forall>u. 5 \<le> u \<and> produced assoc_ops example_slots u \<longrightarrow> t \<le> u))) \<and>
    (\<exists>r. get_prev_global_slot_produced assoc_ops 5 example_slots = Inr r \<and>
      (if (\<exists>t. t \<le> 5 \<and> produced assoc_ops example_slots t)
       then r \<le> 5 \<and> produced assoc_ops example_slots r \<and>
         (\<forall>u. u \<le> 5 \<and> produced assoc_ops example_slots u \<longrightarrow> u \<le> r) else r = 0))"
  by (rule produced_slots[OF assoc.key_value_db_axioms]) (simp add: slots_wf_def example_slots_def)

end
