(* ===== verification/Tallies.thy ===== *)
theory Tallies
  imports Counted_Lists "HOL-Library.Multiset"
begin

text \<open>
  Counters kept in a column family: under the key of every \<open>x\<close> the number of times \<open>x\<close> was counted, as a
  32-bit number.  The family then holds a multiset; counting and dropping an element change one entry.
\<close>

section \<open>Stored numbers\<close>

lemma be_digits_value: "be_digits (length b) (be_value b) = b"
proof (induction b rule: rev_induct)
  case (snoc c b)
  have "(of_char c :: nat) < 256" by simp
  then have "(be_value b * 256 + of_char c) div 256 = be_value b" "(be_value b * 256 + of_char c) mod 256 = of_char c"
    by simp_all
  then show ?case using snoc by (simp add: be_value_snoc)
qed simp

lemma be_value_less: "be_value b < 256 ^ length b"
proof (induction b rule: rev_induct)
  case (snoc c b)
  have "(of_char c :: nat) < 256" by simp
  then have "be_value b * 256 + of_char c < p * 256" if "be_value b < p" for p using that by linarith
  from this[OF snoc] show ?case by (simp add: be_value_snoc mult.commute)
qed (simp add: be_value_def)

lemma raw_u32_eq [simp]: "raw_u32 m = raw_u32 n \<longleftrightarrow> m = n"
  by (simp add: raw_u32_def)

lemma stored_u32_iff: "stored_u32 v = Inr n \<longleftrightarrow> v = raw_u32 n"
proof
  assume *: "stored_u32 v = Inr n"
  then obtain b where b: "v = Raw b" "length b = U32_LEN" "n = word_of_be b"
    by (auto simp: stored_u32_def from_be_bytes_def split: stored.splits if_splits)
  have "be_value b < 2 ^ 32" using be_value_less[of b] b(2) by (simp add: len_defs)
  then have "unat n = be_value b" by (simp add: b(3) word_of_be_def unat_word_of_nat_u32)
  then show "v = raw_u32 n"
    using be_digits_value[of b] by (simp add: b(1,2) raw_u32_def to_be_bytes_def len_defs)
qed simp

lemma get_count_iff:
  "get_count D cf k d = Inr n \<longleftrightarrow> (case db_get D d cf k of None \<Rightarrow> n = 0 | Some v \<Rightarrow> v = raw_u32 n)"
  by (auto simp: get_count_def get_u32_def run_simps stored_u32_iff split: option.splits)

section \<open>What a step changes\<close>

text \<open>The step from \<open>d\<close> to \<open>e\<close> writes to the families \<open>cfs\<close> only.\<close>

definition changes :: "('d, 'j) db_ops \<Rightarrow> column_family list \<Rightarrow> 'd \<Rightarrow> 'd \<Rightarrow> bool" where
  "changes D cfs d e \<longleftrightarrow> (\<forall>cf k. cf \<notin> set cfs \<longrightarrow> db_get D e cf k = db_get D d cf k)"

lemma changes_refl [simp]: "changes D cfs d d"
  by (simp add: changes_def)

lemma changes_trans: "changes D cfs d e \<Longrightarrow> changes D cfs e f \<Longrightarrow> changes D cfs d f"
  by (simp add: changes_def)

lemma changes_mono: "changes D cfs d e \<Longrightarrow> set cfs \<subseteq> set cfs' \<Longrightarrow> changes D cfs' d e"
  by (auto simp: changes_def)

lemma changes_get: "changes D cfs d e \<Longrightarrow> cf \<notin> set cfs \<Longrightarrow> db_get D e cf k = db_get D d cf k"
  by (simp add: changes_def)

lemma changes_reads:
  assumes "changes D cfs d e" "cf \<notin> set cfs"
  shows "get_u32 D cf k e = get_u32 D cf k d" "get_count D cf k e = get_count D cf k d"
    "get_hash D cf k e = get_hash D cf k d" "get_pk D cf k e = get_pk D cf k d"
    "get_json D C cf k e = get_json D C cf k d" "expect_json D C cf k e = expect_json D C cf k d"
    "holds_list D cf k cf f e vs = holds_list D cf k cf f d vs"
  using assms by (simp_all add: changes_def get_u32_def get_count_def get_hash_def get_pk_def get_json_def
      expect_json_def holds_list_def)

context key_value_db
begin

lemma changes_put: "changes D cfs d e \<Longrightarrow> cf \<in> set cfs \<Longrightarrow> changes D cfs d (db_put D cf k v e)"
  by (auto simp: changes_def get_put)

lemma changes_delete: "changes D cfs d e \<Longrightarrow> cf \<in> set cfs \<Longrightarrow> changes D cfs d (db_delete D cf k e)"
  by (auto simp: changes_def get_delete)

end

section \<open>Counters\<close>

definition holds_tally ::
    "('d, 'j) db_ops \<Rightarrow> column_family \<Rightarrow> ('x \<Rightarrow> bytes) \<Rightarrow> 'd \<Rightarrow> 'x multiset \<Rightarrow> bool" where
  "holds_tally D cf key d M \<longleftrightarrow> (\<forall>x. get_count D cf (key x) d = Inr (word_of_nat (count M x)))"

lemma holds_tally_count: "holds_tally D cf key d M \<Longrightarrow> get_count D cf (key x) d = Inr (word_of_nat (count M x))"
  by (simp add: holds_tally_def)

lemma holds_tally_cong:
  assumes "holds_tally D cf key d M" "\<And>x. db_get D e cf (key x) = db_get D d cf (key x)"
  shows "holds_tally D cf key e M"
  using assms by (simp add: holds_tally_def get_count_def get_u32_def)

lemma word_of_nat_u32_nonzero: "x \<in># M \<Longrightarrow> size M < 2 ^ 32 \<Longrightarrow> (word_of_nat (count M x) :: u32) \<noteq> 0"
  using word_of_nat_u32_eq[of "count M x" 0] count_le_size[of M x] by simp

locale tally = key_value_db D
  for D :: "('d, 'j) db_ops" +
  fixes cf :: column_family and key :: "'x \<Rightarrow> bytes"
  assumes key_inj: "inj key"
begin

lemma add_one:
  assumes "holds_tally D cf key d M"
  shows "holds_tally D cf key (db_put D cf (key x) (raw_u32 (word_of_nat (count M x) + 1)) d) (add_mset x M)"
  using assms by (auto simp: holds_tally_def inj_eq[OF key_inj] add.commute)

lemma drop_one:
  assumes "holds_tally D cf key d M" "x \<in># M"
  shows "holds_tally D cf key (db_put D cf (key x) (raw_u32 (word_of_nat (count M x) - 1)) d) (M - {#x#})"
  using assms by (auto simp: holds_tally_def inj_eq[OF key_inj] of_nat_diff Suc_le_eq)

end

end
