(* ===== verification/Block_Counts.thy ===== *)
theory Block_Counts
  imports Block_Lists Tallies Coinbases
begin

text \<open>
  Block production counts (\<open>store/block_store_impl.rs\<close>): blocks by producer and epoch, of all, of the
  supercharged and of the canonical blocks, and the index that sorts producers by canonical count.
\<close>

section \<open>Reading counts\<close>

definition pk_epoch_count ::
    "('d, 'j) db_ops \<Rightarrow> column_family \<Rightarrow> public_key \<Rightarrow> u32 option \<Rightarrow> 'd \<Rightarrow> u32 run" where
  "pk_epoch_count D cf pk epoch d =
     bind_ok (epoch_or_current D epoch d) (\<lambda>epoch.
     bind_ok (u32_prefix_key epoch pk) (\<lambda>k. get_count D cf k d))"

definition epoch_only_count :: "('d, 'j) db_ops \<Rightarrow> column_family \<Rightarrow> u32 option \<Rightarrow> 'd \<Rightarrow> u32 run" where
  "epoch_only_count D cf epoch d =
     bind_ok (epoch_or_current D epoch d) (\<lambda>epoch. get_count D cf (to_be_bytes epoch) d)"

definition get_block_production_pk_epoch_count ::
    "('d, 'j) db_ops \<Rightarrow> public_key \<Rightarrow> u32 option \<Rightarrow> 'd \<Rightarrow> u32 run" where
  "get_block_production_pk_epoch_count D = pk_epoch_count D block_production_pk_epoch_cf"

definition get_block_production_pk_canonical_epoch_count ::
    "('d, 'j) db_ops \<Rightarrow> public_key \<Rightarrow> u32 option \<Rightarrow> 'd \<Rightarrow> u32 run" where
  "get_block_production_pk_canonical_epoch_count D = pk_epoch_count D block_production_pk_canonical_epoch_cf"

definition get_block_production_pk_supercharged_epoch_count ::
    "('d, 'j) db_ops \<Rightarrow> public_key \<Rightarrow> u32 option \<Rightarrow> 'd \<Rightarrow> u32 run" where
  "get_block_production_pk_supercharged_epoch_count D =
     pk_epoch_count D block_production_pk_supercharged_epoch_cf"

definition get_block_production_pk_total_count :: "('d, 'j) db_ops \<Rightarrow> public_key \<Rightarrow> 'd \<Rightarrow> u32 run" where
  "get_block_production_pk_total_count D pk d = get_count D block_production_pk_total_cf pk d"

definition get_block_production_pk_canonical_total_count ::
    "('d, 'j) db_ops \<Rightarrow> public_key \<Rightarrow> 'd \<Rightarrow> u32 run" where
  "get_block_production_pk_canonical_total_count D pk d =
     get_count D block_production_pk_canonical_total_cf pk d"

definition get_block_production_pk_supercharged_total_count ::
    "('d, 'j) db_ops \<Rightarrow> public_key \<Rightarrow> 'd \<Rightarrow> u32 run" where
  "get_block_production_pk_supercharged_total_count D pk d =
     get_count D block_production_pk_supercharged_total_cf pk d"

definition get_block_production_epoch_count :: "('d, 'j) db_ops \<Rightarrow> u32 option \<Rightarrow> 'd \<Rightarrow> u32 run" where
  "get_block_production_epoch_count D = epoch_only_count D block_production_epoch_cf"

definition get_block_production_canonical_epoch_count :: "('d, 'j) db_ops \<Rightarrow> u32 option \<Rightarrow> 'd \<Rightarrow> u32 run" where
  "get_block_production_canonical_epoch_count D = epoch_only_count D block_production_canonical_epoch_cf"

definition get_block_production_supercharged_epoch_count ::
    "('d, 'j) db_ops \<Rightarrow> u32 option \<Rightarrow> 'd \<Rightarrow> u32 run" where
  "get_block_production_supercharged_epoch_count D = epoch_only_count D block_production_supercharged_epoch_cf"

definition get_block_production_total_count :: "('d, 'j) db_ops \<Rightarrow> 'd \<Rightarrow> u32 run" where
  "get_block_production_total_count D d = get_count D DEFAULT_CF TOTAL_NUM_BLOCKS_KEY d"

definition get_block_production_canonical_total_count :: "('d, 'j) db_ops \<Rightarrow> 'd \<Rightarrow> u32 run" where
  "get_block_production_canonical_total_count D d =
     map_ok (\<lambda>h. unwrap_or h 0) (get_best_block_height D d)"

definition get_block_production_supercharged_total_count :: "('d, 'j) db_ops \<Rightarrow> 'd \<Rightarrow> u32 run" where
  "get_block_production_supercharged_total_count D d =
     get_count D DEFAULT_CF TOTAL_NUM_BLOCKS_SUPERCHARGED_KEY d"

section \<open>Counting produced blocks\<close>

text \<open>Read a count, append the incremented count to the batch or write it.\<close>

definition count_batch ::
    "u32 run \<Rightarrow> column_family \<Rightarrow> bytes run \<Rightarrow> 'j batch \<Rightarrow> 'j batch run" where
  "count_batch num cf key batch =
     bind_ok num (\<lambda>acc. map_ok (\<lambda>k. batch_put cf k (raw_u32 (acc + 1)) batch) key)"

definition count_put ::
    "('d, 'j) db_ops \<Rightarrow> u32 run \<Rightarrow> column_family \<Rightarrow> bytes run \<Rightarrow> 'd \<Rightarrow> 'd run" where
  "count_put D num cf key d =
     bind_ok num (\<lambda>acc. map_ok (\<lambda>k. db_put D cf k (raw_u32 (acc + 1)) d) key)"

definition increment_block_production_count_batch ::
    "('d, 'j) db_ops \<Rightarrow> (string \<Rightarrow> amount option) \<Rightarrow> precomputed_block \<Rightarrow> 'd \<Rightarrow> 'j batch \<Rightarrow> 'j batch run" where
  "increment_block_production_count_batch D parse_amount block d batch =
     (let creator = block_creator block; epoch = epoch_count block in
      bind_ok (count_batch (get_block_production_pk_epoch_count D creator (Some epoch) d)
        block_production_pk_epoch_cf (u32_prefix_key epoch creator) batch) (\<lambda>batch.
      bind_ok (count_batch (get_block_production_pk_total_count D creator d)
        block_production_pk_total_cf (Inr creator) batch) (\<lambda>batch.
      bind_ok (count_batch (get_block_production_epoch_count D (Some epoch) d)
        block_production_epoch_cf (Inr (to_be_bytes epoch)) batch) (\<lambda>batch.
      bind_ok (count_batch (get_block_production_total_count D d)
        DEFAULT_CF (Inr TOTAL_NUM_BLOCKS_KEY) batch) (\<lambda>batch.
      bind_ok (coinbase_from_precomputed parse_amount block) (\<lambda>cb.
      if cb_supercharge cb
      then bind_ok (count_batch (get_block_production_pk_supercharged_epoch_count D creator (Some epoch) d)
          block_production_pk_supercharged_epoch_cf (u32_prefix_key epoch creator) batch) (\<lambda>batch.
        bind_ok (count_batch (get_block_production_pk_supercharged_total_count D creator d)
          block_production_pk_supercharged_total_cf (Inr creator) batch) (\<lambda>batch.
        bind_ok (count_batch (get_block_production_supercharged_epoch_count D (Some epoch) d)
          block_production_supercharged_epoch_cf (Inr (to_be_bytes epoch)) batch) (\<lambda>batch.
        count_batch (get_block_production_supercharged_total_count D d)
          DEFAULT_CF (Inr TOTAL_NUM_BLOCKS_SUPERCHARGED_KEY) batch)))
      else Inr batch))))))"

definition increment_block_production_count ::
    "('d, 'j) db_ops \<Rightarrow> public_key \<Rightarrow> bool \<Rightarrow> 'd \<Rightarrow> 'd run" where
  "increment_block_production_count D creator supercharged d =
     bind_ok (count_put D (get_block_production_pk_epoch_count D creator (Some 0) d)
       block_production_pk_epoch_cf (u32_prefix_key 0 creator) d) (\<lambda>d.
     bind_ok (count_put D (get_block_production_pk_total_count D creator d)
       block_production_pk_total_cf (Inr creator) d) (\<lambda>d.
     bind_ok (count_put D (get_block_production_epoch_count D (Some 0) d)
       block_production_epoch_cf (Inr (to_be_bytes (0 :: u32))) d) (\<lambda>d.
     bind_ok (count_put D (get_block_production_total_count D d)
       DEFAULT_CF (Inr TOTAL_NUM_BLOCKS_KEY) d) (\<lambda>d.
     if supercharged
     then bind_ok (count_put D (get_block_production_pk_supercharged_epoch_count D creator (Some 0) d)
         block_production_pk_supercharged_epoch_cf (u32_prefix_key 0 creator) d) (\<lambda>d.
       bind_ok (count_put D (get_block_production_pk_supercharged_total_count D creator d)
         block_production_pk_supercharged_total_cf (Inr creator) d) (\<lambda>d.
       bind_ok (count_put D (get_block_production_supercharged_epoch_count D (Some 0) d)
         block_production_supercharged_epoch_cf (Inr (to_be_bytes (0 :: u32))) d) (\<lambda>d.
       count_put D (get_block_production_supercharged_total_count D d)
         DEFAULT_CF (Inr TOTAL_NUM_BLOCKS_SUPERCHARGED_KEY) d)))
     else Inr d))))"

section \<open>Counting canonical blocks\<close>

definition increment_block_canonical_production_count_sort ::
    "('d, 'j) db_ops \<Rightarrow> u32 \<Rightarrow> u32 \<Rightarrow> public_key \<Rightarrow> 'd \<Rightarrow> 'd run" where
  "increment_block_canonical_production_count_sort D epoch num pk d =
     bind_ok (epoch_block_num_key epoch num pk) (\<lambda>k.
     let d = db_delete D block_production_pk_canonical_epoch_sort_cf k d in
     map_ok (\<lambda>k. db_put D block_production_pk_canonical_epoch_sort_cf k (Raw []) d)
       (epoch_block_num_key epoch (num + 1) pk))"

definition increment_block_canonical_production_count ::
    "('d, 'j) db_ops \<Rightarrow> state_hash \<Rightarrow> 'd \<Rightarrow> 'd run" where
  "increment_block_canonical_production_count D state_hash d =
     bind_ok (unwrap (get_block_creator D state_hash d)) (\<lambda>creator.
     bind_ok (bind_ok (get_block_epoch D state_hash d) unwrap) (\<lambda>epoch.
     bind_ok (get_block_production_pk_canonical_epoch_count D creator (Some epoch) d) (\<lambda>acc.
     bind_ok (u32_prefix_key epoch creator) (\<lambda>k.
     let d = db_put D block_production_pk_canonical_epoch_cf k (raw_u32 (acc + 1)) d in
     bind_ok (increment_block_canonical_production_count_sort D epoch acc creator d) (\<lambda>d.
     bind_ok (count_put D (get_block_production_pk_canonical_total_count D creator d)
       block_production_pk_canonical_total_cf (Inr creator) d) (\<lambda>d.
     count_put D (get_block_production_canonical_epoch_count D (Some epoch) d)
       block_production_canonical_epoch_cf (Inr (to_be_bytes epoch)) d))))))"

definition decrement_block_canonical_production_count_sort ::
    "('d, 'j) db_ops \<Rightarrow> u32 \<Rightarrow> u32 \<Rightarrow> public_key \<Rightarrow> 'd \<Rightarrow> 'd run" where
  "decrement_block_canonical_production_count_sort D epoch num pk d =
     (if num = 0 then Inl AssertionFailed
      else bind_ok (epoch_block_num_key epoch num pk) (\<lambda>k.
        let d = db_delete D block_production_pk_canonical_epoch_sort_cf k d in
        map_ok (\<lambda>k. db_put D block_production_pk_canonical_epoch_sort_cf k (Raw []) d)
          (epoch_block_num_key epoch (num - 1) pk)))"

text \<open>\<open>assert!(acc > 0)\<close>, then the decremented count is written.\<close>

definition count_drop ::
    "('d, 'j) db_ops \<Rightarrow> u32 run \<Rightarrow> column_family \<Rightarrow> bytes run \<Rightarrow> 'd \<Rightarrow> 'd run" where
  "count_drop D num cf key d =
     bind_ok num (\<lambda>acc. if acc = 0 then Inl AssertionFailed
       else map_ok (\<lambda>k. db_put D cf k (raw_u32 (acc - 1)) d) key)"

definition decrement_block_canonical_production_count ::
    "('d, 'j) db_ops \<Rightarrow> state_hash \<Rightarrow> 'd \<Rightarrow> 'd run" where
  "decrement_block_canonical_production_count D state_hash d =
     bind_ok (unwrap (get_block_creator D state_hash d)) (\<lambda>creator.
     bind_ok (bind_ok (get_block_epoch D state_hash d) unwrap) (\<lambda>epoch.
     bind_ok (get_block_production_pk_canonical_epoch_count D creator (Some epoch) d) (\<lambda>acc.
     if acc = 0 then Inl AssertionFailed
     else bind_ok (u32_prefix_key epoch creator) (\<lambda>k.
       let d = db_put D block_production_pk_canonical_epoch_cf k (raw_u32 (acc - 1)) d in
       bind_ok (decrement_block_canonical_production_count_sort D epoch acc creator d) (\<lambda>d.
       bind_ok (count_drop D (get_block_production_pk_canonical_total_count D creator d)
         block_production_pk_canonical_total_cf (Inr creator) d) (\<lambda>d.
       count_drop D (get_block_production_canonical_epoch_count D (Some epoch) d)
         block_production_canonical_epoch_cf (Inr (to_be_bytes epoch)) d))))))"

text \<open>The entries of an epoch by count; the start is the least or greatest possible entry of the epoch.\<close>

definition canonical_epoch_blocks_produced_iterator ::
    "('d, 'j) db_ops \<Rightarrow> u32 option \<Rightarrow> bool \<Rightarrow> 'd \<Rightarrow> (bytes \<times> 'j stored) list run" where
  "canonical_epoch_blocks_produced_iterator D epoch forward d =
     map_ok (\<lambda>epoch. db_iterator D d block_production_pk_canonical_epoch_sort_cf
       (if forward then IterForward (to_be_bytes epoch @ to_be_bytes (0 :: u32) @ public_key_lower_bound)
        else IterReverse (to_be_bytes epoch @ to_be_bytes (- 1 :: u32) @ public_key_upper_bound)))
       (epoch_or_current D epoch d)"

section \<open>Canonical counts as multisets\<close>

text \<open>
  The creator and the epoch of a block.  The canonical counts hold a multiset \<open>H\<close> of blocks when every
  counter is the number of its blocks and the sort index lists every producer of an epoch once, under
  the current count.
\<close>

definition known :: "('d, 'j) db_ops \<Rightarrow> (state_hash \<Rightarrow> public_key) \<Rightarrow> (state_hash \<Rightarrow> u32) \<Rightarrow> 'd \<Rightarrow> state_hash \<Rightarrow> bool" where
  "known D cr ep d h \<longleftrightarrow>
     get_block_creator D h d = Some (cr h) \<and> get_block_epoch D h d = Inr (Some (ep h)) \<and> length (cr h) = PUBLIC_KEY_LEN"

definition pk_epoch_key :: "u32 \<times> public_key \<Rightarrow> bytes" where
  "pk_epoch_key x = to_be_bytes (fst x) @ snd x"

definition count_sort_key :: "u32 \<Rightarrow> u32 \<Rightarrow> public_key \<Rightarrow> bytes" where
  "count_sort_key e n pk = to_be_bytes e @ to_be_bytes n @ pk"

definition counts_sorted :: "('d, 'j) db_ops \<Rightarrow> 'd \<Rightarrow> bool" where
  "counts_sorted D d \<longleftrightarrow> (\<forall>e n pk.
     db_get D d block_production_pk_canonical_epoch_sort_cf (count_sort_key e n pk) \<noteq> None \<longleftrightarrow>
     db_get D d block_production_pk_canonical_epoch_cf (pk_epoch_key (e, pk)) = Some (raw_u32 n))"

definition canonical_counts :: "('d, 'j) db_ops \<Rightarrow> (state_hash \<Rightarrow> public_key) \<Rightarrow> (state_hash \<Rightarrow> u32) \<Rightarrow> 'd \<Rightarrow>
    state_hash multiset \<Rightarrow> bool" where
  "canonical_counts D cr ep d H \<longleftrightarrow>
     holds_tally D block_production_pk_canonical_epoch_cf pk_epoch_key d (image_mset (\<lambda>h. (ep h, cr h)) H) \<and>
     holds_tally D block_production_pk_canonical_total_cf (\<lambda>pk. pk) d (image_mset cr H) \<and>
     holds_tally D block_production_canonical_epoch_cf to_be_bytes d (image_mset ep H) \<and>
     counts_sorted D d"

text \<open>The families the canonical counts live in.\<close>

definition canonical_count_cfs :: "column_family list" where
  "canonical_count_cfs = [block_production_pk_canonical_epoch_cf, block_production_pk_canonical_epoch_sort_cf,
     block_production_pk_canonical_total_cf, block_production_canonical_epoch_cf]"

lemmas count_cf_defs = block_production_pk_canonical_epoch_cf_def block_production_pk_canonical_epoch_sort_cf_def
  block_production_pk_canonical_total_cf_def block_production_canonical_epoch_cf_def

lemma canonical_count_cfs_distinct: "distinct canonical_count_cfs"
  by (simp add: canonical_count_cfs_def count_cf_defs)

text \<open>The four entries of a producer rewritten.\<close>

definition recount :: "('d, 'j) db_ops \<Rightarrow> u32 \<Rightarrow> public_key \<Rightarrow> u32 \<Rightarrow> u32 \<Rightarrow> u32 \<Rightarrow> u32 \<Rightarrow> 'd \<Rightarrow> 'd" where
  "recount D e pk a a' t' s' d =
     db_put D block_production_canonical_epoch_cf (to_be_bytes e) (raw_u32 s')
       (db_put D block_production_pk_canonical_total_cf pk (raw_u32 t')
       (db_put D block_production_pk_canonical_epoch_sort_cf (count_sort_key e a' pk) (Raw [])
       (db_delete D block_production_pk_canonical_epoch_sort_cf (count_sort_key e a pk)
       (db_put D block_production_pk_canonical_epoch_cf (pk_epoch_key (e, pk)) (raw_u32 a') d))))"

lemma pk_epoch_key_inj: "inj pk_epoch_key"
  by (auto simp: inj_def pk_epoch_key_def)

lemma count_sort_key_eq: "count_sort_key e n pk = count_sort_key e' n' pk' \<longleftrightarrow> e = e' \<and> n = n' \<and> pk = pk'"
  by (auto simp: count_sort_key_def)

lemma to_be_bytes_u32_inj: "inj (to_be_bytes :: u32 \<Rightarrow> bytes)"
  by (auto simp: inj_def)

lemma epoch_keys:
  "length pk = PUBLIC_KEY_LEN \<Longrightarrow> u32_prefix_key e pk = Inr (pk_epoch_key (e, pk))"
  "length pk = PUBLIC_KEY_LEN \<Longrightarrow> epoch_block_num_key e n pk = Inr (count_sort_key e n pk)"
  by (simp_all add: u32_prefix_key_def epoch_block_num_key_def pk_epoch_key_def count_sort_key_def len_defs)

sublocale key_value_db \<subseteq> pk_epochs: tally D block_production_pk_canonical_epoch_cf pk_epoch_key
  by unfold_locales (rule pk_epoch_key_inj)

sublocale key_value_db \<subseteq> pks: tally D block_production_pk_canonical_total_cf "\<lambda>pk. pk"
  by unfold_locales simp

sublocale key_value_db \<subseteq> epochs: tally D block_production_canonical_epoch_cf "to_be_bytes :: u32 \<Rightarrow> bytes"
  by unfold_locales (rule to_be_bytes_u32_inj)

context key_value_db
begin

lemma recount_changes: "changes D canonical_count_cfs d (recount D e pk a a' t' s' d)"
  unfolding recount_def by (intro changes_put changes_delete) (simp_all add: canonical_count_cfs_def)

lemma recount_gets:
  "db_get D (recount D e pk a a' t' s' d) block_production_pk_canonical_epoch_cf k =
     (if k = pk_epoch_key (e, pk) then Some (raw_u32 a') else db_get D d block_production_pk_canonical_epoch_cf k)"
  "db_get D (recount D e pk a a' t' s' d) block_production_pk_canonical_total_cf k =
     (if k = pk then Some (raw_u32 t') else db_get D d block_production_pk_canonical_total_cf k)"
  "db_get D (recount D e pk a a' t' s' d) block_production_canonical_epoch_cf k =
     (if k = to_be_bytes e then Some (raw_u32 s') else db_get D d block_production_canonical_epoch_cf k)"
  "db_get D (recount D e pk a a' t' s' d) block_production_pk_canonical_epoch_sort_cf k =
     (if k = count_sort_key e a' pk then Some (Raw []) else if k = count_sort_key e a pk then None
      else db_get D d block_production_pk_canonical_epoch_sort_cf k)"
  by (simp_all add: recount_def get_put get_delete count_cf_defs)

lemma recount_sorted:
  assumes "counts_sorted D d" "get_count D block_production_pk_canonical_epoch_cf (pk_epoch_key (e, pk)) d = Inr a" "a \<noteq> a'"
  shows "counts_sorted D (recount D e pk a a' t' s' d)"
proof -
  have now: "db_get D d block_production_pk_canonical_epoch_cf (pk_epoch_key (e, pk)) \<in> {None, Some (raw_u32 a)}"
    using assms(2) by (auto simp: get_count_iff split: option.splits)
  show ?thesis unfolding counts_sorted_def
  proof (intro allI)
    fix e' n pk'
    have old: "db_get D d block_production_pk_canonical_epoch_sort_cf (count_sort_key e' n pk') \<noteq> None \<longleftrightarrow>
      db_get D d block_production_pk_canonical_epoch_cf (pk_epoch_key (e', pk')) = Some (raw_u32 n)"
      using assms(1) by (simp add: counts_sorted_def)
    show "db_get D (recount D e pk a a' t' s' d) block_production_pk_canonical_epoch_sort_cf (count_sort_key e' n pk') \<noteq> None \<longleftrightarrow>
      db_get D (recount D e pk a a' t' s' d) block_production_pk_canonical_epoch_cf (pk_epoch_key (e', pk')) = Some (raw_u32 n)"
      using old now assms(3) by (auto simp: recount_gets count_sort_key_eq inj_eq[OF pk_epoch_key_inj])
  qed
qed

lemma recount_add:
  fixes h :: state_hash
  assumes "canonical_counts D cr ep d H"
  defines "a \<equiv> word_of_nat (count (image_mset (\<lambda>h. (ep h, cr h)) H) (ep h, cr h))"
    and "t \<equiv> word_of_nat (count (image_mset cr H) (cr h))" and "s \<equiv> word_of_nat (count (image_mset ep H) (ep h))"
  shows "canonical_counts D cr ep (recount D (ep h) (cr h) a (a + 1) (t + 1) (s + 1) d) (add_mset h H)"
proof -
  have H: "holds_tally D block_production_pk_canonical_epoch_cf pk_epoch_key d (image_mset (\<lambda>h. (ep h, cr h)) H)"
    "holds_tally D block_production_pk_canonical_total_cf (\<lambda>pk. pk) d (image_mset cr H)"
    "holds_tally D block_production_canonical_epoch_cf to_be_bytes d (image_mset ep H)" "counts_sorted D d"
    using assms(1) by (simp_all add: canonical_counts_def)
  show ?thesis unfolding canonical_counts_def image_mset_add_mset
  proof (intro conjI)
    show "counts_sorted D (recount D (ep h) (cr h) a (a + 1) (t + 1) (s + 1) d)"
      using H(1,4) by (intro recount_sorted) (simp_all add: a_def holds_tally_count)
  qed (rule holds_tally_cong, rule pk_epochs.add_one[OF H(1)] pks.add_one[OF H(2)] epochs.add_one[OF H(3)],
      simp add: recount_gets get_put a_def t_def s_def)+
qed

lemma recount_drop:
  fixes h :: state_hash
  assumes "canonical_counts D cr ep d H" "h \<in># H"
  defines "a \<equiv> word_of_nat (count (image_mset (\<lambda>h. (ep h, cr h)) H) (ep h, cr h))"
    and "t \<equiv> word_of_nat (count (image_mset cr H) (cr h))" and "s \<equiv> word_of_nat (count (image_mset ep H) (ep h))"
  shows "canonical_counts D cr ep (recount D (ep h) (cr h) a (a - 1) (t - 1) (s - 1) d) (H - {#h#})"
proof -
  have H: "holds_tally D block_production_pk_canonical_epoch_cf pk_epoch_key d (image_mset (\<lambda>h. (ep h, cr h)) H)"
    "holds_tally D block_production_pk_canonical_total_cf (\<lambda>pk. pk) d (image_mset cr H)"
    "holds_tally D block_production_canonical_epoch_cf to_be_bytes d (image_mset ep H)" "counts_sorted D d"
    using assms(1) by (simp_all add: canonical_counts_def)
  have img: "image_mset f (H - {#h#}) = image_mset f H - {#f h#}" "f h \<in># image_mset f H" for f :: "state_hash \<Rightarrow> 'b"
    using assms(2) by (simp_all add: image_mset_Diff)
  show ?thesis unfolding canonical_counts_def img(1)
  proof (intro conjI)
    show "counts_sorted D (recount D (ep h) (cr h) a (a - 1) (t - 1) (s - 1) d)"
      using H(1,4) by (intro recount_sorted) (simp_all add: a_def holds_tally_count)
  qed (rule holds_tally_cong, rule pk_epochs.drop_one[OF H(1) img(2)] pks.drop_one[OF H(2) img(2)]
      epochs.drop_one[OF H(3) img(2)], simp add: recount_gets get_put a_def t_def s_def)+
qed

lemma current_epoch_changes:
  assumes "changes D cfs d e" "DEFAULT_CF \<notin> set cfs" "block_epoch_cf \<notin> set cfs"
  shows "get_current_epoch D e = get_current_epoch D d"
  using assms by (simp add: get_current_epoch_def get_best_block_hash_def get_block_epoch_def changes_reads cong: option.case_cong)

lemma current_epoch_put [simp]:
  "cf \<noteq> DEFAULT_CF \<Longrightarrow> cf \<noteq> block_epoch_cf \<Longrightarrow> get_current_epoch D (db_put D cf k v d) = get_current_epoch D d"
  "cf \<noteq> DEFAULT_CF \<Longrightarrow> cf \<noteq> block_epoch_cf \<Longrightarrow> get_current_epoch D (db_delete D cf k d) = get_current_epoch D d"
  by (rule current_epoch_changes[where cfs = "[cf]"]; simp add: changes_put changes_delete)+

lemma count_cfs_not:
  "cf \<in> set canonical_count_cfs \<Longrightarrow> cf \<noteq> DEFAULT_CF"
  "cf \<in> set canonical_count_cfs \<Longrightarrow> cf \<noteq> block_epoch_cf"
  "cf \<in> set canonical_count_cfs \<Longrightarrow> cf \<noteq> block_creator_cf"
  by (auto simp: canonical_count_cfs_def count_cf_defs DEFAULT_CF_def block_epoch_cf_def block_creator_cf_def)

lemma increment_canonical:
  fixes h :: state_hash
  assumes "known D cr ep d h" "canonical_counts D cr ep d H" "get_current_epoch D d = Inr c"
  defines "a \<equiv> word_of_nat (count (image_mset (\<lambda>h. (ep h, cr h)) H) (ep h, cr h))"
    and "t \<equiv> word_of_nat (count (image_mset cr H) (cr h))" and "s \<equiv> word_of_nat (count (image_mset ep H) (ep h))"
  shows "increment_block_canonical_production_count D h d =
    Inr (recount D (ep h) (cr h) a (a + 1) (t + 1) (s + 1) d)"
proof -
  have "get_count D block_production_pk_canonical_epoch_cf (pk_epoch_key (ep h, cr h)) d = Inr a"
    "get_count D block_production_pk_canonical_total_cf (cr h) d = Inr t"
    "get_count D block_production_canonical_epoch_cf (to_be_bytes (ep h)) d = Inr s"
    using assms(2) by (auto simp: canonical_counts_def a_def t_def s_def dest: holds_tally_count)
  moreover have "get_block_creator D h d = Some (cr h)" "get_block_epoch D h d = Inr (Some (ep h))"
    "length (cr h) = PUBLIC_KEY_LEN"
    using assms(1) by (simp_all add: known_def)
  ultimately show ?thesis using assms(3)
    by (simp add: increment_block_canonical_production_count_def recount_def
        get_block_production_pk_canonical_epoch_count_def pk_epoch_count_def epoch_or_current_def epoch_keys Let_def
        increment_block_canonical_production_count_sort_def count_put_def get_block_production_pk_canonical_total_count_def
        get_block_production_canonical_epoch_count_def epoch_only_count_def count_cf_defs DEFAULT_CF_def block_epoch_cf_def)
qed

lemma decrement_canonical:
  fixes h :: state_hash
  assumes "known D cr ep d h" "canonical_counts D cr ep d H" "get_current_epoch D d = Inr c"
    "h \<in># H" "size H < 2 ^ 32"
  defines "a \<equiv> word_of_nat (count (image_mset (\<lambda>h. (ep h, cr h)) H) (ep h, cr h))"
    and "t \<equiv> word_of_nat (count (image_mset cr H) (cr h))" and "s \<equiv> word_of_nat (count (image_mset ep H) (ep h))"
  shows "decrement_block_canonical_production_count D h d =
    Inr (recount D (ep h) (cr h) a (a - 1) (t - 1) (s - 1) d)"
proof -
  have "get_count D block_production_pk_canonical_epoch_cf (pk_epoch_key (ep h, cr h)) d = Inr a"
    "get_count D block_production_pk_canonical_total_cf (cr h) d = Inr t"
    "get_count D block_production_canonical_epoch_cf (to_be_bytes (ep h)) d = Inr s"
    using assms(2) by (auto simp: canonical_counts_def a_def t_def s_def dest: holds_tally_count)
  moreover have "get_block_creator D h d = Some (cr h)" "get_block_epoch D h d = Inr (Some (ep h))"
    "length (cr h) = PUBLIC_KEY_LEN"
    using assms(1) by (simp_all add: known_def)
  moreover have "a \<noteq> 0" "t \<noteq> 0" "s \<noteq> 0"
    unfolding a_def t_def s_def using assms(4,5) by (intro word_of_nat_u32_nonzero; auto)+
  ultimately show ?thesis using assms(3)
    by (simp add: decrement_block_canonical_production_count_def recount_def
        get_block_production_pk_canonical_epoch_count_def pk_epoch_count_def epoch_or_current_def epoch_keys Let_def
        decrement_block_canonical_production_count_sort_def count_drop_def get_block_production_pk_canonical_total_count_def
        get_block_production_canonical_epoch_count_def epoch_only_count_def count_cf_defs DEFAULT_CF_def block_epoch_cf_def)
qed

end

end
