(* ===== verification/Canonicity_Store.thy ===== *)
theory Canonicity_Store
  imports Block_Counts
begin

text \<open>
  The canonicity index (\<open>canonicity/mod.rs\<close>, \<open>store/canonicity_store_impl.rs\<close>) and the walk between two best
  tips (\<open>reorg_blocks\<close> of \<open>store/block_store_impl.rs\<close>).  A canonical set is held when the index by height
  and by slot lists exactly its blocks and the canonical counts count them.
\<close>

section \<open>Updating canonicity\<close>

definition KNOWN_GENESIS_STATE_HASHES_KEY :: bytes where
  "KNOWN_GENESIS_STATE_HASHES_KEY = ''genesis_state_hashes''"

definition KNOWN_GENESIS_PREV_STATE_HASHES_KEY :: bytes where
  "KNOWN_GENESIS_PREV_STATE_HASHES_KEY = ''genesis_prev_state_hashes''"

record canonicity_diff =
  cd_state_hash :: state_hash
  cd_blockchain_length :: u32
  cd_global_slot :: u32

definition get_known_genesis_state_hashes ::
    "('d, 'j) db_ops \<Rightarrow> (state_hash list, 'j) codec \<Rightarrow> 'd \<Rightarrow> state_hash list run" where
  "get_known_genesis_state_hashes D G d =
     map_ok (\<lambda>hs. unwrap_or hs []) (expect_json D G DEFAULT_CF KNOWN_GENESIS_STATE_HASHES_KEY d)"

definition get_known_genesis_prev_state_hashes ::
    "('d, 'j) db_ops \<Rightarrow> (state_hash list, 'j) codec \<Rightarrow> 'd \<Rightarrow> state_hash list run" where
  "get_known_genesis_prev_state_hashes D G d =
     map_ok (\<lambda>hs. unwrap_or hs []) (expect_json D G DEFAULT_CF KNOWN_GENESIS_PREV_STATE_HASHES_KEY d)"

definition unapply_canonicity :: "('d, 'j) db_ops \<Rightarrow> canonicity_diff \<Rightarrow> 'd \<Rightarrow> 'd run" where
  "unapply_canonicity D u d =
     (let d = db_delete D canonicity_length_cf (to_be_bytes (cd_blockchain_length u)) d;
          d = db_delete D canonicity_slot_cf (to_be_bytes (cd_global_slot u)) d
      in decrement_block_canonical_production_count D (cd_state_hash u) d)"

definition apply_canonicity :: "('d, 'j) db_ops \<Rightarrow> canonicity_diff \<Rightarrow> 'd \<Rightarrow> 'd run" where
  "apply_canonicity D a d =
     (let d = db_put D canonicity_length_cf (to_be_bytes (cd_blockchain_length a)) (Raw (cd_state_hash a)) d;
          d = db_put D canonicity_slot_cf (to_be_bytes (cd_global_slot a)) (Raw (cd_state_hash a)) d
      in increment_block_canonical_production_count D (cd_state_hash a) d)"

definition update_canonicity :: "('d, 'j) db_ops \<Rightarrow> canonicity_diff db_update \<Rightarrow> 'd \<Rightarrow> 'd run" where
  "update_canonicity D updates d =
     bind_ok (fold_ok (unapply_canonicity D) (du_unapply updates) d) (fold_ok (apply_canonicity D) (du_apply updates))"

definition canonicity_diff_from :: "block_update \<Rightarrow> canonicity_diff" where
  "canonicity_diff_from u = \<lparr>cd_state_hash = bu_state_hash u, cd_blockchain_length = bu_blockchain_length u,
     cd_global_slot = bu_global_slot_since_genesis u\<rparr>"

definition update_block_canonicities :: "('d, 'j) db_ops \<Rightarrow> block_update db_update \<Rightarrow> 'd \<Rightarrow> 'd run" where
  "update_block_canonicities D blocks d =
     update_canonicity D \<lparr>du_apply = map canonicity_diff_from (du_apply blocks),
       du_unapply = map canonicity_diff_from (du_unapply blocks)\<rparr> d"

section \<open>The walk between two tips\<close>

text \<open>Bringing the new tip back to the height of the old one; the loop stops early at a genesis block.\<close>

fun bring_back :: "('d, 'j) db_ops \<Rightarrow> 'd \<Rightarrow> u32 \<Rightarrow> nat \<Rightarrow> state_hash \<Rightarrow> block_update list \<Rightarrow>
    (state_hash \<times> block_update list) run" where
  "bring_back D d b_length 0 b ap = Inr (b, ap)"
| "bring_back D d b_length (Suc n) b ap =
     (if b = MAINNET_GENESIS_HASH \<or> b = HARDFORK_GENESIS_HASH then Inr (b, ap)
      else bind_ok (bind_ok (get_block_global_slot D b d) unwrap) (\<lambda>slot.
        bind_ok (unwrap (get_block_parent_hash D b d)) (\<lambda>b_prev.
        bring_back D d b_length n b_prev
          (ap @ [\<lparr>bu_state_hash = b, bu_blockchain_length = b_length, bu_global_slot_since_genesis = slot\<rparr>]))))"

definition block_update_of :: "('d, 'j) db_ops \<Rightarrow> 'd \<Rightarrow> state_hash \<Rightarrow> u32 \<Rightarrow> block_update run" where
  "block_update_of D d h len =
     map_ok (\<lambda>slot. \<lparr>bu_state_hash = h, bu_blockchain_length = len, bu_global_slot_since_genesis = slot\<rparr>)
       (bind_ok (get_block_global_slot D h d) unwrap)"

definition reorg_step :: "('d, 'j) db_ops \<Rightarrow> 'd \<Rightarrow> state_hash \<Rightarrow> state_hash \<Rightarrow> state_hash \<Rightarrow> state_hash \<Rightarrow>
    block_update list \<Rightarrow> block_update list \<Rightarrow>
    (state_hash \<times> state_hash \<times> block_update list \<times> block_update list) run" where
  "reorg_step D d a b a_prev b_prev ap un =
     bind_ok (bind_ok (get_block_height D a d) unwrap) (\<lambda>a_length.
     bind_ok (bind_ok (get_block_height D b d) unwrap) (\<lambda>b_length.
     bind_ok (block_update_of D d b b_length) (\<lambda>b_update.
     bind_ok (block_update_of D d a a_length) (\<lambda>a_update.
     bind_ok (unwrap (get_block_parent_hash D a_prev d)) (\<lambda>a_prev'.
     map_ok (\<lambda>b_prev'. (a_prev', b_prev', ap @ [b_update], un @ [a_update]))
       (unwrap (get_block_parent_hash D b_prev d)))))))"

partial_function (option) reorg_loop :: "('d, 'j) db_ops \<Rightarrow> 'd \<Rightarrow> state_hash \<Rightarrow> state_hash \<Rightarrow> state_hash \<Rightarrow> state_hash \<Rightarrow>
    block_update list \<Rightarrow> block_update list \<Rightarrow> (block_update list \<times> block_update list) run option" where
  "reorg_loop D d a b a_prev b_prev ap un =
     (if a \<noteq> b \<and> (a \<noteq> MAINNET_GENESIS_HASH \<or> a \<noteq> HARDFORK_GENESIS_HASH)
      then case reorg_step D d a b a_prev b_prev ap un of
          Inl e \<Rightarrow> Some (Inl e)
        | Inr (a_prev', b_prev', ap', un') \<Rightarrow> reorg_loop D d a_prev b_prev a_prev' b_prev' ap' un'
      else Some (Inr (ap, un)))"

declare reorg_loop.simps [code]

definition reorg_start :: "('d, 'j) db_ops \<Rightarrow> state_hash \<Rightarrow> state_hash \<Rightarrow> 'd \<Rightarrow>
    (state_hash \<times> state_hash \<times> state_hash \<times> block_update list) run" where
  "reorg_start D a b d =
     bind_ok (bind_ok (get_block_height D b d) unwrap) (\<lambda>b_length.
     bind_ok (bind_ok (get_block_height D a d) unwrap) (\<lambda>a_length.
     bind_ok (bring_back D d b_length (unat (sat_sub b_length a_length)) b []) (\<lambda>(b, ap).
     bind_ok (unwrap (get_block_parent_hash D a d)) (\<lambda>a_prev.
     map_ok (\<lambda>b_prev. (b, a_prev, b_prev, ap)) (unwrap (get_block_parent_hash D b d))))))"

definition reorg_blocks ::
    "('d, 'j) db_ops \<Rightarrow> state_hash \<Rightarrow> state_hash \<Rightarrow> 'd \<Rightarrow> block_update db_update run option" where
  "reorg_blocks D old_best_tip new_best_tip d =
     (case reorg_start D old_best_tip new_best_tip d of
        Inl e \<Rightarrow> Some (Inl e)
      | Inr (b, a_prev, b_prev, ap) \<Rightarrow>
          map_option (map_ok (\<lambda>(ap, un). \<lparr>du_apply = rev ap, du_unapply = un\<rparr>))
            (reorg_loop D d old_best_tip b a_prev b_prev ap []))"

section \<open>Held canonical sets\<close>

text \<open>What the store knows of a block.\<close>

record block_facts =
  f_creator :: "state_hash \<Rightarrow> public_key"
  f_epoch :: "state_hash \<Rightarrow> u32"
  f_height :: "state_hash \<Rightarrow> u32"
  f_slot :: "state_hash \<Rightarrow> u32"

definition indexed :: "('d, 'j) db_ops \<Rightarrow> block_facts \<Rightarrow> 'd \<Rightarrow> state_hash \<Rightarrow> bool" where
  "indexed D F d h \<longleftrightarrow> hash_stored h \<and> known D (f_creator F) (f_epoch F) d h \<and>
     get_block_height D h d = Inr (Some (f_height F h)) \<and> get_block_global_slot D h d = Inr (Some (f_slot F h))"

definition canonical_index :: "('d, 'j) db_ops \<Rightarrow> block_facts \<Rightarrow> 'd \<Rightarrow> state_hash set \<Rightarrow> bool" where
  "canonical_index D F d C \<longleftrightarrow>
     (\<forall>n h. get_canonical_hash_at_height D n d = Some h \<longleftrightarrow> h \<in> C \<and> f_height F h = n) \<and>
     (\<forall>n h. get_canonical_hash_at_slot D n d = Some h \<longleftrightarrow> h \<in> C \<and> f_slot F h = n)"

definition canonical_set :: "('d, 'j) db_ops \<Rightarrow> block_facts \<Rightarrow> 'd \<Rightarrow> state_hash set \<Rightarrow> bool" where
  "canonical_set D F d C \<longleftrightarrow> finite C \<and> card C < 2 ^ 32 \<and> canonical_index D F d C \<and>
     canonical_counts D (f_creator F) (f_epoch F) d (mset_set C)"

definition diff_of :: "block_facts \<Rightarrow> state_hash \<Rightarrow> canonicity_diff" where
  "diff_of F h = \<lparr>cd_state_hash = h, cd_blockchain_length = f_height F h, cd_global_slot = f_slot F h\<rparr>"

definition canonicity_cfs :: "column_family list" where
  "canonicity_cfs = canonicity_length_cf # canonicity_slot_cf # canonical_count_cfs"

lemmas canonicity_cf_defs = canonicity_cfs_def canonical_count_cfs_def canonicity_length_cf_def canonicity_slot_cf_def
  count_cf_defs

lemma canonicity_cfs_not:
  "block_height_cf \<notin> set canonicity_cfs" "block_global_slot_cf \<notin> set canonicity_cfs"
  "block_creator_cf \<notin> set canonicity_cfs" "block_epoch_cf \<notin> set canonicity_cfs"
  "block_parent_hash_cf \<notin> set canonicity_cfs" "DEFAULT_CF \<notin> set canonicity_cfs"
  by (simp_all add: canonicity_cf_defs block_height_cf_def block_global_slot_cf_def block_creator_cf_def
      block_epoch_cf_def block_parent_hash_cf_def DEFAULT_CF_def)

lemma canonical_index_inj:
  assumes "canonical_index D F d C"
  shows "inj_on (f_height F) C" "inj_on (f_slot F) C"
  using assms unfolding canonical_index_def inj_on_def by (metis option.inject)+

lemma canonical_index_changes:
  assumes "changes D cfs d e" "canonicity_length_cf \<notin> set cfs" "canonicity_slot_cf \<notin> set cfs"
  shows "canonical_index D F e C \<longleftrightarrow> canonical_index D F d C"
  using assms by (simp add: canonical_index_def get_canonical_hash_at_height_def get_canonical_hash_at_slot_def changes_reads)

lemma holds_tally_changes:
  "changes D cfs d e \<Longrightarrow> cf \<notin> set cfs \<Longrightarrow> holds_tally D cf key e M \<longleftrightarrow> holds_tally D cf key d M"
  by (simp add: holds_tally_def changes_reads)

lemma canonical_counts_changes:
  assumes "changes D cfs d e" "set canonical_count_cfs \<inter> set cfs = {}"
  shows "canonical_counts D cr ep e H \<longleftrightarrow> canonical_counts D cr ep d H"
  using assms by (simp add: canonical_counts_def counts_sorted_def holds_tally_changes changes_get canonical_count_cfs_def)

lemma indexed_changes:
  assumes "changes D canonicity_cfs d e"
  shows "indexed D F e h \<longleftrightarrow> indexed D F d h"
  by (simp add: indexed_def known_def get_block_creator_def get_block_epoch_def get_block_height_def get_block_global_slot_def
      changes_reads[OF assms] canonicity_cfs_not)

context key_value_db
begin

lemma canonical_index_remove:
  assumes "canonical_index D F d C" "h \<in> C"
  shows "canonical_index D F (db_delete D canonicity_slot_cf (to_be_bytes (f_slot F h))
    (db_delete D canonicity_length_cf (to_be_bytes (f_height F h)) d)) (C - {h})"
  using assms canonical_index_inj[OF assms(1)]
  by (auto simp: canonical_index_def get_canonical_hash_at_height_def get_canonical_hash_at_slot_def
      canonicity_length_cf_def canonicity_slot_cf_def inj_on_def)

lemma canonical_index_add:
  assumes "canonical_index D F d C" "hash_stored h" "\<forall>x\<in>C. f_height F x \<noteq> f_height F h \<and> f_slot F x \<noteq> f_slot F h"
  shows "canonical_index D F (db_put D canonicity_slot_cf (to_be_bytes (f_slot F h)) (Raw h)
      (db_put D canonicity_length_cf (to_be_bytes (f_height F h)) (Raw h) d)) (insert h C)"
  using assms by (auto simp: canonical_index_def get_canonical_hash_at_height_def get_canonical_hash_at_slot_def
      canonicity_length_cf_def canonicity_slot_cf_def)

text \<open>The index entries of a block change; the counts see the same database.\<close>

lemma canonicity_entries:
  assumes "changes D [canonicity_length_cf, canonicity_slot_cf] d e"
  shows "changes D canonicity_cfs d e" "get_current_epoch D e = get_current_epoch D d"
    "canonical_counts D cr ep e H \<longleftrightarrow> canonical_counts D cr ep d H"
    "known D cr ep e h \<longleftrightarrow> known D cr ep d h"
proof -
  show *: "changes D canonicity_cfs d e" using assms by (rule changes_mono) (simp add: canonicity_cfs_def)
  show "get_current_epoch D e = get_current_epoch D d"
    using * by (rule current_epoch_changes) (simp_all add: canonicity_cfs_not)
  show "canonical_counts D cr ep e H \<longleftrightarrow> canonical_counts D cr ep d H"
    using assms by (rule canonical_counts_changes) (simp add: canonicity_cf_defs)
  show "known D cr ep e h \<longleftrightarrow> known D cr ep d h"
    by (simp add: known_def get_block_creator_def get_block_epoch_def changes_reads[OF *] canonicity_cfs_not)
qed

lemma recount_canonicity_changes: "changes D canonicity_cfs d (recount D e pk a a' t' s' d)"
  using recount_changes by (rule changes_mono) (auto simp: canonicity_cfs_def)

lemma recount_index: "canonical_index D F (recount D e pk a a' t' s' d) C \<longleftrightarrow> canonical_index D F d C"
  by (rule canonical_index_changes[OF recount_changes]) (simp_all add: canonicity_cf_defs)

lemma unapply_canonicity_removes:
  assumes "canonical_set D F d C" "h \<in> C" "indexed D F d h" "get_current_epoch D d = Inr c"
  shows "\<exists>d'. unapply_canonicity D (diff_of F h) d = Inr d' \<and> canonical_set D F d' (C - {h}) \<and> changes D canonicity_cfs d d'"
proof -
  let ?e = "db_delete D canonicity_slot_cf (to_be_bytes (f_slot F h))
    (db_delete D canonicity_length_cf (to_be_bytes (f_height F h)) d)"
  have e: "changes D [canonicity_length_cf, canonicity_slot_cf] d ?e" by (intro changes_delete) simp_all
  have C: "finite C" "card C < 2 ^ 32" "canonical_index D F d C"
    "canonical_counts D (f_creator F) (f_epoch F) ?e (mset_set C)"
    using assms(1) by (simp_all add: canonical_set_def canonicity_entries(3)[OF e])
  have k: "known D (f_creator F) (f_epoch F) ?e h" using assms(3) by (simp add: indexed_def canonicity_entries(4)[OF e])
  have "mset_set C - {#h#} = mset_set (C - {h})" using C(1) assms(2) by (simp add: mset_set_Diff)
  moreover have "card (C - {h}) < 2 ^ 32" using C(2) card_Diff1_le[of C h] by linarith
  ultimately show ?thesis
    using decrement_canonical[OF k C(4), of c] recount_drop[OF C(4), of h] C(1,2) assms(2,4)
      canonical_index_remove[OF C(3) assms(2)] changes_trans[OF canonicity_entries(1)[OF e] recount_canonicity_changes]
    by (simp add: unapply_canonicity_def diff_of_def canonicity_entries(2)[OF e] canonical_set_def recount_index)
qed

lemma apply_canonicity_counts:
  assumes "canonical_counts D cr ep d H" "known D cr ep d (cd_state_hash x)" "get_current_epoch D d = Inr c"
  defines "e \<equiv> db_put D canonicity_slot_cf (to_be_bytes (cd_global_slot x)) (Raw (cd_state_hash x))
    (db_put D canonicity_length_cf (to_be_bytes (cd_blockchain_length x)) (Raw (cd_state_hash x)) d)"
  shows "\<exists>d'. apply_canonicity D x d = Inr d' \<and> canonical_counts D cr ep d' (add_mset (cd_state_hash x) H) \<and>
    changes D canonical_count_cfs e d' \<and> changes D canonicity_cfs d d'"
proof -
  have e: "changes D [canonicity_length_cf, canonicity_slot_cf] d e" unfolding e_def by (intro changes_put) simp_all
  have c: "canonical_counts D cr ep e H" "known D cr ep e (cd_state_hash x)" "get_current_epoch D e = Inr c"
    using assms(1,2,3) by (simp_all add: canonicity_entries[OF e])
  have "apply_canonicity D x d = increment_block_canonical_production_count D (cd_state_hash x) e"
    by (simp add: apply_canonicity_def e_def)
  then show ?thesis
    using increment_canonical[OF c(2,1,3)] recount_add[OF c(1), of "cd_state_hash x"] recount_changes
      changes_trans[OF canonicity_entries(1)[OF e] recount_canonicity_changes] by auto
qed

lemma apply_canonicity_adds:
  assumes "canonical_set D F d C" "h \<notin> C" "indexed D F d h" "get_current_epoch D d = Inr c" "Suc (card C) < 2 ^ 32"
    "\<forall>x\<in>C. f_height F x \<noteq> f_height F h \<and> f_slot F x \<noteq> f_slot F h"
  shows "\<exists>d'. apply_canonicity D (diff_of F h) d = Inr d' \<and> canonical_set D F d' (insert h C) \<and> changes D canonicity_cfs d d'"
proof -
  let ?e = "db_put D canonicity_slot_cf (to_be_bytes (f_slot F h)) (Raw h)
    (db_put D canonicity_length_cf (to_be_bytes (f_height F h)) (Raw h) d)"
  have C: "finite C" "canonical_index D F d C" "canonical_counts D (f_creator F) (f_epoch F) d (mset_set C)"
    using assms(1) by (simp_all add: canonical_set_def)
  have k: "known D (f_creator F) (f_epoch F) d h" "hash_stored h" using assms(3) by (simp_all add: indexed_def)
  obtain d' where d': "apply_canonicity D (diff_of F h) d = Inr d'" "changes D canonicity_cfs d d'"
    "canonical_counts D (f_creator F) (f_epoch F) d' (add_mset h (mset_set C))" "changes D canonical_count_cfs ?e d'"
    using apply_canonicity_counts[OF C(3), of "diff_of F h" c] k(1) assms(4) by (auto simp: diff_of_def)
  moreover have "canonical_index D F d' (insert h C)"
    using canonical_index_add[OF C(2) k(2) assms(6)] canonical_index_changes[OF d'(4)] by (simp add: canonicity_cf_defs)
  ultimately show ?thesis using C(1) assms(2,5) by (simp add: canonical_set_def)
qed

end

end
