(* ===== verification/Block_Reorgs.thy ===== *)
theory Block_Reorgs
  imports Canonicity_Store
begin

text \<open>
  Reorganisations: the walk from the old and the new best tip to their common ancestor and the update of
  the canonical set it gives.
\<close>

section \<open>Updating a canonical set\<close>

context key_value_db
begin

lemma unapply_canonicities:
  "canonical_set D F d C \<Longrightarrow> set us \<subseteq> C \<Longrightarrow> distinct us \<Longrightarrow> \<forall>h\<in>set us. indexed D F d h \<Longrightarrow>
   get_current_epoch D d = Inr c \<Longrightarrow>
   \<exists>d'. fold_ok (unapply_canonicity D) (map (diff_of F) us) d = Inr d' \<and> canonical_set D F d' (C - set us) \<and>
     changes D canonicity_cfs d d'"
proof (induction us arbitrary: d C)
  case (Cons u us)
  from Cons.prems obtain e where e: "unapply_canonicity D (diff_of F u) d = Inr e" "canonical_set D F e (C - {u})"
    "changes D canonicity_cfs d e"
    using unapply_canonicity_removes[of F d C u c] by auto
  have "\<exists>d'. fold_ok (unapply_canonicity D) (map (diff_of F) us) e = Inr d' \<and>
      canonical_set D F d' (C - {u} - set us) \<and> changes D canonicity_cfs e d'"
    using Cons.prems e(2) indexed_changes[OF e(3)] current_epoch_changes[OF e(3)]
    by (intro Cons.IH) (auto simp: canonicity_cfs_not)
  moreover have "C - {u} - set us = C - set (u # us)" by auto
  ultimately show ?case using e(1) changes_trans[OF e(3)] by auto
qed simp

lemma apply_canonicities:
  "canonical_set D F d C \<Longrightarrow> set ws \<inter> C = {} \<Longrightarrow> distinct ws \<Longrightarrow> \<forall>h\<in>set ws. indexed D F d h \<Longrightarrow>
   get_current_epoch D d = Inr c \<Longrightarrow> card C + length ws < 2 ^ 32 \<Longrightarrow>
   inj_on (f_height F) (C \<union> set ws) \<Longrightarrow> inj_on (f_slot F) (C \<union> set ws) \<Longrightarrow>
   \<exists>d'. fold_ok (apply_canonicity D) (map (diff_of F) ws) d = Inr d' \<and> canonical_set D F d' (C \<union> set ws) \<and>
     changes D canonicity_cfs d d'"
proof (induction ws arbitrary: d C)
  case (Cons w ws)
  have new: "\<forall>x\<in>C. f_height F x \<noteq> f_height F w \<and> f_slot F x \<noteq> f_slot F w"
    using Cons.prems(2,7,8) by (auto simp: inj_on_def)
  from Cons.prems new obtain e where e: "apply_canonicity D (diff_of F w) d = Inr e" "canonical_set D F e (insert w C)"
    "changes D canonicity_cfs d e"
    using apply_canonicity_adds[of F d C w c] by auto
  have "card (insert w C) + length ws < 2 ^ 32"
    using Cons.prems(1,2,6) by (simp add: canonical_set_def)
  then have "\<exists>d'. fold_ok (apply_canonicity D) (map (diff_of F) ws) e = Inr d' \<and>
      canonical_set D F d' (insert w C \<union> set ws) \<and> changes D canonicity_cfs e d'"
    using Cons.prems e(2) indexed_changes[OF e(3)] current_epoch_changes[OF e(3)]
    by (intro Cons.IH) (auto simp: canonicity_cfs_not)
  then show ?case using e(1) changes_trans[OF e(3)] by auto
qed simp

lemma update_canonicity_moves:
  assumes "canonical_set D F d C" "set us \<subseteq> C" "set ws \<inter> (C - set us) = {}" "distinct us" "distinct ws"
    "\<forall>h\<in>set us \<union> set ws. indexed D F d h" "get_current_epoch D d = Inr c" "card C + length ws < 2 ^ 32"
    "inj_on (f_height F) (C - set us \<union> set ws)" "inj_on (f_slot F) (C - set us \<union> set ws)"
  shows "\<exists>d'. update_canonicity D \<lparr>du_apply = map (diff_of F) ws, du_unapply = map (diff_of F) us\<rparr> d = Inr d' \<and>
    canonical_set D F d' (C - set us \<union> set ws) \<and> changes D canonicity_cfs d d'"
proof -
  obtain e where e: "fold_ok (unapply_canonicity D) (map (diff_of F) us) d = Inr e"
    "canonical_set D F e (C - set us)" "changes D canonicity_cfs d e"
    using unapply_canonicities[OF assms(1,2,4) _ assms(7)] assms(6) by auto
  have "card (C - set us) + length ws < 2 ^ 32"
    using assms(1,8) card_Diff_subset_Int[of C "set us"] by (simp add: canonical_set_def)
  then obtain d' where "fold_ok (apply_canonicity D) (map (diff_of F) ws) e = Inr d'"
    "canonical_set D F d' (C - set us \<union> set ws)" "changes D canonicity_cfs e d'"
    using apply_canonicities[OF e(2) assms(3,5) _ _ _ assms(9,10)] assms(6,7) indexed_changes[OF e(3)]
      current_epoch_changes[OF e(3)] by (auto simp: canonicity_cfs_not)
  then show ?thesis using e changes_trans[OF e(3)] by (auto simp: update_canonicity_def)
qed

end

section \<open>The walk between two tips\<close>

text \<open>Each block of the list is the parent of the one before.\<close>

fun linked_back :: "('d, 'j) db_ops \<Rightarrow> 'd \<Rightarrow> state_hash list \<Rightarrow> bool" where
  "linked_back D d (h # g # hs) \<longleftrightarrow> get_block_parent_hash D h d = Some g \<and> linked_back D d (g # hs)"
| "linked_back D d hs \<longleftrightarrow> True"

definition update_at :: "block_facts \<Rightarrow> u32 \<Rightarrow> state_hash \<Rightarrow> block_update" where
  "update_at F len h = \<lparr>bu_state_hash = h, bu_blockchain_length = len, bu_global_slot_since_genesis = f_slot F h\<rparr>"

definition update_of :: "block_facts \<Rightarrow> state_hash \<Rightarrow> block_update" where
  "update_of F h = update_at F (f_height F h) h"

lemma bring_back_walks:
  "linked_back D d (hs @ [b']) \<Longrightarrow> \<forall>h\<in>set hs. indexed D F d h \<and> h \<noteq> MAINNET_GENESIS_HASH \<and> h \<noteq> HARDFORK_GENESIS_HASH \<Longrightarrow>
   bring_back D d len (length hs) (hd (hs @ [b'])) ap = Inr (b', ap @ map (update_at F len) hs)"
proof (induction hs arbitrary: ap)
  case (Cons h hs)
  have "get_block_parent_hash D h d = Some (hd (hs @ [b']))" "linked_back D d (hs @ [b'])"
    using Cons.prems(1) by (cases hs; simp)+
  then show ?case using Cons by (simp add: indexed_def update_at_def)
qed simp

lemma reorg_loop_walks:
  "linked_back D d (us @ [c, c']) \<Longrightarrow> linked_back D d (ws @ [c, c']) \<Longrightarrow> length us = length ws \<Longrightarrow>
   \<forall>h\<in>set us \<union> set ws. indexed D F d h \<Longrightarrow> set us \<inter> set ws = {} \<Longrightarrow> c \<notin> set us \<union> set ws \<Longrightarrow>
   reorg_loop D d (hd (us @ [c])) (hd (ws @ [c])) (hd (tl (us @ [c, c']))) (hd (tl (ws @ [c, c']))) ap un =
     Some (Inr (ap @ map (update_of F) ws, un @ map (update_of F) us))"
proof (induction us arbitrary: ws ap un)
  case Nil
  then show ?case by (simp add: reorg_loop.simps)
next
  case (Cons u us)
  then obtain w ws' where ws: "ws = w # ws'" by (cases ws) auto
  have prev: "get_block_parent_hash D (hd (us @ [c])) d = Some (hd (tl (us @ [c, c'])))" "linked_back D d (us @ [c, c'])"
    "get_block_parent_hash D (hd (ws' @ [c])) d = Some (hd (tl (ws' @ [c, c'])))" "linked_back D d (ws' @ [c, c'])"
    using Cons.prems(1,2) by (cases us; cases "tl us"; cases ws'; cases "tl ws'"; simp add: ws)+
  have step: "reorg_step D d u w (hd (us @ [c])) (hd (ws' @ [c])) ap un =
      Inr (hd (tl (us @ [c, c'])), hd (tl (ws' @ [c, c'])), ap @ [update_of F w], un @ [update_of F u])"
    using Cons.prems(4) by (simp add: ws reorg_step_def block_update_of_def indexed_def prev update_of_def update_at_def)
  have neq: "u \<noteq> w" using Cons.prems(5) by (auto simp: ws)
  have "MAINNET_GENESIS_HASH \<noteq> HARDFORK_GENESIS_HASH" by (simp add: MAINNET_GENESIS_HASH_def HARDFORK_GENESIS_HASH_def)
  then have "reorg_loop D d u w (hd (us @ [c])) (hd (ws' @ [c])) ap un =
      reorg_loop D d (hd (us @ [c])) (hd (ws' @ [c])) (hd (tl (us @ [c, c']))) (hd (tl (ws' @ [c, c'])))
        (ap @ [update_of F w]) (un @ [update_of F u])"
    using neq by (subst reorg_loop.simps) (auto simp: step)
  moreover have "hd (tl ((u # us) @ [c, c'])) = hd (us @ [c])" "hd (tl (ws @ [c, c'])) = hd (ws' @ [c])"
    by (cases us; simp) (cases ws'; simp add: ws)
  ultimately show ?case
    using Cons.IH[of ws' "ap @ [update_of F w]" "un @ [update_of F u]"] Cons.prems(3-6) prev by (simp add: ws)
qed

text \<open>Heights fall by one along the list.\<close>

fun descending :: "block_facts \<Rightarrow> state_hash list \<Rightarrow> bool" where
  "descending F (h # g # hs) \<longleftrightarrow> unat (f_height F h) = unat (f_height F g) + 1 \<and> descending F (g # hs)"
| "descending F hs \<longleftrightarrow> True"

lemma descending_head: "descending F (hs @ [c]) \<Longrightarrow> unat (f_height F (hd (hs @ [c]))) = unat (f_height F c) + length hs"
proof (induction hs)
  case (Cons h hs)
  then show ?case by (cases hs) auto
qed simp

lemma linked_back_drop: "linked_back D d hs \<Longrightarrow> linked_back D d (drop n hs)"
proof (induction n arbitrary: hs)
  case (Suc n)
  then show ?case by (cases hs; cases "tl hs") auto
qed simp

lemma linked_back_appendD: "linked_back D d (hs @ gs) \<Longrightarrow> linked_back D d hs"
proof (induction hs)
  case (Cons h hs)
  then show ?case by (cases hs) auto
qed simp

lemma linked_back_prev:
  "linked_back D d (us @ [c, c']) \<Longrightarrow> get_block_parent_hash D (hd (us @ [c])) d = Some (hd (tl (us @ [c, c'])))"
  by (cases us; cases "tl us") auto

text \<open>
  Two chains that meet at \<open>c\<close>: the blocks \<open>us\<close> above it on the old one and \<open>ws\<close> on the new one, which is at
  least as long.  \<open>c'\<close> is the parent of \<open>c\<close>.
\<close>

definition fork :: "('d, 'j) db_ops \<Rightarrow> block_facts \<Rightarrow> 'd \<Rightarrow> state_hash list \<Rightarrow> state_hash list \<Rightarrow> state_hash \<Rightarrow> bool" where
  "fork D F d us ws c \<longleftrightarrow> (\<exists>c'. linked_back D d (us @ [c, c']) \<and> linked_back D d (ws @ [c, c'])) \<and>
     descending F (us @ [c]) \<and> descending F (ws @ [c]) \<and> length us \<le> length ws \<and>
     (\<forall>h\<in>set us \<union> set ws \<union> {c}. indexed D F d h) \<and> set us \<inter> set ws = {} \<and> c \<notin> set us \<union> set ws \<and>
     (\<forall>h\<in>set ws. h \<noteq> MAINNET_GENESIS_HASH \<and> h \<noteq> HARDFORK_GENESIS_HASH)"

definition reorg_of :: "block_facts \<Rightarrow> state_hash list \<Rightarrow> state_hash list \<Rightarrow> state_hash \<Rightarrow> block_update db_update" where
  "reorg_of F us ws c =
     (let n = length ws - length us in
      \<lparr>du_apply = rev (map (update_at F (f_height F (hd (ws @ [c])))) (take n ws) @ map (update_of F) (drop n ws)),
       du_unapply = map (update_of F) us\<rparr>)"

lemma reorg_blocks_walks:
  assumes "fork D F d us ws c"
  shows "reorg_blocks D (hd (us @ [c])) (hd (ws @ [c])) d = Some (Inr (reorg_of F us ws c))"
proof -
  define n where "n = length ws - length us"
  define ahead where "ahead = take n ws"
  define ws' where "ws' = drop n ws"
  have ws: "ws = ahead @ ws'" "length ws' = length us" "length ahead = n"
    using assms by (auto simp: ahead_def ws'_def n_def fork_def)
  obtain c' where c': "linked_back D d (us @ [c, c'])" "linked_back D d (ws @ [c, c'])"
    using assms by (auto simp: fork_def)
  let ?a = "hd (us @ [c])" and ?b = "hd (ws @ [c])"
  have tips: "?a \<in> set us \<union> {c}" "?b \<in> set ws \<union> {c}" by (cases us; cases ws; simp)+
  have heights: "get_block_height D ?a d = Inr (Some (f_height F ?a))" "get_block_height D ?b d = Inr (Some (f_height F ?b))"
    using assms tips by (auto simp: fork_def indexed_def)
  have gap: "unat (sat_sub (f_height F ?b) (f_height F ?a)) = n"
    using assms by (simp add: fork_def unat_sat_sub descending_head n_def)
  have "ws @ [c, c'] = (ahead @ [hd (ws' @ [c])]) @ tl (ws' @ [c, c'])" by (cases ws'; simp add: ws(1))
  then have links: "linked_back D d (ws' @ [c, c'])" "linked_back D d (ahead @ [hd (ws' @ [c])])"
    using linked_back_drop[OF c'(2), of n] linked_back_appendD c'(2) by (simp add: ws(1,3), metis)
  have "hd (ahead @ [hd (ws' @ [c])]) = ?b" by (cases ahead; simp add: ws)
  then have start: "bring_back D d (f_height F ?b) n ?b [] = Inr (hd (ws' @ [c]), map (update_at F (f_height F ?b)) ahead)"
    using bring_back_walks[OF links(2), of F "f_height F ?b" "[]"] assms by (auto simp: ws(3) fork_def) (auto simp: ws(1))
  have loop: "reorg_loop D d ?a (hd (ws' @ [c])) (hd (tl (us @ [c, c']))) (hd (tl (ws' @ [c, c'])))
      (map (update_at F (f_height F ?b)) ahead) [] =
    Some (Inr (map (update_at F (f_height F ?b)) ahead @ map (update_of F) ws', [] @ map (update_of F) us))"
    using assms by (intro reorg_loop_walks[OF c'(1) links(1)]) (auto simp: ws fork_def)
  show ?thesis
    by (simp add: reorg_blocks_def reorg_start_def heights gap start linked_back_prev[OF c'(1)] linked_back_prev[OF links(1)] loop)
      (simp add: reorg_of_def ahead_def ws'_def n_def Let_def)
qed

lemma descending_lower: "descending F (hs @ [c]) \<Longrightarrow> h \<in> set hs \<Longrightarrow> f_height F c < f_height F h"
proof (induction hs)
  case (Cons g hs)
  then show ?case using descending_head[of F "g # hs" c] by (cases hs) (auto simp: word_less_nat_alt)
qed simp

lemma descending_inj: "descending F hs \<Longrightarrow> distinct hs \<and> inj_on (f_height F) (set hs)"
proof (induction hs)
  case (Cons h hs)
  then have IH: "distinct hs" "inj_on (f_height F) (set hs)" by (cases hs; simp)+
  have "f_height F g < f_height F h" if "g \<in> set hs" for g
  proof -
    from that obtain as bs where hs: "hs = as @ g # bs" by (meson split_list)
    have "descending F ((h # as) @ [g])" using Cons.prems unfolding hs
      by (induction as arbitrary: h) (auto elim: descending.elims)
    from descending_lower[OF this, of h] show ?thesis by simp
  qed
  then show ?case using IH by (auto simp: inj_on_insert) (metis order_less_irrefl)+
qed simp

lemma diff_from_update_of [simp]: "canonicity_diff_from (update_of F h) = diff_of F h"
  by (simp add: canonicity_diff_from_def update_of_def update_at_def diff_of_def)

lemma reorg_of_close:
  assumes "length us \<le> length ws" "length ws \<le> length us + 1"
  shows "reorg_of F us ws c = \<lparr>du_apply = rev (map (update_of F) ws), du_unapply = map (update_of F) us\<rparr>"
proof (cases "length ws = length us")
  case False
  then have n: "length ws - length us = Suc 0" using assms by simp
  then obtain w ws' where "ws = w # ws'" by (cases ws) auto
  then show ?thesis unfolding reorg_of_def n by (simp add: update_of_def)
qed (simp add: reorg_of_def)

context key_value_db
begin

lemma reorg_moves:
  assumes "fork D F d us ws c" "length ws \<le> length us + 1" "canonical_set D F d (set us \<union> C)" "set us \<inter> C = {}"
    "\<forall>x\<in>C. f_height F x \<le> f_height F c" "inj_on (f_slot F) (set ws \<union> C)" "get_current_epoch D d = Inr e"
    "card C + length us + length ws < 2 ^ 32"
  shows "\<exists>u d'. reorg_blocks D (hd (us @ [c])) (hd (ws @ [c])) d = Some (Inr u) \<and>
    update_block_canonicities D u d = Inr d' \<and> canonical_set D F d' (set ws \<union> C) \<and> changes D canonicity_cfs d d'"
proof -
  have f: "length us \<le> length ws" "descending F (us @ [c])" "descending F (ws @ [c])" "\<forall>h\<in>set us \<union> set ws. indexed D F d h"
    using assms(1) by (auto simp: fork_def)
  have above: "f_height F c < f_height F w" if "w \<in> set ws" for w using descending_lower[OF f(3) that] .
  have dist: "distinct us" "distinct (rev ws)" "inj_on (f_height F) (set ws)"
    using descending_inj[OF f(2)] descending_inj[OF f(3)] by (auto simp: inj_on_insert inj_on_Un)
  have C: "set us \<union> C - set us = C" using assms(4) by auto
  have fin: "finite C" using assms(3) by (auto simp: canonical_set_def)
  have "inj_on (f_height F) (set us \<union> C)"
    using assms(3) by (intro canonical_index_inj(1)[of D F d]) (simp add: canonical_set_def)
  then have "inj_on (f_height F) C" by (simp add: inj_on_Un)
  moreover have "f_height F x \<noteq> f_height F w" if "x \<in> C" "w \<in> set ws" for x w
    using assms(5) above[OF that(2)] that(1) by fastforce
  ultimately have inj: "inj_on (f_height F) (C \<union> set ws)" "set ws \<inter> C = {}"
    using dist(3) by (auto simp: inj_on_Un)
  have "card (set us \<union> C) + length (rev ws) < 2 ^ 32"
    using assms(4,8) fin card_Un_disjoint[of "set us" C] distinct_card[OF dist(1)] by simp
  then show ?thesis
    using update_canonicity_moves[OF assms(3), of us "rev ws" e] f(4) dist C inj assms(6,7)
    by (auto simp: reorg_blocks_walks[OF assms(1)] reorg_of_close[OF f(1) assms(2)] update_block_canonicities_def
        Un_commute rev_map[symmetric] comp_def)
qed

text \<open>Blocks recorded all at one height: the last is found there, the rest of the index by height stays.\<close>

lemma apply_at_height:
  "canonical_counts D (f_creator F) (f_epoch F) d M \<Longrightarrow> \<forall>h\<in>set hs. indexed D F d h \<Longrightarrow> get_current_epoch D d = Inr c \<Longrightarrow>
   \<exists>d'. fold_ok (apply_canonicity D) (map (\<lambda>h. canonicity_diff_from (update_at F H h)) hs) d = Inr d' \<and>
     changes D canonicity_cfs d d' \<and>
     (\<forall>n. get_canonical_hash_at_height D n d' = (if n = H \<and> hs \<noteq> [] then Some (last hs) else get_canonical_hash_at_height D n d))"
proof (induction hs arbitrary: d M)
  case (Cons h hs)
  let ?x = "canonicity_diff_from (update_at F H h)"
  have x: "cd_state_hash ?x = h" "cd_blockchain_length ?x = H" by (simp_all add: canonicity_diff_from_def update_at_def)
  have h: "known D (f_creator F) (f_epoch F) d (cd_state_hash ?x)" "hash_stored h" using Cons.prems(2) x by (auto simp: indexed_def)
  obtain e where e: "apply_canonicity D ?x d = Inr e" "canonical_counts D (f_creator F) (f_epoch F) e (add_mset h M)"
    "changes D canonical_count_cfs (db_put D canonicity_slot_cf (to_be_bytes (cd_global_slot ?x)) (Raw h)
      (db_put D canonicity_length_cf (to_be_bytes H) (Raw h) d)) e" "changes D canonicity_cfs d e"
    using apply_canonicity_counts[OF Cons.prems(1) h(1) Cons.prems(3)] unfolding x by blast
  have at: "get_canonical_hash_at_height D n e = (if n = H then Some h else get_canonical_hash_at_height D n d)" for n
    using h(2) by (simp add: get_canonical_hash_at_height_def changes_reads[OF e(3)] canonicity_cf_defs)
  have "\<forall>h\<in>set hs. indexed D F e h" "get_current_epoch D e = Inr c"
    using Cons.prems(2,3) indexed_changes[OF e(4)] current_epoch_changes[OF e(4)] by (auto simp: canonicity_cfs_not)
  from Cons.IH[OF e(2) this] obtain d' where d': "fold_ok (apply_canonicity D) (map (\<lambda>h. canonicity_diff_from (update_at F H h)) hs) e = Inr d'"
    "changes D canonicity_cfs e d'"
    "\<And>n. get_canonical_hash_at_height D n d' = (if n = H \<and> hs \<noteq> [] then Some (last hs) else get_canonical_hash_at_height D n e)" by blast
  show ?case using d' e(1) changes_trans[OF e(4) d'(2)] at by auto
qed simp

lemma reorg_far_apply:
  assumes "fork D F d us (ahead @ ws) c" "length ws = length us" "canonical_set D F d (set us \<union> C)" "set us \<inter> C = {}"
    "\<forall>x\<in>C. f_height F x \<le> f_height F c" "inj_on (f_slot F) (set ws \<union> C)" "get_current_epoch D d = Inr e"
    "card C + length us + length ws < 2 ^ 32" "ahead \<noteq> []"
  shows "\<exists>u e' d'. reorg_blocks D (hd (us @ [c])) (hd ahead) d = Some (Inr u) \<and> update_block_canonicities D u d = Inr d' \<and>
    canonical_set D F e' (set ws \<union> C) \<and> changes D canonicity_cfs d d' \<and>
    (\<forall>n. get_canonical_hash_at_height D n d' =
      (if n = f_height F (hd ahead) then Some (hd ahead) else get_canonical_hash_at_height D n e'))"
proof -
  have f: "descending F (us @ [c])" "descending F ((ahead @ ws) @ [c])" "\<forall>h\<in>set us \<union> set ahead \<union> set ws. indexed D F d h"
    using assms(1) by (auto simp: fork_def)
  have above: "f_height F c < f_height F w" if "w \<in> set ws" for w using descending_lower[OF f(2)] that by simp
  have dist: "distinct us" "distinct (rev ws)" "inj_on (f_height F) (set ws)"
    using descending_inj[OF f(1)] descending_inj[OF f(2)] by (auto simp: inj_on_Un)
  have C: "set us \<union> C - set us = C" "finite C" using assms(3,4) by (auto simp: canonical_set_def)
  have "inj_on (f_height F) (set us \<union> C)"
    using assms(3) by (intro canonical_index_inj(1)[of D F d]) (simp add: canonical_set_def)
  moreover have "f_height F x \<noteq> f_height F w" if "x \<in> C" "w \<in> set ws" for x w
    using assms(5) above[OF that(2)] that(1) by fastforce
  ultimately have inj: "inj_on (f_height F) (C \<union> set ws)" "set ws \<inter> C = {}" using dist(3) by (auto simp: inj_on_Un)
  have "card (set us \<union> C) + length (rev ws) < 2 ^ 32"
    using assms(4,8) C(2) card_Un_disjoint[of "set us" C] distinct_card[OF dist(1)] by simp
  then obtain e' where e': "update_canonicity D \<lparr>du_apply = map (diff_of F) (rev ws), du_unapply = map (diff_of F) us\<rparr> d = Inr e'"
    "canonical_set D F e' (set ws \<union> C)" "changes D canonicity_cfs d e'"
    using update_canonicity_moves[OF assms(3), of us "rev ws" e] f(3) dist C inj assms(6,7) by (auto simp: Un_commute)
  have "\<forall>h\<in>set (rev ahead). indexed D F e' h" "get_current_epoch D e' = Inr e"
    using f(3) assms(7) indexed_changes[OF e'(3)] current_epoch_changes[OF e'(3)] by (auto simp: canonicity_cfs_not)
  then obtain d' where d': "fold_ok (apply_canonicity D) (map (\<lambda>h. canonicity_diff_from (update_at F (f_height F (hd ahead)) h)) (rev ahead)) e' = Inr d'"
    "changes D canonicity_cfs e' d'" "\<And>n. get_canonical_hash_at_height D n d' =
      (if n = f_height F (hd ahead) then Some (hd ahead) else get_canonical_hash_at_height D n e')"
    using apply_at_height[of F e' "mset_set (set ws \<union> C)" "rev ahead" e "f_height F (hd ahead)"] e'(2) assms(9)
    by (auto simp: canonical_set_def last_rev)
  have "reorg_of F us (ahead @ ws) c = \<lparr>du_apply = map (update_of F) (rev ws) @ map (update_at F (f_height F (hd ahead))) (rev ahead),
      du_unapply = map (update_of F) us\<rparr>"
    using assms(2,9) by (simp add: reorg_of_def rev_map)
  then have "reorg_blocks D (hd (us @ [c])) (hd ahead) d = Some (Inr \<lparr>du_apply = map (update_of F) (rev ws) @
      map (update_at F (f_height F (hd ahead))) (rev ahead), du_unapply = map (update_of F) us\<rparr>)"
    using reorg_blocks_walks[OF assms(1)] assms(9) by simp
  moreover have "update_block_canonicities D \<lparr>du_apply = map (update_of F) (rev ws) @
      map (update_at F (f_height F (hd ahead))) (rev ahead), du_unapply = map (update_of F) us\<rparr> d = Inr d'"
    using e'(1) d'(1) by (auto simp: update_block_canonicities_def update_canonicity_def comp_def fold_ok_append run_simps)
  ultimately show ?thesis using e'(2) d'(3) changes_trans[OF e'(3) d'(2)] by blast
qed

lemma reorg_misses:
  assumes "fork D F d us ws c" "length us + 2 \<le> length ws" "canonical_set D F d (set us \<union> C)" "set us \<inter> C = {}"
    "\<forall>x\<in>C. f_height F x \<le> f_height F c" "inj_on (f_slot F) (set ws \<union> C)" "get_current_epoch D d = Inr e"
    "card C + length us + length ws < 2 ^ 32"
  shows "\<exists>u d'. reorg_blocks D (hd (us @ [c])) (hd ws) d = Some (Inr u) \<and> update_block_canonicities D u d = Inr d' \<and>
    get_canonical_hash_at_height D (f_height F (hd ws)) d' = Some (hd ws) \<and>
    (\<forall>h\<in>set (tl (take (length ws - length us) ws)).
      get_canonical_hash_at_height D (f_height F h) d' = None \<and> get_block_canonicity D h d' = Inr None)"
proof -
  define ahead where "ahead = take (length ws - length us) ws"
  define ws' where "ws' = drop (length ws - length us) ws"
  have ws: "ws = ahead @ ws'" "length ws' = length us" "ahead \<noteq> []"
    using assms(2) by (auto simp: ahead_def ws'_def)
  then have hd: "hd ws = hd ahead" "ahead = hd ahead # tl ahead" by auto
  have "inj_on (f_slot F) (set ws' \<union> C)" "card C + length us + length ws' < 2 ^ 32"
    using assms(6,8) by (auto simp: ws(1) intro: inj_on_subset)
  from reorg_far_apply[OF assms(1)[unfolded ws(1)] ws(2) assms(3,4,5) this(1) assms(7) this(2) ws(3)]
  obtain u e' d' where d': "reorg_blocks D (hd (us @ [c])) (hd ahead) d = Some (Inr u)" "update_block_canonicities D u d = Inr d'"
    "canonical_set D F e' (set ws' \<union> C)" "changes D canonicity_cfs d d'"
    "\<And>n. get_canonical_hash_at_height D n d' =
      (if n = f_height F (hd ahead) then Some (hd ahead) else get_canonical_hash_at_height D n e')" by blast
  have desc: "descending F (ws @ [c])" "\<forall>h\<in>set ws. indexed D F d h" using assms(1) by (auto simp: fork_def)
  have inj: "distinct (hd ahead # tl ahead @ ws')" "inj_on (f_height F) (set (hd ahead # tl ahead @ ws'))"
    using descending_inj[OF desc(1)] ws(1) hd(2) by (metis append_Cons distinct_append inj_on_subset Un_upper1 set_append)+
  have "get_canonical_hash_at_height D (f_height F h) d' = None \<and> get_block_canonicity D h d' = Inr None" if h: "h \<in> set (tl ahead)" for h
  proof -
    have hw: "h \<in> set ws" using h hd(2) ws(1) by (metis Un_iff list.set_intros(2) set_append)
    have "f_height F h \<noteq> f_height F (hd ahead)" "\<forall>x\<in>set ws'. f_height F x \<noteq> f_height F h"
      using inj h by (auto simp: inj_on_def)
    moreover have "\<forall>x\<in>C. f_height F x \<noteq> f_height F h"
      using assms(5) descending_lower[OF desc(1) hw] by fastforce
    ultimately have "get_canonical_hash_at_height D (f_height F h) d' = None"
      using d'(3,5) by (cases "get_canonical_hash_at_height D (f_height F h) e'") (auto simp: canonical_set_def canonical_index_def)
    moreover have "get_block_height D h d' = Inr (Some (f_height F h))"
      using desc(2) hw indexed_changes[OF d'(4), of F h] by (auto simp: indexed_def)
    ultimately show ?thesis by (simp add: get_block_canonicity_def)
  qed
  then show ?thesis using d'(1,2,5) by (auto simp: hd(1) ahead_def[symmetric])
qed

end

section \<open>An example\<close>

text \<open>A chain of three blocks whose lowest is the canonical best tip.\<close>

definition example_state_hash :: "char \<Rightarrow> state_hash" where
  "example_state_hash c = ''3N'' @ replicate 50 c"

definition example_tip_db :: "unit assoc_db" where
  "example_tip_db =
     (let a = example_state_hash CHR ''a''; b = example_state_hash CHR ''b''; c = example_state_hash CHR ''c'';
          pk = public_key_upper_bound
      in [((block_parent_hash_cf, a), Raw (example_state_hash CHR ''z'')), ((block_parent_hash_cf, b), Raw a),
          ((block_parent_hash_cf, c), Raw b), ((block_height_cf, a), raw_u32 5), ((block_height_cf, b), raw_u32 6),
          ((block_height_cf, c), raw_u32 7), ((block_global_slot_cf, a), raw_u32 8), ((block_global_slot_cf, b), raw_u32 9),
          ((block_global_slot_cf, c), raw_u32 10), ((block_creator_cf, a), Raw pk), ((block_creator_cf, b), Raw pk),
          ((block_creator_cf, c), Raw pk), ((block_epoch_cf, a), raw_u32 0), ((block_epoch_cf, b), raw_u32 0), ((block_epoch_cf, c), raw_u32 0),
          ((canonicity_length_cf, to_be_bytes (5 :: u32)), Raw a), ((canonicity_slot_cf, to_be_bytes (8 :: u32)), Raw a),
          ((block_production_pk_canonical_epoch_cf, pk_epoch_key (0, pk)), raw_u32 1),
          ((block_production_pk_canonical_epoch_sort_cf, count_sort_key 0 1 pk), Raw []),
          ((block_production_pk_canonical_total_cf, pk), raw_u32 1),
          ((block_production_canonical_epoch_cf, to_be_bytes (0 :: u32)), raw_u32 1)])"

lemma example_state_hash_eq [simp]: "example_state_hash a = example_state_hash b \<longleftrightarrow> a = b"
  by (auto simp: example_state_hash_def replicate_eq_replicate)

lemma example_hashes_stored:
  "hash_stored (example_state_hash CHR ''a'')" "hash_stored (example_state_hash CHR ''b'')"
  "hash_stored (example_state_hash CHR ''c'')" "hash_stored (example_state_hash CHR ''z'')"
  by code_simp+

lemma example_hashes_not_genesis:
  "example_state_hash c \<noteq> MAINNET_GENESIS_HASH" "example_state_hash c \<noteq> HARDFORK_GENESIS_HASH"
  "example_state_hash c \<noteq> MAINNET_GENESIS_PREV_STATE_HASH" "example_state_hash c \<noteq> HARDFORK_GENESIS_PREV_STATE_HASH"
  by (simp_all add: example_state_hash_def MAINNET_GENESIS_HASH_def HARDFORK_GENESIS_HASH_def
      MAINNET_GENESIS_PREV_STATE_HASH_def HARDFORK_GENESIS_PREV_STATE_HASH_def numeral_eq_Suc)

lemmas example_cf_defs = block_parent_hash_cf_def block_height_cf_def block_global_slot_cf_def block_creator_cf_def
  block_epoch_cf_def canonicity_length_cf_def canonicity_slot_cf_def DEFAULT_CF_def count_cf_defs

lemma upper_bound_stored: "pk_stored public_key_upper_bound"
  by code_simp

definition example_facts :: block_facts where
  "example_facts = \<lparr>f_creator = (\<lambda>_. public_key_upper_bound), f_epoch = (\<lambda>_. 0),
     f_height = (\<lambda>h. if h = example_state_hash CHR ''a'' then 5 else if h = example_state_hash CHR ''b'' then 6 else 7),
     f_slot = (\<lambda>h. if h = example_state_hash CHR ''a'' then 8 else if h = example_state_hash CHR ''b'' then 9 else 10)\<rparr>"

lemma example_indexed:
  "indexed assoc_ops example_facts example_tip_db (example_state_hash CHR ''a'')"
  "indexed assoc_ops example_facts example_tip_db (example_state_hash CHR ''b'')"
  "indexed assoc_ops example_facts example_tip_db (example_state_hash CHR ''c'')"
  by (simp_all add: indexed_def known_def example_facts_def example_hashes_stored example_hashes_not_genesis upper_bound_stored
      get_block_creator_def get_pk_def get_block_epoch_def get_block_height_def get_block_global_slot_def get_u32_def
      example_tip_db_def Let_def example_cf_defs)

lemma example_canonical: "canonical_set assoc_ops example_facts example_tip_db {example_state_hash CHR ''a''}"
  unfolding canonical_set_def canonical_index_def canonical_counts_def holds_tally_def counts_sorted_def
  by (auto simp: example_facts_def get_canonical_hash_at_height_def get_canonical_hash_at_slot_def get_hash_def
      get_count_def get_u32_def example_tip_db_def Let_def example_cf_defs example_hashes_stored
      inj_eq[OF pk_epoch_key_inj] count_sort_key_eq)

lemma example_parents:
  "get_block_parent_hash assoc_ops (example_state_hash CHR ''a'') example_tip_db = Some (example_state_hash CHR ''z'')"
  "get_block_parent_hash assoc_ops (example_state_hash CHR ''b'') example_tip_db = Some (example_state_hash CHR ''a'')"
  by (simp_all add: get_block_parent_hash_def get_hash_def example_tip_db_def Let_def example_cf_defs example_hashes_stored)

lemma example_heights:
  "f_height example_facts (example_state_hash CHR ''a'') = 5" "f_height example_facts (example_state_hash CHR ''b'') = 6"
  by (simp_all add: example_facts_def)

lemma example_fork: "fork assoc_ops example_facts example_tip_db [] [example_state_hash CHR ''b''] (example_state_hash CHR ''a'')"
  by (auto simp: fork_def example_indexed example_hashes_not_genesis example_parents example_heights)

lemma example_epoch_now: "get_current_epoch assoc_ops example_tip_db = Inr 0"
  by (simp add: get_current_epoch_def get_best_block_hash_def get_hash_def example_tip_db_def Let_def example_cf_defs)

text \<open>
  C5: when the new best tip is at most one block higher than the old one, the walk to the common ancestor
  ends, and updating canonicity with its result turns the old canonical chain into the new one: the
  indices by height and slot list exactly its blocks and the production counts count exactly them.
\<close>

theorem reorg_moves_canonical_chain:
  assumes "key_value_db D" "fork D F d us ws c" "length ws \<le> length us + 1" "canonical_set D F d (set us \<union> C)"
    "set us \<inter> C = {}" "\<forall>x\<in>C. f_height F x \<le> f_height F c" "inj_on (f_slot F) (set ws \<union> C)"
    "get_current_epoch D d = Inr e" "card C + length us + length ws < 2 ^ 32"
  shows "\<exists>u d'. reorg_blocks D (hd (us @ [c])) (hd (ws @ [c])) d = Some (Inr u) \<and>
    update_block_canonicities D u d = Inr d' \<and> canonical_set D F d' (set ws \<union> C)"
  using key_value_db.reorg_moves[OF assms] by blast

theorem reorg_moves_canonical_chain_witness:
  "\<exists>u d'. reorg_blocks assoc_ops (hd ([] @ [example_state_hash CHR ''a'']))
      (hd ([example_state_hash CHR ''b''] @ [example_state_hash CHR ''a''])) example_tip_db = Some (Inr u) \<and>
    update_block_canonicities assoc_ops u example_tip_db = Inr d' \<and>
    canonical_set assoc_ops example_facts d' (set [example_state_hash CHR ''b''] \<union> {example_state_hash CHR ''a''})"
  by (rule reorg_moves_canonical_chain[OF assoc.key_value_db_axioms example_fork _ _ _ _ _ example_epoch_now])
    (use example_canonical in \<open>auto simp: example_facts_def\<close>)

text \<open>
  C39: when the new best tip is two or more blocks higher than the old one, every block below it that is
  higher than the old tip is recorded at the height of the new tip.  After the update the new tip is
  canonical at its height, and at the own heights of these blocks no block is canonical.
\<close>

theorem reorg_misses_height:
  assumes "key_value_db D" "fork D F d us ws c" "length us + 2 \<le> length ws" "canonical_set D F d (set us \<union> C)" "set us \<inter> C = {}"
    "\<forall>x\<in>C. f_height F x \<le> f_height F c" "inj_on (f_slot F) (set ws \<union> C)" "get_current_epoch D d = Inr e"
    "card C + length us + length ws < 2 ^ 32"
  shows "\<exists>u d'. reorg_blocks D (hd (us @ [c])) (hd ws) d = Some (Inr u) \<and> update_block_canonicities D u d = Inr d' \<and>
    get_canonical_hash_at_height D (f_height F (hd ws)) d' = Some (hd ws) \<and>
    (\<forall>h\<in>set (tl (take (length ws - length us) ws)).
      get_canonical_hash_at_height D (f_height F h) d' = None \<and> get_block_canonicity D h d' = Inr None)"
  using key_value_db.reorg_misses[OF assms] .

lemma example_far_fork:
  "fork assoc_ops example_facts example_tip_db [] [example_state_hash CHR ''c'', example_state_hash CHR ''b''] (example_state_hash CHR ''a'')"
proof -
  have "get_block_parent_hash assoc_ops (example_state_hash CHR ''c'') example_tip_db = Some (example_state_hash CHR ''b'')"
    by (simp add: get_block_parent_hash_def get_hash_def example_tip_db_def Let_def example_cf_defs example_hashes_stored)
  moreover have "f_height example_facts (example_state_hash CHR ''c'') = 7" by (simp add: example_facts_def)
  ultimately show ?thesis
    by (auto simp: fork_def example_indexed example_hashes_not_genesis example_parents example_heights)
qed

theorem reorg_misses_height_witness:
  "\<exists>u d'. reorg_blocks assoc_ops (example_state_hash CHR ''a'') (example_state_hash CHR ''c'') example_tip_db = Some (Inr u) \<and>
     update_block_canonicities assoc_ops u example_tip_db = Inr d' \<and>
     get_canonical_hash_at_height assoc_ops 6 d' = None \<and> get_block_canonicity assoc_ops (example_state_hash CHR ''b'') d' = Inr None"
  using reorg_misses_height[OF assoc.key_value_db_axioms example_far_fork, of "{example_state_hash CHR ''a''}" 0]
    example_canonical example_epoch_now example_heights
  by (auto simp: example_facts_def)

end
