(* ===== verification/Username_Store.thy ===== *)
theory Username_Store
  imports Canonicity_Store
begin

text \<open>
  Usernames (\<open>store/username.rs\<close>, \<open>store/username_store_impl.rs\<close>): the history of names of every public key,
  under consecutive indices, with the last index as its size.  A block's updates are a hash map; here its
  entries in the order they are iterated.
\<close>

section \<open>Operations\<close>

type_synonym username_entries = "(public_key \<times> username) list"

definition get_pk_num_username_updates :: "('d, 'j) db_ops \<Rightarrow> public_key \<Rightarrow> 'd \<Rightarrow> u32 option run" where
  "get_pk_num_username_updates D pk d = get_u32 D username_pk_num_cf pk d"

definition get_pk_username :: "('d, 'j) db_ops \<Rightarrow> public_key \<Rightarrow> u32 \<Rightarrow> 'd \<Rightarrow> username option run" where
  "get_pk_username D pk index d =
     map_ok (\<lambda>k. Option.bind (Option.bind (db_get D d username_pk_index_cf k) raw_bytes) username_from_bytes)
       (pk_index_key pk index)"

definition get_username :: "('d, 'j) db_ops \<Rightarrow> public_key \<Rightarrow> 'd \<Rightarrow> username option run" where
  "get_username D pk d =
     bind_ok (get_pk_num_username_updates D pk d) (\<lambda>num.
     case num of Some index \<Rightarrow> get_pk_username D pk index d | None \<Rightarrow> Inr None)"

definition set_block_username_updates_batch ::
    "(username_entries, 'j) codec \<Rightarrow> state_hash \<Rightarrow> username_entries \<Rightarrow> 'j batch \<Rightarrow> 'j batch" where
  "set_block_username_updates_batch U state_hash updates batch =
     batch_put usernames_per_block_cf state_hash (json U updates) batch"

definition get_block_username_updates ::
    "('d, 'j) db_ops \<Rightarrow> (username_entries, 'j) codec \<Rightarrow> state_hash \<Rightarrow> 'd \<Rightarrow> username_entries option" where
  "get_block_username_updates D U state_hash d = get_json D U usernames_per_block_cf state_hash d"

definition unapply_username :: "('d, 'j) db_ops \<Rightarrow> public_key \<Rightarrow> 'd \<Rightarrow> 'd run" where
  "unapply_username D pk d =
     bind_ok (get_pk_num_username_updates D pk d) (\<lambda>num.
     case num of None \<Rightarrow> Inr d
     | Some n \<Rightarrow>
         let d = (if n = 0 then db_delete D username_pk_num_cf pk d
                  else db_put D username_pk_num_cf pk (raw_u32 (n - 1)) d)
         in map_ok (\<lambda>k. db_delete D username_pk_index_cf k d) (pk_index_key pk n))"

definition apply_username :: "('d, 'j) db_ops \<Rightarrow> public_key \<times> username \<Rightarrow> 'd \<Rightarrow> 'd run" where
  "apply_username D entry d = (case entry of (pk, username) \<Rightarrow>
     bind_ok (get_pk_num_username_updates D pk d) (\<lambda>num.
     let index = (case num of Some n \<Rightarrow> n + 1 | None \<Rightarrow> 0);
         d = db_put D username_pk_num_cf pk (raw_u32 index) d
     in map_ok (\<lambda>k. db_put D username_pk_index_cf k (Raw username) d) (pk_index_key pk index)))"

definition update_usernames :: "('d, 'j) db_ops \<Rightarrow> username_entries db_update \<Rightarrow> 'd \<Rightarrow> 'd run" where
  "update_usernames D update d =
     bind_ok (fold_ok (\<lambda>updates. fold_ok (unapply_username D) (map fst updates)) (du_unapply update) d)
       (fold_ok (\<lambda>updates. fold_ok (apply_username D) updates) (du_apply update))"

definition update_block_usernames ::
    "('d, 'j) db_ops \<Rightarrow> (username_entries, 'j) codec \<Rightarrow> block_update db_update \<Rightarrow> 'd \<Rightarrow> 'd run" where
  "update_block_usernames D U blocks d =
     bind_ok (traverse_ok (\<lambda>u. unwrap (get_block_username_updates D U (bu_state_hash u) d)) (du_apply blocks)) (\<lambda>ap.
     bind_ok (traverse_ok (\<lambda>u. unwrap (get_block_username_updates D U (bu_state_hash u) d)) (du_unapply blocks)) (\<lambda>un.
     update_usernames D \<lparr>du_apply = ap, du_unapply = un\<rparr> d))"

section \<open>Histories\<close>

text \<open>The store holds for every public key the names it had, oldest first.\<close>

definition holds_names :: "('d, 'j) db_ops \<Rightarrow> 'd \<Rightarrow> (public_key \<Rightarrow> username list) \<Rightarrow> bool" where
  "holds_names D d H \<longleftrightarrow> (\<forall>pk. length pk = PUBLIC_KEY_LEN \<longrightarrow>
     length (H pk) \<le> 2 ^ 32 \<and>
     db_get D d username_pk_num_cf pk =
       (if H pk = [] then None else Some (raw_u32 (word_of_nat (length (H pk) - 1)))) \<and>
     (\<forall>i<length (H pk). db_get D d username_pk_index_cf (pk @ to_be_bytes (word_of_nat i :: u32)) = Some (Raw (H pk ! i))))"

text \<open>The histories after the updates of a block.\<close>

definition add_names :: "username_entries \<Rightarrow> (public_key \<Rightarrow> username list) \<Rightarrow> public_key \<Rightarrow> username list" where
  "add_names updates H pk = H pk @ (case map_of updates pk of Some name \<Rightarrow> [name] | None \<Rightarrow> [])"

definition drop_names :: "public_key list \<Rightarrow> (public_key \<Rightarrow> username list) \<Rightarrow> public_key \<Rightarrow> username list" where
  "drop_names pks H pk = (if pk \<in> set pks then butlast (H pk) else H pk)"

text \<open>The entries of a hash map of stored keys.\<close>

definition entries_ok :: "username_entries \<Rightarrow> bool" where
  "entries_ok updates \<longleftrightarrow> distinct (map fst updates) \<and> (\<forall>pk\<in>fst ` set updates. length pk = PUBLIC_KEY_LEN)"

lemma add_names_Cons:
  "pk \<notin> fst ` set updates \<Longrightarrow> add_names ((pk, name) # updates) H = add_names updates (H(pk := H pk @ [name]))"
  by (auto simp: add_names_def fun_eq_iff map_of_eq_None_iff[THEN iffD2] split: option.splits dest: map_of_SomeD)

lemma drop_names_Cons: "pk \<notin> set pks \<Longrightarrow> drop_names (pk # pks) H = drop_names pks (H(pk := butlast (H pk)))"
  by (auto simp: drop_names_def fun_eq_iff)

lemma drop_add_names: "set pks = fst ` set updates \<Longrightarrow> drop_names pks (add_names updates H) = H"
  by (auto simp: drop_names_def add_names_def fun_eq_iff map_of_eq_None_iff split: option.splits dest: map_of_SomeD)
    (metis domI dom_map_of_conv_image_fst image_eqI)

lemma add_names_length: "length (add_names updates H pk) \<le> Suc (length (H pk))"
  by (simp add: add_names_def split: option.splits)

lemma pk_index_key_stored: "length pk = PUBLIC_KEY_LEN \<Longrightarrow> pk_index_key pk i = Inr (pk @ to_be_bytes i)"
  by (simp add: pk_index_key_def)

lemma pk_index_eq:
  "length pk = PUBLIC_KEY_LEN \<Longrightarrow> length pk' = PUBLIC_KEY_LEN \<Longrightarrow>
     pk @ to_be_bytes (m :: u32) = pk' @ to_be_bytes n \<longleftrightarrow> pk = pk' \<and> m = n"
  by (simp add: append_eq_append_conv)

lemma username_cfs: "username_pk_num_cf \<noteq> username_pk_index_cf"
  by (simp add: username_pk_num_cf_def username_pk_index_cf_def)

context key_value_db
begin

lemma apply_username_appends:
  assumes "holds_names D d H" "length pk = PUBLIC_KEY_LEN" "length (H pk) < 2 ^ 32"
  shows "\<exists>d'. apply_username D (pk, name) d = Inr d' \<and> holds_names D d' (H(pk := H pk @ [name]))"
proof -
  define n where "n = (word_of_nat (length (H pk)) :: u32)"
  have num: "get_pk_num_username_updates D pk d = Inr (if H pk = [] then None else Some (word_of_nat (length (H pk) - 1)))"
    using assms(1,2) by (auto simp: holds_names_def get_pk_num_username_updates_def get_u32_def)
  have next_index: "(case (if H pk = [] then None else Some (word_of_nat (length (H pk) - 1))) of
      Some i \<Rightarrow> i + 1 | None \<Rightarrow> 0) = n"
    by (cases "H pk") (auto simp: n_def)
  have "apply_username D (pk, name) d =
      Inr (db_put D username_pk_index_cf (pk @ to_be_bytes n) (Raw name) (db_put D username_pk_num_cf pk (raw_u32 n) d))"
    by (simp add: apply_username_def num next_index pk_index_key_stored assms(2) Let_def)
  moreover have "holds_names D (db_put D username_pk_index_cf (pk @ to_be_bytes n) (Raw name)
      (db_put D username_pk_num_cf pk (raw_u32 n) d)) (H(pk := H pk @ [name]))"
    unfolding holds_names_def
  proof (intro allI impI conjI)
    fix pk' :: public_key and i assume pk': "length pk' = PUBLIC_KEY_LEN"
    note held = assms(1)[unfolded holds_names_def, rule_format, OF pk']
    show "length ((H(pk := H pk @ [name])) pk') \<le> 2 ^ 32" using held assms(3) by auto
    show "db_get D (db_put D username_pk_index_cf (pk @ to_be_bytes n) (Raw name) (db_put D username_pk_num_cf pk (raw_u32 n) d))
        username_pk_num_cf pk' = (if (H(pk := H pk @ [name])) pk' = [] then None
          else Some (raw_u32 (word_of_nat (length ((H(pk := H pk @ [name])) pk') - 1))))"
      using held username_cfs by (auto simp: get_put n_def)
    assume i: "i < length ((H(pk := H pk @ [name])) pk')"
    have "word_of_nat i = n \<longleftrightarrow> i = length (H pk)" if "pk' = pk"
      using i that assms(3) word_of_nat_u32_eq[of i "length (H pk)"] by (auto simp: n_def)
    then show "db_get D (db_put D username_pk_index_cf (pk @ to_be_bytes n) (Raw name) (db_put D username_pk_num_cf pk (raw_u32 n) d))
        username_pk_index_cf (pk' @ to_be_bytes (word_of_nat i :: u32)) = Some (Raw ((H(pk := H pk @ [name])) pk' ! i))"
      using held i username_cfs by (auto simp: get_put pk_index_eq assms(2) pk' nth_append less_Suc_eq)
  qed
  ultimately show ?thesis by blast
qed

lemma unapply_username_drops:
  assumes "holds_names D d H" "length pk = PUBLIC_KEY_LEN"
  shows "\<exists>d'. unapply_username D pk d = Inr d' \<and> holds_names D d' (H(pk := butlast (H pk)))"
proof (cases "H pk = []")
  case True
  then have "get_pk_num_username_updates D pk d = Inr None"
    using assms by (auto simp: holds_names_def get_pk_num_username_updates_def get_u32_def)
  moreover have "H(pk := butlast (H pk)) = H" using True by auto
  ultimately show ?thesis using assms(1) by (simp add: unapply_username_def)
next
  case False
  define n where "n = (word_of_nat (length (H pk) - 1) :: u32)"
  note now = assms(1)[unfolded holds_names_def, rule_format, OF assms(2)]
  have num: "get_pk_num_username_updates D pk d = Inr (Some n)"
    using now False by (simp add: get_pk_num_username_updates_def get_u32_def n_def)
  have len: "length (H pk) - 1 < 2 ^ 32" using now False by (cases "H pk") auto
  have zero: "n = 0 \<longleftrightarrow> length (H pk) = 1"
    using word_of_nat_u32_eq[OF len, of 0] False by (cases "H pk") (auto simp: n_def)
  let ?e = "if n = 0 then db_delete D username_pk_num_cf pk d else db_put D username_pk_num_cf pk (raw_u32 (n - 1)) d"
  have "unapply_username D pk d = Inr (db_delete D username_pk_index_cf (pk @ to_be_bytes n) ?e)"
    by (simp add: unapply_username_def num pk_index_key_stored assms(2) Let_def)
  moreover have "holds_names D (db_delete D username_pk_index_cf (pk @ to_be_bytes n) ?e) (H(pk := butlast (H pk)))"
    unfolding holds_names_def
  proof (intro allI impI conjI)
    fix pk' :: public_key and i assume pk': "length pk' = PUBLIC_KEY_LEN"
    note held = assms(1)[unfolded holds_names_def, rule_format, OF pk']
    show "length ((H(pk := butlast (H pk))) pk') \<le> 2 ^ 32" using held len by auto
    have last: "butlast (H pk) = [] \<longleftrightarrow> length (H pk) = 1" using False by (cases "H pk") auto
    have "n - 1 = word_of_nat (length (H pk) - 2)" if "length (H pk) \<noteq> 1"
      using that False by (cases "H pk"; cases "tl (H pk)") (auto simp: n_def)
    then show "db_get D (db_delete D username_pk_index_cf (pk @ to_be_bytes n) ?e) username_pk_num_cf pk' =
        (if (H(pk := butlast (H pk))) pk' = [] then None
         else Some (raw_u32 (word_of_nat (length ((H(pk := butlast (H pk))) pk') - 1))))"
      using held username_cfs zero last by (auto simp: get_put get_delete numeral_2_eq_2)
    assume i: "i < length ((H(pk := butlast (H pk))) pk')"
    have "(word_of_nat i :: u32) \<noteq> n" if "pk' = pk"
      using i that len word_of_nat_u32_eq[of i "length (H pk) - 1"] by (auto simp: n_def)
    then show "db_get D (db_delete D username_pk_index_cf (pk @ to_be_bytes n) ?e) username_pk_index_cf
        (pk' @ to_be_bytes (word_of_nat i :: u32)) = Some (Raw ((H(pk := butlast (H pk))) pk' ! i))"
      using held i username_cfs
      by (auto simp: get_put get_delete pk_index_eq assms(2) pk' nth_butlast split: if_splits)
  qed
  ultimately show ?thesis by blast
qed

lemma apply_block_names:
  "holds_names D d H \<Longrightarrow> entries_ok updates \<Longrightarrow> \<forall>pk\<in>fst ` set updates. length (H pk) < 2 ^ 32 \<Longrightarrow>
   \<exists>d'. fold_ok (apply_username D) updates d = Inr d' \<and> holds_names D d' (add_names updates H)"
proof (induction updates arbitrary: d H)
  case Nil
  then show ?case by (simp add: add_names_def)
next
  case (Cons e updates)
  obtain pk name where e: "e = (pk, name)" by (cases e)
  have new: "pk \<notin> fst ` set updates" "length pk = PUBLIC_KEY_LEN" "entries_ok updates"
    using Cons.prems(2) by (auto simp: entries_ok_def e)
  obtain f where f: "apply_username D (pk, name) d = Inr f" "holds_names D f (H(pk := H pk @ [name]))"
    using apply_username_appends[OF Cons.prems(1) new(2)] Cons.prems(3) by (auto simp: e)
  have "\<exists>d'. fold_ok (apply_username D) updates f = Inr d' \<and> holds_names D d' (add_names updates (H(pk := H pk @ [name])))"
    using new Cons.prems(3) by (intro Cons.IH[OF f(2)]) auto
  then show ?case using f(1) by (auto simp: e add_names_Cons[OF new(1)])
qed

lemma unapply_block_names:
  "holds_names D d H \<Longrightarrow> distinct pks \<Longrightarrow> \<forall>pk\<in>set pks. length pk = PUBLIC_KEY_LEN \<Longrightarrow>
   \<exists>d'. fold_ok (unapply_username D) pks d = Inr d' \<and> holds_names D d' (drop_names pks H)"
proof (induction pks arbitrary: d H)
  case Nil
  then show ?case by (simp add: drop_names_def)
next
  case (Cons pk pks)
  obtain f where "unapply_username D pk d = Inr f" "holds_names D f (H(pk := butlast (H pk)))"
    using unapply_username_drops[OF Cons.prems(1), of pk] Cons.prems(3) by auto
  then show ?case using Cons.IH[of f] Cons.prems(2,3) by (auto simp: drop_names_Cons)
qed

lemma unapply_blocks_names:
  "holds_names D d (fold add_names (rev us) H) \<Longrightarrow>
   list_all2 (\<lambda>u' u. entries_ok u' \<and> fst ` set u' = fst ` set u) us' us \<Longrightarrow>
   \<exists>d'. fold_ok (\<lambda>updates. fold_ok (unapply_username D) (map fst updates)) us' d = Inr d' \<and> holds_names D d' H"
proof (induction us arbitrary: us' d)
  case (Cons u us)
  from Cons.prems(2) obtain u' vs where us': "us' = u' # vs" "entries_ok u'" "fst ` set u' = fst ` set u"
    "list_all2 (\<lambda>u' u. entries_ok u' \<and> fst ` set u' = fst ` set u) vs us"
    by (auto simp: list_all2_Cons2)
  let ?G = "fold add_names (rev us) H"
  have held: "holds_names D d (add_names u ?G)" using Cons.prems(1) by simp
  have drop: "drop_names (map fst u') (add_names u ?G) = ?G" by (rule drop_add_names) (simp add: us'(3))
  obtain e where "fold_ok (unapply_username D) (map fst u') d = Inr e" "holds_names D e (fold add_names (rev us) H)"
    using unapply_block_names[OF held, of "map fst u'"] us'(2) by (auto simp: entries_ok_def drop)
  then show ?case using Cons.IH[OF _ us'(4)] by (auto simp: us'(1))
qed auto

lemma apply_blocks_names:
  "holds_names D d H \<Longrightarrow> \<forall>w\<in>set ws. entries_ok w \<Longrightarrow> \<forall>pk. length (H pk) + length ws \<le> 2 ^ 32 \<Longrightarrow>
   \<exists>d'. fold_ok (\<lambda>updates. fold_ok (apply_username D) updates) ws d = Inr d' \<and> holds_names D d' (fold add_names ws H)"
proof (induction ws arbitrary: d H)
  case (Cons w ws)
  have "length (H pk) < 2 ^ 32" for pk using Cons.prems(3)[rule_format, of pk] by simp
  then obtain e where "fold_ok (apply_username D) w d = Inr e" "holds_names D e (add_names w H)"
    using apply_block_names[OF Cons.prems(1), of w] Cons.prems(2) by auto
  moreover have "length (add_names w H pk) + length ws \<le> 2 ^ 32" for pk
    using Cons.prems(3)[rule_format, of pk] add_names_length[of w H pk] by simp
  ultimately show ?case using Cons.IH[of e "add_names w H"] Cons.prems(2) by auto
qed simp

lemma held_username:
  assumes "holds_names D d H" "length pk = PUBLIC_KEY_LEN"
  shows "get_username D pk d = Inr (if H pk = [] then None else username_from_bytes (last (H pk)))"
  using assms(1)[unfolded holds_names_def, rule_format, OF assms(2)]
  by (auto simp: get_username_def get_pk_num_username_updates_def get_pk_username_def get_u32_def
      pk_index_key_stored assms(2) last_conv_nth)

lemma usernames_reorg:
  assumes "holds_names D d (fold add_names (rev us) H)"
    "list_all2 (\<lambda>u' u. entries_ok u' \<and> fst ` set u' = fst ` set u) us' us" "\<forall>w\<in>set ws. entries_ok w"
    "\<forall>pk. length (H pk) + length ws \<le> 2 ^ 32"
  shows "\<exists>d'. update_usernames D \<lparr>du_apply = ws, du_unapply = us'\<rparr> d = Inr d' \<and> holds_names D d' (fold add_names ws H)"
proof -
  obtain e where e: "fold_ok (\<lambda>updates. fold_ok (unapply_username D) (map fst updates)) us' d = Inr e" "holds_names D e H"
    using unapply_blocks_names[OF assms(1,2)] by auto
  then show ?thesis using apply_blocks_names[OF e(2) assms(3,4)] by (simp add: update_usernames_def)
qed

end

text \<open>
  C22: a store that holds the usernames of a chain and unapplies its last blocks, newest first, then applies
  other blocks holds the usernames of the other chain, whatever order the hash maps are iterated in; the
  current name of a key is the last one it was given.
\<close>

theorem usernames_follow_chain:
  assumes "key_value_db D" "holds_names D d (fold add_names (rev us) H)"
    "list_all2 (\<lambda>u' u. entries_ok u' \<and> fst ` set u' = fst ` set u) us' us" "\<forall>w\<in>set ws. entries_ok w"
    "\<forall>pk. length (H pk) + length ws \<le> 2 ^ 32"
  shows "\<exists>d'. update_usernames D \<lparr>du_apply = ws, du_unapply = us'\<rparr> d = Inr d' \<and> holds_names D d' (fold add_names ws H) \<and>
    (\<forall>pk. length pk = PUBLIC_KEY_LEN \<longrightarrow> get_username D pk d' =
      Inr (let names = fold add_names ws H pk in if names = [] then None else username_from_bytes (last names)))"
  using key_value_db.usernames_reorg[OF assms] key_value_db.held_username[OF assms(1)] by (auto simp: Let_def)

theorem usernames_follow_chain_witness:
  "\<exists>d'. update_usernames assoc_ops \<lparr>du_apply = [[(public_key_upper_bound, ''carol'')]], du_unapply = [[(public_key_upper_bound, ''bob'')]]\<rparr>
      [((username_pk_num_cf, public_key_upper_bound), raw_u32 0),
       ((username_pk_index_cf, public_key_upper_bound @ to_be_bytes (0 :: u32)), Raw ''bob'')] = Inr d' \<and>
    holds_names assoc_ops d' (fold add_names [[(public_key_upper_bound, ''carol'')]] (\<lambda>_. [])) \<and>
    (\<forall>pk. length pk = PUBLIC_KEY_LEN \<longrightarrow> get_username assoc_ops pk d' =
      Inr (let names = fold add_names [[(public_key_upper_bound, ''carol'')]] (\<lambda>_. []) pk
           in if names = [] then None else username_from_bytes (last names)))"
  by (rule usernames_follow_chain[OF assoc.key_value_db_axioms, where us = "[[(public_key_upper_bound, ''bob'')]]"])
    (auto simp: holds_names_def add_names_def entries_ok_def username_cfs username_cfs[symmetric] len_defs public_key_upper_bound_def)

end
