(* ===== verification/List_Families.thy ===== *)
theory List_Families
  imports Tallies
begin

text \<open>
  Families of counted lists: one list per account, each under keys of its own.  Several elements are
  written, or the last ones deleted, before the new size is.
\<close>

definition holds_lists :: "('d, 'j) db_ops \<Rightarrow> column_family \<Rightarrow> ('a \<Rightarrow> bytes) \<Rightarrow> column_family \<Rightarrow> ('a \<Rightarrow> u32 \<Rightarrow> bytes) \<Rightarrow>
    ('a \<Rightarrow> bool) \<Rightarrow> 'd \<Rightarrow> ('a \<Rightarrow> 'j stored list) \<Rightarrow> bool" where
  "holds_lists D ncf nk ecf ek ok d L \<longleftrightarrow> (\<forall>a. ok a \<longrightarrow> holds_list D ncf (nk a) ecf (ek a) d (L a))"

fun put_elems :: "('d, 'j) db_ops \<Rightarrow> column_family \<Rightarrow> (u32 \<Rightarrow> bytes) \<Rightarrow> u32 \<Rightarrow> 'j stored list \<Rightarrow> 'd \<Rightarrow> 'd" where
  "put_elems D cf ek num [] d = d"
| "put_elems D cf ek num (x # xs) d = put_elems D cf ek (num + 1) xs (db_put D cf (ek num) x d)"

fun delete_elems :: "('d, 'j) db_ops \<Rightarrow> column_family \<Rightarrow> (u32 \<Rightarrow> bytes) \<Rightarrow> u32 \<Rightarrow> nat \<Rightarrow> 'd \<Rightarrow> 'd" where
  "delete_elems D cf ek num 0 d = d"
| "delete_elems D cf ek num (Suc n) d = delete_elems D cf ek (num - 1) n (db_delete D cf (ek (num - 1)) d)"

locale list_family = key_value_db D
  for D :: "('d, 'j) db_ops" +
  fixes ncf :: column_family and nk :: "'a \<Rightarrow> bytes" and ecf :: column_family and ek :: "'a \<Rightarrow> u32 \<Rightarrow> bytes"
    and ok :: "'a \<Rightarrow> bool"
  assumes cfs_differ: "ncf \<noteq> ecf"
    and nk_inject: "ok a \<Longrightarrow> ok b \<Longrightarrow> nk a = nk b \<longleftrightarrow> a = b"
    and ek_inject: "ok a \<Longrightarrow> ok b \<Longrightarrow> ek a i = ek b j \<longleftrightarrow> a = b \<and> i = j"
begin

lemma put_elems_changes: "changes D [ecf] d (put_elems D ecf f num xs d)"
proof (induction xs arbitrary: num d)
  case (Cons x xs)
  show ?case using changes_trans[OF changes_put[OF changes_refl] Cons.IH] by simp
qed simp

lemma delete_elems_changes: "changes D [ecf] d (delete_elems D ecf f num n d)"
proof (induction n arbitrary: num d)
  case (Suc n)
  show ?case using changes_trans[OF changes_delete[OF changes_refl] Suc.IH] by simp
qed simp

lemma put_elems_get:
  "ok a \<Longrightarrow> ok b \<Longrightarrow> m + length xs \<le> 2 ^ 32 \<Longrightarrow> i < 2 ^ 32 \<Longrightarrow>
   db_get D (put_elems D ecf (ek a) (word_of_nat m) xs d) ecf (ek b (word_of_nat i)) =
     (if b = a \<and> m \<le> i \<and> i < m + length xs then Some (xs ! (i - m)) else db_get D d ecf (ek b (word_of_nat i)))"
proof (induction xs arbitrary: m d)
  case (Cons x xs)
  have "(word_of_nat m + 1 :: u32) = word_of_nat (Suc m)" by simp
  moreover have "ek b (word_of_nat i) = ek a (word_of_nat m) \<longleftrightarrow> b = a \<and> i = m"
    using Cons.prems by (simp add: ek_inject word_of_nat_u32_eq)
  ultimately show ?case
    using Cons.IH[of "Suc m"] Cons.prems by (auto simp: get_put nth_Cons' Suc_le_eq simp del: of_nat_Suc)
qed auto

lemma delete_elems_get:
  "ok a \<Longrightarrow> ok b \<Longrightarrow> n \<le> m \<Longrightarrow> m \<le> 2 ^ 32 \<Longrightarrow> i < 2 ^ 32 \<Longrightarrow>
   db_get D (delete_elems D ecf (ek a) (word_of_nat m) n d) ecf (ek b (word_of_nat i)) =
     (if b = a \<and> m - n \<le> i \<and> i < m then None else db_get D d ecf (ek b (word_of_nat i)))"
proof (induction n arbitrary: m d)
  case (Suc n)
  then obtain k where k: "m = Suc k" by (cases m) auto
  have "(word_of_nat m - 1 :: u32) = word_of_nat k" by (simp add: k)
  moreover have "ek b (word_of_nat i) = ek a (word_of_nat k) \<longleftrightarrow> b = a \<and> i = k"
    using Suc.prems by (simp add: ek_inject word_of_nat_u32_eq k)
  ultimately show ?case
    using Suc.IH[of k] Suc.prems by (auto simp: get_delete k less_Suc_eq simp del: of_nat_Suc)
qed auto

lemma holds_lists_count:
  "holds_lists D ncf nk ecf ek ok d L \<Longrightarrow> ok a \<Longrightarrow> get_count D ncf (nk a) d = Inr (word_of_nat (length (L a)))"
  by (auto simp: holds_lists_def intro: holds_list_count)

lemma append_elems:
  assumes "holds_lists D ncf nk ecf ek ok d L" "ok a" "length (L a) + length xs < 2 ^ 32"
  shows "holds_lists D ncf nk ecf ek ok (db_put D ncf (nk a) (raw_u32 (word_of_nat (length (L a) + length xs)))
      (put_elems D ecf (ek a) (word_of_nat (length (L a))) xs d)) (L(a := L a @ xs))"
  unfolding holds_lists_def holds_list_def
proof (intro allI impI conjI)
  fix b i assume b: "ok b"
  let ?e = "put_elems D ecf (ek a) (word_of_nat (length (L a))) xs d"
  note held = assms(1)[unfolded holds_lists_def holds_list_def, rule_format, OF b]
  show "length ((L(a := L a @ xs)) b) < 2 ^ 32" using held assms(3) by auto
  show "get_count D ncf (nk b) (db_put D ncf (nk a) (raw_u32 (word_of_nat (length (L a) + length xs))) ?e) =
      Inr (word_of_nat (length ((L(a := L a @ xs)) b)))"
    using held cfs_differ changes_reads(2)[OF put_elems_changes] by (auto simp: nk_inject assms(2) b)
  assume i: "i < length ((L(a := L a @ xs)) b)"
  have "i < 2 ^ 32" using i held assms(3) by (auto split: if_splits)
  then show "db_get D (db_put D ncf (nk a) (raw_u32 (word_of_nat (length (L a) + length xs))) ?e) ecf (ek b (word_of_nat i)) =
      Some ((L(a := L a @ xs)) b ! i)"
    using held i assms(2,3) b cfs_differ by (auto simp: get_put put_elems_get nth_append split: if_splits)
qed

lemma drop_elems:
  assumes "holds_lists D ncf nk ecf ek ok d L" "ok a" "n \<le> length (L a)"
  shows "holds_lists D ncf nk ecf ek ok (db_put D ncf (nk a) (raw_u32 (word_of_nat (length (L a) - n)))
      (delete_elems D ecf (ek a) (word_of_nat (length (L a))) n d)) (L(a := take (length (L a) - n) (L a)))"
  unfolding holds_lists_def holds_list_def
proof (intro allI impI conjI)
  fix b i assume b: "ok b"
  let ?e = "delete_elems D ecf (ek a) (word_of_nat (length (L a))) n d"
  let ?L = "L(a := take (length (L a) - n) (L a))"
  note held = assms(1)[unfolded holds_lists_def holds_list_def, rule_format, OF b]
  note held_a = assms(1)[unfolded holds_lists_def holds_list_def, rule_format, OF assms(2)]
  show "length (?L b) < 2 ^ 32" using held held_a by auto
  show "get_count D ncf (nk b) (db_put D ncf (nk a) (raw_u32 (word_of_nat (length (L a) - n))) ?e) =
      Inr (word_of_nat (length (?L b)))"
    using held cfs_differ changes_reads(2)[OF delete_elems_changes] by (auto simp: nk_inject assms(2) b min.absorb1)
  assume i: "i < length (?L b)"
  then have "i < 2 ^ 32" using held held_a by (auto split: if_splits)
  then show "db_get D (db_put D ncf (nk a) (raw_u32 (word_of_nat (length (L a) - n))) ?e) ecf (ek b (word_of_nat i)) =
      Some (?L b ! i)"
    using held held_a i assms(2,3) b cfs_differ by (auto simp: get_put delete_elems_get split: if_splits)
qed

end

end
