(* ===== verification/Zkapp_Stores.thy ===== *)
theory Zkapp_Stores
  imports List_Families Account_Diffs
begin

text \<open>
  The actions and events of zkapp accounts (\<open>store/zkapp_store_impl/\<close>): for every token account the list of
  its actions and the list of its events, grown when a block is applied and cut when it is unapplied.
\<close>

section \<open>Actions\<close>

definition get_num_actions :: "('d, 'j) db_ops \<Rightarrow> public_key \<Rightarrow> token_address \<Rightarrow> 'd \<Rightarrow> u32 option run" where
  "get_num_actions D pk token d =
     bind_ok (zkapp_actions_pk_num_key token pk) (\<lambda>k. get_u32 D zkapp_actions_pk_num_cf k d)"

definition get_action ::
    "('d, 'j) db_ops \<Rightarrow> (action_state, 'j) codec \<Rightarrow> public_key \<Rightarrow> token_address \<Rightarrow> u32 \<Rightarrow> 'd \<Rightarrow> action_state option run" where
  "get_action D C pk token index d =
     bind_ok (zkapp_actions_key token pk index) (\<lambda>k. expect_json D C zkapp_actions_cf k d)"

definition set_action ::
    "('d, 'j) db_ops \<Rightarrow> (action_state, 'j) codec \<Rightarrow> public_key \<Rightarrow> token_address \<Rightarrow> action_state \<Rightarrow> u32 \<Rightarrow> 'd \<Rightarrow> 'd run" where
  "set_action D C pk token action index d =
     map_ok (\<lambda>k. db_put D zkapp_actions_cf k (json C action) d) (zkapp_actions_key token pk index)"

definition add_actions ::
    "('d, 'j) db_ops \<Rightarrow> (action_state, 'j) codec \<Rightarrow> public_key \<Rightarrow> token_address \<Rightarrow> action_state list \<Rightarrow> 'd \<Rightarrow> (u32 \<times> 'd) run" where
  "add_actions D C pk token actions d =
     bind_ok (get_num_actions D pk token d) (\<lambda>idx.
     bind_ok (fold_ok (\<lambda>action (num, d). map_ok (\<lambda>d. (num + 1, d)) (set_action D C pk token action num d))
       actions (unwrap_or idx 0, d)) (\<lambda>(num, d).
     map_ok (\<lambda>k. (num, db_put D zkapp_actions_pk_num_cf k (raw_u32 num) d)) (zkapp_actions_pk_num_key token pk)))"

definition remove_action :: "('d, 'j) db_ops \<Rightarrow> public_key \<Rightarrow> token_address \<Rightarrow> u32 \<Rightarrow> 'd \<Rightarrow> 'd run" where
  "remove_action D pk token index d =
     map_ok (\<lambda>k. db_delete D zkapp_actions_cf k d) (zkapp_actions_key token pk index)"

definition remove_actions ::
    "('d, 'j) db_ops \<Rightarrow> public_key \<Rightarrow> token_address \<Rightarrow> u32 \<Rightarrow> 'd \<Rightarrow> (u32 \<times> 'd) run" where
  "remove_actions D pk token n d =
     bind_ok (get_num_actions D pk token d) (\<lambda>num. let num = unwrap_or num 0 in
     if n \<le> num
     then bind_ok (fold_ok (\<lambda>_ (num, d). map_ok (\<lambda>d. (num - 1, d)) (remove_action D pk token (num - 1) d))
         [0..<unat n] (num, d)) (\<lambda>(num, d).
       map_ok (\<lambda>k. (num, db_put D zkapp_actions_pk_num_cf k (raw_u32 num) d)) (zkapp_actions_pk_num_key token pk))
     else Inl AssertionFailed)"

section \<open>Events\<close>

definition get_num_events :: "('d, 'j) db_ops \<Rightarrow> public_key \<Rightarrow> token_address \<Rightarrow> 'd \<Rightarrow> u32 option run" where
  "get_num_events D pk token d =
     bind_ok (zkapp_events_pk_num_key token pk) (\<lambda>k. get_u32 D zkapp_events_pk_num_cf k d)"

definition get_zkapp_event ::
    "('d, 'j) db_ops \<Rightarrow> (zkapp_event, 'j) codec \<Rightarrow> public_key \<Rightarrow> token_address \<Rightarrow> u32 \<Rightarrow> 'd \<Rightarrow> zkapp_event option run" where
  "get_zkapp_event D C pk token index d =
     bind_ok (zkapp_events_key token pk index) (\<lambda>k. expect_json D C zkapp_events_cf k d)"

definition set_event ::
    "('d, 'j) db_ops \<Rightarrow> (zkapp_event, 'j) codec \<Rightarrow> public_key \<Rightarrow> token_address \<Rightarrow> zkapp_event \<Rightarrow> u32 \<Rightarrow> 'd \<Rightarrow> 'd run" where
  "set_event D C pk token event index d =
     map_ok (\<lambda>k. db_put D zkapp_events_cf k (json C event) d) (zkapp_events_key token pk index)"

definition add_events ::
    "('d, 'j) db_ops \<Rightarrow> (zkapp_event, 'j) codec \<Rightarrow> public_key \<Rightarrow> token_address \<Rightarrow> zkapp_event list \<Rightarrow> 'd \<Rightarrow> (u32 \<times> 'd) run" where
  "add_events D C pk token events d =
     bind_ok (get_num_events D pk token d) (\<lambda>idx.
     bind_ok (fold_ok (\<lambda>event (num, d). map_ok (\<lambda>d. (num + 1, d)) (set_event D C pk token event num d))
       events (unwrap_or idx 0, d)) (\<lambda>(num, d).
     map_ok (\<lambda>k. (num, db_put D zkapp_events_pk_num_cf k (raw_u32 num) d)) (zkapp_events_pk_num_key token pk)))"

definition remove_event :: "('d, 'j) db_ops \<Rightarrow> public_key \<Rightarrow> token_address \<Rightarrow> u32 \<Rightarrow> 'd \<Rightarrow> 'd run" where
  "remove_event D pk token index d =
     map_ok (\<lambda>k. db_delete D zkapp_events_cf k d) (zkapp_events_key token pk index)"

definition remove_events ::
    "('d, 'j) db_ops \<Rightarrow> public_key \<Rightarrow> token_address \<Rightarrow> u32 \<Rightarrow> 'd \<Rightarrow> (u32 \<times> 'd) run" where
  "remove_events D pk token n d =
     bind_ok (get_num_events D pk token d) (\<lambda>num. let num = unwrap_or num 0 in
     if n \<le> num
     then bind_ok (fold_ok (\<lambda>_ (num, d). map_ok (\<lambda>d. (num - 1, d)) (remove_event D pk token (num - 1) d))
         [0..<unat n] (num, d)) (\<lambda>(num, d).
       map_ok (\<lambda>k. (num, db_put D zkapp_events_pk_num_cf k (raw_u32 num) d)) (zkapp_events_pk_num_key token pk))
     else Inl AssertionFailed)"

section \<open>Token accounts\<close>

text \<open>A token account and the keys of its lists.\<close>

definition stored_account :: "public_key \<times> token_address \<Rightarrow> bool" where
  "stored_account a \<longleftrightarrow> length (fst a) = PUBLIC_KEY_LEN \<and> length (snd a) = TOKEN_ADDRESS_LEN"

definition account_num_key :: "public_key \<times> token_address \<Rightarrow> bytes" where
  "account_num_key a = snd a @ fst a"

definition account_elem_key :: "public_key \<times> token_address \<Rightarrow> u32 \<Rightarrow> bytes" where
  "account_elem_key a n = snd a @ fst a @ to_be_bytes n"

lemma account_keys:
  assumes "stored_account (pk, token)"
  shows "token_pk_key token pk = Inr (account_num_key (pk, token))"
    "token_pk_index_key token pk n = Inr (account_elem_key (pk, token) n)"
  using assms by (simp_all add: stored_account_def token_pk_key_def token_pk_index_key_def account_num_key_def
      account_elem_key_def)

lemma account_num_key_eq: "stored_account a \<Longrightarrow> stored_account b \<Longrightarrow> account_num_key a = account_num_key b \<longleftrightarrow> a = b"
  by (auto simp: stored_account_def account_num_key_def prod_eq_iff)

lemma account_elem_key_eq:
  "stored_account a \<Longrightarrow> stored_account b \<Longrightarrow> account_elem_key a m = account_elem_key b n \<longleftrightarrow> a = b \<and> m = n"
  by (auto simp: stored_account_def account_elem_key_def prod_eq_iff)

text \<open>The store holds for every token account the list of its actions.\<close>

definition holds_actions :: "('d, 'j) db_ops \<Rightarrow> (action_state, 'j) codec \<Rightarrow> 'd \<Rightarrow> (public_key \<times> token_address \<Rightarrow> action_state list) \<Rightarrow> bool" where
  "holds_actions D C d L \<longleftrightarrow> holds_lists D zkapp_actions_pk_num_cf account_num_key zkapp_actions_cf account_elem_key stored_account d
     (\<lambda>a. map (json C) (L a))"

sublocale key_value_db \<subseteq> action_lists: list_family D zkapp_actions_pk_num_cf account_num_key zkapp_actions_cf account_elem_key stored_account
  by unfold_locales (simp_all add: account_num_key_eq account_elem_key_eq zkapp_actions_pk_num_cf_def zkapp_actions_cf_def)

lemma set_actions_put_elems:
  "stored_account (pk, token) \<Longrightarrow>
   fold_ok (\<lambda>x (num, d). map_ok (\<lambda>d. (num + 1, d)) (set_action D C pk token x num d)) xs (num, d) =
     Inr (num + word_of_nat (length xs), put_elems D zkapp_actions_cf (account_elem_key (pk, token)) num (map (json C) xs) d)"
  by (induction xs arbitrary: num d) (simp_all add: set_action_def zkapp_actions_key_def account_keys algebra_simps)

lemma remove_actions_delete_elems:
  "stored_account (pk, token) \<Longrightarrow>
   fold_ok (\<lambda>_ (num, d). map_ok (\<lambda>d. (num - 1, d)) (remove_action D pk token (num - 1) d)) ns (num, d) =
     Inr (num - word_of_nat (length ns), delete_elems D zkapp_actions_cf (account_elem_key (pk, token)) num (length ns) d)"
  by (induction ns arbitrary: num d) (simp_all add: remove_action_def zkapp_actions_key_def account_keys algebra_simps)

context key_value_db
begin

lemma get_num_actions_held:
  assumes "holds_actions D C d L" "stored_account (pk, token)"
  shows "\<exists>n. get_num_actions D pk token d = Inr n \<and> unwrap_or n 0 = word_of_nat (length (L (pk, token)))"
  using action_lists.holds_lists_count[OF assms(1)[unfolded holds_actions_def] assms(2)] assms(2)
  by (auto simp: get_num_actions_def zkapp_actions_pk_num_key_def account_keys get_count_def run_simps)

lemma add_actions_appends:
  assumes "holds_actions D C d L" "stored_account (pk, token)" "length (L (pk, token)) + length xs < 2 ^ 32"
  shows "\<exists>d'. add_actions D C pk token xs d = Inr (word_of_nat (length (L (pk, token)) + length xs), d') \<and>
    holds_actions D C d' (L((pk, token) := L (pk, token) @ xs)) \<and>
    changes D [zkapp_actions_pk_num_cf, zkapp_actions_cf] d d'"
proof -
  let ?a = "(pk, token)"
  let ?e = "put_elems D zkapp_actions_cf (account_elem_key ?a) (word_of_nat (length (L ?a))) (map (json C) xs) d"
  obtain n where n: "get_num_actions D pk token d = Inr n" "unwrap_or n 0 = word_of_nat (length (L ?a))"
    using get_num_actions_held[OF assms(1,2)] by blast
  have "changes D [zkapp_actions_pk_num_cf, zkapp_actions_cf] d ?e"
    by (rule changes_mono[OF action_lists.put_elems_changes]) auto
  moreover have "(\<lambda>b. map (json C) ((L(?a := L ?a @ xs)) b)) =
      (\<lambda>b. map (json C) (L b))(?a := map (json C) (L ?a) @ map (json C) xs)" by auto
  ultimately show ?thesis
    using action_lists.append_elems[OF assms(1)[unfolded holds_actions_def] assms(2), of "map (json C) xs"] assms(2,3) n
    by (simp add: add_actions_def set_actions_put_elems holds_actions_def zkapp_actions_pk_num_key_def account_keys changes_put)
qed

lemma get_action_held:
  assumes "holds_actions D C d L" "stored_account (pk, token)" "i < length (L (pk, token))" "json_codec C"
  shows "get_action D C pk token (word_of_nat i) d = Inr (Some (L (pk, token) ! i))"
proof -
  have "db_get D d zkapp_actions_cf (account_elem_key (pk, token) (word_of_nat i)) = Some (json C (L (pk, token) ! i))"
    using assms(1-3) by (auto simp: holds_actions_def holds_lists_def holds_list_def)
  then show ?thesis
    using assms(2) by (simp add: get_action_def zkapp_actions_key_def account_keys expect_json_def json_codec.parse_json_json[OF assms(4)])
qed

lemma remove_actions_drops:
  assumes "holds_actions D C d L" "stored_account (pk, token)" "n \<le> length (L (pk, token))"
  shows "\<exists>d'. remove_actions D pk token (word_of_nat n) d = Inr (word_of_nat (length (L (pk, token)) - n), d') \<and>
    holds_actions D C d' (L((pk, token) := take (length (L (pk, token)) - n) (L (pk, token)))) \<and>
    changes D [zkapp_actions_pk_num_cf, zkapp_actions_cf] d d'"
proof -
  let ?a = "(pk, token)"
  let ?e = "delete_elems D zkapp_actions_cf (account_elem_key ?a) (word_of_nat (length (L ?a))) n d"
  obtain m where m: "get_num_actions D pk token d = Inr m" "unwrap_or m 0 = word_of_nat (length (L ?a))"
    using get_num_actions_held[OF assms(1,2)] by blast
  have len: "length (L ?a) < 2 ^ 32" using assms(1,2) by (auto simp: holds_actions_def holds_lists_def holds_list_def)
  then have n: "unat (word_of_nat n :: u32) = n" "(word_of_nat n :: u32) \<le> word_of_nat (length (L ?a))"
    using assms(3) by (simp_all add: unat_word_of_nat_u32 word_le_nat_alt)
  have "changes D [zkapp_actions_pk_num_cf, zkapp_actions_cf] d ?e"
    by (rule changes_mono[OF action_lists.delete_elems_changes]) auto
  moreover have "(\<lambda>b. map (json C) ((L(?a := take (length (L ?a) - n) (L ?a))) b)) =
      (\<lambda>b. map (json C) (L b))(?a := take (length (L ?a) - n) (map (json C) (L ?a)))" by (auto simp: take_map)
  ultimately show ?thesis
    using action_lists.drop_elems[OF assms(1)[unfolded holds_actions_def] assms(2), of n] assms(2,3) m n
    by (simp add: remove_actions_def remove_actions_delete_elems holds_actions_def zkapp_actions_pk_num_key_def account_keys changes_put of_nat_diff Let_def)
qed

end

text \<open>The store holds for every token account the list of its events.\<close>

definition holds_events :: "('d, 'j) db_ops \<Rightarrow> (zkapp_event, 'j) codec \<Rightarrow> 'd \<Rightarrow> (public_key \<times> token_address \<Rightarrow> zkapp_event list) \<Rightarrow> bool" where
  "holds_events D C d L \<longleftrightarrow> holds_lists D zkapp_events_pk_num_cf account_num_key zkapp_events_cf account_elem_key stored_account d
     (\<lambda>a. map (json C) (L a))"

sublocale key_value_db \<subseteq> event_lists: list_family D zkapp_events_pk_num_cf account_num_key zkapp_events_cf account_elem_key stored_account
  by unfold_locales (simp_all add: account_num_key_eq account_elem_key_eq zkapp_events_pk_num_cf_def zkapp_events_cf_def)

lemma set_events_put_elems:
  "stored_account (pk, token) \<Longrightarrow>
   fold_ok (\<lambda>x (num, d). map_ok (\<lambda>d. (num + 1, d)) (set_event D C pk token x num d)) xs (num, d) =
     Inr (num + word_of_nat (length xs), put_elems D zkapp_events_cf (account_elem_key (pk, token)) num (map (json C) xs) d)"
  by (induction xs arbitrary: num d) (simp_all add: set_event_def zkapp_events_key_def account_keys algebra_simps)

lemma remove_events_delete_elems:
  "stored_account (pk, token) \<Longrightarrow>
   fold_ok (\<lambda>_ (num, d). map_ok (\<lambda>d. (num - 1, d)) (remove_event D pk token (num - 1) d)) ns (num, d) =
     Inr (num - word_of_nat (length ns), delete_elems D zkapp_events_cf (account_elem_key (pk, token)) num (length ns) d)"
  by (induction ns arbitrary: num d) (simp_all add: remove_event_def zkapp_events_key_def account_keys algebra_simps)

context key_value_db
begin

lemma get_num_events_held:
  assumes "holds_events D C d L" "stored_account (pk, token)"
  shows "\<exists>n. get_num_events D pk token d = Inr n \<and> unwrap_or n 0 = word_of_nat (length (L (pk, token)))"
  using event_lists.holds_lists_count[OF assms(1)[unfolded holds_events_def] assms(2)] assms(2)
  by (auto simp: get_num_events_def zkapp_events_pk_num_key_def account_keys get_count_def run_simps)

lemma add_events_appends:
  assumes "holds_events D C d L" "stored_account (pk, token)" "length (L (pk, token)) + length xs < 2 ^ 32"
  shows "\<exists>d'. add_events D C pk token xs d = Inr (word_of_nat (length (L (pk, token)) + length xs), d') \<and>
    holds_events D C d' (L((pk, token) := L (pk, token) @ xs)) \<and>
    changes D [zkapp_events_pk_num_cf, zkapp_events_cf] d d'"
proof -
  let ?a = "(pk, token)"
  let ?e = "put_elems D zkapp_events_cf (account_elem_key ?a) (word_of_nat (length (L ?a))) (map (json C) xs) d"
  obtain n where n: "get_num_events D pk token d = Inr n" "unwrap_or n 0 = word_of_nat (length (L ?a))"
    using get_num_events_held[OF assms(1,2)] by blast
  have "changes D [zkapp_events_pk_num_cf, zkapp_events_cf] d ?e"
    by (rule changes_mono[OF event_lists.put_elems_changes]) auto
  moreover have "(\<lambda>b. map (json C) ((L(?a := L ?a @ xs)) b)) =
      (\<lambda>b. map (json C) (L b))(?a := map (json C) (L ?a) @ map (json C) xs)" by auto
  ultimately show ?thesis
    using event_lists.append_elems[OF assms(1)[unfolded holds_events_def] assms(2), of "map (json C) xs"] assms(2,3) n
    by (simp add: add_events_def set_events_put_elems holds_events_def zkapp_events_pk_num_key_def account_keys changes_put)
qed

lemma get_zkapp_event_held:
  assumes "holds_events D C d L" "stored_account (pk, token)" "i < length (L (pk, token))" "json_codec C"
  shows "get_zkapp_event D C pk token (word_of_nat i) d = Inr (Some (L (pk, token) ! i))"
proof -
  have "db_get D d zkapp_events_cf (account_elem_key (pk, token) (word_of_nat i)) = Some (json C (L (pk, token) ! i))"
    using assms(1-3) by (auto simp: holds_events_def holds_lists_def holds_list_def)
  then show ?thesis
    using assms(2) by (simp add: get_zkapp_event_def zkapp_events_key_def account_keys expect_json_def json_codec.parse_json_json[OF assms(4)])
qed

lemma remove_events_drops:
  assumes "holds_events D C d L" "stored_account (pk, token)" "n \<le> length (L (pk, token))"
  shows "\<exists>d'. remove_events D pk token (word_of_nat n) d = Inr (word_of_nat (length (L (pk, token)) - n), d') \<and>
    holds_events D C d' (L((pk, token) := take (length (L (pk, token)) - n) (L (pk, token)))) \<and>
    changes D [zkapp_events_pk_num_cf, zkapp_events_cf] d d'"
proof -
  let ?a = "(pk, token)"
  let ?e = "delete_elems D zkapp_events_cf (account_elem_key ?a) (word_of_nat (length (L ?a))) n d"
  obtain m where m: "get_num_events D pk token d = Inr m" "unwrap_or m 0 = word_of_nat (length (L ?a))"
    using get_num_events_held[OF assms(1,2)] by blast
  have len: "length (L ?a) < 2 ^ 32" using assms(1,2) by (auto simp: holds_events_def holds_lists_def holds_list_def)
  then have n: "unat (word_of_nat n :: u32) = n" "(word_of_nat n :: u32) \<le> word_of_nat (length (L ?a))"
    using assms(3) by (simp_all add: unat_word_of_nat_u32 word_le_nat_alt)
  have "changes D [zkapp_events_pk_num_cf, zkapp_events_cf] d ?e"
    by (rule changes_mono[OF event_lists.delete_elems_changes]) auto
  moreover have "(\<lambda>b. map (json C) ((L(?a := take (length (L ?a) - n) (L ?a))) b)) =
      (\<lambda>b. map (json C) (L b))(?a := take (length (L ?a) - n) (map (json C) (L ?a)))" by (auto simp: take_map)
  ultimately show ?thesis
    using event_lists.drop_elems[OF assms(1)[unfolded holds_events_def] assms(2), of n] assms(2,3) m n
    by (simp add: remove_events_def remove_events_delete_elems holds_events_def zkapp_events_pk_num_key_def account_keys changes_put of_nat_diff Let_def)
qed

end

context key_value_db
begin

lemma actions_added_removed:
  assumes "json_codec C" "holds_actions D C d L" "stored_account (pk, token)" "length (L (pk, token)) + length xs < 2 ^ 32"
  shows "\<exists>d' d''. add_actions D C pk token xs d = Inr (word_of_nat (length (L (pk, token)) + length xs), d') \<and>
    (\<forall>i<length (L (pk, token) @ xs). get_action D C pk token (word_of_nat i) d' = Inr (Some ((L (pk, token) @ xs) ! i))) \<and>
    remove_actions D pk token (word_of_nat (length xs)) d' = Inr (word_of_nat (length (L (pk, token))), d'') \<and>
    holds_actions D C d'' L"
proof -
  obtain d' where d': "add_actions D C pk token xs d = Inr (word_of_nat (length (L (pk, token)) + length xs), d')"
    "holds_actions D C d' (L((pk, token) := L (pk, token) @ xs))"
    using add_actions_appends[OF assms(2-4)] by blast
  moreover have "L((pk, token) := L (pk, token)) = L" by simp
  ultimately show ?thesis
    using remove_actions_drops[OF d'(2) assms(3), of "length xs"] get_action_held[OF d'(2) assms(3) _ assms(1)] by auto
qed

end

text \<open>
  C23: actions added to a token account are read back in order after its earlier ones, and removing as many
  restores the lists of all accounts.
\<close>

theorem zkapp_actions_roundtrip:
  assumes "key_value_db D" "json_codec C" "holds_actions D C d L" "stored_account (pk, token)"
    "length (L (pk, token)) + length xs < 2 ^ 32"
  shows "\<exists>d' d''. add_actions D C pk token xs d = Inr (word_of_nat (length (L (pk, token)) + length xs), d') \<and>
    (\<forall>i<length (L (pk, token) @ xs). get_action D C pk token (word_of_nat i) d' = Inr (Some ((L (pk, token) @ xs) ! i))) \<and>
    remove_actions D pk token (word_of_nat (length xs)) d' = Inr (word_of_nat (length (L (pk, token))), d'') \<and>
    holds_actions D C d'' L"
  using key_value_db.actions_added_removed[OF assms] .

theorem zkapp_actions_roundtrip_witness:
  "\<exists>d' d''. add_actions assoc_ops id_codec public_key_default MINA_TOKEN_ADDRESS [''0x01'', ''0x02''] [] =
      Inr (word_of_nat (length ([] :: action_state list) + length [''0x01'', ''0x02'']), d') \<and>
    (\<forall>i<length ([] @ [''0x01'', ''0x02'']). get_action assoc_ops id_codec public_key_default MINA_TOKEN_ADDRESS (word_of_nat i) d' =
      Inr (Some (([] @ [''0x01'', ''0x02'']) ! i))) \<and>
    remove_actions assoc_ops public_key_default MINA_TOKEN_ADDRESS (word_of_nat (length [''0x01'', ''0x02''])) d' =
      Inr (word_of_nat (length ([] :: action_state list)), d'') \<and>
    holds_actions assoc_ops id_codec d'' (\<lambda>_. [])"
  by (rule zkapp_actions_roundtrip[OF assoc.key_value_db_axioms idc.json_codec_axioms, where L = "\<lambda>_. []"])
    (simp_all add: holds_actions_def holds_lists_def holds_list_def get_count_def get_u32_def stored_account_def
      public_key_default_def MINA_TOKEN_ADDRESS_def len_defs)

end
