(* ===== verification/Best_Ledger_Store.thy ===== *)
theory Best_Ledger_Store
  imports Zkapp_Stores Canonicity_Store Ledgers
begin

text \<open>
  The best ledger in the database (\<open>ledger/store/best.rs\<close>, \<open>store/best_ledger_store_impl.rs\<close>): the account of
  every public key and token, an index by balance, the same two for zkapp accounts, the number of
  accounts and the delegations.  \<open>A\<close>, \<open>AC\<close> and \<open>EC\<close> are the codecs of accounts, actions and events.
\<close>

section \<open>Accounts\<close>

definition TOTAL_NUM_ACCOUNTS_KEY :: bytes where
  "TOTAL_NUM_ACCOUNTS_KEY = ''total_num_accounts''"

definition get_best_account ::
    "('d, 'j) db_ops \<Rightarrow> (account, 'j) codec \<Rightarrow> public_key \<Rightarrow> token_address \<Rightarrow> 'd \<Rightarrow> account option run" where
  "get_best_account D A pk token d =
     bind_ok (best_account_key token pk) (\<lambda>k. expect_json D A best_ledger_accounts_cf k d)"

definition get_best_account_display ::
    "('d, 'j) db_ops \<Rightarrow> (account, 'j) codec \<Rightarrow> public_key \<Rightarrow> token_address \<Rightarrow> 'd \<Rightarrow> account option run" where
  "get_best_account_display D A pk token d = map_ok (map_option display) (get_best_account D A pk token d)"

definition remove_best_account ::
    "('d, 'j) db_ops \<Rightarrow> public_key \<Rightarrow> token_address \<Rightarrow> bool \<times> u64 \<Rightarrow> 'd \<Rightarrow> 'd run" where
  "remove_best_account D pk token before d =
     bind_ok (best_account_key token pk) (\<lambda>account_key.
     map_ok (\<lambda>sort_key.
       let d = db_delete D best_ledger_accounts_cf account_key d;
           d = db_delete D best_ledger_accounts_balance_sort_cf sort_key d
       in if fst before
          then db_delete D zkapp_best_ledger_accounts_balance_sort_cf sort_key
            (db_delete D zkapp_best_ledger_accounts_cf account_key d)
          else d)
       (best_account_sort_key token (snd before) pk))"

definition delete_stale_balance ::
    "('d, 'j) db_ops \<Rightarrow> public_key \<Rightarrow> token_address \<Rightarrow> bool \<times> u64 \<Rightarrow> 'd \<Rightarrow> 'd run" where
  "delete_stale_balance D pk token before d =
     map_ok (\<lambda>sort_key.
       let d = db_delete D best_ledger_accounts_balance_sort_cf sort_key d
       in if fst before then db_delete D zkapp_best_ledger_accounts_balance_sort_cf sort_key d else d)
       (best_account_sort_key token (snd before) pk)"

definition store_best_account ::
    "('d, 'j) db_ops \<Rightarrow> (account, 'j) codec \<Rightarrow> public_key \<Rightarrow> token_address \<Rightarrow> account \<Rightarrow> 'd \<Rightarrow> 'd run" where
  "store_best_account D A pk token after d =
     bind_ok (best_account_key token pk) (\<lambda>account_key.
     map_ok (\<lambda>sort_key.
       let d = db_put D best_ledger_accounts_cf account_key (json A after) d;
           d = db_put D best_ledger_accounts_balance_sort_cf sort_key (json A after) d
       in if is_zkapp_account after
          then db_put D zkapp_best_ledger_accounts_balance_sort_cf sort_key (json A after)
            (db_put D zkapp_best_ledger_accounts_cf account_key (json A after) d)
          else d)
       (best_account_sort_key token (acct_balance after) pk))"

definition update_best_account ::
    "('d, 'j) db_ops \<Rightarrow> (account, 'j) codec \<Rightarrow> public_key \<Rightarrow> token_address \<Rightarrow> (bool \<times> u64) option \<Rightarrow> account option \<Rightarrow>
     'd \<Rightarrow> 'd run" where
  "update_best_account D A pk token before after d =
     (case after of
        None \<Rightarrow> (case before of Some b \<Rightarrow> remove_best_account D pk token b d | None \<Rightarrow> Inr d)
      | Some a \<Rightarrow>
          bind_ok (case before of Some b \<Rightarrow> delete_stale_balance D pk token b d | None \<Rightarrow> Inr d)
            (store_best_account D A pk token a))"

section \<open>Delegations and the number of accounts\<close>

definition get_num_pk_delegations :: "('d, 'j) db_ops \<Rightarrow> public_key \<Rightarrow> 'd \<Rightarrow> u32 run" where
  "get_num_pk_delegations D pk d = get_count D best_ledger_accounts_num_delegations_cf pk d"

definition add_pk_delegate :: "('d, 'j) db_ops \<Rightarrow> public_key \<Rightarrow> public_key \<Rightarrow> 'd \<Rightarrow> 'd run" where
  "add_pk_delegate D pk delegate d =
     bind_ok (get_num_pk_delegations D pk d) (\<lambda>num.
     let d = db_put D best_ledger_accounts_num_delegations_cf pk (raw_u32 (num + 1)) d in
     map_ok (\<lambda>k. db_put D best_ledger_accounts_delegations_cf k (Raw delegate) d) (pk_index_key pk num))"

definition get_pk_delegation :: "('d, 'j) db_ops \<Rightarrow> public_key \<Rightarrow> u32 \<Rightarrow> 'd \<Rightarrow> public_key option run" where
  "get_pk_delegation D pk idx d =
     map_ok (\<lambda>k. get_pk D best_ledger_accounts_delegations_cf k d) (pk_index_key pk idx)"

definition remove_pk_delegate :: "('d, 'j) db_ops \<Rightarrow> public_key \<Rightarrow> 'd \<Rightarrow> 'd run" where
  "remove_pk_delegate D pk d =
     bind_ok (get_num_pk_delegations D pk d) (\<lambda>idx.
     if 0 < idx
     then let d = db_put D best_ledger_accounts_num_delegations_cf pk (raw_u32 (idx - 1)) d in
       map_ok (\<lambda>k. db_delete D best_ledger_accounts_delegations_cf k d) (pk_index_key pk (idx - 1))
     else Inr d)"

definition get_num_accounts :: "('d, 'j) db_ops \<Rightarrow> 'd \<Rightarrow> u32 option run" where
  "get_num_accounts D d = get_u32 D DEFAULT_CF TOTAL_NUM_ACCOUNTS_KEY d"

text \<open>\<open>adjust\<close> is an \<open>i32\<close>: its sign decides, its absolute value is added or taken away.\<close>

definition update_num_accounts :: "('d, 'j) db_ops \<Rightarrow> 32 word \<Rightarrow> 'd \<Rightarrow> 'd run" where
  "update_num_accounts D adjust d =
     (if adjust = 0 then Inr d
      else map_ok (\<lambda>old.
          db_put D DEFAULT_CF TOTAL_NUM_ACCOUNTS_KEY
            (raw_u32 (if 0 \<le> sint adjust then sat_add (unwrap_or old 0) adjust
              else sat_sub (unwrap_or old 0) (- adjust))) d)
        (get_num_accounts D d))"

section \<open>Applying and unapplying blocks\<close>

definition diff_account :: "account_diff \<Rightarrow> public_key \<times> token_address" where
  "diff_account d = (diff_public_key d, diff_token_address d)"

text \<open>
  The hash map of the diffs of each token account, as entries with distinct keys.  \<open>order\<close> is the order in
  which its entries are iterated.
\<close>

type_synonym account_entries = "((public_key \<times> token_address) \<times> account_diff list) list"

fun aggregate_token_account_diffs :: "account_diff list \<Rightarrow> account_entries \<Rightarrow> account_entries" where
  "aggregate_token_account_diffs [] m = m"
| "aggregate_token_account_diffs (diff # diffs) m =
     aggregate_token_account_diffs diffs
       ((diff_account diff, unwrap_or (map_of m (diff_account diff)) [] @ [diff]) #
        filter (\<lambda>e. fst e \<noteq> diff_account diff) m)"

definition unapply_best_diff :: "('d, 'j) db_ops \<Rightarrow> public_key \<times> token_address \<Rightarrow> account_diff \<Rightarrow> account \<times> 'd \<Rightarrow>
    (account \<times> 'd) run" where
  "unapply_best_diff D key diff s = (case s of (after, d) \<Rightarrow>
     (case diff of
        Payment x \<Rightarrow> Inr (payment_unapply x after, d)
      | FeeTransfer x \<Rightarrow> Inr (payment_unapply x after, d)
      | FeeTransferViaCoinbase x \<Rightarrow> Inr (payment_unapply x after, d)
      | CoinbaseD x \<Rightarrow> Inr (coinbase_unapply x after, d)
      | Delegation x \<Rightarrow> map_ok (\<lambda>d. (delegation_unapply x after, d)) (remove_pk_delegate D (fst key) d)
      | FailedTransactionNonce x \<Rightarrow> Inr (failed_transaction_unapply x after, d)
      | ZkappActionsDiff x \<Rightarrow>
          map_ok (\<lambda>(_, d). (after, d)) (remove_actions D (fst key) (snd key) (word_of_nat (length (zac_actions x))) d)
      | ZkappEventsDiff x \<Rightarrow>
          map_ok (\<lambda>(_, d). (after, d)) (remove_events D (fst key) (snd key) (word_of_nat (length (zev_events x))) d)
      | Zkapp _ \<Rightarrow> Inl UnreachableCode
      | _ \<Rightarrow> Inr (after, d)))"

definition apply_best_diff :: "('d, 'j) db_ops \<Rightarrow> (action_state, 'j) codec \<Rightarrow> (zkapp_event, 'j) codec \<Rightarrow> account_diff \<Rightarrow>
    account \<times> 'd \<Rightarrow> (account \<times> 'd) run" where
  "apply_best_diff D AC EC diff s = (case s of (after, d) \<Rightarrow>
     (case diff of
        Payment x \<Rightarrow> Inr (account_payment x after, d)
      | FeeTransfer x \<Rightarrow> Inr (account_payment x after, d)
      | FeeTransferViaCoinbase x \<Rightarrow> Inr (account_payment x after, d)
      | CoinbaseD x \<Rightarrow> Inr (coinbase (cd_amount x) after, d)
      | Delegation x \<Rightarrow> Inr (account_delegation (dd_delegate x) (dd_nonce x) after, d)
      | FailedTransactionNonce x \<Rightarrow> Inr (failed_transaction (fd_nonce x) after, d)
      | ZkappStateDiff x \<Rightarrow> map_ok (\<lambda>a. (a, d)) (zkapp_state x after)
      | ZkappPermissionsDiff x \<Rightarrow> Inr (zkapp_permissions x after, d)
      | ZkappVerificationKeyDiff x \<Rightarrow> Inr (zkapp_verification_key x after, d)
      | ZkappUriDiff x \<Rightarrow> Inr (zkapp_uri x after, d)
      | ZkappTokenSymbolDiff x \<Rightarrow> Inr (zkapp_token_symbol x after, d)
      | ZkappTimingDiff x \<Rightarrow> Inr (zkapp_timing x after, d)
      | ZkappVotingForDiff x \<Rightarrow> Inr (zkapp_voting_for x after, d)
      | ZkappIncrementNonce x \<Rightarrow> Inr (zkapp_nonce x after, d)
      | ZkappAccountCreationFee x \<Rightarrow> map_ok (\<lambda>a. (a, d)) (zkapp_account_creation x after)
      | ZkappActionsDiff x \<Rightarrow>
          map_ok (\<lambda>(_, d). (after, d)) (add_actions D AC (zt_public_key x) (zt_token x) (zac_actions x) d)
      | ZkappEventsDiff x \<Rightarrow>
          map_ok (\<lambda>(_, d). (after, d)) (add_events D EC (zt_public_key x) (zt_token x) (zev_events x) d)
      | Zkapp _ \<Rightarrow> Inl UnreachableCode))"

definition before_values :: "account \<Rightarrow> bool \<times> u64" where
  "before_values a = (is_zkapp_account a, acct_balance a)"

definition change_best_account :: "('d, 'j) db_ops \<Rightarrow> (account, 'j) codec \<Rightarrow>
    (account_diff \<Rightarrow> account \<times> 'd \<Rightarrow> (account \<times> 'd) run) \<Rightarrow> (public_key \<times> token_address) \<times> account_diff list \<Rightarrow> 'd \<Rightarrow> 'd run" where
  "change_best_account D A f e d = (case e of ((pk, token), diffs) \<Rightarrow>
     bind_ok (get_best_account D A pk token d) (\<lambda>before.
     bind_ok (fold_ok f diffs (unwrap_or before (account_empty pk token), d)) (\<lambda>(after, d).
     update_best_account D A pk token (map_option before_values before) (Some after) d)))"

type_synonym account_update = "account_diff list \<times> (public_key \<times> token_address) list"

definition unapply_best_block :: "('d, 'j) db_ops \<Rightarrow> (account, 'j) codec \<Rightarrow> (account_entries \<Rightarrow> account_entries) \<Rightarrow>
    account_update \<Rightarrow> 'd \<Rightarrow> 'd run" where
  "unapply_best_block D A order u d =
     bind_ok (fold_ok (\<lambda>e. change_best_account D A (unapply_best_diff D (fst e)) e)
         (order (aggregate_token_account_diffs (fst u) [])) d)
       (fold_ok (\<lambda>(pk, token). update_best_account D A pk token None None) (snd u))"

definition apply_best_block :: "('d, 'j) db_ops \<Rightarrow> (account, 'j) codec \<Rightarrow> (action_state, 'j) codec \<Rightarrow> (zkapp_event, 'j) codec \<Rightarrow>
    (account_entries \<Rightarrow> account_entries) \<Rightarrow> account_update \<Rightarrow> 'd \<Rightarrow> 'd run" where
  "apply_best_block D A AC EC order u d =
     fold_ok (change_best_account D A (apply_best_diff D AC EC)) (order (aggregate_token_account_diffs (fst u) [])) d"

text \<open>The change of the number of accounts, in \<open>i32\<close> arithmetic.\<close>

definition accounts_adjust :: "account_update db_update \<Rightarrow> 32 word" where
  "accounts_adjust updates =
     fold (\<lambda>u acc. acc - word_of_nat (length (snd u))) (du_unapply updates)
       (fold (\<lambda>u acc. acc + word_of_nat (length (snd u))) (du_apply updates) 0)"

definition update_best_accounts :: "('d, 'j) db_ops \<Rightarrow> (account, 'j) codec \<Rightarrow> (action_state, 'j) codec \<Rightarrow>
    (zkapp_event, 'j) codec \<Rightarrow> (account_entries \<Rightarrow> account_entries) \<Rightarrow> account_update db_update \<Rightarrow> 'd \<Rightarrow> 'd run" where
  "update_best_accounts D A AC EC order updates d =
     bind_ok (update_num_accounts D (accounts_adjust updates) d) (\<lambda>d.
     bind_ok (fold_ok (unapply_best_block D A order) (du_unapply updates) d)
       (fold_ok (apply_best_block D A AC EC order) (du_apply updates)))"

text \<open>
  \<open>keys\<close> lists the token accounts of a diff's new balances in the order of the hash set.  Blocks without a
  stored diff are skipped.
\<close>

definition account_update_of :: "('d, 'j) db_ops \<Rightarrow> (ledger_diff, 'j) codec \<Rightarrow> (pk_balances \<Rightarrow> (public_key \<times> token_address) list) \<Rightarrow>
    'd \<Rightarrow> block_update \<Rightarrow> account_update list" where
  "account_update_of D L keys d u =
     (case get_block_ledger_diff D L (bu_state_hash u) d of
        None \<Rightarrow> [] | Some diff \<Rightarrow> [(concat (ld_account_diffs diff), keys (ld_new_pk_balances diff))])"

definition update_block_best_accounts :: "('d, 'j) db_ops \<Rightarrow> (account, 'j) codec \<Rightarrow> (action_state, 'j) codec \<Rightarrow>
    (zkapp_event, 'j) codec \<Rightarrow> (ledger_diff, 'j) codec \<Rightarrow> (account_entries \<Rightarrow> account_entries) \<Rightarrow>
    (pk_balances \<Rightarrow> (public_key \<times> token_address) list) \<Rightarrow> block_update db_update \<Rightarrow> 'd \<Rightarrow> 'd run" where
  "update_block_best_accounts D A AC EC L order keys blocks d =
     update_best_accounts D A AC EC order
       \<lparr>du_apply = concat (map (account_update_of D L keys d) (du_apply blocks)),
        du_unapply = concat (map (account_update_of D L keys d) (du_unapply blocks))\<rparr> d"

section \<open>Building the ledger\<close>

text \<open>A document that does not parse is an error; the accounts of all tokens end in one map by public key.\<close>

fun collect_accounts :: "(account, 'j) codec \<Rightarrow> (bytes \<times> 'j stored) list \<Rightarrow> (public_key \<rightharpoonup> account) \<Rightarrow>
    (public_key \<rightharpoonup> account) option" where
  "collect_accounts A [] m = Some m"
| "collect_accounts A ((_, v) # es) m =
     (case parse_json A v of None \<Rightarrow> None | Some a \<Rightarrow> collect_accounts A es (m(acct_public_key a \<mapsto> a)))"

definition build_best_ledger ::
    "('d, 'j) db_ops \<Rightarrow> (account, 'j) codec \<Rightarrow> 'd \<Rightarrow> ledger option option run" where
  "build_best_ledger D A d =
     map_ok (\<lambda>height.
       if height = None \<or> get_best_block_hash D d = None then Some None
       else map_option (\<lambda>m. Some (from_mina_ledger \<lparr>accounts = m\<rparr>))
         (collect_accounts A (db_iterator D d best_ledger_accounts_balance_sort_cf FromEnd) Map.empty))
       (get_best_block_height D d)"

end
