(* ===== verification/Best_Ledgers.thy ===== *)
theory Best_Ledgers
  imports Best_Ledger_Store
begin

text \<open>
  The best ledger in the database agrees with its indices and follows the ledger in memory.
\<close>

section \<open>Held accounts\<close>

definition best_sort_key :: "public_key \<times> token_address \<Rightarrow> u64 \<Rightarrow> bytes" where
  "best_sort_key k b = snd k @ to_be_bytes b @ fst k"

definition best_cfs :: "column_family list" where
  "best_cfs = [best_ledger_accounts_cf, best_ledger_accounts_balance_sort_cf, zkapp_best_ledger_accounts_cf,
     zkapp_best_ledger_accounts_balance_sort_cf]"

lemmas best_cf_defs = best_ledger_accounts_cf_def best_ledger_accounts_balance_sort_cf_def
  zkapp_best_ledger_accounts_cf_def zkapp_best_ledger_accounts_balance_sort_cf_def

text \<open>
  The store holds the accounts \<open>B\<close>: each under its key, in the index exactly under its balance, and the
  zkapp accounts a second time.
\<close>

definition best_entry :: "('d, 'j) db_ops \<Rightarrow> (account, 'j) codec \<Rightarrow> 'd \<Rightarrow> public_key \<times> token_address \<Rightarrow> account option \<Rightarrow> bool" where
  "best_entry D A d k acct \<longleftrightarrow>
     db_get D d best_ledger_accounts_cf (account_num_key k) = map_option (json A) acct \<and>
     db_get D d zkapp_best_ledger_accounts_cf (account_num_key k) =
       map_option (json A) (Option.bind acct (\<lambda>a. if is_zkapp_account a then Some a else None)) \<and>
     (\<forall>b. db_get D d best_ledger_accounts_balance_sort_cf (best_sort_key k b) =
       map_option (json A) (Option.bind acct (\<lambda>a. if acct_balance a = b then Some a else None))) \<and>
     (\<forall>b. db_get D d zkapp_best_ledger_accounts_balance_sort_cf (best_sort_key k b) =
       map_option (json A) (Option.bind acct (\<lambda>a. if is_zkapp_account a \<and> acct_balance a = b then Some a else None)))"

definition holds_best :: "('d, 'j) db_ops \<Rightarrow> (account, 'j) codec \<Rightarrow> 'd \<Rightarrow> (public_key \<times> token_address \<rightharpoonup> account) \<Rightarrow> bool" where
  "holds_best D A d B \<longleftrightarrow> (\<forall>k. stored_account k \<longrightarrow> best_entry D A d k (B k))"

lemma best_sort_key_eq:
  "stored_account k \<Longrightarrow> stored_account k' \<Longrightarrow> best_sort_key k b = best_sort_key k' b' \<longleftrightarrow> k = k' \<and> b = b'"
  by (auto simp: stored_account_def best_sort_key_def prod_eq_iff)

lemma best_keys:
  assumes "stored_account (pk, token)"
  shows "best_account_key token pk = Inr (account_num_key (pk, token))"
    "best_account_sort_key token b pk = Inr (best_sort_key (pk, token) b)"
  using assms by (simp_all add: stored_account_def best_account_key_def best_account_sort_key_def account_num_key_def
      best_sort_key_def)

lemma holds_best_changes: "changes D cfs d e \<Longrightarrow> set best_cfs \<inter> set cfs = {} \<Longrightarrow> holds_best D A e B \<longleftrightarrow> holds_best D A d B"
  by (simp add: holds_best_def best_entry_def changes_get best_cfs_def)

context key_value_db
begin

lemma get_best_account_held:
  assumes "holds_best D A d B" "stored_account (pk, token)" "json_codec A"
  shows "get_best_account D A pk token d = Inr (B (pk, token))"
  using assms(1)[unfolded holds_best_def, rule_format, OF assms(2)]
  by (cases "B (pk, token)") (simp_all add: best_entry_def get_best_account_def best_keys[OF assms(2)] expect_json_def
      json_codec.parse_json_json[OF assms(3)])

text \<open>An account never stops being a zkapp account, so the zkapp entries never go stale.\<close>

lemma update_best_account_holds:
  assumes "holds_best D A d B" "stored_account (pk, token)"
    "\<And>a. B (pk, token) = Some a \<Longrightarrow> is_zkapp_account a \<Longrightarrow> is_zkapp_account a'"
  shows "\<exists>d'. update_best_account D A pk token (map_option before_values (B (pk, token))) (Some a') d = Inr d' \<and>
    holds_best D A d' (B((pk, token) \<mapsto> a')) \<and> changes D best_cfs d d'"
proof -
  let ?k = "(pk, token)"
  define d0 where "d0 = (case B ?k of None \<Rightarrow> d | Some a \<Rightarrow>
    let e = db_delete D best_ledger_accounts_balance_sort_cf (best_sort_key ?k (acct_balance a)) d
    in if is_zkapp_account a then db_delete D zkapp_best_ledger_accounts_balance_sort_cf (best_sort_key ?k (acct_balance a)) e else e)"
  define d1 where "d1 = db_put D best_ledger_accounts_balance_sort_cf (best_sort_key ?k (acct_balance a')) (json A a')
    (db_put D best_ledger_accounts_cf (account_num_key ?k) (json A a') d0)"
  define d2 where "d2 = (if is_zkapp_account a'
    then db_put D zkapp_best_ledger_accounts_balance_sort_cf (best_sort_key ?k (acct_balance a')) (json A a')
      (db_put D zkapp_best_ledger_accounts_cf (account_num_key ?k) (json A a') d1) else d1)"
  have "update_best_account D A pk token (map_option before_values (B ?k)) (Some a') d = Inr d2"
    by (cases "B ?k") (simp_all add: update_best_account_def delete_stale_balance_def store_best_account_def best_keys[OF assms(2)]
        before_values_def d0_def d1_def d2_def Let_def)
  moreover have "changes D best_cfs d d0"
    unfolding d0_def by (cases "B ?k") (auto simp: Let_def best_cfs_def intro!: changes_delete)
  then have "changes D best_cfs d d2"
    unfolding d2_def d1_def by (auto simp: best_cfs_def intro!: changes_put)
  moreover have "holds_best D A d2 (B(?k \<mapsto> a'))"
    unfolding holds_best_def
  proof (intro allI impI)
    fix k :: "public_key \<times> token_address" assume k: "stored_account k"
    note held = assms(1)[unfolded holds_best_def, rule_format, OF k]
    note eqs = account_num_key_eq[OF k assms(2)] best_sort_key_eq[OF k assms(2)]
    show "best_entry D A d2 k ((B(?k \<mapsto> a')) k)"
      unfolding best_entry_def
      by (intro conjI allI; cases "B ?k")
        (use held assms(3) in \<open>auto simp: best_entry_def d2_def d1_def d0_def get_put get_delete eqs best_cf_defs Let_def\<close>)
  qed
  ultimately show ?thesis by blast
qed

end

section \<open>What a diff does to an account\<close>

text \<open>
  The store applies a diff as the ledger does, except that it keeps the account on actions and does not
  check the delegator.
\<close>

definition best_diff :: "account_diff \<Rightarrow> account \<Rightarrow> account run" where
  "best_diff diff a =
     (case diff of
        Delegation x \<Rightarrow> Inr (account_delegation (dd_delegate x) (dd_nonce x) a)
      | ZkappActionsDiff x \<Rightarrow> Inr a
      | _ \<Rightarrow> apply_account_diff diff a)"

fun is_actions :: "account_diff \<Rightarrow> bool" where
  "is_actions (ZkappActionsDiff x) = True"
| "is_actions _ = False"

lemma best_diff_eq: "apply_account_diff diff a = Inr a' \<Longrightarrow> \<not> is_actions diff \<Longrightarrow> best_diff diff a = Inr a'"
  by (cases diff) (auto simp: best_diff_def split: if_splits)

lemma best_diff_zkapp: "best_diff diff a = Inr a' \<Longrightarrow> is_zkapp_account a \<Longrightarrow> is_zkapp_account a'"
  by (cases diff) (auto simp: best_diff_def is_zkapp_account_def account_op_defs zkapp_state_def
      zkapp_account_creation_def Let_def run_simps split: if_splits
      update_type.splits)

lemma best_diffs_eq:
  "fold_ok apply_account_diff diffs a = Inr a' \<Longrightarrow> \<forall>x\<in>set diffs. \<not> is_actions x \<Longrightarrow> fold_ok best_diff diffs a = Inr a'"
  by (induction diffs arbitrary: a) (auto simp: run_simps best_diff_eq)

lemma best_diffs_zkapp: "fold_ok best_diff diffs a = Inr a' \<Longrightarrow> is_zkapp_account a \<Longrightarrow> is_zkapp_account a'"
  by (induction diffs arbitrary: a) (auto simp: run_simps dest: best_diff_zkapp)

text \<open>The sizes of the action and event lists are readable.\<close>

definition list_cfs :: "column_family list" where
  "list_cfs = [zkapp_actions_pk_num_cf, zkapp_actions_cf, zkapp_events_pk_num_cf, zkapp_events_cf]"

lemmas list_cf_defs = zkapp_actions_pk_num_cf_def zkapp_actions_cf_def zkapp_events_pk_num_cf_def zkapp_events_cf_def

definition readable :: "('d, 'j) db_ops \<Rightarrow> 'd \<Rightarrow> bool" where
  "readable D d \<longleftrightarrow> (\<forall>k. stored_account k \<longrightarrow>
     (\<exists>n. get_u32 D zkapp_actions_pk_num_cf (account_num_key k) d = Inr n) \<and>
     (\<exists>n. get_u32 D zkapp_events_pk_num_cf (account_num_key k) d = Inr n))"

lemma readable_changes:
  "changes D cfs d e \<Longrightarrow> zkapp_actions_pk_num_cf \<notin> set cfs \<Longrightarrow> zkapp_events_pk_num_cf \<notin> set cfs \<Longrightarrow> readable D e \<longleftrightarrow> readable D d"
  by (simp add: readable_def changes_reads)

definition diff_stored :: "account_diff \<Rightarrow> bool" where
  "diff_stored diff \<longleftrightarrow> stored_account (diff_account diff) \<and>
     (case diff of ZkappActionsDiff x \<Rightarrow> stored_account (zt_public_key x, zt_token x)
      | ZkappEventsDiff x \<Rightarrow> stored_account (zt_public_key x, zt_token x) | _ \<Rightarrow> True)"

context key_value_db
begin

lemma add_actions_readable:
  assumes "readable D d" "stored_account (pk, token)"
  shows "\<exists>n d'. add_actions D C pk token xs d = Inr (n, d') \<and> changes D list_cfs d d' \<and> readable D d'"
proof -
  obtain n where n: "get_u32 D zkapp_actions_pk_num_cf (account_num_key (pk, token)) d = Inr n"
    using assms by (auto simp: readable_def)
  let ?e = "put_elems D zkapp_actions_cf (account_elem_key (pk, token)) (unwrap_or n 0) (map (json C) xs) d"
  let ?m = "unwrap_or n 0 + word_of_nat (length xs)"
  have e: "changes D [zkapp_actions_cf] d ?e" by (rule action_lists.put_elems_changes)
  have "add_actions D C pk token xs d =
      Inr (?m, db_put D zkapp_actions_pk_num_cf (account_num_key (pk, token)) (raw_u32 ?m) ?e)"
    using assms(2) n by (simp add: add_actions_def get_num_actions_def set_actions_put_elems zkapp_actions_pk_num_key_def account_keys)
  moreover have "changes D list_cfs d ?e" using e by (rule changes_mono) (simp add: list_cfs_def)
  then have "changes D list_cfs d (db_put D zkapp_actions_pk_num_cf (account_num_key (pk, token)) (raw_u32 ?m) ?e)"
    by (rule changes_put) (simp add: list_cfs_def)
  moreover have "readable D ?e" using readable_changes[OF e] assms(1) by (simp add: list_cf_defs)
  then have "readable D (db_put D zkapp_actions_pk_num_cf (account_num_key (pk, token)) (raw_u32 ?m) ?e)"
    by (auto simp: readable_def)
  ultimately show ?thesis by blast
qed

lemma add_events_readable:
  assumes "readable D d" "stored_account (pk, token)"
  shows "\<exists>n d'. add_events D C pk token xs d = Inr (n, d') \<and> changes D list_cfs d d' \<and> readable D d'"
proof -
  obtain n where n: "get_u32 D zkapp_events_pk_num_cf (account_num_key (pk, token)) d = Inr n"
    using assms by (auto simp: readable_def)
  let ?e = "put_elems D zkapp_events_cf (account_elem_key (pk, token)) (unwrap_or n 0) (map (json C) xs) d"
  let ?m = "unwrap_or n 0 + word_of_nat (length xs)"
  have e: "changes D [zkapp_events_cf] d ?e" by (rule event_lists.put_elems_changes)
  have "add_events D C pk token xs d =
      Inr (?m, db_put D zkapp_events_pk_num_cf (account_num_key (pk, token)) (raw_u32 ?m) ?e)"
    using assms(2) n by (simp add: add_events_def get_num_events_def set_events_put_elems zkapp_events_pk_num_key_def account_keys)
  moreover have "changes D list_cfs d ?e" using e by (rule changes_mono) (simp add: list_cfs_def)
  then have "changes D list_cfs d (db_put D zkapp_events_pk_num_cf (account_num_key (pk, token)) (raw_u32 ?m) ?e)"
    by (rule changes_put) (simp add: list_cfs_def)
  moreover have "readable D ?e" using readable_changes[OF e] assms(1) by (simp add: list_cf_defs)
  then have "readable D (db_put D zkapp_events_pk_num_cf (account_num_key (pk, token)) (raw_u32 ?m) ?e)"
    by (auto simp: readable_def list_cf_defs)
  ultimately show ?thesis by blast
qed

lemma apply_best_diff_pure:
  assumes "readable D d" "diff_stored diff" "best_diff diff a = Inr a'"
  shows "\<exists>d'. apply_best_diff D AC EC diff (a, d) = Inr (a', d') \<and> changes D list_cfs d d' \<and> readable D d'"
proof (cases diff)
  case (ZkappActionsDiff x)
  then show ?thesis
    using assms add_actions_readable[OF assms(1), of "zt_public_key x" "zt_token x" AC "zac_actions x"]
    by (auto simp: apply_best_diff_def best_diff_def diff_stored_def)
next
  case (ZkappEventsDiff x)
  then show ?thesis
    using assms add_events_readable[OF assms(1), of "zt_public_key x" "zt_token x" EC "zev_events x"]
    by (auto simp: apply_best_diff_def best_diff_def diff_stored_def zkapp_events_def)
qed (use assms(1,3) in \<open>auto simp: apply_best_diff_def best_diff_def run_simps\<close>)

lemma apply_best_diffs_pure:
  "readable D d \<Longrightarrow> \<forall>x\<in>set diffs. diff_stored x \<Longrightarrow> fold_ok best_diff diffs a = Inr a' \<Longrightarrow>
   \<exists>d'. fold_ok (apply_best_diff D AC EC) diffs (a, d) = Inr (a', d') \<and> changes D list_cfs d d' \<and> readable D d'"
proof (induction diffs arbitrary: a d)
  case (Cons x diffs)
  from Cons.prems(3) obtain b where b: "best_diff x a = Inr b" "fold_ok best_diff diffs b = Inr a'" by (auto simp: run_simps)
  obtain e where e: "apply_best_diff D AC EC x (a, d) = Inr (b, e)" "changes D list_cfs d e" "readable D e"
    using apply_best_diff_pure[OF Cons.prems(1) _ b(1), of AC EC] Cons.prems(2) by auto
  then show ?case using Cons.IH[OF e(3) _ b(2)] Cons.prems(2) changes_trans[OF e(2)] by auto
qed simp

lemma best_cfs_disjoint: "set best_cfs \<inter> set list_cfs = {}"
  by (simp add: best_cfs_def list_cfs_def best_cf_defs list_cf_defs)

lemma change_best_account_holds:
  assumes "holds_best D A d B" "readable D d" "json_codec A" "stored_account k" "\<forall>x\<in>set diffs. diff_stored x"
    "fold_ok best_diff diffs (unwrap_or (B k) (account_empty (fst k) (snd k))) = Inr a'"
  shows "\<exists>d'. change_best_account D A (apply_best_diff D AC EC) (k, diffs) d = Inr d' \<and> holds_best D A d' (B(k \<mapsto> a')) \<and>
    readable D d'"
proof -
  obtain pk token where k: "k = (pk, token)" by (cases k)
  obtain e where e: "fold_ok (apply_best_diff D AC EC) diffs (unwrap_or (B k) (account_empty pk token), d) = Inr (a', e)"
    "changes D list_cfs d e" "readable D e"
    using apply_best_diffs_pure[OF assms(2,5,6)] by (auto simp: k)
  have held: "holds_best D A e B" using holds_best_changes[OF e(2) best_cfs_disjoint] assms(1) by simp
  have "is_zkapp_account a'" if "B (pk, token) = Some a" "is_zkapp_account a" for a
    using best_diffs_zkapp[OF assms(6)] that by (simp add: k)
  then obtain d' where d': "update_best_account D A pk token (map_option before_values (B (pk, token))) (Some a') e = Inr d'"
    "holds_best D A d' (B((pk, token) \<mapsto> a'))" "changes D best_cfs e d'"
    using update_best_account_holds[OF held, of pk token a'] assms(4) by (auto simp: k)
  have "readable D d'" using readable_changes[OF d'(3)] e(3) by (simp add: best_cfs_def best_cf_defs list_cf_defs)
  then show ?thesis
    using e(1) d' get_best_account_held[OF assms(1) _ assms(3), of pk token] assms(4) by (simp add: change_best_account_def k)
qed

lemma change_best_accounts_hold:
  "holds_best D A d B \<Longrightarrow> readable D d \<Longrightarrow> json_codec A \<Longrightarrow> distinct (map fst es) \<Longrightarrow>
   \<forall>(k, diffs)\<in>set es. stored_account k \<and> (\<forall>x\<in>set diffs. diff_stored x) \<and>
     fold_ok best_diff diffs (unwrap_or (B k) (account_empty (fst k) (snd k))) = Inr (f k) \<Longrightarrow>
   \<exists>d'. fold_ok (change_best_account D A (apply_best_diff D AC EC)) es d = Inr d' \<and> readable D d' \<and>
     holds_best D A d' (\<lambda>k. if k \<in> fst ` set es then Some (f k) else B k)"
proof (induction es arbitrary: d B)
  case (Cons e es)
  obtain k diffs where e: "e = (k, diffs)" by (cases e)
  obtain d1 where d1: "change_best_account D A (apply_best_diff D AC EC) (k, diffs) d = Inr d1"
    "holds_best D A d1 (B(k \<mapsto> f k))" "readable D d1"
    using change_best_account_holds[OF Cons.prems(1-3), of k diffs "f k" AC EC] Cons.prems(5) by (auto simp: e)
  have k: "k \<notin> fst ` set es" using Cons.prems(4) by (auto simp: e)
  have "\<exists>d'. fold_ok (change_best_account D A (apply_best_diff D AC EC)) es d1 = Inr d' \<and> readable D d' \<and>
     holds_best D A d' (\<lambda>k'. if k' \<in> fst ` set es then Some (f k') else (B(k \<mapsto> f k)) k')"
  proof (rule Cons.IH[OF d1(2,3) Cons.prems(3)])
    show "distinct (map fst es)" using Cons.prems(4) by simp
    have "(B(k \<mapsto> f k)) (fst p) = B (fst p)" if "p \<in> set es" for p using k that by auto
    then show "\<forall>(k', diffs)\<in>set es. stored_account k' \<and> (\<forall>x\<in>set diffs. diff_stored x) \<and>
        fold_ok best_diff diffs (unwrap_or ((B(k \<mapsto> f k)) k') (account_empty (fst k') (snd k'))) = Inr (f k')"
      using Cons.prems(5) by (simp add: case_prod_beta del: fun_upd_apply)
  qed
  moreover have "(\<lambda>k'. if k' \<in> fst ` set es then Some (f k') else (B(k \<mapsto> f k)) k') =
      (\<lambda>k'. if k' \<in> fst ` set (e # es) then Some (f k') else B k')"
    using k by (auto simp: e fun_eq_iff)
  ultimately show ?case using d1(1) by (simp add: e)
qed simp

end

section \<open>Diffs by account\<close>

lemma aggregate_distinct: "distinct (map fst m) \<Longrightarrow> distinct (map fst (aggregate_token_account_diffs diffs m))"
proof (induction diffs m rule: aggregate_token_account_diffs.induct)
  case (2 diff diffs m)
  have "distinct (map fst ((diff_account diff, unwrap_or (map_of m (diff_account diff)) [] @ [diff]) #
      filter (\<lambda>e. fst e \<noteq> diff_account diff) m))"
    using 2(2) by (auto simp: distinct_map_filter)
  from 2(1)[OF this] show ?case by simp
qed simp

lemma map_of_filter_other: "map_of (filter (\<lambda>e. fst e \<noteq> k) m) k' = (if k' = k then None else map_of m k')"
  by (induction m) auto

lemma aggregate_lookup:
  "\<forall>e\<in>set m. snd e \<noteq> [] \<Longrightarrow>
   map_of (aggregate_token_account_diffs diffs m) k =
     (case unwrap_or (map_of m k) [] @ filter (\<lambda>x. diff_account x = k) diffs of [] \<Rightarrow> None | xs \<Rightarrow> Some xs)"
proof (induction diffs m rule: aggregate_token_account_diffs.induct)
  case (1 m)
  then show ?case by (cases "map_of m k") (auto split: list.splits dest!: map_of_SomeD)
next
  case (2 diff diffs m)
  then have "\<forall>e\<in>set ((diff_account diff, unwrap_or (map_of m (diff_account diff)) [] @ [diff]) #
      filter (\<lambda>e. fst e \<noteq> diff_account diff) m). snd e \<noteq> []" by auto
  from 2(1)[OF this] show ?case by (simp add: map_of_filter_other)
qed

text \<open>The accounts a block leaves, from the accounts before it.\<close>

definition best_after :: "account_diff list \<Rightarrow> (public_key \<times> token_address \<rightharpoonup> account) \<Rightarrow> (public_key \<times> token_address \<rightharpoonup> account)" where
  "best_after diffs B k =
     (case filter (\<lambda>x. diff_account x = k) diffs of [] \<Rightarrow> B k
      | xs \<Rightarrow> (case fold_ok best_diff xs (unwrap_or (B k) (account_empty (fst k) (snd k))) of Inr a \<Rightarrow> Some a | Inl _ \<Rightarrow> None))"

context key_value_db
begin

lemma apply_best_block_holds:
  assumes "holds_best D A d B" "readable D d" "json_codec A" "\<And>m. mset (order m) = mset m" "\<forall>x\<in>set diffs. diff_stored x"
    "\<And>k. filter (\<lambda>x. diff_account x = k) diffs \<noteq> [] \<Longrightarrow> best_after diffs B k \<noteq> None"
  shows "\<exists>d'. apply_best_block D A AC EC order (diffs, new) d = Inr d' \<and> holds_best D A d' (best_after diffs B) \<and> readable D d'"
proof -
  let ?m = "aggregate_token_account_diffs diffs []"
  let ?f = "\<lambda>k. the (best_after diffs B k)"
  have set: "set (order ?m) = set ?m" by (rule mset_eq_setD[OF assms(4)])
  have dist: "distinct (map fst ?m)" by (rule aggregate_distinct) simp
  then have dist': "distinct (map fst (order ?m))"
    using mset_eq_imp_distinct_iff[of "map fst (order ?m)" "map fst ?m"] assms(4)[of ?m] by simp
  have entry: "stored_account k \<and> (\<forall>x\<in>set xs. diff_stored x) \<and>
      fold_ok best_diff xs (unwrap_or (B k) (account_empty (fst k) (snd k))) = Inr (?f k)" if "(k, xs) \<in> set ?m" for k xs
  proof -
    have xs: "filter (\<lambda>x. diff_account x = k) diffs = xs" "xs \<noteq> []"
      using map_of_is_SomeI[OF dist that] aggregate_lookup[of "[]" diffs k] by (auto split: list.splits)
    then have "hd xs \<in> set (filter (\<lambda>x. diff_account x = k) diffs)" by simp
    then have k: "stored_account k" using assms(5) by (auto simp: diff_stored_def)
    have stored: "\<forall>x\<in>set xs. diff_stored x" using assms(5) xs(1) by auto
    have "best_after diffs B k \<noteq> None" using assms(6)[of k] xs by simp
    then have "fold_ok best_diff xs (unwrap_or (B k) (account_empty (fst k) (snd k))) = Inr (?f k)"
      using xs by (auto simp: best_after_def split: list.splits sum.splits)
    with k stored show ?thesis by blast
  qed
  then have entries: "\<forall>(k, xs)\<in>set (order ?m). stored_account k \<and> (\<forall>x\<in>set xs. diff_stored x) \<and>
      fold_ok best_diff xs (unwrap_or (B k) (account_empty (fst k) (snd k))) = Inr (?f k)"
    by (auto simp only: set)
  have after: "(\<lambda>k. if k \<in> fst ` set (order ?m) then Some (?f k) else B k) = best_after diffs B"
  proof
    fix k show "(if k \<in> fst ` set (order ?m) then Some (?f k) else B k) = best_after diffs B k"
    proof (cases "filter (\<lambda>x. diff_account x = k) diffs = []")
      case True
      then have "map_of ?m k = None" using aggregate_lookup[of "[]" diffs k] by simp
      then show ?thesis using True by (simp add: set map_of_eq_None_iff best_after_def)
    next
      case False
      then have "map_of ?m k \<noteq> None" using aggregate_lookup[of "[]" diffs k] by (auto split: list.splits)
      then have "k \<in> fst ` set (order ?m)" by (simp add: set map_of_eq_None_iff)
      then show ?thesis using assms(6)[OF False] by simp
    qed
  qed
  show ?thesis
    using change_best_accounts_hold[OF assms(1-3) dist' entries, of AC EC] unfolding after apply_best_block_def fst_conv
    by (elim exE conjE) (intro exI conjI)
qed

end

section \<open>The ledger in memory\<close>

definition best_of :: "ledger \<Rightarrow> (public_key \<times> token_address \<rightharpoonup> account)" where
  "best_of l = (\<lambda>(pk, token). get_account l pk token)"

lemma best_after_ledger:
  assumes "ledger_inv l" "ledger_apply_diff diff l = Inr l'" "\<forall>x\<in>set (concat (ld_account_diffs diff)). \<not> is_actions x"
  shows "best_after (concat (ld_account_diffs diff)) (best_of l) = best_of l'"
    and "filter (\<lambda>x. diff_account x = k) (concat (ld_account_diffs diff)) \<noteq> [] \<Longrightarrow> best_of l' k \<noteq> None"
proof -
  let ?xs = "\<lambda>k. filter (\<lambda>x. diff_account x = k) (concat (ld_account_diffs diff))"
  have "best_after (concat (ld_account_diffs diff)) (best_of l) k = best_of l' k \<and> (?xs k \<noteq> [] \<longrightarrow> best_of l' k \<noteq> None)" for k
  proof -
    have "filter (\<lambda>d. ledger_key d = (snd k, fst k)) (concat (ld_account_diffs diff)) = ?xs k"
      by (rule filter_cong) (auto simp: ledger_key_def diff_account_def prod_eq_iff)
    note key = ledger_apply_diff_local[OF assms(1,2), where t = "snd k" and pk = "fst k", unfolded this]
    show ?thesis
    proof (cases "?xs k")
      case Nil
      then show ?thesis using key by (simp add: best_after_def best_of_def case_prod_beta)
    next
      case (Cons x xs)
      then obtain a where a: "fold_ok apply_account_diff (?xs k)
          (unwrap_or (get_account l (fst k) (snd k)) (account_empty (fst k) (snd k))) = Inr a"
        "get_account l' (fst k) (snd k) = Some a" using key by auto
      have "\<forall>x\<in>set (?xs k). \<not> is_actions x" using assms(3) by auto
      from best_diffs_eq[OF a(1) this] a(2) Cons show ?thesis
        by (simp add: best_after_def best_of_def case_prod_beta)
    qed
  qed
  then show "best_after (concat (ld_account_diffs diff)) (best_of l) = best_of l'"
    and "?xs k \<noteq> [] \<Longrightarrow> best_of l' k \<noteq> None" by auto
qed

definition block_diffs_stored :: "ledger_diff \<Rightarrow> bool" where
  "block_diffs_stored diff \<longleftrightarrow> (\<forall>x\<in>set (concat (ld_account_diffs diff)). diff_stored x \<and> \<not> is_actions x)"

context key_value_db
begin

lemma apply_best_block_ledger:
  assumes "holds_best D A d (best_of l)" "readable D d" "json_codec A" "\<And>m. mset (order m) = mset m"
    "ledger_inv l" "ledger_apply_diff diff l = Inr l'" "block_diffs_stored diff"
  shows "\<exists>d'. apply_best_block D A AC EC order (concat (ld_account_diffs diff), new) d = Inr d' \<and>
    holds_best D A d' (best_of l') \<and> readable D d'"
proof -
  let ?ds = "concat (ld_account_diffs diff)"
  have ds: "\<forall>x\<in>set ?ds. \<not> is_actions x" "\<forall>x\<in>set ?ds. diff_stored x" using assms(7) by (simp_all add: block_diffs_stored_def)
  note after = best_after_ledger[OF assms(5,6) ds(1)]
  show ?thesis
    using apply_best_block_holds[OF assms(1-4) ds(2), of AC EC new] after(2) unfolding after(1) by simp
qed

lemma apply_best_blocks_ledger:
  "holds_best D A d (best_of l) \<Longrightarrow> readable D d \<Longrightarrow> json_codec A \<Longrightarrow> (\<And>m. mset (order m) = mset m) \<Longrightarrow>
   ledger_inv l \<Longrightarrow> fold_ok ledger_apply_diff diffs l = Inr l' \<Longrightarrow> \<forall>diff\<in>set diffs. block_diffs_stored diff \<Longrightarrow>
   \<exists>d'. fold_ok (apply_best_block D A AC EC order) (map (\<lambda>diff. (concat (ld_account_diffs diff), new diff)) diffs) d = Inr d' \<and>
     holds_best D A d' (best_of l') \<and> readable D d'"
proof (induction diffs arbitrary: d l)
  case (Cons diff diffs)
  from Cons.prems(6) obtain l1 where l1: "ledger_apply_diff diff l = Inr l1" "fold_ok ledger_apply_diff diffs l1 = Inr l'"
    by (auto simp: run_simps)
  obtain d1 where d1: "apply_best_block D A AC EC order (concat (ld_account_diffs diff), new diff) d = Inr d1"
    "holds_best D A d1 (best_of l1)" "readable D d1"
    using apply_best_block_ledger[OF Cons.prems(1-5) l1(1), of AC EC "new diff"] Cons.prems(7) by auto
  have "ledger_inv l1" using ledger_store.fold_inv[OF Cons.prems(5)] l1(1) unfolding ledger_apply_diff_def by blast
  then show ?case using Cons.IH[OF d1(2,3) Cons.prems(3,4) _ l1(2)] Cons.prems(7) d1(1) by simp
qed simp

lemma update_num_accounts_reads:
  assumes "get_num_accounts D d = Inr n"
  shows "\<exists>d'. update_num_accounts D adjust d = Inr d' \<and> changes D [DEFAULT_CF] d d'"
  using assms by (auto simp: update_num_accounts_def intro!: changes_put)

end

context key_value_db
begin

lemma update_blocks_ledger:
  assumes "json_codec A" "\<forall>m. mset (order m) = mset m" "holds_best D A d (best_of l)" "readable D d" "get_num_accounts D d = Inr n"
    "ledger_inv l" "list_all2 (\<lambda>u diff. get_block_ledger_diff D L (bu_state_hash u) d = Some diff) us diffs"
    "\<forall>diff\<in>set diffs. block_diffs_stored diff" "fold_ok ledger_apply_diff diffs l = Inr l'"
  shows "\<exists>d'. update_block_best_accounts D A AC EC L order keys \<lparr>du_apply = us, du_unapply = []\<rparr> d = Inr d' \<and>
    holds_best D A d' (best_of l') \<and>
    (\<forall>pk token. stored_account (pk, token) \<longrightarrow> get_best_account D A pk token d' = Inr (get_account l' pk token))"
proof -
  let ?new = "\<lambda>diff. keys (ld_new_pk_balances diff)"
  let ?u = "\<lparr>du_apply = map (\<lambda>diff. (concat (ld_account_diffs diff), ?new diff)) diffs, du_unapply = []\<rparr>"
  have us: "concat (map (account_update_of D L keys d) us) = map (\<lambda>diff. (concat (ld_account_diffs diff), ?new diff)) diffs"
    using assms(7) by (induction rule: list_all2_induct) (simp_all add: account_update_of_def)
  obtain d1 where d1: "update_num_accounts D (accounts_adjust ?u) d = Inr d1" "changes D [DEFAULT_CF] d d1"
    using update_num_accounts_reads[OF assms(5)] by blast
  have "holds_best D A d1 (best_of l)" "readable D d1"
    using holds_best_changes[OF d1(2)] readable_changes[OF d1(2)] assms(3,4)
    by (simp_all add: best_cfs_def best_cf_defs list_cf_defs DEFAULT_CF_def)
  from apply_best_blocks_ledger[OF this assms(1) assms(2)[rule_format] assms(6,9,8), of AC EC ?new]
  obtain d' where "update_block_best_accounts D A AC EC L order keys \<lparr>du_apply = us, du_unapply = []\<rparr> d = Inr d'"
    "holds_best D A d' (best_of l')" using d1(1) by (auto simp: update_block_best_accounts_def update_best_accounts_def us)
  then show ?thesis using get_best_account_held[OF _ _ assms(1)] by (auto simp: best_of_def)
qed

lemma single_order: "\<forall>m. mset (order m) = mset m \<Longrightarrow> order [e] = [e]"
  by (metis mset_single_iff_right mset.simps(1,2))

end

section \<open>Unapplying\<close>

context key_value_db
begin

lemma unapply_payment_keeps_account:
  assumes "json_codec A" "\<forall>m. mset (order m) = mset m" "holds_best D A d B" "stored_account (pd_public_key x, pd_token x)"
    "get_num_accounts D d = Inr (Some n)"
  shows "\<exists>d'. update_best_accounts D A AC EC order
      \<lparr>du_apply = [], du_unapply = [([Payment x], [(pd_public_key x, pd_token x)])]\<rparr> d = Inr d' \<and>
    get_num_accounts D d' = Inr (Some (sat_sub n 1)) \<and>
    get_best_account D A (pd_public_key x) (pd_token x) d' =
      Inr (Some (payment_unapply x (unwrap_or (B (pd_public_key x, pd_token x)) (account_empty (pd_public_key x) (pd_token x)))))"
proof -
  let ?pk = "pd_public_key x" and ?t = "pd_token x"
  let ?a = "payment_unapply x (unwrap_or (B (?pk, ?t)) (account_empty ?pk ?t))"
  let ?d1 = "db_put D DEFAULT_CF TOTAL_NUM_ACCOUNTS_KEY (raw_u32 (sat_sub n 1)) d"
  have num: "update_num_accounts D (-1) d = Inr ?d1" using assms(5) by (simp add: update_num_accounts_def)
  have c1: "changes D [DEFAULT_CF] d ?d1" by (simp add: changes_put)
  then have held: "holds_best D A ?d1 B"
    using holds_best_changes[OF c1] assms(3) by (simp add: best_cfs_def best_cf_defs DEFAULT_CF_def)
  have "is_zkapp_account ?a" if "B (?pk, ?t) = Some a" "is_zkapp_account a" for a
    using that by (simp add: payment_unapply_def is_zkapp_account_def split: update_type.splits)
  then obtain d2 where d2: "update_best_account D A ?pk ?t (map_option before_values (B (?pk, ?t))) (Some ?a) ?d1 = Inr d2"
    "holds_best D A d2 (B((?pk, ?t) \<mapsto> ?a))" "changes D best_cfs ?d1 d2"
    using update_best_account_holds[OF held assms(4)] by blast
  have "get_num_accounts D d2 = get_num_accounts D ?d1"
    using changes_reads[OF d2(3)] by (simp add: get_num_accounts_def best_cfs_def best_cf_defs DEFAULT_CF_def)
  moreover have "get_num_accounts D ?d1 = Inr (Some (sat_sub n 1))" by (simp add: get_num_accounts_def)
  moreover have "update_best_accounts D A AC EC order \<lparr>du_apply = [], du_unapply = [([Payment x], [(?pk, ?t)])]\<rparr> d = Inr d2"
    using num d2(1) get_best_account_held[OF held assms(4,1)]
    by (simp add: update_best_accounts_def accounts_adjust_def unapply_best_block_def single_order[OF assms(2)] diff_account_def
        change_best_account_def unapply_best_diff_def update_best_account_def)
  ultimately show ?thesis using get_best_account_held[OF d2(2) assms(4,1)] by simp
qed

lemma actions_unapply_panics:
  assumes "json_codec A" "\<forall>m. mset (order m) = mset m" "holds_best D A d B" "holds_actions D AC d L"
    "stored_account (zt_public_key x, zt_token x)" "stored_account (zt_public_key x, token_address_default)"
    "zt_token x \<noteq> token_address_default" "length (L (zt_public_key x, token_address_default)) < length (zac_actions x)"
    "length (L (zt_public_key x, zt_token x)) + length (zac_actions x) < 2 ^ 32"
  shows "\<exists>d'. apply_best_block D A AC EC order ([ZkappActionsDiff x], new) d = Inr d' \<and>
    unapply_best_block D A order ([ZkappActionsDiff x], new) d' = Inl AssertionFailed"
proof -
  let ?pk = "zt_public_key x" and ?t = token_address_default
  let ?a = "unwrap_or (B (?pk, ?t)) (account_empty ?pk ?t)"
  obtain d1 where d1: "add_actions D AC ?pk (zt_token x) (zac_actions x) d =
      Inr (word_of_nat (length (L (?pk, zt_token x)) + length (zac_actions x)), d1)"
    "holds_actions D AC d1 (L((?pk, zt_token x) := L (?pk, zt_token x) @ zac_actions x))"
    "changes D [zkapp_actions_pk_num_cf, zkapp_actions_cf] d d1"
    using add_actions_appends[OF assms(4,5,9)] by blast
  have held: "holds_best D A d1 B"
    using holds_best_changes[OF d1(3)] assms(3) by (simp add: best_cfs_def best_cf_defs list_cf_defs)
  have "is_zkapp_account ?a" if "B (?pk, ?t) = Some a" "is_zkapp_account a" for a using that by simp
  then obtain d2 where d2: "update_best_account D A ?pk ?t (map_option before_values (B (?pk, ?t))) (Some ?a) d1 = Inr d2"
    "holds_best D A d2 (B((?pk, ?t) \<mapsto> ?a))" "changes D best_cfs d1 d2"
    using update_best_account_holds[OF held assms(6)] by blast
  have applied: "apply_best_block D A AC EC order ([ZkappActionsDiff x], new) d = Inr d2"
    using d1(1) d2(1) get_best_account_held[OF assms(3,6,1)]
    by (simp add: apply_best_block_def single_order[OF assms(2)] diff_account_def change_best_account_def apply_best_diff_def)
  obtain n where n: "get_num_actions D ?pk ?t d1 = Inr n" "unwrap_or n 0 = word_of_nat (length (L (?pk, ?t)))"
    using get_num_actions_held[OF d1(2) assms(6)] assms(7) by auto
  have "get_num_actions D ?pk ?t d2 = get_num_actions D ?pk ?t d1"
    using changes_reads[OF d2(3)] by (simp add: get_num_actions_def best_cfs_def best_cf_defs list_cf_defs)
  moreover have "\<not> (word_of_nat (length (zac_actions x)) :: u32) \<le> word_of_nat (length (L (?pk, ?t)))"
    using assms(8,9) by (simp add: word_le_nat_alt unat_word_of_nat_u32)
  ultimately have "remove_actions D ?pk ?t (word_of_nat (length (zac_actions x))) d2 = Inl AssertionFailed"
    using n by (simp add: remove_actions_def)
  then have "unapply_best_block D A order ([ZkappActionsDiff x], new) d2 = Inl AssertionFailed"
    using get_best_account_held[OF d2(2) assms(6,1)]
    by (simp add: unapply_best_block_def single_order[OF assms(2)] diff_account_def change_best_account_def unapply_best_diff_def)
  then show ?thesis using applied by blast
qed

end

section \<open>Properties of the best ledger\<close>

definition example_credit :: payment_diff where
  "example_credit = \<lparr>pd_update_type = Credit, pd_public_key = public_key_default, pd_amount = 30, pd_token = MINA_TOKEN_ADDRESS\<rparr>"

definition example_best_db :: "(account + ledger_diff) assoc_db" where
  "example_best_db = [((block_ledger_diff_cf, ''3NA''), json right_codec (example_diff [[Payment example_credit]])),
     ((DEFAULT_CF, TOTAL_NUM_ACCOUNTS_KEY), raw_u32 5)]"

definition empty_ledger :: ledger where
  "empty_ledger = \<lparr>tokens = Map.empty\<rparr>"

lemmas example_best_defs = example_best_db_def example_credit_def example_diff_def DEFAULT_CF_def block_ledger_diff_cf_def
  best_cf_defs list_cf_defs

lemma example_stored: "stored_account (public_key_default, MINA_TOKEN_ADDRESS)"
  by (simp add: stored_account_def public_key_default_def MINA_TOKEN_ADDRESS_def len_defs)

lemma example_best_held: "holds_best assoc_ops left_codec example_best_db (\<lambda>_. None)"
  by (simp add: holds_best_def best_entry_def example_best_defs)

lemma example_best_readable: "readable assoc_ops example_best_db"
  by (simp add: readable_def get_u32_def example_best_defs)

lemma example_best_num: "get_num_accounts assoc_ops example_best_db = Inr (Some 5)"
  by (simp add: get_num_accounts_def get_u32_def example_best_defs)

text \<open>
  C6: applying blocks to a store that holds the accounts of a ledger leaves it holding the accounts of the
  ledger that the blocks' stored diffs give in memory: every lookup agrees, and so do the balance index and
  the zkapp accounts.  The diffs are without actions, which the ledger in memory records in the account and
  the store does not.
\<close>

theorem best_ledger_follows_ledger:
  assumes "key_value_db D" "json_codec A" "\<forall>m. mset (order m) = mset m" "holds_best D A d (best_of l)" "readable D d"
    "get_num_accounts D d = Inr n" "ledger_inv l"
    "list_all2 (\<lambda>u diff. get_block_ledger_diff D L (bu_state_hash u) d = Some diff) us diffs"
    "\<forall>diff\<in>set diffs. block_diffs_stored diff" "fold_ok ledger_apply_diff diffs l = Inr l'"
  shows "\<exists>d'. update_block_best_accounts D A AC EC L order keys \<lparr>du_apply = us, du_unapply = []\<rparr> d = Inr d' \<and>
    holds_best D A d' (best_of l') \<and>
    (\<forall>pk token. stored_account (pk, token) \<longrightarrow> get_best_account D A pk token d' = Inr (get_account l' pk token))"
  using key_value_db.update_blocks_ledger[OF assms] .

theorem best_ledger_follows_ledger_witness:
  "\<forall>AC EC. \<exists>d' l'. update_block_best_accounts assoc_ops left_codec AC EC right_codec (\<lambda>m. m) (\<lambda>_. [])
      \<lparr>du_apply = [\<lparr>bu_state_hash = ''3NA'', bu_blockchain_length = 2, bu_global_slot_since_genesis = 2\<rparr>], du_unapply = []\<rparr>
      example_best_db = Inr d' \<and>
    ledger_apply_diff (example_diff [[Payment example_credit]]) empty_ledger = Inr l' \<and>
    get_best_account assoc_ops left_codec public_key_default MINA_TOKEN_ADDRESS d' =
      Inr (get_account l' public_key_default MINA_TOKEN_ADDRESS)"
proof (intro allI)
  fix AC EC
  have inv: "ledger_inv empty_ledger"
    by (simp add: ledger_inv_def ledger_get_def get_account_def get_token_ledger_def empty_ledger_def dom_def)
  obtain l' where l': "ledger_apply_diff (example_diff [[Payment example_credit]]) empty_ledger = Inr l'"
    by (simp add: ledger_apply_diff_def example_diff_def ledger_apply_account_diff_alt)
  have held: "holds_best assoc_ops left_codec example_best_db (best_of empty_ledger)"
    using example_best_held by (simp add: best_of_def get_account_def get_token_ledger_def empty_ledger_def case_prod_unfold)
  have "list_all2 (\<lambda>u diff. get_block_ledger_diff assoc_ops right_codec (bu_state_hash u) example_best_db = Some diff)
      [\<lparr>bu_state_hash = ''3NA'', bu_blockchain_length = 2, bu_global_slot_since_genesis = 2\<rparr>]
      [example_diff [[Payment example_credit]]]"
    by (simp add: get_block_ledger_diff_def get_json_def example_best_db_def json_def right_codec_def)
  moreover have "\<forall>diff\<in>set [example_diff [[Payment example_credit]]]. block_diffs_stored diff"
    using example_stored by (simp add: block_diffs_stored_def diff_stored_def diff_account_def example_diff_def example_credit_def)
  moreover have "fold_ok ledger_apply_diff [example_diff [[Payment example_credit]]] empty_ledger = Inr l'" using l' by simp
  ultimately show "\<exists>d' l'. update_block_best_accounts assoc_ops left_codec AC EC right_codec (\<lambda>m. m) (\<lambda>_. [])
      \<lparr>du_apply = [\<lparr>bu_state_hash = ''3NA'', bu_blockchain_length = 2, bu_global_slot_since_genesis = 2\<rparr>], du_unapply = []\<rparr>
      example_best_db = Inr d' \<and>
    ledger_apply_diff (example_diff [[Payment example_credit]]) empty_ledger = Inr l' \<and>
    get_best_account assoc_ops left_codec public_key_default MINA_TOKEN_ADDRESS d' =
      Inr (get_account l' public_key_default MINA_TOKEN_ADDRESS)"
    using best_ledger_follows_ledger[OF assoc.key_value_db_axioms left_codec_json _ held example_best_readable example_best_num inv,
        of "\<lambda>m. m" right_codec _ _ l' AC EC "\<lambda>_. []"] l' example_stored by blast
qed

text \<open>
  C35: unapplying the block that created an account does not remove it: the number of accounts goes down by
  one while the account, with the payment taken back, stays in the store.
\<close>

theorem unapplied_account_stays:
  assumes "key_value_db D" "json_codec A" "\<forall>m. mset (order m) = mset m" "holds_best D A d B"
    "stored_account (pd_public_key x, pd_token x)" "get_num_accounts D d = Inr (Some n)"
  shows "\<exists>d'. update_best_accounts D A AC EC order
      \<lparr>du_apply = [], du_unapply = [([Payment x], [(pd_public_key x, pd_token x)])]\<rparr> d = Inr d' \<and>
    get_num_accounts D d' = Inr (Some (sat_sub n 1)) \<and>
    get_best_account D A (pd_public_key x) (pd_token x) d' =
      Inr (Some (payment_unapply x (unwrap_or (B (pd_public_key x, pd_token x)) (account_empty (pd_public_key x) (pd_token x)))))"
  using key_value_db.unapply_payment_keeps_account[OF assms] .

theorem unapplied_account_stays_witness:
  "\<forall>AC EC. \<exists>d'. update_best_accounts assoc_ops left_codec AC EC (\<lambda>m. m)
      \<lparr>du_apply = [], du_unapply = [([Payment example_credit], [(public_key_default, MINA_TOKEN_ADDRESS)])]\<rparr>
      example_best_db = Inr d' \<and>
    get_num_accounts assoc_ops d' = Inr (Some 4)"
  using unapplied_account_stays[OF assoc.key_value_db_axioms left_codec_json _ example_best_held, of "\<lambda>m. m" example_credit 5]
    example_stored example_best_num
  by (auto simp: example_credit_def sat_sub_def)

text \<open>
  C36: the actions of a zkapp account of another token than MINA are added under its token but removed under
  MINA, so unapplying the block just applied panics when the key has fewer actions as a MINA account.
\<close>

theorem custom_token_actions_panic:
  assumes "key_value_db D" "json_codec A" "\<forall>m. mset (order m) = mset m" "holds_best D A d B" "holds_actions D AC d L"
    "stored_account (zt_public_key x, zt_token x)" "stored_account (zt_public_key x, token_address_default)"
    "zt_token x \<noteq> token_address_default" "length (L (zt_public_key x, token_address_default)) < length (zac_actions x)"
    "length (L (zt_public_key x, zt_token x)) + length (zac_actions x) < 2 ^ 32"
  shows "\<exists>d'. apply_best_block D A AC EC order ([ZkappActionsDiff x], new) d = Inr d' \<and>
    unapply_best_block D A order ([ZkappActionsDiff x], new) d' = Inl AssertionFailed"
  using key_value_db.actions_unapply_panics[OF assms] .

definition example_actions :: zkapp_actions_diff where
  "example_actions = \<lparr>zt_token = replicate TOKEN_ADDRESS_LEN CHR ''x'', zt_public_key = public_key_default,
     zac_proved_state = False, zac_actions = [''0x01'']\<rparr>"

theorem custom_token_actions_panic_witness:
  "\<forall>AC EC. \<exists>d'. apply_best_block assoc_ops left_codec AC EC (\<lambda>m. m) ([ZkappActionsDiff example_actions], []) example_best_db = Inr d' \<and>
    unapply_best_block assoc_ops left_codec (\<lambda>m. m) ([ZkappActionsDiff example_actions], []) d' = Inl AssertionFailed"
proof (intro allI)
  fix AC EC
  have "holds_actions assoc_ops AC example_best_db (\<lambda>_. [])"
    by (simp add: holds_actions_def holds_lists_def holds_list_def get_count_def get_u32_def example_best_defs)
  moreover have "hd (replicate 50 CHR ''x'') \<noteq> hd MINA_TOKEN_ADDRESS" by (simp add: MINA_TOKEN_ADDRESS_def)
  then have "replicate 50 CHR ''x'' \<noteq> MINA_TOKEN_ADDRESS" by metis
  ultimately show "\<exists>d'. apply_best_block assoc_ops left_codec AC EC (\<lambda>m. m) ([ZkappActionsDiff example_actions], []) example_best_db = Inr d' \<and>
    unapply_best_block assoc_ops left_codec (\<lambda>m. m) ([ZkappActionsDiff example_actions], []) d' = Inl AssertionFailed"
    using custom_token_actions_panic[OF assoc.key_value_db_axioms left_codec_json _ example_best_held,
      of "\<lambda>m. m" AC "\<lambda>_. []" example_actions EC "[]"] example_stored
    by (simp add: example_actions_def stored_account_def token_address_default_def len_defs)
qed

end
