(* ===== verification/Internal_Command_Store.thy ===== *)
theory Internal_Command_Store
  imports Canonicity_Store Event_Store Internal_Commands
begin

text \<open>
  The internal command store (\<open>command/internal/store.rs\<close>, \<open>store/internal_command_store_impl.rs\<close>): the
  internal commands of a block and of a public key, their counts and sorted indices, and recording a
  canonical block (\<open>add_canonical_block\<close> of \<open>store/canonicity_store_impl.rs\<close>), which reads them.  \<open>IC\<close> is the
  codec of the fields of a stored internal command.
\<close>

section \<open>Counts\<close>

definition TOTAL_NUM_FEE_TRANSFERS_KEY :: bytes where
  "TOTAL_NUM_FEE_TRANSFERS_KEY = ''total_num_fee_transfers''"

definition TOTAL_NUM_CANONICAL_FEE_TRANSFERS_KEY :: bytes where
  "TOTAL_NUM_CANONICAL_FEE_TRANSFERS_KEY = ''total_num_canonical_fee_transfers_key''"

definition get_internal_commands_epoch_count :: "('d, 'j) db_ops \<Rightarrow> u32 option \<Rightarrow> 'd \<Rightarrow> u32 run" where
  "get_internal_commands_epoch_count D = epoch_only_count D internal_commands_epoch_cf"

definition increment_internal_commands_epoch_count :: "('d, 'j) db_ops \<Rightarrow> u32 \<Rightarrow> 'd \<Rightarrow> 'd run" where
  "increment_internal_commands_epoch_count D epoch d =
     count_put D (get_internal_commands_epoch_count D (Some epoch) d) internal_commands_epoch_cf (Inr (to_be_bytes epoch)) d"

definition get_internal_commands_total_count :: "('d, 'j) db_ops \<Rightarrow> 'd \<Rightarrow> u32 run" where
  "get_internal_commands_total_count D d = get_count D DEFAULT_CF TOTAL_NUM_FEE_TRANSFERS_KEY d"

definition increment_internal_commands_total_count :: "('d, 'j) db_ops \<Rightarrow> u32 \<Rightarrow> 'd \<Rightarrow> 'd run" where
  "increment_internal_commands_total_count D incr d =
     map_ok (\<lambda>old. db_put D DEFAULT_CF TOTAL_NUM_FEE_TRANSFERS_KEY (raw_u32 (old + incr)) d)
       (get_internal_commands_total_count D d)"

definition get_internal_commands_pk_epoch_count :: "('d, 'j) db_ops \<Rightarrow> public_key \<Rightarrow> u32 option \<Rightarrow> 'd \<Rightarrow> u32 run" where
  "get_internal_commands_pk_epoch_count D = pk_epoch_count D internal_commands_pk_epoch_cf"

definition increment_internal_commands_pk_epoch_count :: "('d, 'j) db_ops \<Rightarrow> public_key \<Rightarrow> u32 \<Rightarrow> 'd \<Rightarrow> 'd run" where
  "increment_internal_commands_pk_epoch_count D pk epoch d =
     count_put D (get_internal_commands_pk_epoch_count D pk (Some epoch) d) internal_commands_pk_epoch_cf (u32_prefix_key epoch pk) d"

definition get_internal_commands_pk_total_count :: "('d, 'j) db_ops \<Rightarrow> public_key \<Rightarrow> 'd \<Rightarrow> u32 run" where
  "get_internal_commands_pk_total_count D pk d = get_count D internal_commands_pk_total_cf pk d"

definition increment_internal_commands_pk_total_count :: "('d, 'j) db_ops \<Rightarrow> public_key \<Rightarrow> 'd \<Rightarrow> 'd run" where
  "increment_internal_commands_pk_total_count D pk d =
     count_put D (get_internal_commands_pk_total_count D pk d) internal_commands_pk_total_cf (Inr pk) d"

definition get_block_internal_commands_count :: "('d, 'j) db_ops \<Rightarrow> state_hash \<Rightarrow> 'd \<Rightarrow> u32 option run" where
  "get_block_internal_commands_count D state_hash d = get_u32 D block_internal_command_counts_cf state_hash d"

definition set_block_internal_commands_count_batch :: "state_hash \<Rightarrow> u32 \<Rightarrow> 'j batch \<Rightarrow> 'j batch" where
  "set_block_internal_commands_count_batch state_hash n batch =
     batch_put block_internal_command_counts_cf state_hash (raw_u32 n) batch"

text \<open>Only fee transfers are counted for their receiver and epoch.\<close>

definition increment_internal_commands_counts ::
    "('d, 'j) db_ops \<Rightarrow> db_internal_command_with_data \<Rightarrow> u32 \<Rightarrow> 'd \<Rightarrow> 'd run" where
  "increment_internal_commands_counts D internal_command epoch d =
     (case internal_command of
        WdCoinbase _ \<Rightarrow> Inr d
      | WdFeeTransfer md \<Rightarrow>
          bind_ok (increment_internal_commands_pk_epoch_count D (md_receiver md) epoch d) (\<lambda>d.
          bind_ok (increment_internal_commands_pk_total_count D (md_receiver md) d)
            (increment_internal_commands_epoch_count D epoch)))"

definition get_canonical_internal_commands_count :: "('d, 'j) db_ops \<Rightarrow> 'd \<Rightarrow> u32 run" where
  "get_canonical_internal_commands_count D d = get_count D DEFAULT_CF TOTAL_NUM_CANONICAL_FEE_TRANSFERS_KEY d"

definition increment_canonical_internal_commands_count :: "('d, 'j) db_ops \<Rightarrow> u32 \<Rightarrow> 'd \<Rightarrow> 'd run" where
  "increment_canonical_internal_commands_count D incr d =
     map_ok (\<lambda>old. db_put D DEFAULT_CF TOTAL_NUM_CANONICAL_FEE_TRANSFERS_KEY (raw_u32 (old + incr)) d)
       (get_canonical_internal_commands_count D d)"

definition decrement_canonical_internal_commands_count :: "('d, 'j) db_ops \<Rightarrow> u32 \<Rightarrow> 'd \<Rightarrow> 'd run" where
  "decrement_canonical_internal_commands_count D incr d =
     map_ok (\<lambda>old. db_put D DEFAULT_CF TOTAL_NUM_CANONICAL_FEE_TRANSFERS_KEY (raw_u32 (sat_sub old incr)) d)
       (get_canonical_internal_commands_count D d)"

section \<open>Commands of a block and of a public key\<close>

type_synonym 'j ic_codec = "(db_metadata, 'j) codec"

text \<open>
  \<open>serde(untagged)\<close> on \<open>DbInternalCommandWithData\<close>: the fields are written without the variant, and reading
  takes the first variant in the order of the declaration whose fields are there.  The two variants have the
  same fields.
\<close>

fun with_data_fields :: "db_internal_command_with_data \<Rightarrow> db_metadata" where
  "with_data_fields (WdFeeTransfer md) = md"
| "with_data_fields (WdCoinbase md) = md"

definition untagged :: "'j ic_codec \<Rightarrow> (db_internal_command_with_data, 'j) codec" where
  "untagged IC = \<lparr>
     to_vec = (\<lambda>c. to_vec IC (with_data_fields c)),
     from_slice = (\<lambda>j. case from_slice IC j of
       Some md \<Rightarrow> Some (WdFeeTransfer md)
     | None \<Rightarrow> map_option WdCoinbase (from_slice IC j))\<rparr>"

definition set_block_internal_command ::
    "('d, 'j) db_ops \<Rightarrow> 'j ic_codec \<Rightarrow> precomputed_block \<Rightarrow> u32 \<Rightarrow> db_internal_command_with_data \<Rightarrow> 'd \<Rightarrow> 'd run" where
  "set_block_internal_command D IC block index internal_command d =
     (let state_hash = state_hash_of block; v = json (untagged IC) internal_command in
      bind_ok (internal_commmand_block_key state_hash index) (\<lambda>k.
      let d = db_put D internal_commands_cf k v d in
      bind_ok (internal_commmand_sort_key (blockchain_length block) state_hash index) (\<lambda>k.
      let d = db_put D internal_commands_block_height_sort_cf k v d in
      map_ok (\<lambda>k. db_put D internal_commands_global_slot_sort_cf k v d)
        (internal_commmand_sort_key (global_slot_since_genesis block) state_hash index))))"

definition get_block_internal_command ::
    "('d, 'j) db_ops \<Rightarrow> 'j ic_codec \<Rightarrow> state_hash \<Rightarrow> u32 \<Rightarrow> 'd \<Rightarrow> db_internal_command_with_data option run" where
  "get_block_internal_command D IC state_hash index d =
     map_ok (\<lambda>k. get_json D (untagged IC) internal_commands_cf k d) (internal_commmand_block_key state_hash index)"

definition get_pk_num_internal_commands :: "('d, 'j) db_ops \<Rightarrow> public_key \<Rightarrow> 'd \<Rightarrow> u32 option run" where
  "get_pk_num_internal_commands D pk d = get_u32 D internal_commands_pk_num_cf pk d"

definition set_pk_internal_command ::
    "('d, 'j) db_ops \<Rightarrow> 'j ic_codec \<Rightarrow> public_key \<Rightarrow> db_internal_command_with_data \<Rightarrow> 'd \<Rightarrow> 'd run" where
  "set_pk_internal_command D IC pk internal_command d =
     bind_ok (get_pk_num_internal_commands D pk d) (\<lambda>num. let n = unwrap_or num 0 in
     map_ok (\<lambda>k. db_put D internal_commands_pk_num_cf pk (raw_u32 (n + 1))
         (db_put D internal_commands_pk_cf k (json (untagged IC) internal_command) d))
       (internal_command_pk_key pk n))"

definition get_pk_internal_command ::
    "('d, 'j) db_ops \<Rightarrow> 'j ic_codec \<Rightarrow> public_key \<Rightarrow> u32 \<Rightarrow> 'd \<Rightarrow> db_internal_command_with_data option run" where
  "get_pk_internal_command D IC pk index d =
     map_ok (\<lambda>k. get_json D (untagged IC) internal_commands_pk_cf k d) (internal_commmand_pk_key pk index)"

definition get_internal_commands ::
    "('d, 'j) db_ops \<Rightarrow> 'j ic_codec \<Rightarrow> state_hash \<Rightarrow> 'd \<Rightarrow> db_internal_command_with_data list run" where
  "get_internal_commands D IC state_hash d =
     bind_ok (get_block_internal_commands_count D state_hash d) (\<lambda>num.
     case num of None \<Rightarrow> Inr []
     | Some num \<Rightarrow> traverse_ok (\<lambda>n. bind_ok (get_block_internal_command D IC state_hash (word_of_nat n) d) unwrap)
         [0..<unat num])"

text \<open>The numbers from \<open>offset as u32\<close> up to the smaller of \<open>limit as u32\<close> and the count.\<close>

fun collect_pk_commands :: "('d, 'j) db_ops \<Rightarrow> 'j ic_codec \<Rightarrow> public_key \<Rightarrow> 'd \<Rightarrow> nat list \<Rightarrow>
    db_internal_command_with_data list \<Rightarrow> db_internal_command_with_data list run" where
  "collect_pk_commands D IC pk d [] acc = Inr acc"
| "collect_pk_commands D IC pk d (m # ms) acc =
     bind_ok (get_pk_internal_command D IC pk (word_of_nat m) d) (\<lambda>cmd.
     case cmd of Some c \<Rightarrow> collect_pk_commands D IC pk d ms (acc @ [c]) | None \<Rightarrow> Inr [])"

definition get_internal_commands_public_key ::
    "('d, 'j) db_ops \<Rightarrow> 'j ic_codec \<Rightarrow> public_key \<Rightarrow> 64 word \<Rightarrow> 64 word \<Rightarrow> 'd \<Rightarrow> db_internal_command_with_data list run" where
  "get_internal_commands_public_key D IC pk offset limit d =
     bind_ok (get_pk_num_internal_commands D pk d) (\<lambda>num.
     case num of None \<Rightarrow> Inr []
     | Some n \<Rightarrow> collect_pk_commands D IC pk d [unat (ucast offset :: u32)..<unat (min (ucast limit) n)] [])"

section \<open>Adding the commands of a block\<close>

definition add_internal_command :: "('d, 'j) db_ops \<Rightarrow> 'j ic_codec \<Rightarrow> precomputed_block \<Rightarrow>
    nat \<times> db_internal_command_with_data \<Rightarrow> 'd \<Rightarrow> 'd run" where
  "add_internal_command D IC block e d =
     (case e of (i, int_cmd) \<Rightarrow>
      let pk = with_data_recipient int_cmd; h = state_hash_of block; v = json (untagged IC) int_cmd in
      bind_ok (increment_internal_commands_counts D int_cmd (epoch_count block) d) (\<lambda>d.
      bind_ok (set_block_internal_command D IC block (word_of_nat i) int_cmd d) (\<lambda>d.
      bind_ok (set_pk_internal_command D IC pk int_cmd d) (\<lambda>d.
      bind_ok (internal_commmand_pk_sort_key pk (blockchain_length block) h (word_of_nat i) (with_data_kind int_cmd)) (\<lambda>k.
      let d = db_put D internal_commands_pk_block_height_sort_cf k v d in
      map_ok (\<lambda>k. db_put D internal_commands_pk_global_slot_sort_cf k v d)
        (internal_commmand_pk_sort_key pk (global_slot_since_genesis block) h (word_of_nat i) (with_data_kind int_cmd)))))))"

definition add_internal_commands_batch :: "('d, 'j) db_ops \<Rightarrow> 'j ic_codec \<Rightarrow> (string \<Rightarrow> amount option) \<Rightarrow> hash_order \<Rightarrow>
    precomputed_block \<Rightarrow> 'd \<Rightarrow> 'j batch \<Rightarrow> ('d \<times> 'j batch) run" where
  "add_internal_commands_batch D IC parse_amount order block d batch =
     bind_ok (with_data_from_precomputed parse_amount order block) (\<lambda>cmds.
     let num = word_of_nat (length cmds);
         batch = set_block_internal_commands_count_batch (state_hash_of block) num batch;
         d = db_put D internal_commands_block_num_cf (state_hash_of block) (raw_u32 num) d
     in bind_ok (increment_internal_commands_total_count D num d) (\<lambda>d.
     map_ok (\<lambda>d. (d, batch)) (fold_ok (add_internal_command D IC block) (enumerate 0 cmds) d)))"

text \<open>Updating the canonical count for a change of the best chain.\<close>

definition update_internal_commands :: "('d, 'j) db_ops \<Rightarrow> 'j ic_codec \<Rightarrow> block_update db_update \<Rightarrow> 'd \<Rightarrow> 'd run" where
  "update_internal_commands D IC block d =
     bind_ok (fold_ok (\<lambda>update d.
         bind_ok (get_internal_commands D IC (bu_state_hash update) d) (\<lambda>cmds.
         decrement_canonical_internal_commands_count D (word_of_nat (length cmds)) d)) (du_unapply block) d)
       (fold_ok (\<lambda>update d.
         bind_ok (get_internal_commands D IC (bu_state_hash update) d) (\<lambda>cmds.
         increment_canonical_internal_commands_count D (word_of_nat (length cmds)) d)) (du_apply block))"

section \<open>Sorted reads\<close>

datatype direction = Forward | Reverse

definition pk_iterator_mode :: "public_key \<Rightarrow> direction \<Rightarrow> iterator_mode run" where
  "pk_iterator_mode pk direction =
     bind_ok (copy_slice PUBLIC_KEY_LEN pk) (\<lambda>pk_bytes.
     case direction of
       Forward \<Rightarrow> Inr (IterForward pk_bytes)
     | Reverse \<Rightarrow> Inr (IterReverse (pk_bytes @ to_be_bytes (-1 :: u32) @ ''D'')))"

definition internal_commands_pk_block_height_iterator ::
    "('d, 'j) db_ops \<Rightarrow> public_key \<Rightarrow> direction \<Rightarrow> 'd \<Rightarrow> (bytes \<times> 'j stored) list run" where
  "internal_commands_pk_block_height_iterator D pk direction d =
     map_ok (db_iterator D d internal_commands_pk_block_height_sort_cf) (pk_iterator_mode pk direction)"

definition internal_commands_pk_global_slot_iterator ::
    "('d, 'j) db_ops \<Rightarrow> public_key \<Rightarrow> direction \<Rightarrow> 'd \<Rightarrow> (bytes \<times> 'j stored) list run" where
  "internal_commands_pk_global_slot_iterator D pk direction d =
     map_ok (db_iterator D d internal_commands_pk_global_slot_sort_cf) (pk_iterator_mode pk direction)"

text \<open>
  The commands written to the CSV file of a public key, in order; \<open>None\<close> is the error for a missing command.
  Opening and writing the file is left out.
\<close>

fun csv_keys :: "public_key \<Rightarrow> bytes list \<Rightarrow> (u32 \<times> u8 \<times> u32 \<times> state_hash) list run" where
  "csv_keys pk [] = Inr []"
| "csv_keys pk (key # ks) =
     bind_ok (pk_key_prefix key) (\<lambda>cmd_pk.
     if cmd_pk \<noteq> pk then Inr []
     else bind_ok (pk_txn_sort_key_sort key) (\<lambda>height.
       bind_ok (internal_command_pk_sort_key_state_hash key) (\<lambda>state_hash.
       bind_ok (internal_command_pk_sort_key_index key) (\<lambda>index.
       bind_ok (internal_command_pk_sort_key_kind key) (\<lambda>kind.
       map_ok ((#) (height, kind, index, state_hash)) (csv_keys pk ks))))))"

fun csv_commands :: "('d, 'j) db_ops \<Rightarrow> 'j ic_codec \<Rightarrow> 'd \<Rightarrow> (u32 \<times> u8 \<times> u32 \<times> state_hash) list \<Rightarrow>
    db_internal_command_with_data list option run" where
  "csv_commands D IC d [] = Inr (Some [])"
| "csv_commands D IC d ((_, _, index, state_hash) # ks) =
     bind_ok (get_block_internal_command D IC state_hash index d) (\<lambda>cmd.
     case cmd of None \<Rightarrow> Inr None | Some c \<Rightarrow> map_ok (map_option ((#) c)) (csv_commands D IC d ks))"

definition write_internal_commands_csv ::
    "('d, 'j) db_ops \<Rightarrow> 'j ic_codec \<Rightarrow> public_key \<Rightarrow> 'd \<Rightarrow> db_internal_command_with_data list option run" where
  "write_internal_commands_csv D IC pk d =
     bind_ok (internal_commands_pk_block_height_iterator D pk Reverse d) (\<lambda>es.
     bind_ok (csv_keys pk (map fst es)) (\<lambda>cmds. csv_commands D IC d (rev (sort cmds))))"

section \<open>Recording a canonical block\<close>

text \<open>
  A new genesis block, one whose previous state hash is given, is counted as produced and its hashes are
  recorded.  \<open>G\<close> and \<open>E\<close> are the codecs of hash lists and events.
\<close>

definition count_genesis_block ::
    "('d, 'j) db_ops \<Rightarrow> 'j ic_codec \<Rightarrow> state_hash \<Rightarrow> 'd \<Rightarrow> 'd run" where
  "count_genesis_block D IC state_hash d =
     bind_ok (increment_block_canonical_production_count D state_hash d) (\<lambda>d.
     bind_ok (get_internal_commands D IC state_hash d) (\<lambda>cmds.
     case cmds of
       WdCoinbase md # _ \<Rightarrow>
         increment_block_production_count D (md_receiver md) (MAINNET_COINBASE_REWARD < md_amount md) d
     | _ \<Rightarrow> Inr d))"

definition record_genesis_hashes ::
    "('d, 'j) db_ops \<Rightarrow> (state_hash list, 'j) codec \<Rightarrow> state_hash \<Rightarrow> state_hash \<Rightarrow> 'd \<Rightarrow> 'd run" where
  "record_genesis_hashes D G genesis genesis_prev d =
     bind_ok (get_known_genesis_state_hashes D G d) (\<lambda>hashes.
     map_ok (\<lambda>prev_hashes.
       if genesis \<in> set hashes then d
       else db_put D DEFAULT_CF KNOWN_GENESIS_PREV_STATE_HASHES_KEY (json G (prev_hashes @ [genesis_prev]))
         (db_put D DEFAULT_CF KNOWN_GENESIS_STATE_HASHES_KEY (json G (hashes @ [genesis])) d))
       (get_known_genesis_prev_state_hashes D G d))"

definition add_canonical_block :: "('d, 'j) db_ops \<Rightarrow> 'j ic_codec \<Rightarrow> (state_hash list, 'j) codec \<Rightarrow>
    (indexer_event, 'j) codec \<Rightarrow> u32 \<Rightarrow> u32 \<Rightarrow> state_hash \<Rightarrow> state_hash \<Rightarrow> state_hash option \<Rightarrow> 'd \<Rightarrow> 'd run" where
  "add_canonical_block D IC G E height global_slot state_hash genesis genesis_prev d =
     bind_ok (if state_hash = genesis \<and> genesis_prev \<noteq> None then count_genesis_block D IC state_hash d else Inr d) (\<lambda>d.
     let d = db_put D canonicity_length_cf (to_be_bytes height) (Raw state_hash) d;
         d = db_put D canonicity_slot_cf (to_be_bytes global_slot) (Raw state_hash) d in
     bind_ok (case genesis_prev of None \<Rightarrow> Inr d | Some prev \<Rightarrow> record_genesis_hashes D G genesis prev d) (\<lambda>d.
     map_ok snd (add_event D E (DbEvt (CanonicityEvent (NewCanonicalBlock state_hash height))) d)))"

end
