(* ===== verification/Counters.thy ===== *)
theory Counters
  imports Block_Counts List_Families
begin

text \<open>
  Families of counters: every value in them is a 32-bit number, so reading and incrementing never panics.
\<close>

text \<open>Every value in the families is a number.\<close>

definition counters :: "('d, 'j) db_ops \<Rightarrow> column_family list \<Rightarrow> 'd \<Rightarrow> bool" where
  "counters D cfs d \<longleftrightarrow> (\<forall>cf\<in>set cfs. \<forall>k. \<exists>n. get_count D cf k d = Inr n)"

lemma counters_changes: "changes D cfs d e \<Longrightarrow> set cfs \<inter> set cfs' = {} \<Longrightarrow> counters D cfs' e \<longleftrightarrow> counters D cfs' d"
  unfolding counters_def by (rule ball_cong[OF refl], subst changes_reads(2)) auto

lemma holds_lists_cong:
  assumes "holds_lists D ncf nk ecf ek ok d L" "\<And>k. db_get D e ncf k = db_get D d ncf k" "\<And>k. db_get D e ecf k = db_get D d ecf k"
  shows "holds_lists D ncf nk ecf ek ok e L"
  unfolding holds_lists_def
proof (intro allI impI)
  fix a assume "ok a"
  then have "holds_list D ncf (nk a) ecf (ek a) d (L a)" using assms(1) by (simp add: holds_lists_def)
  then show "holds_list D ncf (nk a) ecf (ek a) e (L a)" using assms(2,3) by (rule holds_list_cong)
qed

context key_value_db
begin

lemma counters_put:
  "counters D cfs d \<Longrightarrow> counters D cfs (db_put D cf k (raw_u32 n) d)"
  by (auto simp: counters_def)

lemma count_put_counts:
  assumes "counters D cfs d" "cf \<in> set cfs" "num = get_count D cf k d"
  shows "\<exists>d'. count_put D num cf (Inr k) d = Inr d' \<and> counters D cfs d' \<and> changes D cfs d d'"
proof -
  obtain n where n: "get_count D cf k d = Inr n" using assms(1,2) by (auto simp: counters_def)
  then show ?thesis
    using assms counters_put[OF assms(1), of cf k "n + 1"] changes_put[OF changes_refl assms(2)] by (simp add: count_put_def)
qed

lemma write_reads:
  assumes "\<forall>e\<in>set batch. fst e \<notin> set cfs" "cf \<in> set cfs"
  shows "db_get D (db_write D batch d) cf k = db_get D d cf k"
  by (rule get_write_other) (use assms in force)

end

end
