(* ===== verification/Internal_Command_Lists.thy ===== *)
theory Internal_Command_Lists
  imports Internal_Command_Store Counters
begin

text \<open>
  What the internal command store holds: the commands of every block in order, the commands of every public
  key in the order of their blocks, and the number of commands of the canonical blocks.
\<close>

section \<open>Keys\<close>

lemma internal_command_keys:
  assumes "length h = STATE_HASH_LEN"
  shows "internal_commmand_block_key h i = Inr (h @ to_be_bytes i)"
    "internal_commmand_sort_key n h i = Inr (to_be_bytes n @ h @ to_be_bytes i)"
    "length pk = PUBLIC_KEY_LEN \<Longrightarrow> internal_commmand_pk_sort_key pk n h i kind =
       Inr (pk @ to_be_bytes n @ h @ to_be_bytes i @ to_be_bytes kind)"
  using assms by (simp_all add: internal_commmand_block_key_def internal_commmand_sort_key_def internal_commmand_pk_sort_key_def)

lemma internal_command_pk_keys:
  assumes "length pk = PUBLIC_KEY_LEN"
  shows "internal_command_pk_key pk i = Inr (pk @ to_be_bytes i)" "internal_commmand_pk_key pk i = Inr (pk @ to_be_bytes i)"
    "u32_prefix_key n pk = Inr (to_be_bytes n @ pk)"
  using assms by (simp_all add: internal_command_pk_key_def internal_commmand_pk_key_def u32_prefix_key_def)

lemma block_key_eq:
  "length h = STATE_HASH_LEN \<Longrightarrow> length h' = STATE_HASH_LEN \<Longrightarrow>
     h @ to_be_bytes (i :: u32) = h' @ to_be_bytes j \<longleftrightarrow> h = h' \<and> i = j"
  by simp

definition command_count_cfs :: "column_family list" where
  "command_count_cfs = [internal_commands_pk_epoch_cf, internal_commands_pk_total_cf, internal_commands_epoch_cf]"

definition command_cfs :: "column_family list" where
  "command_cfs = command_count_cfs @ [internal_commands_cf, internal_commands_block_height_sort_cf,
     internal_commands_global_slot_sort_cf, internal_commands_pk_cf, internal_commands_pk_num_cf,
     internal_commands_pk_block_height_sort_cf, internal_commands_pk_global_slot_sort_cf]"

lemmas command_cf_defs = internal_commands_pk_epoch_cf_def internal_commands_pk_total_cf_def internal_commands_epoch_cf_def
  internal_commands_cf_def internal_commands_block_height_sort_cf_def internal_commands_global_slot_sort_cf_def
  internal_commands_pk_cf_def internal_commands_pk_num_cf_def internal_commands_pk_block_height_sort_cf_def
  internal_commands_pk_global_slot_sort_cf_def

text \<open>The families the commands of blocks and public keys are read from.\<close>

definition read_command_cfs :: "column_family list" where
  "read_command_cfs = [block_internal_command_counts_cf, internal_commands_cf, internal_commands_pk_num_cf, internal_commands_pk_cf]"

section \<open>Held commands\<close>

text \<open>What is read for a stored command: a fee transfer with the same fields, its kind included.\<close>

definition read_back :: "db_internal_command_with_data \<Rightarrow> db_internal_command_with_data" where
  "read_back c = WdFeeTransfer (with_data_fields c)"

lemma parse_untagged: "json_codec IC \<Longrightarrow> parse_json (untagged IC) (json (untagged IC) c) = Some (read_back c)"
  by (simp add: json_def untagged_def read_back_def json_codec.from_to)

lemma parse_untagged_variant: "parse_json (untagged IC) v \<noteq> Some (WdCoinbase md)"
  by (cases "(untagged IC, v)" rule: parse_json.cases) (auto simp: untagged_def split: option.splits)

definition holds_block_commands :: "('d, 'j) db_ops \<Rightarrow> 'j ic_codec \<Rightarrow> 'd \<Rightarrow> state_hash \<Rightarrow> db_internal_command_with_data list \<Rightarrow> bool" where
  "holds_block_commands D IC d h cs \<longleftrightarrow>
     (\<forall>j<length cs. db_get D d internal_commands_cf (h @ to_be_bytes (word_of_nat j :: u32)) = Some (json (untagged IC) (cs ! j)))"

definition holds_pk_commands :: "('d, 'j) db_ops \<Rightarrow> 'j ic_codec \<Rightarrow> 'd \<Rightarrow> (public_key \<Rightarrow> db_internal_command_with_data list) \<Rightarrow> bool" where
  "holds_pk_commands D IC d L \<longleftrightarrow>
     holds_lists D internal_commands_pk_num_cf id internal_commands_pk_cf (\<lambda>pk i. pk @ to_be_bytes i)
       (\<lambda>pk. length pk = PUBLIC_KEY_LEN) d (\<lambda>pk. map (json (untagged IC)) (L pk))"

sublocale key_value_db \<subseteq> pk_commands: list_family D internal_commands_pk_num_cf id internal_commands_pk_cf
    "\<lambda>pk i. pk @ to_be_bytes i" "\<lambda>pk. length pk = PUBLIC_KEY_LEN"
  by unfold_locales (simp_all add: command_cf_defs)

context key_value_db
begin

lemma command_counts:
  assumes "counters D command_count_cfs d" "length (with_data_recipient c) = PUBLIC_KEY_LEN" "get_current_epoch D d = Inr now"
  shows "\<exists>d'. increment_internal_commands_counts D c epoch d = Inr d' \<and> counters D command_count_cfs d' \<and>
    changes D command_count_cfs d d'"
proof (cases c)
  case (WdFeeTransfer md)
  let ?pk = "md_receiver md"
  have pk: "length ?pk = PUBLIC_KEY_LEN" using assms(2) by (simp add: WdFeeTransfer)
  note cfs = command_count_cfs_def list.set insertI1 insertI2
  note incs = epoch_only_count_def epoch_or_current_def pk_epoch_count_def internal_command_pk_keys[OF pk]
  have "get_internal_commands_pk_epoch_count D ?pk (Some epoch) d =
      get_count D internal_commands_pk_epoch_cf (to_be_bytes epoch @ ?pk) d"
    by (simp add: get_internal_commands_pk_epoch_count_def incs assms(3))
  from count_put_counts[OF assms(1) _ this] obtain d1 where d1: "increment_internal_commands_pk_epoch_count D ?pk epoch d = Inr d1"
    "counters D command_count_cfs d1" "changes D command_count_cfs d d1"
    by (auto simp: increment_internal_commands_pk_epoch_count_def incs command_count_cfs_def)
  from count_put_counts[OF d1(2) _ get_internal_commands_pk_total_count_def, of ?pk]
  obtain d2 where d2: "increment_internal_commands_pk_total_count D ?pk d1 = Inr d2"
    "counters D command_count_cfs d2" "changes D command_count_cfs d1 d2"
    by (auto simp: increment_internal_commands_pk_total_count_def command_count_cfs_def)
  note c2 = changes_trans[OF d1(3) d2(3)]
  have "get_current_epoch D d2 = Inr now" using current_epoch_changes[OF c2] assms(3) by (simp add: cfs command_cf_defs DEFAULT_CF_def block_epoch_cf_def)
  then have "get_internal_commands_epoch_count D (Some epoch) d2 = get_count D internal_commands_epoch_cf (to_be_bytes epoch) d2"
    by (simp add: get_internal_commands_epoch_count_def incs)
  from count_put_counts[OF d2(2) _ this] obtain d3 where d3: "increment_internal_commands_epoch_count D epoch d2 = Inr d3"
    "counters D command_count_cfs d3" "changes D command_count_cfs d2 d3"
    by (auto simp: increment_internal_commands_epoch_count_def command_count_cfs_def)
  show ?thesis
    using d1(1) d2(1) d3(1,2) changes_trans[OF c2 d3(3)] by (simp add: increment_internal_commands_counts_def WdFeeTransfer)
qed (use assms(1) in \<open>simp add: increment_internal_commands_counts_def\<close>)

lemma pk_command_appends:
  assumes "holds_pk_commands D IC d L" "length pk = PUBLIC_KEY_LEN" "Suc (length (L pk)) < 2 ^ 32"
  shows "\<exists>d'. set_pk_internal_command D IC pk c d = Inr d' \<and> holds_pk_commands D IC d' (L(pk := L pk @ [c])) \<and>
    changes D [internal_commands_pk_cf, internal_commands_pk_num_cf] d d'"
proof -
  have L: "(\<lambda>b. map (json (untagged IC)) ((L(pk := L pk @ [c])) b)) = (\<lambda>b. map (json (untagged IC)) (L b))(pk := map (json (untagged IC)) (L pk) @ [json (untagged IC) c])"
    by auto
  obtain n where n: "get_pk_num_internal_commands D pk d = Inr n" "unwrap_or n 0 = word_of_nat (length (L pk))"
    using pk_commands.holds_lists_count[OF assms(1)[unfolded holds_pk_commands_def] assms(2)]
    by (auto simp: get_pk_num_internal_commands_def get_count_def run_simps)
  let ?d = "db_put D internal_commands_pk_num_cf pk (raw_u32 (word_of_nat (length (L pk)) + 1))
      (db_put D internal_commands_pk_cf (pk @ to_be_bytes (word_of_nat (length (L pk)) :: u32)) (json (untagged IC) c) d)"
  have w: "(word_of_nat (length (L pk)) + 1 :: u32) = word_of_nat (Suc (length (L pk)))" by simp
  have "set_pk_internal_command D IC pk c d = Inr ?d"
    by (simp add: set_pk_internal_command_def internal_command_pk_keys[OF assms(2)] n Let_def)
  moreover have "holds_pk_commands D IC ?d (L(pk := L pk @ [c]))"
    using pk_commands.append_elems[OF assms(1)[unfolded holds_pk_commands_def] assms(2), of "[json (untagged IC) c]"] assms(3)
    unfolding holds_pk_commands_def L by (simp add: w del: of_nat_Suc)
  moreover have "changes D [internal_commands_pk_cf, internal_commands_pk_num_cf] d ?d" by (simp add: changes_put)
  ultimately show ?thesis by blast
qed

text \<open>One command: its block's list and its recipient's list grow, the other blocks' lists stay.\<close>

lemma add_internal_command_holds:
  assumes "length (state_hash_of b) = STATE_HASH_LEN" "length (with_data_recipient c) = PUBLIC_KEY_LEN"
    "counters D command_count_cfs d" "get_current_epoch D d = Inr now" "holds_pk_commands D IC d L"
    "Suc (length (L (with_data_recipient c))) < 2 ^ 32"
  shows "\<exists>d'. add_internal_command D IC b (i, c) d = Inr d' \<and> counters D command_count_cfs d' \<and>
    holds_pk_commands D IC d' (L(with_data_recipient c := L (with_data_recipient c) @ [c])) \<and> changes D command_cfs d d' \<and>
    (\<forall>k. db_get D d' internal_commands_cf k =
      (if k = state_hash_of b @ to_be_bytes (word_of_nat i :: u32) then Some (json (untagged IC) c) else db_get D d internal_commands_cf k))"
proof -
  let ?h = "state_hash_of b" and ?pk = "with_data_recipient c" and ?i = "word_of_nat i :: u32"
  note keys = internal_command_keys[OF assms(1)]
  obtain d1 where d1: "increment_internal_commands_counts D c (epoch_count b) d = Inr d1" "counters D command_count_cfs d1"
    "changes D command_count_cfs d d1" using command_counts[OF assms(3,2,4)] by blast
  define d2 where "d2 = db_put D internal_commands_global_slot_sort_cf (to_be_bytes (global_slot_since_genesis b) @ ?h @ to_be_bytes ?i) (json (untagged IC) c)
    (db_put D internal_commands_block_height_sort_cf (to_be_bytes (blockchain_length b) @ ?h @ to_be_bytes ?i) (json (untagged IC) c)
      (db_put D internal_commands_cf (?h @ to_be_bytes ?i) (json (untagged IC) c) d1))"
  have set2: "set_block_internal_command D IC b ?i c d1 = Inr d2"
    by (simp add: set_block_internal_command_def keys d2_def Let_def)
  have c2: "changes D [internal_commands_cf, internal_commands_block_height_sort_cf, internal_commands_global_slot_sort_cf] d1 d2"
    by (simp add: d2_def changes_put)
  have "holds_pk_commands D IC d2 L"
    using assms(5) unfolding holds_pk_commands_def holds_lists_def
    by (auto intro!: holds_list_cong[where d = d and e = d2] simp: changes_get[OF c2] changes_get[OF d1(3)] command_count_cfs_def command_cf_defs)
  from pk_command_appends[OF this assms(2,6)] obtain d3 where d3: "set_pk_internal_command D IC ?pk c d2 = Inr d3"
    "holds_pk_commands D IC d3 (L(?pk := L ?pk @ [c]))" "changes D [internal_commands_pk_cf, internal_commands_pk_num_cf] d2 d3"
    by blast
  define d4 where "d4 = db_put D internal_commands_pk_global_slot_sort_cf
      (?pk @ to_be_bytes (global_slot_since_genesis b) @ ?h @ to_be_bytes ?i @ to_be_bytes (with_data_kind c)) (json (untagged IC) c)
    (db_put D internal_commands_pk_block_height_sort_cf
      (?pk @ to_be_bytes (blockchain_length b) @ ?h @ to_be_bytes ?i @ to_be_bytes (with_data_kind c)) (json (untagged IC) c) d3)"
  have c4: "changes D [internal_commands_pk_block_height_sort_cf, internal_commands_pk_global_slot_sort_cf] d3 d4"
    by (simp add: d4_def changes_put)
  have "add_internal_command D IC b (i, c) d = Inr d4"
    by (simp add: add_internal_command_def d1(1) set2 d3(1) keys(3)[OF assms(2)] d4_def Let_def)
  moreover have "counters D command_count_cfs d4"
    using d1(2) counters_changes[OF c4, of command_count_cfs] counters_changes[OF d3(3), of command_count_cfs]
      counters_changes[OF c2, of command_count_cfs]
    by (simp add: command_count_cfs_def command_cf_defs)
  moreover have "holds_pk_commands D IC d4 (L(?pk := L ?pk @ [c]))"
    using d3(2) unfolding holds_pk_commands_def holds_lists_def
    by (auto intro!: holds_list_cong[where d = d3 and e = d4] simp: changes_get[OF c4] command_cf_defs)
  moreover have "changes D command_cfs d d4"
    using changes_mono[OF d1(3), of command_cfs] changes_mono[OF c2, of command_cfs] changes_mono[OF d3(3), of command_cfs]
      changes_mono[OF c4, of command_cfs] by (auto simp: command_cfs_def intro: changes_trans)
  moreover have "db_get D d4 internal_commands_cf k =
      (if k = ?h @ to_be_bytes ?i then Some (json (untagged IC) c) else db_get D d internal_commands_cf k)" for k
    by (simp add: changes_get[OF c4] changes_get[OF d3(3)] changes_get[OF d1(3)] d2_def get_put command_count_cfs_def command_cf_defs)
  ultimately show ?thesis by blast
qed

lemma add_internal_commands_hold:
  assumes "length (state_hash_of b) = STATE_HASH_LEN" "\<forall>c\<in>set cs. length (with_data_recipient c) = PUBLIC_KEY_LEN"
    "counters D command_count_cfs d" "get_current_epoch D d = Inr now" "holds_pk_commands D IC d L"
    "\<And>pk. length (L pk) + length cs < 2 ^ 32" "n + length cs < 2 ^ 32"
  shows "\<exists>d'. fold_ok (add_internal_command D IC b) (enumerate n cs) d = Inr d' \<and>
    holds_pk_commands D IC d' (\<lambda>pk. L pk @ filter (\<lambda>c. with_data_recipient c = pk) cs) \<and> changes D command_cfs d d' \<and>
    (\<forall>j<length cs. db_get D d' internal_commands_cf (state_hash_of b @ to_be_bytes (word_of_nat (n + j) :: u32)) = Some (json (untagged IC) (cs ! j))) \<and>
    (\<forall>k. (\<forall>j<length cs. k \<noteq> state_hash_of b @ to_be_bytes (word_of_nat (n + j) :: u32)) \<longrightarrow>
      db_get D d' internal_commands_cf k = db_get D d internal_commands_cf k)"
  using assms(2-7)
proof (induction cs arbitrary: d L n)
  case (Cons c cs)
  let ?pk = "with_data_recipient c" and ?key = "\<lambda>n. state_hash_of b @ to_be_bytes (word_of_nat n :: u32)"
  let ?L = "L(?pk := L ?pk @ [c])"
  obtain d1 where d1: "add_internal_command D IC b (n, c) d = Inr d1" "counters D command_count_cfs d1"
    "holds_pk_commands D IC d1 ?L" "changes D command_cfs d d1"
    "\<And>k. db_get D d1 internal_commands_cf k = (if k = ?key n then Some (json (untagged IC) c) else db_get D d internal_commands_cf k)"
    using add_internal_command_holds[OF assms(1) _ Cons.prems(2-4), of c n] Cons.prems(1) Cons.prems(5)[of ?pk] by auto
  have "get_current_epoch D d1 = Inr now"
    using current_epoch_changes[OF d1(4)] Cons.prems(3)
    by (simp add: command_cfs_def command_count_cfs_def command_cf_defs DEFAULT_CF_def block_epoch_cf_def)
  moreover have "length (?L pk) + length cs < 2 ^ 32" for pk using Cons.prems(5)[of pk] by auto
  ultimately obtain d2 where d2: "fold_ok (add_internal_command D IC b) (enumerate (Suc n) cs) d1 = Inr d2"
    "holds_pk_commands D IC d2 (\<lambda>pk. ?L pk @ filter (\<lambda>c. with_data_recipient c = pk) cs)" "changes D command_cfs d1 d2"
    "\<And>j. j < length cs \<Longrightarrow> db_get D d2 internal_commands_cf (?key (Suc n + j)) = Some (json (untagged IC) (cs ! j))"
    "\<And>k. \<forall>j<length cs. k \<noteq> ?key (Suc n + j) \<Longrightarrow> db_get D d2 internal_commands_cf k = db_get D d1 internal_commands_cf k"
    using Cons.IH[OF _ d1(2) _ d1(3), of "Suc n"] Cons.prems(1,6) by (auto simp del: of_nat_Suc)
  have keys: "?key n \<noteq> ?key (Suc n + j)" if "j < length cs" for j
    using that Cons.prems(6) by (simp add: word_of_nat_u32_eq del: of_nat_Suc of_nat_add)
  have "db_get D d2 internal_commands_cf (?key (n + j)) = Some (json (untagged IC) ((c # cs) ! j))" if "j < length (c # cs)" for j
  proof (cases j)
    case 0
    then show ?thesis using d2(5)[of "?key n"] keys d1(5) by (simp del: of_nat_Suc of_nat_add)
  next
    case (Suc m)
    then show ?thesis using d2(4)[of m] that by (simp del: of_nat_Suc of_nat_add)
  qed
  moreover have "db_get D d2 internal_commands_cf k = db_get D d internal_commands_cf k"
    if "\<forall>j<length (c # cs). k \<noteq> ?key (n + j)" for k
  proof -
    have "k \<noteq> ?key n" using that[rule_format, of 0] by simp
    moreover have "\<forall>j<length cs. k \<noteq> ?key (Suc n + j)"
      using that[rule_format, of "Suc j" for j] by (simp del: of_nat_Suc of_nat_add)
    ultimately show ?thesis using d2(5)[of k] d1(5)[of k] by simp
  qed
  moreover have "(\<lambda>pk. ?L pk @ filter (\<lambda>c. with_data_recipient c = pk) cs) = (\<lambda>pk. L pk @ filter (\<lambda>c. with_data_recipient c = pk) (c # cs))"
    by (auto simp: fun_eq_iff)
  ultimately show ?case using d1(1) d2(1,2) changes_trans[OF d1(4) d2(3)] by (simp del: of_nat_Suc of_nat_add)
qed simp

lemma get_internal_commands_held:
  assumes "json_codec IC" "length h = STATE_HASH_LEN" "length cs < 2 ^ 32"
    "db_get D d block_internal_command_counts_cf h = Some (raw_u32 (word_of_nat (length cs)))"
    "\<And>j. j < length cs \<Longrightarrow> db_get D d internal_commands_cf (h @ to_be_bytes (word_of_nat j :: u32)) = Some (json (untagged IC) (cs ! j))"
  shows "get_internal_commands D IC h d = Inr (map read_back cs)"
proof -
  have "bind_ok (get_block_internal_command D IC h (word_of_nat n) d) unwrap = Inr (read_back (cs ! n))" if "n \<in> set [0..<length cs]" for n
    using that assms(5)
    by (simp add: get_block_internal_command_def internal_command_keys[OF assms(2)] get_json_def parse_untagged[OF assms(1)])
  then have "traverse_ok (\<lambda>n. bind_ok (get_block_internal_command D IC h (word_of_nat n) d) unwrap) [0..<length cs] =
      Inr (map (\<lambda>n. read_back (cs ! n)) [0..<length cs])" by (rule traverse_ok_total)
  moreover have "map (\<lambda>n. read_back (cs ! n)) [0..<length cs] = map read_back cs" by (rule nth_equalityI) simp_all
  ultimately show ?thesis
    using assms(3,4) by (simp add: get_internal_commands_def get_block_internal_commands_count_def get_u32_def
        unat_word_of_nat_u32)
qed

lemma get_internal_commands_cong:
  assumes "db_get D e block_internal_command_counts_cf h = db_get D d block_internal_command_counts_cf h"
    "\<And>i. db_get D e internal_commands_cf (h @ to_be_bytes (i :: u32)) = db_get D d internal_commands_cf (h @ to_be_bytes i)"
    "length h = STATE_HASH_LEN"
  shows "get_internal_commands D IC h e = get_internal_commands D IC h d"
proof -
  have "get_block_internal_command D IC h i e = get_block_internal_command D IC h i d" for i
    by (simp add: get_block_internal_command_def get_json_def internal_command_keys[OF assms(3)] assms(2))
  moreover have "get_block_internal_commands_count D h e = get_block_internal_commands_count D h d"
    by (simp add: get_block_internal_commands_count_def get_u32_def assms(1))
  ultimately show ?thesis by (simp only: get_internal_commands_def)
qed

lemma block_commands_added:
  assumes "json_codec IC" "length (state_hash_of b) = STATE_HASH_LEN" "with_data_from_precomputed parse_amount order b = Inr cs"
    "\<forall>c\<in>set cs. length (with_data_recipient c) = PUBLIC_KEY_LEN" "counters D command_count_cfs d"
    "get_current_epoch D d = Inr now" "holds_pk_commands D IC d L" "\<forall>pk. length (L pk) + length cs < 2 ^ 32"
    "get_internal_commands_total_count D d = Inr t" "\<forall>e\<in>set batch. fst e \<notin> set read_command_cfs"
  shows "\<exists>d' batch'. add_internal_commands_batch D IC parse_amount order b d batch = Inr (d', batch') \<and>
    get_internal_commands_total_count D d' = Inr (t + word_of_nat (length cs)) \<and>
    get_internal_commands D IC (state_hash_of b) (db_write D batch' d') = Inr (map read_back cs) \<and>
    holds_pk_commands D IC (db_write D batch' d') (\<lambda>pk. L pk @ filter (\<lambda>c. with_data_recipient c = pk) cs) \<and>
    (\<forall>h. length h = STATE_HASH_LEN \<and> h \<noteq> state_hash_of b \<longrightarrow>
      get_internal_commands D IC h (db_write D batch' d') = get_internal_commands D IC h d)"
proof -
  let ?h = "state_hash_of b" and ?n = "word_of_nat (length cs) :: u32"
  let ?L = "\<lambda>pk. L pk @ filter (\<lambda>c. with_data_recipient c = pk) cs"
  define d1 where "d1 = db_put D DEFAULT_CF TOTAL_NUM_FEE_TRANSFERS_KEY (raw_u32 (t + ?n))
    (db_put D internal_commands_block_num_cf ?h (raw_u32 ?n) d)"
  have c1: "changes D [DEFAULT_CF, internal_commands_block_num_cf] d d1" by (simp add: d1_def changes_put)
  note cfs = command_count_cfs_def command_cfs_def read_command_cfs_def command_cf_defs DEFAULT_CF_def internal_commands_block_num_cf_def
    block_internal_command_counts_cf_def
  have total: "increment_internal_commands_total_count D ?n (db_put D internal_commands_block_num_cf ?h (raw_u32 ?n) d) = Inr d1"
    using assms(9) by (simp add: increment_internal_commands_total_count_def get_internal_commands_total_count_def d1_def
        DEFAULT_CF_def internal_commands_block_num_cf_def)
  have s1: "counters D command_count_cfs d1" using counters_changes[OF c1] assms(5) by (simp add: cfs)
  have s2: "get_current_epoch D d1 = Inr now"
    using assms(6) by (simp add: d1_def get_current_epoch_def get_best_block_hash_def get_block_epoch_def cfs block_epoch_cf_def
        BEST_TIP_STATE_HASH_KEY_def TOTAL_NUM_FEE_TRANSFERS_KEY_def cong: option.case_cong)
  have s3: "holds_pk_commands D IC d1 L"
    using assms(7) unfolding holds_pk_commands_def holds_lists_def
    by (auto intro!: holds_list_cong[where d = d and e = d1] simp: changes_get[OF c1] cfs)
  have len: "0 + length cs < 2 ^ 32" using assms(8)[rule_format, of "[]"] by simp
  obtain d2 where d2: "fold_ok (add_internal_command D IC b) (enumerate 0 cs) d1 = Inr d2" "holds_pk_commands D IC d2 ?L"
    "changes D command_cfs d1 d2"
    "\<And>j. j < length cs \<Longrightarrow> db_get D d2 internal_commands_cf (?h @ to_be_bytes (word_of_nat j :: u32)) = Some (json (untagged IC) (cs ! j))"
    "\<And>k. \<forall>j<length cs. k \<noteq> ?h @ to_be_bytes (word_of_nat j :: u32) \<Longrightarrow> db_get D d2 internal_commands_cf k = db_get D d1 internal_commands_cf k"
    using add_internal_commands_hold[OF assms(2,4) s1 s2 s3 assms(8)[rule_format] len] by auto
  have neq: "internal_commands_cf \<noteq> block_internal_command_counts_cf" by (simp add: cfs)
  define e where "e = db_write D (set_block_internal_commands_count_batch ?h ?n batch) d2"
  have e: "db_get D e cf k = (if cf = block_internal_command_counts_cf \<and> k = ?h then Some (raw_u32 ?n) else db_get D d2 cf k)"
    if "cf \<in> set read_command_cfs" for cf k
    using write_reads[OF assms(10) that] by (simp add: e_def set_block_internal_commands_count_batch_def batch_put_def db_write_snoc get_put)
  have "add_internal_commands_batch D IC parse_amount order b d batch = Inr (d2, set_block_internal_commands_count_batch ?h ?n batch)"
    by (simp add: add_internal_commands_batch_def assms(3) total d2(1) Let_def)
  moreover have "get_internal_commands_total_count D d2 = Inr (t + ?n)"
    by (simp add: get_internal_commands_total_count_def changes_reads(2)[OF d2(3)] d1_def cfs)
  moreover have "get_internal_commands D IC ?h e = Inr (map read_back cs)"
    by (rule get_internal_commands_held[OF assms(1,2)]) (use assms(8)[rule_format, of "[]"] in \<open>auto simp: e d2(4) read_command_cfs_def neq\<close>)
  moreover have "holds_pk_commands D IC e ?L"
    using d2(2) unfolding holds_pk_commands_def holds_lists_def
    by (auto intro!: holds_list_cong[where d = d2 and e = e] simp: e cfs)
  moreover have "get_internal_commands D IC h e = get_internal_commands D IC h d" if h: "length h = STATE_HASH_LEN" "h \<noteq> ?h" for h
  proof (rule get_internal_commands_cong[OF _ _ h(1)])
    show "db_get D e block_internal_command_counts_cf h = db_get D d block_internal_command_counts_cf h"
      using h(2) by (simp add: e changes_get[OF d2(3)] changes_get[OF c1] cfs)
    have "internal_commands_cf \<notin> set [DEFAULT_CF, internal_commands_block_num_cf]" by (simp add: cfs)
    then show "db_get D e internal_commands_cf (h @ to_be_bytes i) = db_get D d internal_commands_cf (h @ to_be_bytes i)" for i :: u32
      using h assms(2) d2(5)[of "h @ to_be_bytes i"] changes_get[OF c1] neq by (simp add: e read_command_cfs_def)
  qed
  ultimately show ?thesis unfolding e_def by blast
qed

text \<open>The canonical count follows the blocks of the best chain.\<close>

lemma get_internal_commands_default: "get_internal_commands D IC h (db_put D DEFAULT_CF k v d) = get_internal_commands D IC h d"
proof -
  have "get_block_internal_command D IC h i (db_put D DEFAULT_CF k v d) = get_block_internal_command D IC h i d" for i
    by (simp add: get_block_internal_command_def DEFAULT_CF_def command_cf_defs)
  moreover have "get_block_internal_commands_count D h (db_put D DEFAULT_CF k v d) = get_block_internal_commands_count D h d"
    by (simp add: get_block_internal_commands_count_def DEFAULT_CF_def block_internal_command_counts_cf_def)
  ultimately show ?thesis by (simp only: get_internal_commands_def)
qed

lemma decrements:
  assumes "\<forall>u\<in>set us. get_internal_commands D IC (bu_state_hash u) d = Inr (K (bu_state_hash u))"
    "get_canonical_internal_commands_count D d = Inr (word_of_nat (m + (\<Sum>u\<leftarrow>us. length (K (bu_state_hash u)))))"
    "m + (\<Sum>u\<leftarrow>us. length (K (bu_state_hash u))) < 2 ^ 32"
  shows "\<exists>d'. fold_ok (\<lambda>update d. bind_ok (get_internal_commands D IC (bu_state_hash update) d) (\<lambda>cmds.
        decrement_canonical_internal_commands_count D (word_of_nat (length cmds)) d)) us d = Inr d' \<and>
      get_canonical_internal_commands_count D d' = Inr (word_of_nat m) \<and>
      (\<forall>h. get_internal_commands D IC h d' = get_internal_commands D IC h d)"
  using assms
proof (induction us arbitrary: d)
  case (Cons u us)
  let ?k = "length (K (bu_state_hash u))" and ?r = "m + (\<Sum>u\<leftarrow>us. length (K (bu_state_hash u)))"
  have "sat_sub (word_of_nat (?k + ?r)) (word_of_nat ?k :: u32) = word_of_nat ?r"
    using Cons.prems(3) by (simp add: word_unat_eq_iff unat_sat_sub unat_word_of_nat_u32 del: of_nat_add)
  then have "decrement_canonical_internal_commands_count D (word_of_nat ?k) d =
      Inr (db_put D DEFAULT_CF TOTAL_NUM_CANONICAL_FEE_TRANSFERS_KEY (raw_u32 (word_of_nat ?r)) d)"
    using Cons.prems(2) by (simp add: decrement_canonical_internal_commands_count_def algebra_simps del: of_nat_add)
  then show ?case
    using Cons.IH[of "db_put D DEFAULT_CF TOTAL_NUM_CANONICAL_FEE_TRANSFERS_KEY (raw_u32 (word_of_nat ?r)) d"] Cons.prems(1,3)
    by (simp add: get_internal_commands_default get_canonical_internal_commands_count_def del: of_nat_add)
qed simp

lemma increments:
  assumes "\<forall>u\<in>set ws. get_internal_commands D IC (bu_state_hash u) d = Inr (K (bu_state_hash u))"
    "get_canonical_internal_commands_count D d = Inr (word_of_nat m)"
  shows "\<exists>d'. fold_ok (\<lambda>update d. bind_ok (get_internal_commands D IC (bu_state_hash update) d) (\<lambda>cmds.
        increment_canonical_internal_commands_count D (word_of_nat (length cmds)) d)) ws d = Inr d' \<and>
      get_canonical_internal_commands_count D d' = Inr (word_of_nat (m + (\<Sum>u\<leftarrow>ws. length (K (bu_state_hash u)))))"
  using assms
proof (induction ws arbitrary: d m)
  case (Cons u ws)
  let ?k = "length (K (bu_state_hash u))"
  have "increment_canonical_internal_commands_count D (word_of_nat ?k) d =
      Inr (db_put D DEFAULT_CF TOTAL_NUM_CANONICAL_FEE_TRANSFERS_KEY (raw_u32 (word_of_nat (m + ?k))) d)"
    using Cons.prems(2) by (simp add: increment_canonical_internal_commands_count_def)
  then show ?case
    using Cons.IH[of "db_put D DEFAULT_CF TOTAL_NUM_CANONICAL_FEE_TRANSFERS_KEY (raw_u32 (word_of_nat (m + ?k))) d" "m + ?k"] Cons.prems(1)
    by (simp add: get_internal_commands_default get_canonical_internal_commands_count_def add.assoc del: of_nat_add)
qed simp

end

context key_value_db
begin

text \<open>A page of a public key's commands: \<open>limit\<close> bounds the index, not the number.\<close>

lemma collect_pk_commands_held:
  assumes "json_codec IC" "holds_pk_commands D IC d L" "length pk = PUBLIC_KEY_LEN" "n \<le> length (L pk)"
  shows "collect_pk_commands D IC pk d [m..<n] acc = Inr (acc @ map read_back (drop m (take n (L pk))))"
proof (induction "n - m" arbitrary: m acc)
  case (Suc k)
  then have m: "m < n" by simp
  then have "db_get D d internal_commands_pk_cf (pk @ to_be_bytes (word_of_nat m :: u32)) = Some (json (untagged IC) (L pk ! m))"
    using assms(2-4) by (auto simp: holds_pk_commands_def holds_lists_def holds_list_def)
  then have "get_pk_internal_command D IC pk (word_of_nat m) d = Inr (Some (read_back (L pk ! m)))"
    by (simp add: get_pk_internal_command_def internal_command_pk_keys[OF assms(3)] get_json_def parse_untagged[OF assms(1)])
  moreover have "drop m (take n (L pk)) = L pk ! m # drop (Suc m) (take n (L pk))"
    using m assms(4) by (simp add: Cons_nth_drop_Suc[symmetric])
  ultimately show ?case using Suc(1)[of "Suc m"] Suc(2) m by (simp add: upt_conv_Cons)
qed simp

lemma pk_commands_page:
  assumes "json_codec IC" "holds_pk_commands D IC d L" "length pk = PUBLIC_KEY_LEN"
  shows "get_internal_commands_public_key D IC pk offset limit d =
    Inr (map read_back (drop (unat (ucast offset :: u32)) (take (unat (ucast limit :: u32)) (L pk))))"
proof -
  have len: "length (L pk) < 2 ^ 32" "get_count D internal_commands_pk_num_cf pk d = Inr (word_of_nat (length (L pk)))"
    using assms(2,3) by (auto simp: holds_pk_commands_def holds_lists_def holds_list_def)
  then obtain n where n: "get_u32 D internal_commands_pk_num_cf pk d = Inr n" "unwrap_or n 0 = word_of_nat (length (L pk))"
    by (auto simp: get_count_def run_simps)
  show ?thesis
  proof (cases n)
    case None
    then have "L pk = []" using n(2) len(1) word_of_nat_u32_eq[of 0 "length (L pk)"] by simp
    then show ?thesis using n(1) None by (simp add: get_internal_commands_public_key_def get_pk_num_internal_commands_def)
  next
    case (Some k)
    then have k: "k = word_of_nat (length (L pk))" using n(2) by simp
    have le: "unat (min (ucast limit) k) = min (unat (ucast limit :: u32)) (length (L pk))"
      using len(1) by (simp add: k min_def word_le_nat_alt unat_word_of_nat_u32)
    have "take (min (unat (ucast limit :: u32)) (length (L pk))) (L pk) = take (unat (ucast limit :: u32)) (L pk)"
      by (simp add: min_def)
    with collect_pk_commands_held[OF assms, of "unat (min (ucast limit) k)" "unat (ucast offset :: u32)" "[]"] n(1) Some
    show ?thesis
      unfolding le by (simp add: get_internal_commands_public_key_def get_pk_num_internal_commands_def le)
  qed
qed

end

section \<open>Properties of internal commands\<close>

text \<open>A block with a coinbase and no commands.\<close>

definition example_coinbase_block :: precomputed_block where
  "example_coinbase_block = V1 \<lparr>b1_network = ''mainnet'', b1_state_hash = state_hash_default, b1_blockchain_length = 2,
     b1_protocol_state = example_state\<lparr>ps_consensus_state := (ps_consensus_state example_state)
       \<lparr>cs_coinbase_receiver := public_key_default\<rparr>\<rparr>, b1_snarked_ledger_hash = ''j'',
     b1_pre_diff = \<lparr>d1_completed_works = [], d1_commands = [], d1_coinbase = CoinbaseCb None,
       d1_internal_command_balances = []\<rparr>,
     b1_post_diff = None\<rparr>"

lemma example_commands:
  "with_data_from_precomputed (\<lambda>_. None) (\<lambda>_ m. m) example_coinbase_block =
     Inr [from_internal_cmd (DbCoinbase MAINNET_COINBASE_REWARD public_key_default) state_hash_default 2 0]"
  by code_simp

text \<open>
  C8: once the batch of a block is written, its internal commands are read back in order, each as a fee
  transfer with the fields of the command, kind included; each is appended to the list of its recipient,
  which is read by pages; the total grows by their number and the commands of other blocks are untouched.
\<close>

theorem internal_commands_roundtrip:
  assumes "key_value_db D" "json_codec IC" "length (state_hash_of b) = STATE_HASH_LEN"
    "with_data_from_precomputed parse_amount order b = Inr cs"
    "\<forall>c\<in>set cs. length (with_data_recipient c) = PUBLIC_KEY_LEN" "counters D command_count_cfs d"
    "get_current_epoch D d = Inr now" "holds_pk_commands D IC d L" "\<forall>pk. length (L pk) + length cs < 2 ^ 32"
    "get_internal_commands_total_count D d = Inr t" "\<forall>e\<in>set batch. fst e \<notin> set read_command_cfs"
  shows "\<exists>d' batch'. add_internal_commands_batch D IC parse_amount order b d batch = Inr (d', batch') \<and>
    get_internal_commands_total_count D d' = Inr (t + word_of_nat (length cs)) \<and>
    get_internal_commands D IC (state_hash_of b) (db_write D batch' d') =
      Inr (map (\<lambda>c. WdFeeTransfer (with_data_fields c)) cs) \<and>
    (\<forall>pk offset limit. length pk = PUBLIC_KEY_LEN \<longrightarrow>
      get_internal_commands_public_key D IC pk offset limit (db_write D batch' d') =
        Inr (map (\<lambda>c. WdFeeTransfer (with_data_fields c)) (drop (unat (ucast offset :: u32))
          (take (unat (ucast limit :: u32)) (L pk @ filter (\<lambda>c. with_data_recipient c = pk) cs))))) \<and>
    holds_pk_commands D IC (db_write D batch' d') (\<lambda>pk. L pk @ filter (\<lambda>c. with_data_recipient c = pk) cs) \<and>
    (\<forall>h. length h = STATE_HASH_LEN \<and> h \<noteq> state_hash_of b \<longrightarrow>
      get_internal_commands D IC h (db_write D batch' d') = get_internal_commands D IC h d)"
proof -
  obtain d' batch' where added: "add_internal_commands_batch D IC parse_amount order b d batch = Inr (d', batch')"
    "get_internal_commands_total_count D d' = Inr (t + word_of_nat (length cs))"
    "get_internal_commands D IC (state_hash_of b) (db_write D batch' d') = Inr (map read_back cs)"
    "holds_pk_commands D IC (db_write D batch' d') (\<lambda>pk. L pk @ filter (\<lambda>c. with_data_recipient c = pk) cs)"
    "\<And>h. length h = STATE_HASH_LEN \<and> h \<noteq> state_hash_of b \<Longrightarrow>
      get_internal_commands D IC h (db_write D batch' d') = get_internal_commands D IC h d"
    using key_value_db.block_commands_added[OF assms] by blast
  then show ?thesis
    using key_value_db.pk_commands_page[OF assms(1,2) added(4)]
    by (intro exI[of _ d'] exI[of _ batch']) (simp add: read_back_def [abs_def])
qed

theorem internal_commands_roundtrip_witness:
  "\<exists>d' batch'. add_internal_commands_batch assoc_ops id_codec (\<lambda>_. None) (\<lambda>_ m. m) example_coinbase_block [] [] = Inr (d', batch') \<and>
    get_internal_commands_total_count assoc_ops d' = Inr 1 \<and>
    get_internal_commands assoc_ops id_codec state_hash_default (db_write assoc_ops batch' d') =
      Inr [WdFeeTransfer (with_data_fields (from_internal_cmd (DbCoinbase MAINNET_COINBASE_REWARD public_key_default) state_hash_default 2 0))]"
proof -
  have "state_hash_of example_coinbase_block = state_hash_default" by (simp add: example_coinbase_block_def)
  moreover have "holds_pk_commands assoc_ops id_codec [] (\<lambda>_. [])"
    by (simp add: holds_pk_commands_def holds_lists_def holds_list_def get_count_def get_u32_def)
  moreover have "counters assoc_ops command_count_cfs []" by (simp add: counters_def get_count_def get_u32_def)
  moreover have "get_current_epoch assoc_ops [] = Inr 0" by (simp add: get_current_epoch_def get_best_block_hash_def get_hash_def)
  moreover have "get_internal_commands_total_count assoc_ops [] = Inr 0"
    by (simp add: get_internal_commands_total_count_def get_count_def get_u32_def)
  moreover have "length state_hash_default = STATE_HASH_LEN" "length public_key_default = PUBLIC_KEY_LEN"
    by (simp_all add: state_hash_default_def public_key_default_def len_defs)
  ultimately show ?thesis
    using internal_commands_roundtrip[OF assoc.key_value_db_axioms idc.json_codec_axioms _ example_commands,
        of "[]" 0 "\<lambda>_. []" 0 "[]"]
    by (fastforce simp: from_internal_cmd_def)
qed

text \<open>
  C9: the number of canonical internal commands is the sum over the canonical blocks, and a change of the best
  chain keeps it so.
\<close>

theorem canonical_commands_counted:
  assumes "key_value_db D" "finite C" "distinct (map bu_state_hash us)" "bu_state_hash ` set us \<subseteq> C"
    "distinct (map bu_state_hash ws)" "bu_state_hash ` set ws \<inter> (C - bu_state_hash ` set us) = {}"
    "\<forall>u\<in>set (us @ ws). get_internal_commands D IC (bu_state_hash u) d = Inr (K (bu_state_hash u))"
    "get_canonical_internal_commands_count D d = Inr (word_of_nat (\<Sum>h\<in>C. length (K h)))" "(\<Sum>h\<in>C. length (K h)) < 2 ^ 32"
  shows "\<exists>d'. update_internal_commands D IC \<lparr>du_apply = ws, du_unapply = us\<rparr> d = Inr d' \<and>
    get_canonical_internal_commands_count D d' =
      Inr (word_of_nat (\<Sum>h\<in>C - bu_state_hash ` set us \<union> bu_state_hash ` set ws. length (K h)))"
proof -
  let ?R = "C - bu_state_hash ` set us" and ?n = "\<lambda>us. \<Sum>u\<leftarrow>us. length (K (bu_state_hash u))"
  have sum: "(\<Sum>h\<in>bu_state_hash ` set vs. length (K h)) = ?n vs" if "distinct (map bu_state_hash vs)" for vs
    using sum.distinct_set_conv_list[OF that, of "\<lambda>h. length (K h)"] by (simp add: comp_def)
  have C: "(\<Sum>h\<in>C. length (K h)) = (\<Sum>h\<in>?R. length (K h)) + ?n us"
    using sum.subset_diff[OF assms(4,2), of "\<lambda>h. length (K h)"] sum[OF assms(3)] by simp
  have W: "(\<Sum>h\<in>?R \<union> bu_state_hash ` set ws. length (K h)) = (\<Sum>h\<in>?R. length (K h)) + ?n ws"
    using sum.union_disjoint[of ?R "bu_state_hash ` set ws" "\<lambda>h. length (K h)"] assms(2,6) sum[OF assms(5)] by (simp add: Int_commute)
  have reads: "\<forall>u\<in>set us. get_internal_commands D IC (bu_state_hash u) d = Inr (K (bu_state_hash u))" using assms(7) by simp
  obtain e where e: "fold_ok (\<lambda>update d. bind_ok (get_internal_commands D IC (bu_state_hash update) d) (\<lambda>cmds.
        decrement_canonical_internal_commands_count D (word_of_nat (length cmds)) d)) us d = Inr e"
      "get_canonical_internal_commands_count D e = Inr (word_of_nat (\<Sum>h\<in>?R. length (K h)))"
      "\<And>h. get_internal_commands D IC h e = get_internal_commands D IC h d"
    using key_value_db.decrements[OF assms(1) reads, of "\<Sum>h\<in>?R. length (K h)"] assms(8,9) unfolding C by auto
  have reads': "\<forall>u\<in>set ws. get_internal_commands D IC (bu_state_hash u) e = Inr (K (bu_state_hash u))" using assms(7) e(3) by simp
  show ?thesis
    using key_value_db.increments[OF assms(1) reads' e(2)] e(1) unfolding W by (simp add: update_internal_commands_def)
qed

definition example_stored_command :: db_internal_command_with_data where
  "example_stored_command = from_internal_cmd (DbCoinbase MAINNET_COINBASE_REWARD public_key_default) state_hash_default 2 0"

definition example_update_hash :: "state_hash \<Rightarrow> block_update" where
  "example_update_hash h = \<lparr>bu_state_hash = h, bu_blockchain_length = 2, bu_global_slot_since_genesis = 2\<rparr>"

theorem canonical_commands_counted_witness:
  "\<exists>d'. update_internal_commands assoc_ops id_codec
      \<lparr>du_apply = [example_update_hash state_hash_default], du_unapply = []\<rparr>
      [((block_internal_command_counts_cf, state_hash_default), raw_u32 1),
       ((internal_commands_cf, state_hash_default @ to_be_bytes (0 :: u32)), json (untagged id_codec) example_stored_command)] = Inr d' \<and>
    get_canonical_internal_commands_count assoc_ops d' = Inr 1"
  (is "\<exists>d'. update_internal_commands _ _ _ ?d = _ \<and> _")
proof -
  have "get_internal_commands assoc_ops id_codec state_hash_default ?d = Inr (map read_back [example_stored_command])"
    by (rule assoc.get_internal_commands_held[OF idc.json_codec_axioms])
      (simp_all add: state_hash_default_def len_defs block_internal_command_counts_cf_def internal_commands_cf_def)
  moreover have "get_canonical_internal_commands_count assoc_ops ?d = Inr 0"
    by (simp add: get_canonical_internal_commands_count_def get_count_def get_u32_def DEFAULT_CF_def
        block_internal_command_counts_cf_def internal_commands_cf_def)
  ultimately show ?thesis
    using canonical_commands_counted[OF assoc.key_value_db_axioms, of "{}" "[]" "[example_update_hash state_hash_default]"
        id_codec ?d "\<lambda>_. [read_back example_stored_command]"] by (simp add: example_update_hash_def)
qed

lemma read_commands_variant:
  assumes "get_internal_commands D IC h d = Inr cs"
  shows "WdCoinbase md \<notin> set cs"
proof
  assume "WdCoinbase md \<in> set cs"
  moreover obtain ns where "ns = [] \<and> cs = [] \<or>
      traverse_ok (\<lambda>n. bind_ok (get_block_internal_command D IC h (word_of_nat n) d) unwrap) ns = Inr cs"
    using assms by (auto simp: get_internal_commands_def run_simps split: option.splits)
  ultimately obtain n where "bind_ok (get_block_internal_command D IC h (word_of_nat n) d) unwrap = Inr (WdCoinbase md)"
    by (auto dest: traverse_ok_in)
  then obtain v where "parse_json (untagged IC) v = Some (WdCoinbase md)"
    by (auto simp: get_block_internal_command_def get_json_def unwrap_def run_simps split: option.splits bind_splits)
  then show False by (simp add: parse_untagged_variant)
qed

lemma count_genesis_block_canonical:
  assumes "count_genesis_block D IC h d = Inr d'"
  shows "increment_block_canonical_production_count D h d = Inr d'"
proof -
  obtain e cs where e: "increment_block_canonical_production_count D h d = Inr e" "get_internal_commands D IC h e = Inr cs"
      "(case cs of WdCoinbase md # _ \<Rightarrow>
         increment_block_production_count D (md_receiver md) (MAINNET_COINBASE_REWARD < md_amount md) e
       | _ \<Rightarrow> Inr e) = Inr d'"
    using assms by (auto simp: count_genesis_block_def run_simps)
  have "WdCoinbase md \<notin> set cs" for md using e(2) by (rule read_commands_variant)
  then show ?thesis using e(1,3) by (auto split: list.splits db_internal_command_with_data.splits)
qed

context key_value_db
begin

lemma canonical_production_changes:
  assumes "increment_block_canonical_production_count D h d = Inr d'"
  shows "changes D [block_production_pk_canonical_epoch_cf, block_production_pk_canonical_epoch_sort_cf,
    block_production_pk_canonical_total_cf, block_production_canonical_epoch_cf] d d'"
  using assms
  by (auto simp: increment_block_canonical_production_count_def increment_block_canonical_production_count_sort_def
      count_put_def Let_def run_simps intro!: changes_put changes_delete)

end

definition example_genesis_db :: "db_metadata assoc_db" where
  "example_genesis_db = [((block_creator_cf, state_hash_default), Raw public_key_default),
     ((block_epoch_cf, state_hash_default), raw_u32 0),
     ((block_internal_command_counts_cf, state_hash_default), raw_u32 1),
     ((internal_commands_cf, state_hash_default @ to_be_bytes (0 :: u32)), json (untagged id_codec) example_stored_command)]"

text \<open>
  C40: recording a new genesis block as canonical changes only the canonical counts.  The code has a branch
  that also counts the block for the receiver of its coinbase, but it is never taken: it needs the first
  stored command to be read as a coinbase, and a stored command is always read as a fee transfer.
\<close>

theorem genesis_canonical_counts_only:
  assumes "key_value_db D" "count_genesis_block D IC h d = Inr d'"
  shows "increment_block_canonical_production_count D h d = Inr d' \<and>
    (\<forall>pk. get_block_production_pk_total_count D pk d' = get_block_production_pk_total_count D pk d) \<and>
    get_block_production_total_count D d' = get_block_production_total_count D d"
  using count_genesis_block_canonical[OF assms(2)]
    changes_reads(2)[OF key_value_db.canonical_production_changes[OF assms(1) count_genesis_block_canonical[OF assms(2)]]]
  by (simp add: get_block_production_pk_total_count_def get_block_production_total_count_def DEFAULT_CF_def
      block_production_pk_canonical_epoch_cf_def block_production_pk_canonical_epoch_sort_cf_def
      block_production_pk_canonical_total_cf_def block_production_canonical_epoch_cf_def block_production_pk_total_cf_def)

theorem genesis_canonical_counts_only_witness:
  "\<exists>d'. count_genesis_block assoc_ops id_codec state_hash_default example_genesis_db = Inr d' \<and>
    get_block_production_pk_total_count assoc_ops public_key_default d' = Inr 0"
proof -
  let ?h = state_hash_default and ?d = example_genesis_db
  note cfs = example_genesis_db_def count_cf_defs block_creator_cf_def block_epoch_cf_def block_internal_command_counts_cf_def
    internal_commands_cf_def DEFAULT_CF_def
  have len: "length ?h = STATE_HASH_LEN" by (simp add: state_hash_default_def len_defs)
  have pk: "pk_stored public_key_default"
    by (simp add: pk_stored_def public_key_default_def bytes_of_string_def public_key_is_valid_def len_defs starts_with_def)
  have "known assoc_ops (\<lambda>_. public_key_default) (\<lambda>_. 0) ?d ?h"
    using pk by (simp add: known_def get_block_creator_def get_pk_def get_block_epoch_def get_u32_def cfs)
  moreover have "canonical_counts assoc_ops (\<lambda>_. public_key_default) (\<lambda>_. 0) ?d {#}"
    by (simp add: canonical_counts_def counts_sorted_def holds_tally_def get_count_def get_u32_def cfs)
  moreover have "get_current_epoch assoc_ops ?d = Inr 0"
    by (simp add: get_current_epoch_def get_best_block_hash_def get_hash_def cfs)
  ultimately obtain e where e: "increment_block_canonical_production_count assoc_ops ?h ?d = Inr e"
    using assoc.increment_canonical by blast
  note ch = changes_get[OF assoc.canonical_production_changes[OF e]]
  have "get_internal_commands assoc_ops id_codec ?h e = Inr (map read_back [example_stored_command])"
    by (rule assoc.get_internal_commands_held[OF idc.json_codec_axioms len]) (simp_all add: ch[simplified] cfs)
  then have "count_genesis_block assoc_ops id_codec ?h ?d = Inr e"
    using e by (simp add: count_genesis_block_def read_back_def)
  moreover have "get_block_production_pk_total_count assoc_ops public_key_default ?d = Inr 0"
    by (simp add: get_block_production_pk_total_count_def get_count_def get_u32_def block_production_pk_total_cf_def cfs)
  ultimately show ?thesis using genesis_canonical_counts_only[OF assoc.key_value_db_axioms] by fastforce
qed

end
