(* ===== verification/Snark_Store.thy ===== *)
theory Snark_Store
  imports Canonicity_Store
begin

text \<open>
  The SNARK store (\<open>snark_work/\<close>, \<open>store/snark_store_impl.rs\<close>): the completed works of a block and of a prover,
  the provers' fees for all time and per epoch with their sorted indices and history, and counts.  \<open>S\<close>, \<open>H\<close>
  and \<open>F\<close> are the codecs of works, works with state hash and fees.
\<close>

section \<open>Works\<close>

record snark_work_summary =
  sw_fee :: amount
  sw_prover :: public_key

record snark_work_summary_with_state_hash =
  sh_fee :: amount
  sh_prover :: public_key
  sh_state_hash :: state_hash

record snark_work_total =
  st_total_fees :: amount
  st_prover :: public_key

definition snark_from_completed_work :: "completed_work \<Rightarrow> snark_work_summary" where
  "snark_from_completed_work w = \<lparr>sw_fee = cw_fee w, sw_prover = cw_prover w\<rparr>"

definition snark_summary_from_precomputed :: "precomputed_block \<Rightarrow> snark_work_summary list run" where
  "snark_summary_from_precomputed block = map_ok (map snark_from_completed_work) (completed_works block)"

definition snark_contains_pk :: "snark_work_summary \<Rightarrow> public_key \<Rightarrow> bool" where
  "snark_contains_pk s pk \<longleftrightarrow> sw_prover s = pk"

definition snark_hash_from_precomputed :: "precomputed_block \<Rightarrow> snark_work_summary_with_state_hash list run" where
  "snark_hash_from_precomputed block =
     map_ok (map (\<lambda>w. \<lparr>sh_fee = cw_fee w, sh_prover = cw_prover w, sh_state_hash = state_hash_of block\<rparr>)) (completed_works block)"

definition snark_hash_contains_pk :: "snark_work_summary_with_state_hash \<Rightarrow> public_key \<Rightarrow> bool" where
  "snark_hash_contains_pk s pk \<longleftrightarrow> sh_prover s = pk"

definition snark_with_state_hash :: "snark_work_summary \<Rightarrow> state_hash \<Rightarrow> snark_work_summary_with_state_hash" where
  "snark_with_state_hash s h = \<lparr>sh_fee = sw_fee s, sh_prover = sw_prover s, sh_state_hash = h\<rparr>"

definition snark_without_state_hash :: "snark_work_summary_with_state_hash \<Rightarrow> snark_work_summary" where
  "snark_without_state_hash s = \<lparr>sw_fee = sh_fee s, sw_prover = sh_prover s\<rparr>"

text \<open>\<open>SnarkProverFees\<close>, \<open>SnarkAllTimeFees\<close> and \<open>SnarkEpochFees\<close> have the same fields.\<close>

record snark_fees_data =
  sf_total :: u64
  sf_max :: u64
  sf_min :: u64

record snark_update =
  su_state_hash :: state_hash
  su_blockchain_length :: u32
  su_global_slot_since_genesis :: u32
  su_works :: "snark_work_summary list"

datatype snark_application = SnarkApply | SnarkUnapply

section \<open>Counts\<close>

definition TOTAL_NUM_SNARKS_KEY :: bytes where
  "TOTAL_NUM_SNARKS_KEY = ''total_num_snarks''"

definition TOTAL_NUM_CANONICAL_SNARKS_KEY :: bytes where
  "TOTAL_NUM_CANONICAL_SNARKS_KEY = ''total_num_canonical_snarks''"

text \<open>\<open>u32_from_be_bytes(&bytes).expect(..)\<close> on a stored value, with the default zero.\<close>

definition expect_u32 :: "('d, 'j) db_ops \<Rightarrow> column_family \<Rightarrow> bytes \<Rightarrow> 'd \<Rightarrow> u32 option run" where
  "expect_u32 D cf k d =
     (case db_get D d cf k of None \<Rightarrow> Inr None
      | Some v \<Rightarrow> map_ok Some (bind_ok (unwrap (raw_bytes v)) (\<lambda>b. unwrap (u32_from_be_bytes b))))"

definition expect_count :: "('d, 'j) db_ops \<Rightarrow> column_family \<Rightarrow> bytes \<Rightarrow> 'd \<Rightarrow> u32 run" where
  "expect_count D cf k d = map_ok (\<lambda>n. unwrap_or n 0) (expect_u32 D cf k d)"

definition epoch_or_else :: "('d, 'j) db_ops \<Rightarrow> u32 option \<Rightarrow> 'd \<Rightarrow> u32 run" where
  "epoch_or_else D epoch d = (case epoch of Some e \<Rightarrow> Inr e | None \<Rightarrow> get_current_epoch D d)"

definition get_snarks_epoch_count :: "('d, 'j) db_ops \<Rightarrow> u32 option \<Rightarrow> 'd \<Rightarrow> u32 run" where
  "get_snarks_epoch_count D epoch d =
     bind_ok (epoch_or_else D epoch d) (\<lambda>epoch. expect_count D snarks_epoch_cf (to_be_bytes epoch) d)"

definition increment_snarks_epoch_count :: "('d, 'j) db_ops \<Rightarrow> u32 \<Rightarrow> 'd \<Rightarrow> 'd run" where
  "increment_snarks_epoch_count D epoch d =
     count_put D (get_snarks_epoch_count D (Some epoch) d) snarks_epoch_cf (Inr (to_be_bytes epoch)) d"

definition get_snarks_total_count :: "('d, 'j) db_ops \<Rightarrow> 'd \<Rightarrow> u32 run" where
  "get_snarks_total_count D d = expect_count D DEFAULT_CF TOTAL_NUM_SNARKS_KEY d"

definition get_snarks_total_canonical_count :: "('d, 'j) db_ops \<Rightarrow> 'd \<Rightarrow> u32 run" where
  "get_snarks_total_canonical_count D d = expect_count D DEFAULT_CF TOTAL_NUM_CANONICAL_SNARKS_KEY d"

definition increment_snarks_total_canonical_count :: "('d, 'j) db_ops \<Rightarrow> u32 \<Rightarrow> 'd \<Rightarrow> 'd run" where
  "increment_snarks_total_canonical_count D incr d =
     map_ok (\<lambda>old. db_put D DEFAULT_CF TOTAL_NUM_CANONICAL_SNARKS_KEY (raw_u32 (old + incr)) d)
       (get_snarks_total_canonical_count D d)"

definition decrement_snarks_total_canonical_count :: "('d, 'j) db_ops \<Rightarrow> u32 \<Rightarrow> 'd \<Rightarrow> 'd run" where
  "decrement_snarks_total_canonical_count D decr d =
     map_ok (\<lambda>old. db_put D DEFAULT_CF TOTAL_NUM_CANONICAL_SNARKS_KEY (raw_u32 (sat_sub old decr)) d)
       (get_snarks_total_canonical_count D d)"

definition increment_snarks_total_count :: "('d, 'j) db_ops \<Rightarrow> 'd \<Rightarrow> 'd run" where
  "increment_snarks_total_count D d = count_put D (get_snarks_total_count D d) DEFAULT_CF (Inr TOTAL_NUM_SNARKS_KEY) d"

definition get_snarks_pk_epoch_count :: "('d, 'j) db_ops \<Rightarrow> public_key \<Rightarrow> u32 option \<Rightarrow> 'd \<Rightarrow> u32 run" where
  "get_snarks_pk_epoch_count D pk epoch d =
     bind_ok (epoch_or_else D epoch d) (\<lambda>epoch.
     bind_ok (u32_prefix_key epoch pk) (\<lambda>k. expect_count D snarks_pk_epoch_cf k d))"

definition increment_snarks_pk_epoch_count :: "('d, 'j) db_ops \<Rightarrow> public_key \<Rightarrow> u32 \<Rightarrow> 'd \<Rightarrow> 'd run" where
  "increment_snarks_pk_epoch_count D pk epoch d =
     count_put D (get_snarks_pk_epoch_count D pk (Some epoch) d) snarks_pk_epoch_cf (u32_prefix_key epoch pk) d"

definition get_snarks_pk_total_count :: "('d, 'j) db_ops \<Rightarrow> public_key \<Rightarrow> 'd \<Rightarrow> u32 run" where
  "get_snarks_pk_total_count D pk d = expect_count D snarks_pk_total_cf pk d"

definition increment_snarks_pk_total_count :: "('d, 'j) db_ops \<Rightarrow> public_key \<Rightarrow> 'd \<Rightarrow> 'd run" where
  "increment_snarks_pk_total_count D pk d = count_put D (get_snarks_pk_total_count D pk d) snarks_pk_total_cf (Inr pk) d"

definition get_block_snarks_count :: "('d, 'j) db_ops \<Rightarrow> state_hash \<Rightarrow> 'd \<Rightarrow> u32 option run" where
  "get_block_snarks_count D state_hash d = expect_u32 D block_snark_counts_cf state_hash d"

definition set_block_snarks_count :: "('d, 'j) db_ops \<Rightarrow> state_hash \<Rightarrow> u32 \<Rightarrow> 'd \<Rightarrow> 'd" where
  "set_block_snarks_count D state_hash n d = db_put D block_snark_counts_cf state_hash (raw_u32 n) d"

definition increment_snarks_counts :: "('d, 'j) db_ops \<Rightarrow> snark_work_summary \<Rightarrow> u32 \<Rightarrow> 'd \<Rightarrow> 'd run" where
  "increment_snarks_counts D snark epoch d =
     bind_ok (increment_snarks_pk_epoch_count D (sw_prover snark) epoch d) (\<lambda>d.
     bind_ok (increment_snarks_pk_total_count D (sw_prover snark) d) (\<lambda>d.
     bind_ok (increment_snarks_epoch_count D epoch d) (increment_snarks_total_count D)))"

section \<open>Adding the works of a block\<close>

definition set_snark_by_prover_block_height ::
    "('d, 'j) db_ops \<Rightarrow> (snark_work_summary, 'j) codec \<Rightarrow> snark_work_summary \<Rightarrow> u32 \<Rightarrow> u32 \<Rightarrow> 'd \<Rightarrow> 'd run" where
  "set_snark_by_prover_block_height D S snark block_height index d =
     map_ok (\<lambda>k. db_put D snark_prover_block_height_sort_cf k (json S snark) d)
       (snark_prover_sort_key (sw_prover snark) block_height index)"

definition set_snark_by_prover_global_slot ::
    "('d, 'j) db_ops \<Rightarrow> (snark_work_summary, 'j) codec \<Rightarrow> snark_work_summary \<Rightarrow> u32 \<Rightarrow> u32 \<Rightarrow> 'd \<Rightarrow> 'd run" where
  "set_snark_by_prover_global_slot D S snark global_slot index d =
     map_ok (\<lambda>k. db_put D snark_prover_global_slot_sort_cf k (json S snark) d)
       (snark_prover_sort_key (sw_prover snark) global_slot index)"

text \<open>The state of the first loop is the database and the number of works seen of each prover.\<close>

definition add_block_snark :: "('d, 'j) db_ops \<Rightarrow> (snark_work_summary, 'j) codec \<Rightarrow> precomputed_block \<Rightarrow>
    nat \<times> snark_work_summary \<Rightarrow> (public_key \<rightharpoonup> u32) \<times> 'd \<Rightarrow> ((public_key \<rightharpoonup> u32) \<times> 'd) run" where
  "add_block_snark D S block e s = (case e of (index, snark) \<Rightarrow> case s of (num_prover_works, d) \<Rightarrow>
     let h = state_hash_of block; prover = sw_prover snark in
     bind_ok (block_index_key h (word_of_nat index)) (\<lambda>k.
     let d = db_put D snarks_cf k (json S snark) d;
         prover_index = unwrap_or (num_prover_works prover) 0 in
     bind_ok (snark_fee_sort_key (sw_fee snark) (blockchain_length block) prover h prover_index) (\<lambda>k.
     let d = db_put D snark_work_fees_block_height_sort_cf k (Raw []) d in
     map_ok (\<lambda>k. (num_prover_works(prover \<mapsto> (case num_prover_works prover of Some n \<Rightarrow> n + 1 | None \<Rightarrow> 1)),
         db_put D snark_work_fees_global_slot_sort_cf k (Raw []) d))
       (snark_fee_sort_key (sw_fee snark) (global_slot_since_genesis block) prover h prover_index))))"

text \<open>A work whose key, the prover, height and index, is taken is skipped.\<close>

definition add_prover_snark :: "('d, 'j) db_ops \<Rightarrow> (snark_work_summary, 'j) codec \<Rightarrow>
    (snark_work_summary_with_state_hash, 'j) codec \<Rightarrow> precomputed_block \<Rightarrow> public_key \<Rightarrow> u32 \<Rightarrow>
    nat \<times> snark_work_summary_with_state_hash \<Rightarrow> 'd \<Rightarrow> 'd run" where
  "add_prover_snark D S H block pk n e d = (case e of (index, snark) \<Rightarrow>
     bind_ok (snark_prover_sort_key pk (blockchain_length block) (word_of_nat index)) (\<lambda>k.
     case db_get D d snark_prover_block_height_sort_cf k of
       Some _ \<Rightarrow> Inr d
     | None \<Rightarrow>
         bind_ok (pk_index_key pk (n + word_of_nat index)) (\<lambda>k.
         let d = db_put D snarks_prover_cf k (json H snark) d; s = snark_without_state_hash snark in
         bind_ok (set_snark_by_prover_block_height D S s (blockchain_length block) (word_of_nat index) d) (\<lambda>d.
         bind_ok (set_snark_by_prover_global_slot D S s (global_slot_since_genesis block) (word_of_nat index) d) (\<lambda>d.
         increment_snarks_counts D s (epoch_count block) d)))))"

definition add_prover_snarks :: "('d, 'j) db_ops \<Rightarrow> (snark_work_summary, 'j) codec \<Rightarrow>
    (snark_work_summary_with_state_hash, 'j) codec \<Rightarrow> precomputed_block \<Rightarrow> snark_work_summary_with_state_hash list \<Rightarrow>
    public_key \<Rightarrow> 'd \<Rightarrow> 'd run" where
  "add_prover_snarks D S H block works pk d =
     bind_ok (get_snarks_pk_total_count D pk d) (\<lambda>n.
     fold_ok (add_prover_snark D S H block pk n) (enumerate 0 (filter (\<lambda>s. snark_hash_contains_pk s pk) works)) d)"

definition add_snark_work :: "('d, 'j) db_ops \<Rightarrow> (snark_work_summary, 'j) codec \<Rightarrow>
    (snark_work_summary_with_state_hash, 'j) codec \<Rightarrow> precomputed_block \<Rightarrow> 'd \<Rightarrow> 'd run" where
  "add_snark_work D S H block d =
     bind_ok (snark_summary_from_precomputed block) (\<lambda>works.
     let d = set_block_snarks_count D (state_hash_of block) (word_of_nat (length works)) d in
     bind_ok (fold_ok (add_block_snark D S block) (enumerate 0 works) (Map.empty, d)) (\<lambda>(_, d).
     bind_ok (prover_keys block) (\<lambda>pks.
     fold_ok (add_prover_snarks D S H block (map (\<lambda>s. snark_with_state_hash s (state_hash_of block)) works)) pks d)))"

definition get_snark_work_by_public_key :: "('d, 'j) db_ops \<Rightarrow> (snark_work_summary_with_state_hash, 'j) codec \<Rightarrow>
    public_key \<Rightarrow> 'd \<Rightarrow> snark_work_summary_with_state_hash list run" where
  "get_snark_work_by_public_key D H pk d =
     bind_ok (get_snarks_pk_total_count D pk d) (\<lambda>n.
     traverse_ok (\<lambda>i. bind_ok (pk_index_key pk (word_of_nat i)) (\<lambda>k. bind_ok (expect_json D H snarks_prover_cf k d) unwrap))
       [0..<unat n])"

definition get_block_snark_work :: "('d, 'j) db_ops \<Rightarrow> (snark_work_summary, 'j) codec \<Rightarrow> state_hash \<Rightarrow> 'd \<Rightarrow>
    snark_work_summary list option run" where
  "get_block_snark_work D S state_hash d =
     bind_ok (get_block_snarks_count D state_hash d) (\<lambda>num.
     case num of None \<Rightarrow> Inr None
     | Some num \<Rightarrow> map_ok Some (traverse_ok
         (\<lambda>i. bind_ok (block_index_key state_hash (word_of_nat i)) (\<lambda>k. bind_ok (expect_json D S snarks_cf k d) unwrap))
         [0..<unat num]))"

section \<open>Provers' fees\<close>

text \<open>The hash map of the fees of each prover, as entries with distinct keys.\<close>

type_synonym fee_entries = "(public_key \<times> snark_fees_data) list"

definition merge_fees :: "u64 \<Rightarrow> snark_fees_data \<Rightarrow> snark_fees_data" where
  "merge_fees fee fees = \<lparr>sf_total = sf_total fees + fee,
     sf_max = (if fee > sf_max fees then fee else sf_max fees),
     sf_min = (if fee < sf_min fees then fee else sf_min fees)\<rparr>"

fun add_prover_fee :: "snark_work_summary \<Rightarrow> fee_entries \<Rightarrow> fee_entries" where
  "add_prover_fee snark [] =
     [(sw_prover snark, \<lparr>sf_total = sw_fee snark, sf_max = sw_fee snark, sf_min = sw_fee snark\<rparr>)]"
| "add_prover_fee snark ((pk, fees) # es) =
     (if pk = sw_prover snark then (pk, merge_fees (sw_fee snark) fees) # es else (pk, fees) # add_prover_fee snark es)"

definition snark_prover_fees :: "snark_work_summary list \<Rightarrow> fee_entries" where
  "snark_prover_fees snarks = fold add_prover_fee snarks []"

definition put_raw_u64 :: "('d, 'j) db_ops \<Rightarrow> column_family \<Rightarrow> bytes \<Rightarrow> u64 \<Rightarrow> 'd \<Rightarrow> 'd" where
  "put_raw_u64 D cf k n d = db_put D cf k (Raw (to_be_bytes n)) d"

definition store_all_time_snark_fees :: "('d, 'j) db_ops \<Rightarrow> public_key \<Rightarrow> u64 \<Rightarrow> u64 \<Rightarrow> u64 \<Rightarrow> 'd \<Rightarrow> 'd" where
  "store_all_time_snark_fees D prover total_fees max_fee min_fee d =
     put_raw_u64 D snark_prover_min_fee_cf prover min_fee
       (put_raw_u64 D snark_prover_max_fee_cf prover max_fee (put_raw_u64 D snark_prover_fees_cf prover total_fees d))"

definition sort_all_time_snark_fees :: "('d, 'j) db_ops \<Rightarrow> public_key \<Rightarrow> u64 \<Rightarrow> u64 \<Rightarrow> u64 \<Rightarrow> 'd \<Rightarrow> 'd run" where
  "sort_all_time_snark_fees D prover total_fees max_fee min_fee d =
     bind_ok (u64_prefix_key total_fees prover) (\<lambda>kt.
     bind_ok (u64_prefix_key max_fee prover) (\<lambda>kx.
     map_ok (\<lambda>kn. db_put D snark_prover_min_fee_sort_cf kn (Raw [])
         (db_put D snark_prover_max_fee_sort_cf kx (Raw []) (db_put D snark_prover_total_fees_sort_cf kt (Raw []) d)))
       (u64_prefix_key min_fee prover)))"

definition delete_old_all_time_snark_fees :: "('d, 'j) db_ops \<Rightarrow> public_key \<Rightarrow> u64 \<Rightarrow> u64 \<Rightarrow> u64 \<Rightarrow> 'd \<Rightarrow> 'd run" where
  "delete_old_all_time_snark_fees D prover old_total old_max old_min d =
     bind_ok (u64_prefix_key old_total prover) (\<lambda>kt.
     bind_ok (u64_prefix_key old_max prover) (\<lambda>kx.
     map_ok (\<lambda>kn. db_delete D snark_prover_min_fee_sort_cf kn
         (db_delete D snark_prover_max_fee_sort_cf kx (db_delete D snark_prover_total_fees_sort_cf kt d)))
       (u64_prefix_key old_min prover)))"

definition store_epoch_snark_fees :: "('d, 'j) db_ops \<Rightarrow> u32 \<Rightarrow> public_key \<Rightarrow> u64 \<Rightarrow> u64 \<Rightarrow> u64 \<Rightarrow> 'd \<Rightarrow> 'd run" where
  "store_epoch_snark_fees D epoch prover epoch_total_fees epoch_max_fee epoch_min_fee d =
     map_ok (\<lambda>k. put_raw_u64 D snark_prover_min_fee_epoch_cf k epoch_min_fee
         (put_raw_u64 D snark_prover_max_fee_epoch_cf k epoch_max_fee
           (put_raw_u64 D snark_prover_fees_epoch_cf k epoch_total_fees d)))
       (snark_epoch_key epoch prover)"

definition sort_epoch_snark_fees :: "('d, 'j) db_ops \<Rightarrow> u32 \<Rightarrow> public_key \<Rightarrow> u64 \<Rightarrow> u64 \<Rightarrow> u64 \<Rightarrow> 'd \<Rightarrow> 'd run" where
  "sort_epoch_snark_fees D epoch prover epoch_total_fees epoch_max_fee epoch_min_fee d =
     bind_ok (snark_fee_epoch_sort_key epoch epoch_total_fees prover) (\<lambda>kt.
     bind_ok (snark_fee_epoch_sort_key epoch epoch_max_fee prover) (\<lambda>kx.
     map_ok (\<lambda>kn. db_put D snark_prover_min_fee_epoch_sort_cf kn (Raw [])
         (db_put D snark_prover_max_fee_epoch_sort_cf kx (Raw [])
           (db_put D snark_prover_total_fees_epoch_sort_cf kt (Raw []) d)))
       (snark_fee_epoch_sort_key epoch epoch_min_fee prover)))"

definition delete_old_epoch_snark_fees :: "('d, 'j) db_ops \<Rightarrow> u32 \<Rightarrow> public_key \<Rightarrow> u64 \<Rightarrow> u64 \<Rightarrow> u64 \<Rightarrow> 'd \<Rightarrow> 'd run" where
  "delete_old_epoch_snark_fees D epoch prover old_epoch_total old_epoch_max old_epoch_min d =
     bind_ok (snark_fee_epoch_sort_key epoch old_epoch_total prover) (\<lambda>kt.
     bind_ok (snark_fee_epoch_sort_key epoch old_epoch_max prover) (\<lambda>kx.
     map_ok (\<lambda>kn. db_delete D snark_prover_min_fee_epoch_sort_cf kn
         (db_delete D snark_prover_max_fee_epoch_sort_cf kx (db_delete D snark_prover_total_fees_epoch_sort_cf kt d)))
       (snark_fee_epoch_sort_key epoch old_epoch_min prover)))"

text \<open>
  The last fees recorded below a height.  For an epoch they count only when the canonical block at their
  height is of that epoch.
\<close>

definition prev_fees_in_epoch :: "('d, 'j) db_ops \<Rightarrow> u32 \<Rightarrow> u32 option \<Rightarrow> 'd \<Rightarrow> bool run" where
  "prev_fees_in_epoch D block_height epoch d =
     (case epoch of None \<Rightarrow> Inr True
      | Some epoch \<Rightarrow>
          (case get_canonical_hash_at_height D block_height d of None \<Rightarrow> Inr False
           | Some h \<Rightarrow> map_ok (\<lambda>e. e = Some epoch) (get_block_epoch D h d)))"

definition get_snark_prover_prev_fees ::
    "('d, 'j) db_ops \<Rightarrow> public_key \<Rightarrow> u32 \<Rightarrow> u32 option \<Rightarrow> 'd \<Rightarrow> 'j stored option run" where
  "get_snark_prover_prev_fees D prover block_height epoch d =
     bind_ok (copy_slice PUBLIC_KEY_LEN prover) (\<lambda>pk.
     let start = pk @ to_be_bytes (block_height - 1);
         cf = (case epoch of None \<Rightarrow> snark_prover_fees_historical_cf | Some _ \<Rightarrow> snark_prover_fees_epoch_historical_cf)
     in case db_iterator D d cf (IterReverse start) of
          [] \<Rightarrow> Inr None
        | (key, v) # _ \<Rightarrow>
            bind_ok (slice_to PUBLIC_KEY_LEN key) (\<lambda>pk_bytes.
            if pk_bytes \<noteq> prover then Inr None
            else bind_ok (bind_ok (slice_from PUBLIC_KEY_LEN key) (\<lambda>s. unwrap (u32_from_be_bytes s))) (\<lambda>block_height.
              map_ok (\<lambda>ok. if ok then Some v else None) (prev_fees_in_epoch D block_height epoch d))))"

text \<open>The six getters: a stored number, or a field of the last fees recorded below the height.\<close>

definition prev_fees_field :: "('d, 'j) db_ops \<Rightarrow> (snark_fees_data, 'j) codec \<Rightarrow> (snark_fees_data \<Rightarrow> u64) \<Rightarrow>
    public_key \<Rightarrow> u32 \<Rightarrow> u32 option \<Rightarrow> 'd \<Rightarrow> u64 option run" where
  "prev_fees_field D F field pk block_height epoch d =
     bind_ok (get_snark_prover_prev_fees D pk block_height epoch d) (\<lambda>v.
     case v of None \<Rightarrow> Inr None | Some v \<Rightarrow> map_ok (\<lambda>fees. Some (field fees)) (unwrap (parse_json F v)))"

definition all_time_fee :: "('d, 'j) db_ops \<Rightarrow> (snark_fees_data, 'j) codec \<Rightarrow> column_family \<Rightarrow> (snark_fees_data \<Rightarrow> u64) \<Rightarrow>
    public_key \<Rightarrow> u32 option \<Rightarrow> 'd \<Rightarrow> u64 option run" where
  "all_time_fee D F cf field pk block_height d =
     (case block_height of None \<Rightarrow> get_u64 D cf pk d
      | Some block_height \<Rightarrow> prev_fees_field D F field pk block_height None d)"

definition epoch_fee :: "('d, 'j) db_ops \<Rightarrow> (snark_fees_data, 'j) codec \<Rightarrow> column_family \<Rightarrow> (snark_fees_data \<Rightarrow> u64) \<Rightarrow>
    public_key \<Rightarrow> u32 option \<Rightarrow> u32 option \<Rightarrow> 'd \<Rightarrow> u64 option run" where
  "epoch_fee D F cf field pk epoch block_height d =
     bind_ok (epoch_or_else D epoch d) (\<lambda>epoch.
     case block_height of None \<Rightarrow> bind_ok (snark_epoch_key epoch pk) (\<lambda>k. get_u64 D cf k d)
     | Some block_height \<Rightarrow> prev_fees_field D F field pk block_height (Some epoch) d)"

definition get_snark_prover_total_fees ::
    "('d, 'j) db_ops \<Rightarrow> (snark_fees_data, 'j) codec \<Rightarrow> public_key \<Rightarrow> u32 option \<Rightarrow> 'd \<Rightarrow> u64 option run" where
  "get_snark_prover_total_fees D F = all_time_fee D F snark_prover_fees_cf sf_total"

definition get_snark_prover_max_fee ::
    "('d, 'j) db_ops \<Rightarrow> (snark_fees_data, 'j) codec \<Rightarrow> public_key \<Rightarrow> u32 option \<Rightarrow> 'd \<Rightarrow> u64 option run" where
  "get_snark_prover_max_fee D F = all_time_fee D F snark_prover_max_fee_cf sf_max"

definition get_snark_prover_min_fee ::
    "('d, 'j) db_ops \<Rightarrow> (snark_fees_data, 'j) codec \<Rightarrow> public_key \<Rightarrow> u32 option \<Rightarrow> 'd \<Rightarrow> u64 option run" where
  "get_snark_prover_min_fee D F = all_time_fee D F snark_prover_min_fee_cf sf_min"

definition get_snark_prover_epoch_fees ::
    "('d, 'j) db_ops \<Rightarrow> (snark_fees_data, 'j) codec \<Rightarrow> public_key \<Rightarrow> u32 option \<Rightarrow> u32 option \<Rightarrow> 'd \<Rightarrow> u64 option run" where
  "get_snark_prover_epoch_fees D F = epoch_fee D F snark_prover_fees_epoch_cf sf_total"

definition get_snark_prover_epoch_max_fee ::
    "('d, 'j) db_ops \<Rightarrow> (snark_fees_data, 'j) codec \<Rightarrow> public_key \<Rightarrow> u32 option \<Rightarrow> u32 option \<Rightarrow> 'd \<Rightarrow> u64 option run" where
  "get_snark_prover_epoch_max_fee D F = epoch_fee D F snark_prover_max_fee_epoch_cf sf_max"

definition get_snark_prover_epoch_min_fee ::
    "('d, 'j) db_ops \<Rightarrow> (snark_fees_data, 'j) codec \<Rightarrow> public_key \<Rightarrow> u32 option \<Rightarrow> u32 option \<Rightarrow> 'd \<Rightarrow> u64 option run" where
  "get_snark_prover_epoch_min_fee D F = epoch_fee D F snark_prover_min_fee_epoch_cf sf_min"

section \<open>Updating fees\<close>

text \<open>The old fees of a prover, for all time and for the epoch, with their index entries deleted.\<close>

definition read_fees :: "u64 option run \<Rightarrow> u64 option run \<Rightarrow> u64 option run \<Rightarrow> snark_fees_data run" where
  "read_fees tot mx mn =
     bind_ok tot (\<lambda>tot. bind_ok mx (\<lambda>mx. map_ok (\<lambda>mn.
       \<lparr>sf_total = unwrap_or tot 0, sf_max = unwrap_or mx 0, sf_min = unwrap_or mn (- 1)\<rparr>) mn))"

type_synonym old_fees = "public_key \<rightharpoonup> snark_fees_data \<times> snark_fees_data"

definition take_old_fees :: "('d, 'j) db_ops \<Rightarrow> (snark_fees_data, 'j) codec \<Rightarrow> u32 \<Rightarrow> u32 option \<Rightarrow> snark_work_summary \<Rightarrow>
    old_fees \<times> 'd \<Rightarrow> (old_fees \<times> 'd) run" where
  "take_old_fees D F epoch height_opt snark s = (case s of (old, d) \<Rightarrow>
     let pk = sw_prover snark in
     if old pk \<noteq> None then Inr (old, d)
     else bind_ok (read_fees (get_snark_prover_total_fees D F pk None d) (get_snark_prover_max_fee D F pk None d)
         (get_snark_prover_min_fee D F pk None d)) (\<lambda>a.
       bind_ok (delete_old_all_time_snark_fees D pk (sf_total a) (sf_max a) (sf_min a) d) (\<lambda>d.
       bind_ok (read_fees (get_snark_prover_epoch_fees D F pk (Some epoch) height_opt d)
         (get_snark_prover_epoch_max_fee D F pk (Some epoch) height_opt d)
         (get_snark_prover_epoch_min_fee D F pk (Some epoch) height_opt d)) (\<lambda>e.
       map_ok (\<lambda>d. (old(pk \<mapsto> (a, e)), d))
         (delete_old_epoch_snark_fees D epoch pk (sf_total e) (sf_max e) (sf_min e) d)))))"

definition join_fees :: "snark_fees_data \<Rightarrow> snark_fees_data \<Rightarrow> snark_fees_data" where
  "join_fees old new = \<lparr>sf_total = sf_total old + sf_total new, sf_max = max (sf_max old) (sf_max new),
     sf_min = min (sf_min old) (sf_min new)\<rparr>"

definition record_history :: "('d, 'j) db_ops \<Rightarrow> (snark_fees_data, 'j) codec \<Rightarrow> snark_application \<Rightarrow> public_key \<Rightarrow> u32 \<Rightarrow>
    snark_fees_data \<Rightarrow> snark_fees_data \<Rightarrow> 'd \<Rightarrow> 'd run" where
  "record_history D F ap prover block_height a e d =
     map_ok (\<lambda>k. case ap of
         SnarkApply \<Rightarrow> db_put D snark_prover_fees_epoch_historical_cf k (json F e)
           (db_put D snark_prover_fees_historical_cf k (json F a) d)
       | SnarkUnapply \<Rightarrow> db_delete D snark_prover_fees_epoch_historical_cf k
           (db_delete D snark_prover_fees_historical_cf k d))
       (pk_index_key prover block_height)"

definition put_new_fees :: "('d, 'j) db_ops \<Rightarrow> (snark_fees_data, 'j) codec \<Rightarrow> u32 \<Rightarrow> u32 \<Rightarrow> snark_application \<Rightarrow> old_fees \<Rightarrow>
    public_key \<times> snark_fees_data \<Rightarrow> 'd \<Rightarrow> 'd run" where
  "put_new_fees D F epoch block_height ap old e d = (case e of (prover, fees) \<Rightarrow>
     (case old prover of None \<Rightarrow> Inl UnreachableCode
      | Some (oa, oe) \<Rightarrow>
          let a = join_fees oa fees; e = join_fees oe fees in
          bind_ok (delete_old_all_time_snark_fees D prover (sf_total oa) (sf_max oa) (sf_min oa) d) (\<lambda>d.
          let d = store_all_time_snark_fees D prover (sf_total a) (sf_max a) (sf_min a) d in
          bind_ok (sort_all_time_snark_fees D prover (sf_total a) (sf_max a) (sf_min a) d) (\<lambda>d.
          bind_ok (delete_old_epoch_snark_fees D epoch prover (sf_total oe) (sf_max oe) (sf_min oe) d) (\<lambda>d.
          bind_ok (store_epoch_snark_fees D epoch prover (sf_total e) (sf_max e) (sf_min e) d) (\<lambda>d.
          bind_ok (sort_epoch_snark_fees D epoch prover (sf_total e) (sf_max e) (sf_min e) d)
            (record_history D F ap prover block_height a e)))))))"

text \<open>\<open>order\<close> is the order in which the hash map of new fees is iterated.\<close>

definition update_snark_prover_fees :: "('d, 'j) db_ops \<Rightarrow> (snark_fees_data, 'j) codec \<Rightarrow> (fee_entries \<Rightarrow> fee_entries) \<Rightarrow>
    u32 \<Rightarrow> u32 \<Rightarrow> snark_work_summary list \<Rightarrow> snark_application \<Rightarrow> 'd \<Rightarrow> 'd run" where
  "update_snark_prover_fees D F order block_height global_slot snarks ap d =
     (let epoch = global_slot div MAINNET_EPOCH_SLOT_COUNT;
          height_opt = (case ap of SnarkApply \<Rightarrow> None | SnarkUnapply \<Rightarrow> Some block_height)
      in bind_ok (fold_ok (take_old_fees D F epoch height_opt) snarks (Map.empty, d)) (\<lambda>(old, d).
         fold_ok (put_new_fees D F epoch block_height ap old) (order (snark_prover_fees snarks)) d))"

definition update_snarks :: "('d, 'j) db_ops \<Rightarrow> (snark_fees_data, 'j) codec \<Rightarrow> (fee_entries \<Rightarrow> fee_entries) \<Rightarrow>
    snark_update db_update \<Rightarrow> 'd \<Rightarrow> 'd run" where
  "update_snarks D F order update d =
     bind_ok (fold_ok (\<lambda>u d. bind_ok (decrement_snarks_total_canonical_count D (word_of_nat (length (su_works u))) d)
         (update_snark_prover_fees D F order (su_blockchain_length u) (su_global_slot_since_genesis u) (su_works u) SnarkUnapply))
       (du_unapply update) d)
       (fold_ok (\<lambda>u d. bind_ok (increment_snarks_total_canonical_count D (word_of_nat (length (su_works u))) d)
         (update_snark_prover_fees D F order (su_blockchain_length u) (su_global_slot_since_genesis u) (su_works u) SnarkApply))
       (du_apply update))"

definition snark_update_of :: "('d, 'j) db_ops \<Rightarrow> (snark_work_summary, 'j) codec \<Rightarrow> 'd \<Rightarrow> block_update \<Rightarrow> snark_update run" where
  "snark_update_of D S d u =
     map_ok (\<lambda>works. \<lparr>su_state_hash = bu_state_hash u, su_blockchain_length = bu_blockchain_length u,
         su_global_slot_since_genesis = bu_global_slot_since_genesis u, su_works = works\<rparr>)
       (bind_ok (get_block_snark_work D S (bu_state_hash u) d) unwrap)"

definition update_block_snarks :: "('d, 'j) db_ops \<Rightarrow> (snark_work_summary, 'j) codec \<Rightarrow> (snark_fees_data, 'j) codec \<Rightarrow>
    (fee_entries \<Rightarrow> fee_entries) \<Rightarrow> block_update db_update \<Rightarrow> 'd \<Rightarrow> 'd run" where
  "update_block_snarks D S F order blocks d =
     bind_ok (traverse_ok (snark_update_of D S d) (du_apply blocks)) (\<lambda>ap.
     bind_ok (traverse_ok (snark_update_of D S d) (du_unapply blocks)) (\<lambda>un.
     update_snarks D F order \<lparr>du_apply = ap, du_unapply = un\<rparr> d))"

section \<open>Reading the indices\<close>

definition get_top_snark_provers_by_total_fees :: "('d, 'j) db_ops \<Rightarrow> nat \<Rightarrow> 'd \<Rightarrow> snark_work_total list run" where
  "get_top_snark_provers_by_total_fees D n d =
     traverse_ok (\<lambda>(key, _).
         bind_ok (slice_to U64_LEN key) (\<lambda>total_fees_bytes.
         bind_ok (bind_ok (slice_from U64_LEN key) (\<lambda>s. unwrap (public_key_from_bytes s))) (\<lambda>pk.
         Inr \<lparr>st_total_fees = word_of_be total_fees_bytes, st_prover = pk\<rparr>)))
       (take n (db_iterator D d snark_prover_total_fees_sort_cf FromEnd))"

definition snark_start_key :: "u32 \<Rightarrow> bool \<Rightarrow> bytes run" where
  "snark_start_key epoch forward =
     bind_ok (snark_fee_epoch_sort_key epoch 0 public_key_lower_bound) (\<lambda>fstart.
     map_ok (\<lambda>rstart. if forward then fstart else rstart)
       (snark_fee_epoch_sort_key epoch (- 1) public_key_upper_bound))"

definition epoch_iterator :: "('d, 'j) db_ops \<Rightarrow> column_family \<Rightarrow> u32 \<Rightarrow> bool \<Rightarrow> 'd \<Rightarrow> (bytes \<times> 'j stored) list run" where
  "epoch_iterator D cf epoch forward d =
     map_ok (\<lambda>k. db_iterator D d cf (if forward then IterForward k else IterReverse k)) (snark_start_key epoch forward)"

definition snark_prover_max_fee_epoch_iterator :: "('d, 'j) db_ops \<Rightarrow> u32 \<Rightarrow> bool \<Rightarrow> 'd \<Rightarrow> (bytes \<times> 'j stored) list run" where
  "snark_prover_max_fee_epoch_iterator D = epoch_iterator D snark_prover_max_fee_epoch_sort_cf"

definition snark_prover_min_fee_epoch_iterator :: "('d, 'j) db_ops \<Rightarrow> u32 \<Rightarrow> bool \<Rightarrow> 'd \<Rightarrow> (bytes \<times> 'j stored) list run" where
  "snark_prover_min_fee_epoch_iterator D = epoch_iterator D snark_prover_min_fee_epoch_sort_cf"

definition snark_prover_total_fees_epoch_iterator :: "('d, 'j) db_ops \<Rightarrow> u32 \<Rightarrow> bool \<Rightarrow> 'd \<Rightarrow> (bytes \<times> 'j stored) list run" where
  "snark_prover_total_fees_epoch_iterator D = epoch_iterator D snark_prover_total_fees_epoch_sort_cf"

end
