(* ===== verification/Snark_Works.thy ===== *)
theory Snark_Works
  imports Snark_Store Counters
begin

text \<open>
  What the SNARK store holds of works: those of every block in order and those of every prover in the order
  they were added.
\<close>

section \<open>Keys and counts\<close>

lemma snark_keys:
  assumes "length pk = PUBLIC_KEY_LEN"
  shows "snark_prover_sort_key pk n i = Inr (pk @ to_be_bytes n @ to_be_bytes i)"
    "pk_index_key pk i = Inr (pk @ to_be_bytes i)" "u32_prefix_key n pk = Inr (to_be_bytes n @ pk)"
  using assms by (simp_all add: snark_prover_sort_key_def pk_index_key_def u32_prefix_key_def)

lemma snark_block_keys:
  assumes "length h = STATE_HASH_LEN"
  shows "block_index_key h i = Inr (h @ to_be_bytes i)"
    "length pk = PUBLIC_KEY_LEN \<Longrightarrow> snark_fee_sort_key fee n pk h i =
       Inr (to_be_bytes fee @ to_be_bytes n @ pk @ h @ to_be_bytes i)"
  using assms by (simp_all add: block_index_key_def snark_fee_sort_key_def)

lemma expect_u32_get: "get_u32 D cf k d = Inr n \<Longrightarrow> expect_u32 D cf k d = Inr n"
  by (auto simp: get_u32_def expect_u32_def run_simps stored_u32_def from_be_bytes_def u32_from_be_bytes_def unwrap_def
      split: option.splits stored.splits if_splits)

lemma expect_count_get: "get_count D cf k d = Inr n \<Longrightarrow> expect_count D cf k d = Inr n"
  by (auto simp: get_count_def expect_count_def run_simps dest!: expect_u32_get)

definition snark_count_cfs :: "column_family list" where
  "snark_count_cfs = [snarks_pk_epoch_cf, snarks_epoch_cf]"

definition prover_cfs :: "column_family list" where
  "prover_cfs = [snarks_prover_cf, snark_prover_block_height_sort_cf, snark_prover_global_slot_sort_cf, snarks_pk_epoch_cf,
     snarks_pk_total_cf, snarks_epoch_cf, DEFAULT_CF]"

lemmas snark_cf_defs = snarks_prover_cf_def snark_prover_block_height_sort_cf_def snark_prover_global_slot_sort_cf_def
  snarks_pk_epoch_cf_def snarks_pk_total_cf_def snarks_epoch_cf_def DEFAULT_CF_def snarks_cf_def block_snark_counts_cf_def
  snark_work_fees_block_height_sort_cf_def snark_work_fees_global_slot_sort_cf_def

section \<open>Works of a prover\<close>

text \<open>The lists of works per prover and readable counts.\<close>

definition holds_prover_snarks :: "('d, 'j) db_ops \<Rightarrow> (snark_work_summary_with_state_hash, 'j) codec \<Rightarrow> 'd \<Rightarrow>
    (public_key \<Rightarrow> snark_work_summary_with_state_hash list) \<Rightarrow> bool" where
  "holds_prover_snarks D H d L \<longleftrightarrow>
     holds_lists D snarks_pk_total_cf id snarks_prover_cf (\<lambda>pk i. pk @ to_be_bytes i)
       (\<lambda>pk. length pk = PUBLIC_KEY_LEN) d (\<lambda>pk. map (json H) (L pk)) \<and>
     counters D snark_count_cfs d \<and> (\<exists>n. get_count D DEFAULT_CF TOTAL_NUM_SNARKS_KEY d = Inr n)"

text \<open>The height is new for the provers: no work is recorded under its keys.\<close>

definition fresh_height :: "('d, 'j) db_ops \<Rightarrow> 'd \<Rightarrow> u32 \<Rightarrow> public_key list \<Rightarrow> bool" where
  "fresh_height D d height pks \<longleftrightarrow>
     (\<forall>pk\<in>set pks. \<forall>i. db_get D d snark_prover_block_height_sort_cf (pk @ to_be_bytes height @ to_be_bytes (i :: u32)) = None)"

sublocale key_value_db \<subseteq> prover_snarks: list_family D snarks_pk_total_cf id snarks_prover_cf
    "\<lambda>pk i. pk @ to_be_bytes i" "\<lambda>pk. length pk = PUBLIC_KEY_LEN"
  by unfold_locales (simp_all add: snark_cf_defs)

lemma holds_prover_snarks_changes:
  assumes "changes D cfs d e" "\<forall>cf\<in>set [snarks_pk_total_cf, snarks_prover_cf, snarks_pk_epoch_cf, snarks_epoch_cf, DEFAULT_CF]. cf \<notin> set cfs"
    "holds_prover_snarks D H d L"
  shows "holds_prover_snarks D H e L"
proof -
  have counters: "counters D snark_count_cfs e" "get_count D DEFAULT_CF k e = get_count D DEFAULT_CF k d" for k
    using assms counters_changes[OF assms(1), of snark_count_cfs] changes_reads(2)[OF assms(1)]
    by (simp_all add: holds_prover_snarks_def snark_count_cfs_def)
  have gets: "db_get D e snarks_pk_total_cf k = db_get D d snarks_pk_total_cf k" "db_get D e snarks_prover_cf k = db_get D d snarks_prover_cf k" for k
    using assms(2) by (simp_all add: changes_get[OF assms(1)])
  have "holds_lists D snarks_pk_total_cf id snarks_prover_cf (\<lambda>pk i. pk @ to_be_bytes i) (\<lambda>pk. length pk = PUBLIC_KEY_LEN) e
      (\<lambda>pk. map (json H) (L pk))"
    by (rule holds_lists_cong[where d = d]) (use assms(3) gets in \<open>simp_all add: holds_prover_snarks_def\<close>)
  then show ?thesis using assms(3) counters by (simp add: holds_prover_snarks_def)
qed

context key_value_db
begin

text \<open>Counting one work, after it was written at the end of its prover's list.\<close>

lemma count_snark:
  assumes "counters D snark_count_cfs d" "get_count D DEFAULT_CF TOTAL_NUM_SNARKS_KEY d = Inr t"
    "length (sw_prover s) = PUBLIC_KEY_LEN" "get_count D snarks_pk_total_cf (sw_prover s) d = Inr n"
  shows "\<exists>d'. increment_snarks_counts D s epoch d = Inr d' \<and> counters D snark_count_cfs d' \<and>
    get_count D DEFAULT_CF TOTAL_NUM_SNARKS_KEY d' = Inr (t + 1) \<and>
    changes D [snarks_pk_epoch_cf, snarks_epoch_cf, DEFAULT_CF] (db_put D snarks_pk_total_cf (sw_prover s) (raw_u32 (n + 1)) d) d'"
proof -
  let ?pk = "sw_prover s"
  obtain m where m: "get_count D snarks_pk_epoch_cf (to_be_bytes epoch @ ?pk) d = Inr m"
    using assms(1) by (auto simp: counters_def snark_count_cfs_def)
  let ?d1 = "db_put D snarks_pk_epoch_cf (to_be_bytes epoch @ ?pk) (raw_u32 (m + 1)) d"
  let ?d2 = "db_put D snarks_pk_total_cf ?pk (raw_u32 (n + 1)) ?d1"
  have "counters D snark_count_cfs ?d2" by (intro counters_put assms(1))
  then obtain k where k: "get_count D snarks_epoch_cf (to_be_bytes epoch) ?d2 = Inr k"
    by (auto simp: counters_def snark_count_cfs_def)
  let ?d3 = "db_put D snarks_epoch_cf (to_be_bytes epoch) (raw_u32 (k + 1)) ?d2"
  let ?d4 = "db_put D DEFAULT_CF TOTAL_NUM_SNARKS_KEY (raw_u32 (t + 1)) ?d3"
  have n: "get_count D snarks_pk_total_cf ?pk ?d1 = Inr n" using assms(4) by (simp add: snark_cf_defs)
  have t: "get_count D DEFAULT_CF TOTAL_NUM_SNARKS_KEY ?d3 = Inr t" using assms(2) by (simp add: snark_cf_defs)
  have "increment_snarks_counts D s epoch d = Inr ?d4"
    by (simp add: increment_snarks_counts_def increment_snarks_pk_epoch_count_def get_snarks_pk_epoch_count_def epoch_or_else_def
        snark_keys[OF assms(3)] count_put_def increment_snarks_pk_total_count_def get_snarks_pk_total_count_def
        increment_snarks_epoch_count_def get_snarks_epoch_count_def increment_snarks_total_count_def get_snarks_total_count_def
        expect_count_get[OF m] expect_count_get[OF n] expect_count_get[OF k] expect_count_get[OF t])
  moreover have "counters D snark_count_cfs ?d4" by (intro counters_put assms(1))
  moreover have "changes D [snarks_pk_epoch_cf, snarks_epoch_cf, DEFAULT_CF] (db_put D snarks_pk_total_cf ?pk (raw_u32 (n + 1)) d) ?d4"
    by (simp add: changes_def get_put snark_cf_defs)
  ultimately show ?thesis by (intro exI[of _ ?d4]) simp
qed

lemma add_prover_snark_appends:
  fixes i :: nat
  assumes "holds_prover_snarks D H d L" "length pk = PUBLIC_KEY_LEN" "sh_prover s = pk" "Suc (length (L pk)) < 2 ^ 32"
    "n + word_of_nat i = word_of_nat (length (L pk))"
    "db_get D d snark_prover_block_height_sort_cf (pk @ to_be_bytes (blockchain_length b) @ to_be_bytes (word_of_nat i :: u32)) = None"
  shows "\<exists>d'. add_prover_snark D S H b pk n (i, s) d = Inr d' \<and> holds_prover_snarks D H d' (L(pk := L pk @ [s])) \<and>
    (\<forall>k. k \<noteq> pk @ to_be_bytes (blockchain_length b) @ to_be_bytes (word_of_nat i :: u32) \<longrightarrow>
      db_get D d' snark_prover_block_height_sort_cf k = db_get D d snark_prover_block_height_sort_cf k) \<and>
    changes D prover_cfs d d'"
proof -
  let ?i = "word_of_nat i :: u32" and ?s = "snark_without_state_hash s" and ?len = "word_of_nat (length (L pk)) :: u32"
  have prover: "sw_prover ?s = pk" using assms(3) by (simp add: snark_without_state_hash_def)
  let ?d1 = "db_put D snarks_prover_cf (pk @ to_be_bytes ?len) (json H s) d"
  let ?d3 = "db_put D snark_prover_global_slot_sort_cf (pk @ to_be_bytes (global_slot_since_genesis b) @ to_be_bytes ?i) (json S ?s)
    (db_put D snark_prover_block_height_sort_cf (pk @ to_be_bytes (blockchain_length b) @ to_be_bytes ?i) (json S ?s) ?d1)"
  have c3: "changes D [snark_prover_block_height_sort_cf, snark_prover_global_slot_sort_cf] ?d1 ?d3" by (simp add: changes_put)
  obtain t where t: "counters D snark_count_cfs d" "get_count D DEFAULT_CF TOTAL_NUM_SNARKS_KEY d = Inr t"
    using assms(1) by (auto simp: holds_prover_snarks_def)
  have c: "changes D [snarks_prover_cf, snark_prover_block_height_sort_cf, snark_prover_global_slot_sort_cf] d ?d3"
    by (simp add: changes_put)
  have cnt: "get_count D snarks_pk_total_cf (sw_prover ?s) ?d3 = Inr ?len"
    using prover_snarks.holds_lists_count[of d "\<lambda>pk. map (json H) (L pk)" pk] assms(1,2)
    by (simp add: holds_prover_snarks_def prover changes_reads(2)[OF c] snark_cf_defs)
  have "counters D snark_count_cfs ?d3" using counters_changes[OF c] t(1) by (simp add: snark_count_cfs_def snark_cf_defs)
  moreover have "get_count D DEFAULT_CF TOTAL_NUM_SNARKS_KEY ?d3 = Inr t" using changes_reads(2)[OF c] t(2) by (simp add: snark_cf_defs)
  ultimately obtain d' where d': "increment_snarks_counts D ?s (epoch_count b) ?d3 = Inr d'" "counters D snark_count_cfs d'"
    "get_count D DEFAULT_CF TOTAL_NUM_SNARKS_KEY d' = Inr (t + 1)"
    "changes D [snarks_pk_epoch_cf, snarks_epoch_cf, DEFAULT_CF] (db_put D snarks_pk_total_cf pk (raw_u32 (?len + 1)) ?d3) d'"
    using count_snark[OF _ _ _ cnt] assms(2) prover by auto
  have "add_prover_snark D S H b pk n (i, s) d = Inr d'"
    using assms(6) d'(1) by (simp add: add_prover_snark_def snark_keys[OF assms(2)] assms(5) prover Let_def
        set_snark_by_prover_block_height_def set_snark_by_prover_global_slot_def)
  moreover have "holds_prover_snarks D H d' (L(pk := L pk @ [s]))"
  proof -
    let ?e = "db_put D snarks_pk_total_cf pk (raw_u32 (?len + 1)) ?d1"
    have L: "(\<lambda>q. map (json H) ((L(pk := L pk @ [s])) q)) = (\<lambda>q. map (json H) (L q))(pk := map (json H) (L pk) @ [json H s])" by auto
    have w: "(?len + 1 :: u32) = word_of_nat (Suc (length (L pk)))" by simp
    have "holds_lists D snarks_pk_total_cf id snarks_prover_cf (\<lambda>pk i. pk @ to_be_bytes i) (\<lambda>pk. length pk = PUBLIC_KEY_LEN) ?e
        (\<lambda>q. map (json H) ((L(pk := L pk @ [s])) q))"
      using prover_snarks.append_elems[of d "\<lambda>q. map (json H) (L q)" pk "[json H s]"] assms(1,2,4)
      unfolding L holds_prover_snarks_def by (simp add: w del: of_nat_Suc)
    moreover have "db_get D d' snarks_pk_total_cf k = db_get D ?e snarks_pk_total_cf k" "db_get D d' snarks_prover_cf k = db_get D ?e snarks_prover_cf k" for k
      by (simp_all add: changes_get[OF d'(4)] get_put snark_cf_defs)
    ultimately have "holds_lists D snarks_pk_total_cf id snarks_prover_cf (\<lambda>pk i. pk @ to_be_bytes i) (\<lambda>pk. length pk = PUBLIC_KEY_LEN) d'
        (\<lambda>q. map (json H) ((L(pk := L pk @ [s])) q))" by (rule holds_lists_cong)
    then show ?thesis using d'(2,3) by (simp add: holds_prover_snarks_def)
  qed
  moreover have "db_get D d' snark_prover_block_height_sort_cf k = db_get D d snark_prover_block_height_sort_cf k"
    if "k \<noteq> pk @ to_be_bytes (blockchain_length b) @ to_be_bytes ?i" for k
    using that by (simp add: changes_get[OF d'(4)] get_put snark_cf_defs)
  moreover have "changes D prover_cfs d (db_put D snarks_pk_total_cf pk (raw_u32 (?len + 1)) ?d3)"
    by (intro changes_put changes_refl) (simp_all add: prover_cfs_def)
  then have "changes D prover_cfs d d'"
    using changes_mono[OF d'(4), of prover_cfs] by (auto simp: prover_cfs_def intro: changes_trans)
  ultimately show ?thesis by blast
qed

lemma add_prover_snark_list:
  fixes i :: nat
  assumes "holds_prover_snarks D H d L" "length pk = PUBLIC_KEY_LEN" "\<forall>s\<in>set ws. sh_prover s = pk"
    "length (L pk) + length ws < 2 ^ 32" "i + length ws < 2 ^ 32" "n + word_of_nat i = word_of_nat (length (L pk))"
    "\<And>j. j < length ws \<Longrightarrow>
      db_get D d snark_prover_block_height_sort_cf (pk @ to_be_bytes (blockchain_length b) @ to_be_bytes (word_of_nat (i + j) :: u32)) = None"
  shows "\<exists>d'. fold_ok (add_prover_snark D S H b pk n) (enumerate i ws) d = Inr d' \<and> holds_prover_snarks D H d' (L(pk := L pk @ ws)) \<and>
    (\<forall>q. length q = PUBLIC_KEY_LEN \<and> q \<noteq> pk \<longrightarrow> (\<forall>k. db_get D d' snark_prover_block_height_sort_cf (q @ k) =
      db_get D d snark_prover_block_height_sort_cf (q @ k))) \<and> changes D prover_cfs d d'"
  using assms(1,3-7)
proof (induction ws arbitrary: d L i)
  case (Cons s ws)
  let ?key = "\<lambda>i. pk @ to_be_bytes (blockchain_length b) @ to_be_bytes (word_of_nat i :: u32)"
  let ?L = "L(pk := L pk @ [s])"
  have "db_get D d snark_prover_block_height_sort_cf (?key i) = None" using Cons.prems(6)[of 0] by simp
  then obtain d1 where d1: "add_prover_snark D S H b pk n (i, s) d = Inr d1" "holds_prover_snarks D H d1 ?L"
    "\<And>k. k \<noteq> ?key i \<Longrightarrow> db_get D d1 snark_prover_block_height_sort_cf k = db_get D d snark_prover_block_height_sort_cf k"
    "changes D prover_cfs d d1"
    using add_prover_snark_appends[OF Cons.prems(1) assms(2) _ _ Cons.prems(5), of s b S] Cons.prems(2,3) by auto
  have fresh: "db_get D d1 snark_prover_block_height_sort_cf (?key (Suc i + j)) = None" if "j < length ws" for j
  proof -
    have "?key (Suc i + j) \<noteq> ?key i" using that Cons.prems(4) by (simp add: word_of_nat_u32_eq del: of_nat_Suc of_nat_add)
    then show ?thesis using d1(3) Cons.prems(6)[of "Suc j"] that by (simp del: of_nat_Suc of_nat_add)
  qed
  have "n + word_of_nat (Suc i) = (word_of_nat (length (?L pk)) :: u32)" using Cons.prems(5) by (simp add: algebra_simps)
  moreover have "length (?L pk) + length ws < 2 ^ 32" using Cons.prems(3) by simp
  moreover have L: "?L(pk := ?L pk @ ws) = L(pk := L pk @ s # ws)" by simp
  ultimately obtain d' where d': "fold_ok (add_prover_snark D S H b pk n) (enumerate (Suc i) ws) d1 = Inr d'"
    "holds_prover_snarks D H d' (L(pk := L pk @ s # ws))" "changes D prover_cfs d1 d'"
    "\<And>q k. length q = PUBLIC_KEY_LEN \<Longrightarrow> q \<noteq> pk \<Longrightarrow> db_get D d' snark_prover_block_height_sort_cf (q @ k) =
      db_get D d1 snark_prover_block_height_sort_cf (q @ k)"
    using Cons.IH[OF d1(2) _ _ _ _ fresh, unfolded L] Cons.prems(2-4) by (auto simp del: of_nat_Suc of_nat_add fun_upd_apply)
  have "db_get D d' snark_prover_block_height_sort_cf (q @ k) = db_get D d snark_prover_block_height_sort_cf (q @ k)"
    if "length q = PUBLIC_KEY_LEN" "q \<noteq> pk" for q k
    using d'(4)[OF that] d1(3)[of "q @ k"] that assms(2) by simp
  then show ?case using d1(1) d'(1,2) changes_trans[OF d1(4) d'(3)] by (simp del: fun_upd_apply)
qed simp

lemma add_provers_snarks:
  assumes "holds_prover_snarks D H d L" "\<forall>pk\<in>set pks. length pk = PUBLIC_KEY_LEN" "distinct pks"
    "\<forall>pk\<in>set pks. length (L pk) + length ws < 2 ^ 32" "fresh_height D d (blockchain_length b) pks"
  shows "\<exists>d'. fold_ok (add_prover_snarks D S H b ws) pks d = Inr d' \<and>
    holds_prover_snarks D H d' (\<lambda>pk. L pk @ (if pk \<in> set pks then filter (\<lambda>s. sh_prover s = pk) ws else [])) \<and> changes D prover_cfs d d'"
  using assms
proof (induction pks arbitrary: d L)
  case (Cons pk pks)
  let ?ws = "filter (\<lambda>s. sh_prover s = pk) ws" and ?n = "word_of_nat (length (L pk)) :: u32"
  have pk: "length pk = PUBLIC_KEY_LEN" using Cons.prems(2) by simp
  have cnt: "get_snarks_pk_total_count D pk d = Inr ?n"
    using prover_snarks.holds_lists_count[of d "\<lambda>pk. map (json H) (L pk)" pk] Cons.prems(1) pk
    by (simp add: get_snarks_pk_total_count_def holds_prover_snarks_def expect_count_get)
  have "length (L pk) + length ws < 2 ^ 32" "length ?ws \<le> length ws" using Cons.prems(4) by simp_all
  then have len: "length (L pk) + length ?ws < 2 ^ 32" "0 + length ?ws < 2 ^ 32" by linarith+
  obtain d1 where d1: "fold_ok (add_prover_snark D S H b pk ?n) (enumerate 0 ?ws) d = Inr d1"
    "holds_prover_snarks D H d1 (L(pk := L pk @ ?ws))" "changes D prover_cfs d d1"
    "\<And>q k. length q = PUBLIC_KEY_LEN \<Longrightarrow> q \<noteq> pk \<Longrightarrow> db_get D d1 snark_prover_block_height_sort_cf (q @ k) =
      db_get D d snark_prover_block_height_sort_cf (q @ k)"
    using add_prover_snark_list[OF Cons.prems(1) pk _ len, of ?n b S] Cons.prems(5) by (auto simp: fresh_height_def)
  have fresh: "fresh_height D d1 (blockchain_length b) pks"
    unfolding fresh_height_def
  proof (intro ballI allI)
    fix q i assume q: "q \<in> set pks"
    then have "length q = PUBLIC_KEY_LEN" "q \<noteq> pk" using Cons.prems(2,3) by auto
    from d1(4)[OF this] show "db_get D d1 snark_prover_block_height_sort_cf (q @ to_be_bytes (blockchain_length b) @ to_be_bytes (i :: u32)) = None"
      using Cons.prems(5) q by (simp add: fresh_height_def)
  qed
  have notin: "pk \<notin> set pks" using Cons.prems(3) by simp
  then have "\<forall>q\<in>set pks. length ((L(pk := L pk @ ?ws)) q) + length ws < 2 ^ 32" using Cons.prems(4) by auto
  then obtain d' where d': "fold_ok (add_prover_snarks D S H b ws) pks d1 = Inr d'" "changes D prover_cfs d1 d'"
    "holds_prover_snarks D H d' (\<lambda>q. (L(pk := L pk @ ?ws)) q @ (if q \<in> set pks then filter (\<lambda>s. sh_prover s = q) ws else []))"
    using Cons.IH[OF d1(2) _ _ _ fresh] Cons.prems(2,3) by (auto simp del: fun_upd_apply)
  moreover have "(\<lambda>q. (L(pk := L pk @ ?ws)) q @ (if q \<in> set pks then filter (\<lambda>s. sh_prover s = q) ws else [])) =
      (\<lambda>q. L q @ (if q \<in> set (pk # pks) then filter (\<lambda>s. sh_prover s = q) ws else []))"
    using notin by (auto simp: fun_eq_iff)
  moreover have "add_prover_snarks D S H b ws pk d = Inr d1"
    by (simp add: add_prover_snarks_def cnt snark_hash_contains_pk_def d1(1))
  ultimately show ?case using changes_trans[OF d1(3) d'(2)] by simp
qed simp

lemma taken_snarks_skipped:
  assumes "length pk = PUBLIC_KEY_LEN" "get_snarks_pk_total_count D pk d = Inr n"
    "\<And>i. i < length (filter (\<lambda>s. sh_prover s = pk) ws) \<Longrightarrow>
      db_get D d snark_prover_block_height_sort_cf (pk @ to_be_bytes (blockchain_length b) @ to_be_bytes (word_of_nat i :: u32)) \<noteq> None"
  shows "add_prover_snarks D S H b ws pk d = Inr d"
proof -
  have "add_prover_snark D S H b pk n e d = Inr d" if "e \<in> set (enumerate 0 (filter (\<lambda>s. sh_prover s = pk) ws))" for e
  proof -
    obtain i s where e: "e = (i, s)" by (cases e)
    have "i < length (filter (\<lambda>s. sh_prover s = pk) ws)" using that by (simp add: e in_set_enumerate_eq)
    from assms(3)[OF this] show ?thesis by (auto simp: add_prover_snark_def e snark_keys[OF assms(1)])
  qed
  then have "fold_ok (add_prover_snark D S H b pk n) es d = Inr d"
    if "set es \<subseteq> set (enumerate 0 (filter (\<lambda>s. sh_prover s = pk) ws))" for es
    using that by (induction es) auto
  then show ?thesis by (simp add: add_prover_snarks_def assms(2) snark_hash_contains_pk_def)
qed

lemma add_block_snarks:
  fixes n :: nat
  assumes "length (state_hash_of b) = STATE_HASH_LEN" "\<forall>s\<in>set ws. length (sw_prover s) = PUBLIC_KEY_LEN" "n + length ws < 2 ^ 32"
  shows "\<exists>m' d'. fold_ok (add_block_snark D S b) (enumerate n ws) (m, d) = Inr (m', d') \<and>
    (\<forall>j<length ws. db_get D d' snarks_cf (state_hash_of b @ to_be_bytes (word_of_nat (n + j) :: u32)) = Some (json S (ws ! j))) \<and>
    (\<forall>j<n. db_get D d' snarks_cf (state_hash_of b @ to_be_bytes (word_of_nat j :: u32)) =
      db_get D d snarks_cf (state_hash_of b @ to_be_bytes (word_of_nat j :: u32))) \<and>
    changes D [snarks_cf, snark_work_fees_block_height_sort_cf, snark_work_fees_global_slot_sort_cf] d d'"
  using assms(2,3)
proof (induction ws arbitrary: m d n)
  case (Cons s ws)
  let ?key = "\<lambda>n. state_hash_of b @ to_be_bytes (word_of_nat n :: u32)"
  let ?cfs = "[snarks_cf, snark_work_fees_block_height_sort_cf, snark_work_fees_global_slot_sort_cf]"
  have pk: "length (sw_prover s) = PUBLIC_KEY_LEN" using Cons.prems(1) by simp
  obtain m1 d1 where d1: "add_block_snark D S b (n, s) (m, d) = Inr (m1, d1)"
    "\<And>k. db_get D d1 snarks_cf k = (if k = ?key n then Some (json S s) else db_get D d snarks_cf k)" "changes D ?cfs d d1"
    by (simp add: add_block_snark_def snark_block_keys[OF assms(1)] pk Let_def get_put changes_put snark_cf_defs)
  obtain m' d' where d': "fold_ok (add_block_snark D S b) (enumerate (Suc n) ws) (m1, d1) = Inr (m', d')"
    "\<And>j. j < length ws \<Longrightarrow> db_get D d' snarks_cf (?key (Suc n + j)) = Some (json S (ws ! j))"
    "\<And>j. j < Suc n \<Longrightarrow> db_get D d' snarks_cf (?key j) = db_get D d1 snarks_cf (?key j)" "changes D ?cfs d1 d'"
    using Cons.IH[of "Suc n" m1 d1] Cons.prems by (auto simp del: of_nat_Suc of_nat_add)
  have "db_get D d' snarks_cf (?key (n + j)) = Some (json S ((s # ws) ! j))" if "j < length (s # ws)" for j
  proof (cases j)
    case 0
    then show ?thesis using d'(3)[of n] d1(2) by simp
  next
    case (Suc i)
    then show ?thesis using d'(2)[of i] that by (simp del: of_nat_Suc of_nat_add)
  qed
  moreover have "db_get D d' snarks_cf (?key j) = db_get D d snarks_cf (?key j)" if "j < n" for j
    using d'(3)[of j] d1(2)[of "?key j"] that Cons.prems(2) by (simp add: word_of_nat_u32_eq)
  ultimately show ?case using d1(1) d'(1) changes_trans[OF d1(3) d'(4)] by (simp del: of_nat_Suc of_nat_add)
qed simp

lemma get_block_snark_work_held:
  assumes "json_codec S" "length h = STATE_HASH_LEN" "length ws < 2 ^ 32"
    "db_get D d block_snark_counts_cf h = Some (raw_u32 (word_of_nat (length ws)))"
    "\<And>j. j < length ws \<Longrightarrow> db_get D d snarks_cf (h @ to_be_bytes (word_of_nat j :: u32)) = Some (json S (ws ! j))"
  shows "get_block_snark_work D S h d = Inr (Some ws)"
proof -
  have "get_u32 D block_snark_counts_cf h d = Inr (Some (word_of_nat (length ws)))" using assms(4) by (simp add: get_u32_def)
  note num = expect_u32_get[OF this]
  have "bind_ok (block_index_key h (word_of_nat n)) (\<lambda>k. bind_ok (expect_json D S snarks_cf k d) unwrap) = Inr (ws ! n)"
    if "n \<in> set [0..<length ws]" for n
    using that assms(5) by (simp add: snark_block_keys[OF assms(2)] expect_json_def json_codec.parse_json_json[OF assms(1)])
  then have "traverse_ok (\<lambda>n. bind_ok (block_index_key h (word_of_nat n)) (\<lambda>k. bind_ok (expect_json D S snarks_cf k d) unwrap))
      [0..<length ws] = Inr (map ((!) ws) [0..<length ws])" by (rule traverse_ok_total)
  then show ?thesis
    using assms(3) by (simp add: get_block_snark_work_def get_block_snarks_count_def num unat_word_of_nat_u32 map_nth)
qed

end

lemma prover_keys_props:
  assumes "prover_keys b = Inr pks" "snark_summary_from_precomputed b = Inr ws"
  shows "distinct pks" "sw_prover ` set ws \<subseteq> set pks"
proof -
  obtain cws where cws: "completed_works b = Inr cws" "ws = map snark_from_completed_work cws"
    using assms(2) by (auto simp: snark_summary_from_precomputed_def run_simps)
  have keys: "fold (\<lambda>work keys. insert (cw_prover work) keys) cws K = cw_prover ` set cws \<union> K" for K
    by (induction cws arbitrary: K) auto
  have pks: "pks = sorted_list_of_set (cw_prover ` set cws \<union> consensus_public_keys b)"
    using assms(1) by (simp add: prover_keys_def cws(1) keys)
  have "finite (cw_prover ` set cws \<union> consensus_public_keys b)" by (simp add: consensus_public_keys_def)
  then show "distinct pks" "sw_prover ` set ws \<subseteq> set pks"
    by (auto simp: pks cws(2) snark_from_completed_work_def)
qed

context key_value_db
begin

text \<open>The works of the block are stored; what becomes of the provers' lists depends on the second loop.\<close>

lemma add_snark_work_block:
  assumes "json_codec S" "length (state_hash_of b) = STATE_HASH_LEN" "snark_summary_from_precomputed b = Inr ws"
    "prover_keys b = Inr pks" "\<forall>pk\<in>set pks. length pk = PUBLIC_KEY_LEN" "length ws < 2 ^ 32"
    "holds_prover_snarks D H d L"
    "\<And>e. holds_prover_snarks D H e L \<Longrightarrow> (\<And>k. db_get D e snark_prover_block_height_sort_cf k = db_get D d snark_prover_block_height_sort_cf k) \<Longrightarrow>
      \<exists>d'. fold_ok (add_prover_snarks D S H b (map (\<lambda>s. snark_with_state_hash s (state_hash_of b)) ws)) pks e = Inr d' \<and>
        holds_prover_snarks D H d' L' \<and> changes D prover_cfs e d'"
  shows "\<exists>d'. add_snark_work D S H b d = Inr d' \<and> get_block_snark_work D S (state_hash_of b) d' = Inr (Some ws) \<and>
    holds_prover_snarks D H d' L'"
proof -
  let ?h = "state_hash_of b" and ?d = "set_block_snarks_count D (state_hash_of b) (word_of_nat (length ws)) d"
  have provers: "\<forall>s\<in>set ws. length (sw_prover s) = PUBLIC_KEY_LEN" using prover_keys_props(2)[OF assms(4,3)] assms(5) by auto
  obtain m1 d1 where d1: "fold_ok (add_block_snark D S b) (enumerate 0 ws) (Map.empty, ?d) = Inr (m1, d1)"
    "\<And>j. j < length ws \<Longrightarrow> db_get D d1 snarks_cf (?h @ to_be_bytes (word_of_nat j :: u32)) = Some (json S (ws ! j))"
    "changes D [snarks_cf, snark_work_fees_block_height_sort_cf, snark_work_fees_global_slot_sort_cf] ?d d1"
    using add_block_snarks[OF assms(2) provers, where n = 0 and S = S and m = Map.empty and d = ?d] assms(6) by auto
  have c0: "changes D [block_snark_counts_cf] d ?d" by (simp add: set_block_snarks_count_def changes_put)
  have "holds_prover_snarks D H ?d L" by (rule holds_prover_snarks_changes[OF c0 _ assms(7)]) (simp add: snark_cf_defs)
  then have "holds_prover_snarks D H d1 L" by (rule holds_prover_snarks_changes[OF d1(3), rotated]) (simp add: snark_cf_defs)
  moreover have "db_get D d1 snark_prover_block_height_sort_cf k = db_get D d snark_prover_block_height_sort_cf k" for k
    by (simp add: changes_get[OF d1(3)] changes_get[OF c0] snark_cf_defs)
  ultimately obtain d' where d': "fold_ok (add_prover_snarks D S H b (map (\<lambda>s. snark_with_state_hash s ?h) ws)) pks d1 = Inr d'"
    "holds_prover_snarks D H d' L'" "changes D prover_cfs d1 d'" using assms(8) by blast
  have "db_get D d' block_snark_counts_cf ?h = Some (raw_u32 (word_of_nat (length ws)))"
    by (simp add: changes_get[OF d'(3)] changes_get[OF d1(3)] set_block_snarks_count_def get_put prover_cfs_def snark_cf_defs)
  moreover have "snarks_cf \<notin> set prover_cfs" by (simp add: prover_cfs_def snark_cf_defs)
  ultimately have "get_block_snark_work D S ?h d' = Inr (Some ws)"
    using get_block_snark_work_held[OF assms(1,2,6)] d1(2) changes_get[OF d'(3)] by simp
  then show ?thesis using d' by (simp add: add_snark_work_def assms(3,4) d1(1))
qed

lemma snark_work_added:
  assumes "json_codec S" "length (state_hash_of b) = STATE_HASH_LEN" "snark_summary_from_precomputed b = Inr ws"
    "prover_keys b = Inr pks" "\<forall>pk\<in>set pks. length pk = PUBLIC_KEY_LEN" "holds_prover_snarks D H d L"
    "\<forall>pk. length (L pk) + length ws < 2 ^ 32" "fresh_height D d (blockchain_length b) pks"
  shows "\<exists>d'. add_snark_work D S H b d = Inr d' \<and> get_block_snark_work D S (state_hash_of b) d' = Inr (Some ws) \<and>
    holds_prover_snarks D H d' (\<lambda>pk. L pk @ map (\<lambda>s. snark_with_state_hash s (state_hash_of b)) (filter (\<lambda>s. sw_prover s = pk) ws))"
proof -
  let ?ws = "map (\<lambda>s. snark_with_state_hash s (state_hash_of b)) ws"
  have len: "length ws < 2 ^ 32" using assms(7)[rule_format, of "[]"] by simp
  have L: "(\<lambda>pk. L pk @ (if pk \<in> set pks then filter (\<lambda>s. sh_prover s = pk) ?ws else [])) =
      (\<lambda>pk. L pk @ map (\<lambda>s. snark_with_state_hash s (state_hash_of b)) (filter (\<lambda>s. sw_prover s = pk) ws))"
    using prover_keys_props(2)[OF assms(4,3)]
    by (auto simp: fun_eq_iff filter_map comp_def snark_with_state_hash_def filter_empty_conv)
  show ?thesis
  proof (rule add_snark_work_block[OF assms(1-5) len assms(6)])
    fix e assume e: "holds_prover_snarks D H e L" "\<And>k. db_get D e snark_prover_block_height_sort_cf k = db_get D d snark_prover_block_height_sort_cf k"
    have "fresh_height D e (blockchain_length b) pks" using assms(8) e(2) by (simp add: fresh_height_def)
    from add_provers_snarks[OF e(1) assms(5) prover_keys_props(1)[OF assms(4,3)] _ this, of ?ws S] assms(7)
    show "\<exists>d'. fold_ok (add_prover_snarks D S H b ?ws) pks e = Inr d' \<and> holds_prover_snarks D H d'
        (\<lambda>pk. L pk @ map (\<lambda>s. snark_with_state_hash s (state_hash_of b)) (filter (\<lambda>s. sw_prover s = pk) ws)) \<and> changes D prover_cfs e d'"
      unfolding L by simp
  qed
qed

lemma snark_work_skipped:
  assumes "json_codec S" "length (state_hash_of b) = STATE_HASH_LEN" "snark_summary_from_precomputed b = Inr ws"
    "prover_keys b = Inr pks" "\<forall>pk\<in>set pks. length pk = PUBLIC_KEY_LEN" "holds_prover_snarks D H d L" "length ws < 2 ^ 32"
    "\<forall>pk\<in>set pks. \<forall>i<length (filter (\<lambda>s. sw_prover s = pk) ws).
      db_get D d snark_prover_block_height_sort_cf (pk @ to_be_bytes (blockchain_length b) @ to_be_bytes (word_of_nat i :: u32)) \<noteq> None"
  shows "\<exists>d'. add_snark_work D S H b d = Inr d' \<and> get_block_snark_work D S (state_hash_of b) d' = Inr (Some ws) \<and>
    holds_prover_snarks D H d' L"
proof (rule add_snark_work_block[OF assms(1-5,7,6)])
  fix e assume e: "holds_prover_snarks D H e L" "\<And>k. db_get D e snark_prover_block_height_sort_cf k = db_get D d snark_prover_block_height_sort_cf k"
  let ?ws = "map (\<lambda>s. snark_with_state_hash s (state_hash_of b)) ws"
  have "add_prover_snarks D S H b ?ws pk e = Inr e" if pk: "pk \<in> set pks" for pk
  proof (rule taken_snarks_skipped)
    show "length pk = PUBLIC_KEY_LEN" using assms(5) pk by simp
    then have "get_count D snarks_pk_total_cf pk e = Inr (word_of_nat (length (L pk)))"
      using prover_snarks.holds_lists_count[of e "\<lambda>pk. map (json H) (L pk)" pk] e(1) by (simp add: holds_prover_snarks_def)
    then show "get_snarks_pk_total_count D pk e = Inr (word_of_nat (length (L pk)))"
      by (simp add: get_snarks_pk_total_count_def expect_count_get)
    have eq: "length (filter (\<lambda>s. sh_prover s = pk) ?ws) = length (filter (\<lambda>s. sw_prover s = pk) ws)"
      by (simp add: filter_map comp_def snark_with_state_hash_def)
    show "db_get D e snark_prover_block_height_sort_cf (pk @ to_be_bytes (blockchain_length b) @ to_be_bytes (word_of_nat i :: u32)) \<noteq> None"
      if "i < length (filter (\<lambda>s. sh_prover s = pk) ?ws)" for i
      using that assms(8) pk unfolding eq e(2) by blast
  qed
  then have "fold_ok (add_prover_snarks D S H b ?ws) qs e = Inr e" if "set qs \<subseteq> set pks" for qs
    using that by (induction qs) auto
  then show "\<exists>d'. fold_ok (add_prover_snarks D S H b ?ws) pks e = Inr d' \<and> holds_prover_snarks D H d' L \<and> changes D prover_cfs e d'"
    using e(1) by simp
qed

lemma get_snark_work_by_public_key_held:
  assumes "json_codec H" "holds_prover_snarks D H d L" "length pk = PUBLIC_KEY_LEN"
  shows "get_snark_work_by_public_key D H pk d = Inr (L pk)"
proof -
  have held: "length (L pk) < 2 ^ 32" "get_count D snarks_pk_total_cf pk d = Inr (word_of_nat (length (L pk)))"
    "\<And>i. i < length (L pk) \<Longrightarrow> db_get D d snarks_prover_cf (pk @ to_be_bytes (word_of_nat i :: u32)) = Some (json H (L pk ! i))"
    using assms(2,3) by (auto simp: holds_prover_snarks_def holds_lists_def holds_list_def)
  have "bind_ok (pk_index_key pk (word_of_nat n)) (\<lambda>k. bind_ok (expect_json D H snarks_prover_cf k d) unwrap) = Inr (L pk ! n)"
    if "n \<in> set [0..<length (L pk)]" for n
    using that held(3) by (simp add: snark_keys[OF assms(3)] expect_json_def json_codec.parse_json_json[OF assms(1)])
  then have "traverse_ok (\<lambda>n. bind_ok (pk_index_key pk (word_of_nat n)) (\<lambda>k. bind_ok (expect_json D H snarks_prover_cf k d) unwrap))
      [0..<length (L pk)] = Inr (map ((!) (L pk)) [0..<length (L pk)])" by (rule traverse_ok_total)
  then show ?thesis
    using held(1) expect_count_get[OF held(2)]
    by (simp add: get_snark_work_by_public_key_def get_snarks_pk_total_count_def unat_word_of_nat_u32 map_nth)
qed

end

section \<open>Properties of works\<close>

text \<open>A block of one prover, who is also its creator.\<close>

definition example_snark_block :: precomputed_block where
  "example_snark_block = V1 \<lparr>b1_network = ''mainnet'', b1_state_hash = state_hash_default, b1_blockchain_length = 2,
     b1_protocol_state = example_state\<lparr>ps_consensus_state := (ps_consensus_state example_state)
       \<lparr>cs_coinbase_receiver := public_key_default, cs_block_creator := public_key_default,
        cs_block_stake_winner := public_key_default\<rparr>\<rparr>, b1_snarked_ledger_hash = ''j'',
     b1_pre_diff = \<lparr>d1_completed_works = [\<lparr>cw_fee = 4, cw_prover = public_key_default\<rparr>], d1_commands = [],
       d1_coinbase = CoinbaseCb None, d1_internal_command_balances = []\<rparr>,
     b1_post_diff = None\<rparr>"

lemma example_snarks:
  "snark_summary_from_precomputed example_snark_block = Inr [\<lparr>sw_fee = 4, sw_prover = public_key_default\<rparr>]"
  "prover_keys example_snark_block = Inr [public_key_default]"
  "state_hash_of example_snark_block = state_hash_default" "blockchain_length example_snark_block = 2"
  by (simp_all add: example_snark_block_def snark_summary_from_precomputed_def completed_works_def snark_from_completed_work_def
      prover_keys_def consensus_public_keys_def block_creator_def coinbase_receiver_def block_stake_winner_def consensus_state_of_def
      example_state_def)

lemma example_prover_stored: "length public_key_default = PUBLIC_KEY_LEN" "length state_hash_default = STATE_HASH_LEN"
  by (simp_all add: public_key_default_def state_hash_default_def len_defs)

definition example_height_taken :: "(snark_work_summary + snark_work_summary_with_state_hash) assoc_db" where
  "example_height_taken = [((snark_prover_block_height_sort_cf, public_key_default @ to_be_bytes (2 :: u32) @ to_be_bytes (0 :: u32)),
     json left_codec \<lparr>sw_fee = 7, sw_prover = public_key_default\<rparr>)]"

lemma example_no_snarks: "holds_prover_snarks assoc_ops right_codec [] (\<lambda>_. [])"
  "holds_prover_snarks assoc_ops right_codec example_height_taken (\<lambda>_. [])"
  by (simp_all add: holds_prover_snarks_def holds_lists_def holds_list_def counters_def get_count_def get_u32_def
      example_height_taken_def snark_count_cfs_def snark_cf_defs)

text \<open>
  C12: the works of a block are read back in order, and, at a height new for its provers, each prover's works
  are appended to the prover's list.
\<close>

theorem snark_works_roundtrip:
  assumes "key_value_db D" "json_codec S" "json_codec H" "length (state_hash_of b) = STATE_HASH_LEN"
    "snark_summary_from_precomputed b = Inr ws" "prover_keys b = Inr pks" "\<forall>pk\<in>set pks. length pk = PUBLIC_KEY_LEN"
    "holds_prover_snarks D H d L" "\<forall>pk. length (L pk) + length ws < 2 ^ 32" "fresh_height D d (blockchain_length b) pks"
  shows "\<exists>d'. add_snark_work D S H b d = Inr d' \<and> get_block_snark_work D S (state_hash_of b) d' = Inr (Some ws) \<and>
    (\<forall>pk. length pk = PUBLIC_KEY_LEN \<longrightarrow> get_snark_work_by_public_key D H pk d' =
      Inr (L pk @ map (\<lambda>s. snark_with_state_hash s (state_hash_of b)) (filter (\<lambda>s. sw_prover s = pk) ws)))"
  using key_value_db.snark_work_added[OF assms(1,2,4-10)] key_value_db.get_snark_work_by_public_key_held[OF assms(1,3)] by fast

theorem snark_works_roundtrip_witness:
  "\<exists>d'. add_snark_work assoc_ops left_codec right_codec example_snark_block [] = Inr d' \<and>
    get_block_snark_work assoc_ops left_codec state_hash_default d' = Inr (Some [\<lparr>sw_fee = 4, sw_prover = public_key_default\<rparr>]) \<and>
    get_snark_work_by_public_key assoc_ops right_codec public_key_default d' =
      Inr [\<lparr>sh_fee = 4, sh_prover = public_key_default, sh_state_hash = state_hash_default\<rparr>]"
proof -
  have "fresh_height assoc_ops [] (blockchain_length example_snark_block) [public_key_default]" by (simp add: fresh_height_def)
  from snark_works_roundtrip[OF assoc.key_value_db_axioms left_codec_json right_codec_json _ example_snarks(1,2) _ example_no_snarks(1) _ this]
  obtain d' where d': "add_snark_work assoc_ops left_codec right_codec example_snark_block [] = Inr d'"
    "get_block_snark_work assoc_ops left_codec state_hash_default d' = Inr (Some [\<lparr>sw_fee = 4, sw_prover = public_key_default\<rparr>])"
    "\<forall>pk. length pk = PUBLIC_KEY_LEN \<longrightarrow> get_snark_work_by_public_key assoc_ops right_codec pk d' =
      Inr (map (\<lambda>s. snark_with_state_hash s state_hash_default)
        (filter (\<lambda>s. sw_prover s = pk) [\<lparr>sw_fee = 4, sw_prover = public_key_default\<rparr>]))"
    using example_prover_stored by (auto simp: example_snarks)
  then show ?thesis using example_prover_stored by (auto simp: snark_with_state_hash_def)
qed

text \<open>
  C37: the keys of a prover's works hold the height and not the state hash, so when they are taken, by a block at
  the same height, the works are stored for the block but missing from the prover's list.
\<close>

theorem snark_works_skipped:
  assumes "key_value_db D" "json_codec S" "json_codec H" "length (state_hash_of b) = STATE_HASH_LEN"
    "snark_summary_from_precomputed b = Inr ws" "prover_keys b = Inr pks" "\<forall>pk\<in>set pks. length pk = PUBLIC_KEY_LEN"
    "holds_prover_snarks D H d L" "length ws < 2 ^ 32"
    "\<forall>pk\<in>set pks. \<forall>i<length (filter (\<lambda>s. sw_prover s = pk) ws).
      db_get D d snark_prover_block_height_sort_cf (pk @ to_be_bytes (blockchain_length b) @ to_be_bytes (word_of_nat i :: u32)) \<noteq> None"
  shows "\<exists>d'. add_snark_work D S H b d = Inr d' \<and> get_block_snark_work D S (state_hash_of b) d' = Inr (Some ws) \<and>
    (\<forall>pk. length pk = PUBLIC_KEY_LEN \<longrightarrow> get_snark_work_by_public_key D H pk d' = Inr (L pk))"
  using key_value_db.snark_work_skipped[OF assms(1,2,4-10)] key_value_db.get_snark_work_by_public_key_held[OF assms(1,3)] by fast

theorem snark_works_skipped_witness:
  "\<exists>d'. add_snark_work assoc_ops left_codec right_codec example_snark_block example_height_taken = Inr d' \<and>
    get_block_snark_work assoc_ops left_codec state_hash_default d' = Inr (Some [\<lparr>sw_fee = 4, sw_prover = public_key_default\<rparr>]) \<and>
    get_snark_work_by_public_key assoc_ops right_codec public_key_default d' = Inr []"
proof -
  have "\<forall>pk\<in>set [public_key_default]. \<forall>i<length (filter (\<lambda>s. sw_prover s = pk) [\<lparr>sw_fee = 4, sw_prover = public_key_default\<rparr>]).
      db_get assoc_ops example_height_taken snark_prover_block_height_sort_cf
        (pk @ to_be_bytes (blockchain_length example_snark_block) @ to_be_bytes (word_of_nat i :: u32)) \<noteq> None"
    by (simp add: example_height_taken_def example_snarks(4))
  from snark_works_skipped[OF assoc.key_value_db_axioms left_codec_json right_codec_json _ example_snarks(1,2) _ example_no_snarks(2) _ this]
  show ?thesis using example_prover_stored by (auto simp: example_snarks(3))
qed

end
