(* ===== verification/Snark_Fees.thy ===== *)
theory Snark_Fees
  imports Snark_Works
begin

text \<open>
  The fees of provers in the database.  A table of fees keeps, under the key of a prover or of a prover and an
  epoch, the total, the largest and the smallest fee, and an index sorted by each; the locale \<open>fee_table\<close> shows
  what deleting, storing and sorting do to such a table, and is used for both.
\<close>

section \<open>Tables of fees\<close>

definition fee_value :: "(snark_fees_data \<Rightarrow> u64) \<Rightarrow> snark_fees_data option \<Rightarrow> 'j stored option" where
  "fee_value f x = map_option (\<lambda>x. Raw (to_be_bytes (f x))) x"

definition fee_index :: "bool \<Rightarrow> (snark_fees_data \<Rightarrow> u64) \<Rightarrow> snark_fees_data option \<Rightarrow> u64 \<Rightarrow> 'j stored option" where
  "fee_index i f x n = (if i \<and> map_option f x = Some n then Some (Raw []) else None)"

definition known_fees :: "snark_fees_data option \<Rightarrow> snark_fees_data" where
  "known_fees x = unwrap_or x \<lparr>sf_total = 0, sf_max = 0, sf_min = - 1\<rparr>"

text \<open>The families of the values and of the indices, for total, maximum and minimum.\<close>

record fee_families =
  v_total :: column_family
  v_max :: column_family
  v_min :: column_family
  s_total :: column_family
  s_max :: column_family
  s_min :: column_family

definition all_families :: "fee_families \<Rightarrow> column_family list" where
  "all_families c = [v_total c, v_max c, v_min c, s_total c, s_max c, s_min c]"

definition fees_at :: "('d, 'j) db_ops \<Rightarrow> fee_families \<Rightarrow> ('k \<Rightarrow> bytes) \<Rightarrow> ('k \<Rightarrow> u64 \<Rightarrow> bytes) \<Rightarrow> 'd \<Rightarrow> bool \<Rightarrow> 'k \<Rightarrow>
    snark_fees_data option \<Rightarrow> bool" where
  "fees_at D c vk sk d i k x \<longleftrightarrow>
     db_get D d (v_total c) (vk k) = fee_value sf_total x \<and> db_get D d (v_max c) (vk k) = fee_value sf_max x \<and>
     db_get D d (v_min c) (vk k) = fee_value sf_min x \<and>
     (\<forall>n. db_get D d (s_total c) (sk k n) = fee_index i sf_total x n) \<and>
     (\<forall>n. db_get D d (s_max c) (sk k n) = fee_index i sf_max x n) \<and>
     (\<forall>n. db_get D d (s_min c) (sk k n) = fee_index i sf_min x n)"

definition delete_index :: "('d, 'j) db_ops \<Rightarrow> fee_families \<Rightarrow> (u64 \<Rightarrow> bytes) \<Rightarrow> snark_fees_data \<Rightarrow> 'd \<Rightarrow> 'd" where
  "delete_index D c sk x d = db_delete D (s_min c) (sk (sf_min x))
     (db_delete D (s_max c) (sk (sf_max x)) (db_delete D (s_total c) (sk (sf_total x)) d))"

definition put_values :: "('d, 'j) db_ops \<Rightarrow> fee_families \<Rightarrow> bytes \<Rightarrow> snark_fees_data \<Rightarrow> 'd \<Rightarrow> 'd" where
  "put_values D c k a d = put_raw_u64 D (v_min c) k (sf_min a) (put_raw_u64 D (v_max c) k (sf_max a) (put_raw_u64 D (v_total c) k (sf_total a) d))"

definition put_index :: "('d, 'j) db_ops \<Rightarrow> fee_families \<Rightarrow> (u64 \<Rightarrow> bytes) \<Rightarrow> snark_fees_data \<Rightarrow> 'd \<Rightarrow> 'd" where
  "put_index D c sk a d = db_put D (s_min c) (sk (sf_min a)) (Raw [])
     (db_put D (s_max c) (sk (sf_max a)) (Raw []) (db_put D (s_total c) (sk (sf_total a)) (Raw []) d))"

lemma fees_at_changes:
  "changes D cfs d e \<Longrightarrow> set (all_families c) \<inter> set cfs = {} \<Longrightarrow> fees_at D c vk sk e i k x \<longleftrightarrow> fees_at D c vk sk d i k x"
  by (simp add: fees_at_def changes_get all_families_def)

locale fee_table = key_value_db D
  for D :: "('d, 'j) db_ops" +
  fixes c :: fee_families and vk :: "'k \<Rightarrow> bytes" and sk :: "'k \<Rightarrow> u64 \<Rightarrow> bytes" and ok :: "'k \<Rightarrow> bool"
  assumes families_distinct: "distinct (all_families c)"
    and vk_inject: "ok k \<Longrightarrow> ok k' \<Longrightarrow> vk k = vk k' \<longleftrightarrow> k = k'"
    and sk_inject: "ok k \<Longrightarrow> ok k' \<Longrightarrow> sk k m = sk k' n \<longleftrightarrow> k = k' \<and> m = n"
begin

lemma delete_index_changes: "changes D (all_families c) d (delete_index D c (sk k) x d)"
  by (simp add: delete_index_def all_families_def changes_delete)

lemma put_values_changes: "changes D (all_families c) d (put_values D c (vk k) x d)"
  by (simp add: put_values_def put_raw_u64_def all_families_def changes_put)

lemma put_index_changes: "changes D (all_families c) d (put_index D c (sk k) x d)"
  by (simp add: put_index_def all_families_def changes_put)

lemma delete_index_at:
  assumes "fees_at D c vk sk d i k x" "ok k"
  shows "fees_at D c vk sk (delete_index D c (sk k) (known_fees x) d) False k x"
  using assms families_distinct
  by (cases x) (auto simp: fees_at_def delete_index_def get_delete sk_inject fee_index_def known_fees_def all_families_def)

lemma delete_index_other:
  assumes "fees_at D c vk sk d i k x" "ok k" "ok k'" "k \<noteq> k'"
  shows "fees_at D c vk sk (delete_index D c (sk k') y d) i k x"
  using assms families_distinct by (auto simp: fees_at_def delete_index_def get_delete sk_inject all_families_def)

lemma delete_index_none:
  assumes "fees_at D c vk sk d False k x" "ok k"
  shows "fees_at D c vk sk (delete_index D c (sk k) y d) False k x"
  using assms families_distinct by (auto simp: fees_at_def delete_index_def get_delete fee_index_def all_families_def)

lemma put_fees_at:
  assumes "fees_at D c vk sk d False k x" "ok k"
  shows "fees_at D c vk sk (put_index D c (sk k) a (put_values D c (vk k) a d)) True k (Some a)"
  using assms families_distinct
  by (auto simp: fees_at_def put_index_def put_values_def put_raw_u64_def get_put sk_inject fee_value_def fee_index_def all_families_def)

lemma put_fees_other:
  assumes "fees_at D c vk sk d i k x" "ok k" "ok k'" "k \<noteq> k'"
  shows "fees_at D c vk sk (put_index D c (sk k') a (put_values D c (vk k') a d)) i k x"
  using assms families_distinct
  by (auto simp: fees_at_def put_index_def put_values_def put_raw_u64_def get_put sk_inject vk_inject all_families_def)

text \<open>Replacing the fees of one key, whose index is deleted.\<close>

lemma replace_fees:
  assumes "ok k" "ok k'" "fees_at D c vk sk d i k' x" "k' = k \<Longrightarrow> \<not> i"
  shows "fees_at D c vk sk (put_index D c (sk k) a (put_values D c (vk k) a (delete_index D c (sk k) y d)))
    (k' = k \<or> i) k' (if k' = k then Some a else x)"
proof (cases "k' = k")
  case True
  then have "fees_at D c vk sk d False k x" using assms(3,4) by simp
  then show ?thesis using put_fees_at[OF delete_index_none] assms(1) True by simp
next
  case False
  then show ?thesis using put_fees_other[OF delete_index_other[OF assms(3,2,1)] assms(2,1)] by simp
qed

lemma get_fees_at:
  assumes "fees_at D c vk sk d i k x"
  shows "get_u64 D (v_total c) (vk k) d = Inr (map_option sf_total x)" "get_u64 D (v_max c) (vk k) d = Inr (map_option sf_max x)"
    "get_u64 D (v_min c) (vk k) d = Inr (map_option sf_min x)"
  using assms by (cases x; simp add: fees_at_def get_u64_def fee_value_def u64_from_be_bytes_def unwrap_def word_of_be_to_be)+

lemma read_fees_at:
  assumes "fees_at D c vk sk d i k x"
  shows "read_fees (get_u64 D (v_total c) (vk k) d) (get_u64 D (v_max c) (vk k) d) (get_u64 D (v_min c) (vk k) d) = Inr (known_fees x)"
  using get_fees_at[OF assms] by (cases x) (simp_all add: read_fees_def known_fees_def)

end

section \<open>The two tables\<close>

definition all_time_families :: fee_families where
  "all_time_families = \<lparr>v_total = snark_prover_fees_cf, v_max = snark_prover_max_fee_cf, v_min = snark_prover_min_fee_cf,
     s_total = snark_prover_total_fees_sort_cf, s_max = snark_prover_max_fee_sort_cf, s_min = snark_prover_min_fee_sort_cf\<rparr>"

definition epoch_families :: fee_families where
  "epoch_families = \<lparr>v_total = snark_prover_fees_epoch_cf, v_max = snark_prover_max_fee_epoch_cf, v_min = snark_prover_min_fee_epoch_cf,
     s_total = snark_prover_total_fees_epoch_sort_cf, s_max = snark_prover_max_fee_epoch_sort_cf, s_min = snark_prover_min_fee_epoch_sort_cf\<rparr>"

lemmas fee_cf_defs = snark_prover_fees_cf_def snark_prover_max_fee_cf_def snark_prover_min_fee_cf_def
  snark_prover_total_fees_sort_cf_def snark_prover_max_fee_sort_cf_def snark_prover_min_fee_sort_cf_def
  snark_prover_fees_epoch_cf_def snark_prover_max_fee_epoch_cf_def snark_prover_min_fee_epoch_cf_def
  snark_prover_total_fees_epoch_sort_cf_def snark_prover_max_fee_epoch_sort_cf_def snark_prover_min_fee_epoch_sort_cf_def
  snark_prover_fees_historical_cf_def snark_prover_fees_epoch_historical_cf_def

definition all_time_key :: "public_key \<Rightarrow> u64 \<Rightarrow> bytes" where
  "all_time_key pk n = to_be_bytes n @ pk"

definition prover_epoch_key :: "u32 \<times> public_key \<Rightarrow> bytes" where
  "prover_epoch_key k = to_be_bytes (fst k) @ snd k"

definition epoch_fee_key :: "u32 \<times> public_key \<Rightarrow> u64 \<Rightarrow> bytes" where
  "epoch_fee_key k n = to_be_bytes (fst k) @ to_be_bytes n @ snd k"

definition prover_ok :: "public_key \<Rightarrow> bool" where
  "prover_ok pk \<longleftrightarrow> length pk = PUBLIC_KEY_LEN"

sublocale key_value_db \<subseteq> all_time: fee_table D all_time_families id all_time_key prover_ok
  by unfold_locales (auto simp: all_families_def all_time_families_def fee_cf_defs all_time_key_def prover_ok_def)

sublocale key_value_db \<subseteq> per_epoch: fee_table D epoch_families prover_epoch_key epoch_fee_key "\<lambda>k. prover_ok (snd k)"
  by unfold_locales (auto simp: all_families_def epoch_families_def fee_cf_defs prover_epoch_key_def epoch_fee_key_def prover_ok_def prod_eq_iff)

text \<open>The store's operations are those of the tables.\<close>

lemma all_time_ops:
  assumes "prover_ok pk"
  shows "delete_old_all_time_snark_fees D pk (sf_total x) (sf_max x) (sf_min x) d = Inr (delete_index D all_time_families (all_time_key pk) x d)"
    "store_all_time_snark_fees D pk (sf_total x) (sf_max x) (sf_min x) d = put_values D all_time_families pk x d"
    "sort_all_time_snark_fees D pk (sf_total x) (sf_max x) (sf_min x) d = Inr (put_index D all_time_families (all_time_key pk) x d)"
  using assms
  by (simp_all add: delete_old_all_time_snark_fees_def u64_prefix_key_def prover_ok_def delete_index_def all_time_families_def
      all_time_key_def store_all_time_snark_fees_def put_values_def sort_all_time_snark_fees_def put_index_def)

lemma epoch_ops:
  assumes "prover_ok pk"
  shows "delete_old_epoch_snark_fees D e pk (sf_total x) (sf_max x) (sf_min x) d = Inr (delete_index D epoch_families (epoch_fee_key (e, pk)) x d)"
    "store_epoch_snark_fees D e pk (sf_total x) (sf_max x) (sf_min x) d = Inr (put_values D epoch_families (prover_epoch_key (e, pk)) x d)"
    "sort_epoch_snark_fees D e pk (sf_total x) (sf_max x) (sf_min x) d = Inr (put_index D epoch_families (epoch_fee_key (e, pk)) x d)"
  using assms
  by (simp_all add: delete_old_epoch_snark_fees_def snark_fee_epoch_sort_key_def prover_ok_def delete_index_def epoch_families_def
      epoch_fee_key_def store_epoch_snark_fees_def snark_epoch_key_def prover_epoch_key_def put_values_def sort_epoch_snark_fees_def put_index_def)

lemma tables_disjoint: "set (all_families all_time_families) \<inter> set (all_families epoch_families) = {}"
  by (simp add: all_families_def all_time_families_def epoch_families_def fee_cf_defs)

text \<open>
  The store holds the fees \<open>A\<close> and \<open>E\<close>; the indices of the provers in \<open>T\<close>, for the epoch \<open>e\<close>, are deleted.
\<close>

definition holds_fees :: "('d, 'j) db_ops \<Rightarrow> 'd \<Rightarrow> u32 \<Rightarrow> public_key set \<Rightarrow> (public_key \<rightharpoonup> snark_fees_data) \<Rightarrow>
    (u32 \<times> public_key \<rightharpoonup> snark_fees_data) \<Rightarrow> bool" where
  "holds_fees D d e T A E \<longleftrightarrow> (\<forall>pk. prover_ok pk \<longrightarrow>
     fees_at D all_time_families id all_time_key d (pk \<notin> T) pk (A pk) \<and>
     (\<forall>e'. fees_at D epoch_families prover_epoch_key epoch_fee_key d (\<not> (e' = e \<and> pk \<in> T)) (e', pk) (E (e', pk))))"

context key_value_db
begin

lemma take_old_fees_holds:
  assumes "holds_fees D d e (dom old) A E" "prover_ok (sw_prover s)"
    "\<forall>pk\<in>dom old. old pk = Some (known_fees (A pk), known_fees (E (e, pk)))"
  shows "\<exists>old' d'. take_old_fees D F e None s (old, d) = Inr (old', d') \<and> dom old' = insert (sw_prover s) (dom old) \<and>
    holds_fees D d' e (dom old') A E \<and> (\<forall>pk\<in>dom old'. old' pk = Some (known_fees (A pk), known_fees (E (e, pk))))"
proof (cases "sw_prover s \<in> dom old")
  case True
  then show ?thesis using assms(1,3) by (auto simp: take_old_fees_def insert_absorb)
next
  case False
  let ?pk = "sw_prover s"
  let ?a = "known_fees (A ?pk)" and ?e = "known_fees (E (e, ?pk))"
  let ?d1 = "delete_index D all_time_families (all_time_key ?pk) ?a d"
  let ?d2 = "delete_index D epoch_families (epoch_fee_key (e, ?pk)) ?e ?d1"
  note held = assms(1)[unfolded holds_fees_def, rule_format]
  have c1: "changes D (all_families all_time_families) d ?d1" by (rule all_time.delete_index_changes)
  have c2: "changes D (all_families epoch_families) ?d1 ?d2" by (rule per_epoch.delete_index_changes)
  have e1: "fees_at D epoch_families prover_epoch_key epoch_fee_key ?d1 i k x = fees_at D epoch_families prover_epoch_key epoch_fee_key d i k x" for i k x
    by (rule fees_at_changes[OF c1]) (use tables_disjoint in auto)
  have a2: "fees_at D all_time_families id all_time_key ?d2 i k x = fees_at D all_time_families id all_time_key ?d1 i k x" for i k x
    by (rule fees_at_changes[OF c2]) (use tables_disjoint in auto)
  have "read_fees (get_snark_prover_total_fees D F ?pk None d) (get_snark_prover_max_fee D F ?pk None d) (get_snark_prover_min_fee D F ?pk None d) = Inr ?a"
    using all_time.read_fees_at[OF conjunct1[OF held[OF assms(2)]]]
    by (simp add: get_snark_prover_total_fees_def get_snark_prover_max_fee_def get_snark_prover_min_fee_def all_time_fee_def all_time_families_def)
  moreover have "read_fees (get_snark_prover_epoch_fees D F ?pk (Some e) None ?d1) (get_snark_prover_epoch_max_fee D F ?pk (Some e) None ?d1)
      (get_snark_prover_epoch_min_fee D F ?pk (Some e) None ?d1) = Inr ?e"
    using per_epoch.read_fees_at[OF e1[THEN iffD2, OF conjunct2[OF held[OF assms(2)], rule_format]]] assms(2)
    by (simp add: get_snark_prover_epoch_fees_def get_snark_prover_epoch_max_fee_def get_snark_prover_epoch_min_fee_def epoch_fee_def
        epoch_or_else_def snark_epoch_key_def prover_ok_def epoch_families_def prover_epoch_key_def)
  ultimately have "take_old_fees D F e None s (old, d) = Inr (old(?pk \<mapsto> (?a, ?e)), ?d2)"
    using False by (auto simp: take_old_fees_def all_time_ops[OF assms(2)] epoch_ops[OF assms(2)] Let_def)
  moreover have "holds_fees D ?d2 e (insert ?pk (dom old)) A E"
    unfolding holds_fees_def
  proof (intro allI impI conjI)
    fix pk e' assume pk: "prover_ok pk"
    show "fees_at D all_time_families id all_time_key ?d2 (pk \<notin> insert ?pk (dom old)) pk (A pk)"
      using all_time.delete_index_at[of d _ ?pk] all_time.delete_index_other[of d _ pk _ ?pk] held[OF pk] assms(2) pk
      unfolding a2 by (cases "pk = ?pk") auto
    show "fees_at D epoch_families prover_epoch_key epoch_fee_key ?d2 (\<not> (e' = e \<and> pk \<in> insert ?pk (dom old))) (e', pk) (E (e', pk))"
      using per_epoch.delete_index_at[of ?d1 _ "(e, ?pk)"] per_epoch.delete_index_other[of ?d1 _ "(e', pk)" _ "(e, ?pk)"] held[OF pk] assms(2) pk
      unfolding e1 by (cases "(e', pk) = (e, ?pk)") auto
  qed
  moreover have "\<forall>pk\<in>dom (old(?pk \<mapsto> (?a, ?e))). (old(?pk \<mapsto> (?a, ?e))) pk = Some (known_fees (A pk), known_fees (E (e, pk)))"
    using assms(3) by auto
  ultimately show ?thesis by (intro exI[of _ "old(?pk \<mapsto> (?a, ?e))"] exI[of _ ?d2] conjI) simp_all
qed

lemma take_all_old_fees:
  assumes "holds_fees D d e (dom old) A E" "\<forall>s\<in>set ss. prover_ok (sw_prover s)"
    "\<forall>pk\<in>dom old. old pk = Some (known_fees (A pk), known_fees (E (e, pk)))"
  shows "\<exists>old' d'. fold_ok (take_old_fees D F e None) ss (old, d) = Inr (old', d') \<and> dom old' = sw_prover ` set ss \<union> dom old \<and>
    holds_fees D d' e (dom old') A E \<and> (\<forall>pk\<in>dom old'. old' pk = Some (known_fees (A pk), known_fees (E (e, pk))))"
  using assms
proof (induction ss arbitrary: old d)
  case (Cons s ss)
  obtain old1 d1 where d1: "take_old_fees D F e None s (old, d) = Inr (old1, d1)" "dom old1 = insert (sw_prover s) (dom old)"
    "holds_fees D d1 e (dom old1) A E" "\<forall>pk\<in>dom old1. old1 pk = Some (known_fees (A pk), known_fees (E (e, pk)))"
    using take_old_fees_holds[OF Cons.prems(1) _ Cons.prems(3), of s F] Cons.prems(2) by auto
  show ?case using Cons.IH[OF d1(3) _ d1(4)] Cons.prems(2) d1(1,2) by auto
qed auto

lemma put_new_fees_holds:
  assumes "holds_fees D d e T A E" "prover_ok pk" "pk \<in> T" "old pk = Some (oa, oe)"
  shows "\<exists>d'. put_new_fees D F e height ap old (pk, fees) d = Inr d' \<and>
    holds_fees D d' e (T - {pk}) (A(pk \<mapsto> join_fees oa fees)) (E((e, pk) \<mapsto> join_fees oe fees))"
proof -
  let ?a = "join_fees oa fees" and ?e = "join_fees oe fees"
  let ?d1 = "delete_index D all_time_families (all_time_key pk) oa d"
  let ?d2 = "put_index D all_time_families (all_time_key pk) ?a (put_values D all_time_families pk ?a ?d1)"
  let ?d3 = "delete_index D epoch_families (epoch_fee_key (e, pk)) oe ?d2"
  let ?d4 = "put_index D epoch_families (epoch_fee_key (e, pk)) ?e (put_values D epoch_families (prover_epoch_key (e, pk)) ?e ?d3)"
  obtain d' where d': "record_history D F ap pk height ?a ?e ?d4 = Inr d'" "changes D [snark_prover_fees_historical_cf, snark_prover_fees_epoch_historical_cf] ?d4 d'"
    using assms(2) by (cases ap) (simp_all add: record_history_def snark_keys prover_ok_def changes_put changes_delete)
  note held = assms(1)[unfolded holds_fees_def, rule_format]
  have c2: "changes D (all_families all_time_families) d ?d2"
    using changes_trans[OF all_time.delete_index_changes changes_trans[OF all_time.put_values_changes all_time.put_index_changes]] by simp
  have c4: "changes D (all_families epoch_families) ?d2 ?d4"
    by (rule changes_trans[OF per_epoch.delete_index_changes changes_trans[OF per_epoch.put_values_changes per_epoch.put_index_changes]])
  have hist: "set (all_families all_time_families) \<inter> set [snark_prover_fees_historical_cf, snark_prover_fees_epoch_historical_cf] = {}"
    "set (all_families epoch_families) \<inter> set [snark_prover_fees_historical_cf, snark_prover_fees_epoch_historical_cf] = {}"
    by (simp_all add: all_families_def all_time_families_def epoch_families_def fee_cf_defs)
  have disj: "set (all_families epoch_families) \<inter> set (all_families all_time_families) = {}" using tables_disjoint by auto
  have e2: "fees_at D epoch_families prover_epoch_key epoch_fee_key ?d2 i k x = fees_at D epoch_families prover_epoch_key epoch_fee_key d i k x" for i k x
    by (rule fees_at_changes[OF c2 disj])
  have a4: "fees_at D all_time_families id all_time_key d' i k x = fees_at D all_time_families id all_time_key ?d2 i k x" for i k x
    unfolding fees_at_changes[OF d'(2) hist(1)] by (rule fees_at_changes[OF c4 tables_disjoint])
  have "put_new_fees D F e height ap old (pk, fees) d = Inr d'"
    using d'(1) by (simp add: put_new_fees_def assms(4) all_time_ops[OF assms(2)] epoch_ops[OF assms(2)] Let_def)
  moreover have "holds_fees D d' e (T - {pk}) (A(pk \<mapsto> ?a)) (E((e, pk) \<mapsto> ?e))"
    unfolding holds_fees_def
  proof (intro allI impI conjI)
    fix q e' assume q: "prover_ok q"
    show "fees_at D all_time_families id all_time_key d' (q \<notin> T - {pk}) q ((A(pk \<mapsto> ?a)) q)"
      using all_time.replace_fees[OF assms(2) q conjunct1[OF held[OF q]], of ?a oa] assms(3)
      unfolding a4 by (auto split: if_splits)
    have idx: "(\<not> (e' = e \<and> q \<in> T - {pk})) = ((e', q) = (e, pk) \<or> \<not> (e' = e \<and> q \<in> T))" using assms(3) by auto
    show "fees_at D epoch_families prover_epoch_key epoch_fee_key d' (\<not> (e' = e \<and> q \<in> T - {pk})) (e', q) ((E((e, pk) \<mapsto> ?e)) (e', q))"
      using per_epoch.replace_fees[OF _ _ e2[THEN iffD2, OF conjunct2[OF held[OF q], rule_format, of e']], of "(e, pk)" ?e oe] assms(2,3) q
      unfolding fees_at_changes[OF d'(2) hist(2)] idx by (cases "(e', q) = (e, pk)") auto
  qed
  ultimately show ?thesis by blast
qed

lemma put_all_new_fees:
  assumes "holds_fees D d e (fst ` set es) A E" "distinct (map fst es)" "\<forall>pk\<in>fst ` set es. prover_ok pk"
    "\<forall>pk\<in>fst ` set es. old pk = Some (known_fees (A pk), known_fees (E (e, pk)))"
  shows "\<exists>d'. fold_ok (put_new_fees D F e height ap old) es d = Inr d' \<and>
    holds_fees D d' e {} (\<lambda>pk. case map_of es pk of None \<Rightarrow> A pk | Some fees \<Rightarrow> Some (join_fees (known_fees (A pk)) fees))
      (\<lambda>k. case (if fst k = e then map_of es (snd k) else None) of None \<Rightarrow> E k | Some fees \<Rightarrow> Some (join_fees (known_fees (E k)) fees))"
  using assms
proof (induction es arbitrary: d A E)
  case Nil
  then show ?case by (simp add: if_distrib[of "case_option _ _"] cong: if_cong)
next
  case (Cons x es)
  obtain pk fees where x: "x = (pk, fees)" by (cases x)
  let ?A = "A(pk \<mapsto> join_fees (known_fees (A pk)) fees)" and ?E = "E((e, pk) \<mapsto> join_fees (known_fees (E (e, pk))) fees)"
  have pk: "pk \<notin> fst ` set es" "fst ` set (x # es) - {pk} = fst ` set es" using Cons.prems(2) by (auto simp: x)
  obtain d1 where d1: "put_new_fees D F e height ap old (pk, fees) d = Inr d1" "holds_fees D d1 e (fst ` set es) ?A ?E"
    using put_new_fees_holds[OF Cons.prems(1), of pk old _ _ F height ap fees] Cons.prems(3,4) unfolding pk(2) by (auto simp: x)
  have "\<exists>d'. fold_ok (put_new_fees D F e height ap old) es d1 = Inr d' \<and>
      holds_fees D d' e {} (\<lambda>q. case map_of es q of None \<Rightarrow> ?A q | Some fees \<Rightarrow> Some (join_fees (known_fees (?A q)) fees))
      (\<lambda>k. case (if fst k = e then map_of es (snd k) else None) of None \<Rightarrow> ?E k | Some fees \<Rightarrow> Some (join_fees (known_fees (?E k)) fees))"
    using Cons.prems(2-4) pk(1) by (intro Cons.IH[OF d1(2)]) (auto simp: x)
  moreover have "map_of es pk = None" using pk(1) by (simp add: map_of_eq_None_iff)
  then have "(\<lambda>q. case map_of es q of None \<Rightarrow> ?A q | Some fees \<Rightarrow> Some (join_fees (known_fees (?A q)) fees)) =
      (\<lambda>q. case map_of (x # es) q of None \<Rightarrow> A q | Some fees \<Rightarrow> Some (join_fees (known_fees (A q)) fees))"
    "(\<lambda>k. case (if fst k = e then map_of es (snd k) else None) of None \<Rightarrow> ?E k | Some fees \<Rightarrow> Some (join_fees (known_fees (?E k)) fees)) =
      (\<lambda>k. case (if fst k = e then map_of (x # es) (snd k) else None) of None \<Rightarrow> E k | Some fees \<Rightarrow> Some (join_fees (known_fees (E k)) fees))"
    by (auto simp: fun_eq_iff x split: option.splits)
  ultimately show ?case using d1(1) by (simp add: x)
qed

end

section \<open>Fees of a list of works\<close>

lemma add_prover_fee_map: "map_of (add_prover_fee s es) = (map_of es)(sw_prover s \<mapsto>
    (case map_of es (sw_prover s) of None \<Rightarrow> \<lparr>sf_total = sw_fee s, sf_max = sw_fee s, sf_min = sw_fee s\<rparr>
     | Some fees \<Rightarrow> merge_fees (sw_fee s) fees))"
  by (induction s es rule: add_prover_fee.induct) (auto simp: fun_eq_iff)

lemma add_prover_fee_keys: "fst ` set (add_prover_fee s es) = insert (sw_prover s) (fst ` set es)"
  by (induction s es rule: add_prover_fee.induct) auto

lemma add_prover_fee_distinct: "distinct (map fst es) \<Longrightarrow> distinct (map fst (add_prover_fee s es))"
  by (induction s es rule: add_prover_fee.induct) (auto simp: add_prover_fee_keys)

lemma snark_prover_fees_keys:
  "distinct (map fst (snark_prover_fees ss))" "fst ` set (snark_prover_fees ss) = sw_prover ` set ss"
  by (induction ss rule: rev_induct) (simp_all add: snark_prover_fees_def add_prover_fee_distinct add_prover_fee_keys)

definition fees_of :: "snark_work_summary list \<Rightarrow> public_key \<Rightarrow> u64 list" where
  "fees_of ss pk = map sw_fee (filter (\<lambda>s. sw_prover s = pk) ss)"

lemma merge_fees_max:
  "merge_fees fee x = \<lparr>sf_total = sf_total x + fee, sf_max = max fee (sf_max x), sf_min = min fee (sf_min x)\<rparr>"
  by (simp add: merge_fees_def max.absorb1 max.absorb2 min.absorb1 min.absorb2 less_imp_le linorder_not_less)

lemma snark_prover_fees_lookup:
  "map_of (snark_prover_fees ss) pk =
     (if fees_of ss pk = [] then None
      else Some \<lparr>sf_total = sum_list (fees_of ss pk), sf_max = Max (set (fees_of ss pk)), sf_min = Min (set (fees_of ss pk))\<rparr>)"
proof (induction ss rule: rev_induct)
  case (snoc s ss)
  have "fees_of (ss @ [s]) pk = fees_of ss pk @ (if sw_prover s = pk then [sw_fee s] else [])" by (simp add: fees_of_def)
  then show ?case
    using snoc by (auto simp: snark_prover_fees_def add_prover_fee_map merge_fees_max)
qed (simp add: snark_prover_fees_def fees_of_def)

text \<open>The fees a table holds for a prover after more works of that prover.\<close>

definition more_fees :: "u64 list \<Rightarrow> snark_fees_data option \<Rightarrow> snark_fees_data option" where
  "more_fees fees x = (if fees = [] then x
     else Some \<lparr>sf_total = sf_total (known_fees x) + sum_list fees, sf_max = Max (insert (sf_max (known_fees x)) (set fees)),
       sf_min = Min (insert (sf_min (known_fees x)) (set fees))\<rparr>)"

lemma more_fees_join:
  "(case map_of (snark_prover_fees ss) pk of None \<Rightarrow> x | Some fees \<Rightarrow> Some (join_fees (known_fees x) fees)) = more_fees (fees_of ss pk) x"
  by (simp add: snark_prover_fees_lookup more_fees_def join_fees_def)

text \<open>The all-time values of the provers, and an epoch history whose keys and documents are well formed.\<close>

definition all_time_values :: "('d, 'j) db_ops \<Rightarrow> 'd \<Rightarrow> (public_key \<rightharpoonup> snark_fees_data) \<Rightarrow> bool" where
  "all_time_values D d A \<longleftrightarrow> (\<forall>pk. prover_ok pk \<longrightarrow>
     db_get D d snark_prover_fees_cf pk = fee_value sf_total (A pk) \<and>
     db_get D d snark_prover_max_fee_cf pk = fee_value sf_max (A pk) \<and>
     db_get D d snark_prover_min_fee_cf pk = fee_value sf_min (A pk))"

definition history_readable :: "('d, 'j) db_ops \<Rightarrow> (snark_fees_data, 'j) codec \<Rightarrow> 'd \<Rightarrow> bool" where
  "history_readable D F d \<longleftrightarrow>
     (\<forall>k v. db_get D d snark_prover_fees_epoch_historical_cf k = Some v \<longrightarrow>
       length k = PUBLIC_KEY_LEN + U32_LEN \<and> parse_json F v \<noteq> None) \<and>
     (\<forall>h. \<exists>e. get_block_epoch D h d = Inr e)"

context key_value_db
begin

lemma apply_prover_fees:
  assumes "holds_fees D d (slot div MAINNET_EPOCH_SLOT_COUNT) {} A E" "\<forall>s\<in>set ss. prover_ok (sw_prover s)" "\<And>es. mset (order es) = mset es"
  shows "\<exists>d'. update_snark_prover_fees D F order height slot ss SnarkApply d = Inr d' \<and>
    holds_fees D d' (slot div MAINNET_EPOCH_SLOT_COUNT) {} (\<lambda>pk. more_fees (fees_of ss pk) (A pk))
      (\<lambda>(e, pk). if e = slot div MAINNET_EPOCH_SLOT_COUNT then more_fees (fees_of ss pk) (E (e, pk)) else E (e, pk))"
proof -
  let ?e = "slot div MAINNET_EPOCH_SLOT_COUNT" and ?es = "order (snark_prover_fees ss)"
  obtain old d1 where d1: "fold_ok (take_old_fees D F ?e None) ss (Map.empty, d) = Inr (old, d1)" "dom old = sw_prover ` set ss"
    "holds_fees D d1 ?e (dom old) A E" "\<forall>pk\<in>dom old. old pk = Some (known_fees (A pk), known_fees (E (?e, pk)))"
    using take_all_old_fees[of d ?e Map.empty A E ss F] assms(1,2) by auto
  have es: "set ?es = set (snark_prover_fees ss)" "distinct (map fst ?es)"
    using assms(3)[of "snark_prover_fees ss"] snark_prover_fees_keys(1)[of ss] mset_eq_imp_distinct_iff[of "map fst ?es" "map fst (snark_prover_fees ss)"]
    by (auto dest: mset_eq_setD)
  have keys: "fst ` set ?es = sw_prover ` set ss" using snark_prover_fees_keys(2) es(1) by simp
  have look: "map_of ?es = map_of (snark_prover_fees ss)"
    using map_of_inject_set[of ?es "snark_prover_fees ss"] es snark_prover_fees_keys(1) by auto
  have "(\<lambda>k. case (if fst k = ?e then map_of ?es (snd k) else None) of None \<Rightarrow> E k | Some fees \<Rightarrow> Some (join_fees (known_fees (E k)) fees)) =
      (\<lambda>(e, pk). if e = ?e then more_fees (fees_of ss pk) (E (e, pk)) else E (e, pk))"
    unfolding look more_fees_join[symmetric] by auto
  then show ?thesis
    using put_all_new_fees[of d1 ?e ?es A E old F height SnarkApply] assms(2) d1 es(2)
    by (simp add: keys update_snark_prover_fees_def look more_fees_join Let_def)
qed

lemma get_fees_held:
  assumes "holds_fees D d e {} A E" "prover_ok pk"
  shows "get_snark_prover_total_fees D F pk None d = Inr (map_option sf_total (A pk))"
    "get_snark_prover_max_fee D F pk None d = Inr (map_option sf_max (A pk))"
    "get_snark_prover_min_fee D F pk None d = Inr (map_option sf_min (A pk))"
    "get_snark_prover_epoch_fees D F pk (Some e') None d = Inr (map_option sf_total (E (e', pk)))"
    "get_snark_prover_epoch_max_fee D F pk (Some e') None d = Inr (map_option sf_max (E (e', pk)))"
    "get_snark_prover_epoch_min_fee D F pk (Some e') None d = Inr (map_option sf_min (E (e', pk)))"
proof -
  have a: "fees_at D all_time_families id all_time_key d True pk (A pk)" using assms by (simp add: holds_fees_def)
  have e: "fees_at D epoch_families prover_epoch_key epoch_fee_key d True (e', pk) (E (e', pk))" using assms by (simp add: holds_fees_def)
  show "get_snark_prover_total_fees D F pk None d = Inr (map_option sf_total (A pk))"
    "get_snark_prover_max_fee D F pk None d = Inr (map_option sf_max (A pk))"
    "get_snark_prover_min_fee D F pk None d = Inr (map_option sf_min (A pk))"
    using all_time.get_fees_at[OF a]
    by (simp_all add: get_snark_prover_total_fees_def get_snark_prover_max_fee_def get_snark_prover_min_fee_def all_time_fee_def all_time_families_def)
  show "get_snark_prover_epoch_fees D F pk (Some e') None d = Inr (map_option sf_total (E (e', pk)))"
    "get_snark_prover_epoch_max_fee D F pk (Some e') None d = Inr (map_option sf_max (E (e', pk)))"
    "get_snark_prover_epoch_min_fee D F pk (Some e') None d = Inr (map_option sf_min (E (e', pk)))"
    using per_epoch.get_fees_at[OF e] assms(2)
    by (simp_all add: get_snark_prover_epoch_fees_def get_snark_prover_epoch_max_fee_def get_snark_prover_epoch_min_fee_def epoch_fee_def
        epoch_or_else_def snark_epoch_key_def prover_ok_def epoch_families_def prover_epoch_key_def)
qed

text \<open>Unapplying reads the epoch's fees from the history, whose entries are keyed by prover and height.\<close>

lemma prev_fees_read:
  assumes "history_readable D F d" "prover_ok pk"
  shows "\<exists>r. get_snark_prover_prev_fees D pk height (Some e) d = Inr r \<and> (\<forall>v. r = Some v \<longrightarrow> parse_json F v \<noteq> None)"
proof (cases "db_iterator D d snark_prover_fees_epoch_historical_cf (IterReverse (pk @ to_be_bytes (height - 1)))")
  case Nil
  then show ?thesis using assms(2) by (simp add: get_snark_prover_prev_fees_def prover_ok_def)
next
  case (Cons x xs)
  obtain k v where x: "x = (k, v)" by force
  have "x \<in> set (db_iterator D d snark_prover_fees_epoch_historical_cf (IterReverse (pk @ to_be_bytes (height - 1))))" by (simp add: Cons)
  then have "db_get D d snark_prover_fees_epoch_historical_cf k = Some v" by (simp add: x iterator_reverse iterator_entries)
  then have kv: "length k = PUBLIC_KEY_LEN + U32_LEN" "parse_json F v \<noteq> None" using assms(1) by (auto simp: history_readable_def)
  have "\<exists>ok. prev_fees_in_epoch D h (Some e) d = Inr ok" for h
    using assms(1) by (auto simp: prev_fees_in_epoch_def history_readable_def run_simps split: option.splits)
  then obtain ok where ok: "prev_fees_in_epoch D (word_of_be (drop PUBLIC_KEY_LEN k)) (Some e) d = Inr ok" by blast
  show ?thesis
    using assms(2) kv ok by (simp add: get_snark_prover_prev_fees_def Cons x prover_ok_def slice_to_def slice_from_def u32_from_be_bytes_def)
qed

lemma read_prev_epoch_fees:
  assumes "history_readable D F d" "prover_ok pk"
  shows "\<exists>x. read_fees (get_snark_prover_epoch_fees D F pk (Some e) (Some height) d) (get_snark_prover_epoch_max_fee D F pk (Some e) (Some height) d)
    (get_snark_prover_epoch_min_fee D F pk (Some e) (Some height) d) = Inr x"
proof -
  obtain r where r: "get_snark_prover_prev_fees D pk height (Some e) d = Inr r" "\<And>v. r = Some v \<Longrightarrow> \<exists>x. parse_json F v = Some x"
    using prev_fees_read[OF assms, of height e] by blast
  show ?thesis
    using r by (cases r) (auto simp: read_fees_def get_snark_prover_epoch_fees_def get_snark_prover_epoch_max_fee_def
        get_snark_prover_epoch_min_fee_def epoch_fee_def epoch_or_else_def prev_fees_field_def dest!: r(2))
qed

lemma read_all_time_fees:
  assumes "all_time_values D d A" "prover_ok pk"
  shows "read_fees (get_snark_prover_total_fees D F pk None d) (get_snark_prover_max_fee D F pk None d) (get_snark_prover_min_fee D F pk None d) =
    Inr (known_fees (A pk))"
  using assms by (cases "A pk") (auto simp: all_time_values_def fee_value_def read_fees_def known_fees_def get_snark_prover_total_fees_def
      get_snark_prover_max_fee_def get_snark_prover_min_fee_def all_time_fee_def get_u64_def u64_from_be_bytes_def unwrap_def word_of_be_to_be)

lemma delete_indices_keep:
  "all_time_values D (delete_index D all_time_families k x d) A \<longleftrightarrow> all_time_values D d A"
  "all_time_values D (delete_index D epoch_families k x d) A \<longleftrightarrow> all_time_values D d A"
  "history_readable D F (delete_index D all_time_families k x d) \<longleftrightarrow> history_readable D F d"
  "history_readable D F (delete_index D epoch_families k x d) \<longleftrightarrow> history_readable D F d"
  by (simp_all add: all_time_values_def history_readable_def delete_index_def get_delete get_block_epoch_def
      all_time_families_def epoch_families_def fee_cf_defs block_epoch_cf_def)

lemma take_old_fees_step:
  assumes "all_time_values D d A" "history_readable D F d" "prover_ok (sw_prover s)" "old (sw_prover s) = None"
  shows "\<exists>x d'. take_old_fees D F e (Some height) s (old, d) = Inr (old(sw_prover s \<mapsto> (known_fees (A (sw_prover s)), x)), d') \<and>
    all_time_values D d' A \<and> history_readable D F d'"
proof -
  let ?pk = "sw_prover s"
  let ?d1 = "delete_index D all_time_families (all_time_key ?pk) (known_fees (A ?pk)) d"
  have "history_readable D F ?d1" using assms(2) by (simp only: delete_indices_keep)
  from read_prev_epoch_fees[OF this assms(3), of e height]
  obtain x where x: "read_fees (get_snark_prover_epoch_fees D F ?pk (Some e) (Some height) ?d1)
      (get_snark_prover_epoch_max_fee D F ?pk (Some e) (Some height) ?d1) (get_snark_prover_epoch_min_fee D F ?pk (Some e) (Some height) ?d1) = Inr x" ..
  have "take_old_fees D F e (Some height) s (old, d) =
      Inr (old(?pk \<mapsto> (known_fees (A ?pk), x)), delete_index D epoch_families (epoch_fee_key (e, ?pk)) x ?d1)"
    using assms(4) by (simp add: take_old_fees_def read_all_time_fees[OF assms(1,3)] all_time_ops[OF assms(3)] epoch_ops[OF assms(3)] x Let_def)
  then show ?thesis using assms(1,2) delete_indices_keep by blast
qed

lemma take_old_fees_unapply:
  assumes "all_time_values D d A" "history_readable D F d" "\<forall>s\<in>set ss. prover_ok (sw_prover s)"
    "\<forall>q a x. old q = Some (a, x) \<longrightarrow> a = known_fees (A q)"
  shows "\<exists>old' d'. fold_ok (take_old_fees D F e (Some height)) ss (old, d) = Inr (old', d') \<and> all_time_values D d' A \<and>
    (\<forall>q a x. old' q = Some (a, x) \<longrightarrow> a = known_fees (A q)) \<and> dom old' = dom old \<union> sw_prover ` set ss"
  using assms
proof (induction ss arbitrary: old d)
  case (Cons s ss)
  show ?case
  proof (cases "old (sw_prover s)")
    case None
    have "prover_ok (sw_prover s)" using Cons.prems(3) by simp
    from take_old_fees_step[where old = old, OF Cons.prems(1,2) this None, of e height] obtain x d1 where
      step: "take_old_fees D F e (Some height) s (old, d) = Inr (old(sw_prover s \<mapsto> (known_fees (A (sw_prover s)), x)), d1)"
      and d1: "all_time_values D d1 A" "history_readable D F d1" by blast
    let ?old = "old(sw_prover s \<mapsto> (known_fees (A (sw_prover s)), x))"
    have "\<forall>s\<in>set ss. prover_ok (sw_prover s)" using Cons.prems(3) by simp
    moreover have "\<forall>q a x. ?old q = Some (a, x) \<longrightarrow> a = known_fees (A q)" using Cons.prems(4) by simp
    moreover have "dom old \<union> sw_prover ` set (s # ss) = dom ?old \<union> sw_prover ` set ss" by simp
    ultimately show ?thesis using Cons.IH[OF d1, of ?old] step by (simp only: fold_ok.simps bind_ok.simps)
  next
    case (Some y)
    then have "take_old_fees D F e (Some height) s (old, d) = Inr (old, d)" by (simp add: take_old_fees_def)
    moreover have "dom old \<union> sw_prover ` set (s # ss) = dom old \<union> sw_prover ` set ss" using Some by auto
    moreover have "\<forall>s\<in>set ss. prover_ok (sw_prover s)" using Cons.prems(3) by simp
    ultimately show ?thesis using Cons.IH[OF Cons.prems(1,2) _ Cons.prems(4)] by (simp only: fold_ok.simps bind_ok.simps)
  qed
qed simp

lemma put_new_fees_stored:
  assumes "prover_ok pk" "old pk = Some (oa, oe)"
  shows "\<exists>d'. put_new_fees D F e height SnarkUnapply old (pk, fees) d = Inr d' \<and>
    (\<forall>k. db_get D d' snark_prover_fees_cf k =
      (if k = pk then Some (Raw (to_be_bytes (sf_total (join_fees oa fees)))) else db_get D d snark_prover_fees_cf k))"
  using assms(1)[unfolded prover_ok_def]
  by (simp add: assms(2) all_time_ops[OF assms(1)] epoch_ops[OF assms(1)] put_new_fees_def record_history_def snark_keys Let_def get_delete get_put
      delete_index_def put_index_def put_values_def put_raw_u64_def all_time_families_def epoch_families_def fee_cf_defs)

lemma put_all_fees_stored:
  assumes "distinct (map fst es)" "\<forall>pk\<in>fst ` set es. prover_ok pk \<and> (\<exists>x. old pk = Some (known_fees (A pk), x))"
  shows "\<exists>d'. fold_ok (put_new_fees D F e height SnarkUnapply old) es d = Inr d' \<and>
    (\<forall>k. db_get D d' snark_prover_fees_cf k = (case map_of es k of
        None \<Rightarrow> db_get D d snark_prover_fees_cf k
      | Some fees \<Rightarrow> Some (Raw (to_be_bytes (sf_total (join_fees (known_fees (A k)) fees))))))"
  using assms
proof (induction es arbitrary: d)
  case (Cons p es)
  obtain pk fees where p: "p = (pk, fees)" by force
  obtain d1 where d1: "put_new_fees D F e height SnarkUnapply old p d = Inr d1"
    "\<And>k. db_get D d1 snark_prover_fees_cf k = (if k = pk then Some (Raw (to_be_bytes (sf_total (join_fees (known_fees (A pk)) fees))))
      else db_get D d snark_prover_fees_cf k)"
  proof -
    obtain x where "prover_ok pk" "old pk = Some (known_fees (A pk), x)" using Cons.prems(2) p by auto
    from put_new_fees_stored[of pk old, OF this, of F e height fees d] show thesis using that p by blast
  qed
  obtain d2 where d2: "fold_ok (put_new_fees D F e height SnarkUnapply old) es d1 = Inr d2"
    "\<And>k. db_get D d2 snark_prover_fees_cf k = (case map_of es k of None \<Rightarrow> db_get D d1 snark_prover_fees_cf k
      | Some fees \<Rightarrow> Some (Raw (to_be_bytes (sf_total (join_fees (known_fees (A k)) fees)))))"
    using Cons.IH[of d1] Cons.prems by auto
  have "map_of es pk = None" using Cons.prems(1) by (simp add: p map_of_eq_None_iff)
  then have "db_get D d2 snark_prover_fees_cf k = (case map_of (p # es) k of None \<Rightarrow> db_get D d snark_prover_fees_cf k
      | Some fees \<Rightarrow> Some (Raw (to_be_bytes (sf_total (join_fees (known_fees (A k)) fees)))))" for k
    by (cases "map_of es k") (auto simp: p d1(2) d2(2))
  then show ?case using d1(1) d2(1) by simp
qed simp

lemma unapply_prover_fees:
  assumes "holds_fees D d (slot div MAINNET_EPOCH_SLOT_COUNT) {} A E" "\<forall>s\<in>set ss. prover_ok (sw_prover s)"
    "\<And>es. mset (order es) = mset es" "history_readable D F d"
  shows "\<exists>d'. update_snark_prover_fees D F order height slot ss SnarkUnapply d = Inr d' \<and>
    (\<forall>pk. prover_ok pk \<longrightarrow> get_snark_prover_total_fees D F pk None d' = Inr (map_option sf_total (more_fees (fees_of ss pk) (A pk))))"
proof -
  let ?e = "slot div MAINNET_EPOCH_SLOT_COUNT" and ?es = "order (snark_prover_fees ss)"
  have "all_time_values D d A"
    using assms(1) by (simp add: holds_fees_def all_time_values_def fees_at_def all_time_families_def)
  from take_old_fees_unapply[OF this assms(4,2), of Map.empty ?e height]
  obtain old d1 where d1: "fold_ok (take_old_fees D F ?e (Some height)) ss (Map.empty, d) = Inr (old, d1)" "all_time_values D d1 A"
    "\<And>q a x. old q = Some (a, x) \<Longrightarrow> a = known_fees (A q)" "dom old = sw_prover ` set ss" by auto
  have es: "set ?es = set (snark_prover_fees ss)" "distinct (map fst ?es)"
    using assms(3)[of "snark_prover_fees ss"] snark_prover_fees_keys(1)[of ss] mset_eq_imp_distinct_iff[of "map fst ?es" "map fst (snark_prover_fees ss)"]
    by (auto dest: mset_eq_setD)
  have keys: "fst ` set ?es = dom old" using snark_prover_fees_keys(2) es(1) d1(4) by simp
  have look: "map_of ?es = map_of (snark_prover_fees ss)"
    using map_of_inject_set[of ?es "snark_prover_fees ss"] es snark_prover_fees_keys(1) by auto
  have "\<forall>pk\<in>fst ` set ?es. prover_ok pk \<and> (\<exists>x. old pk = Some (known_fees (A pk), x))"
    unfolding keys using d1(3,4) assms(2) by force
  from put_all_fees_stored[OF es(2) this, of F ?e height d1]
  obtain d2 where d2: "fold_ok (put_new_fees D F ?e height SnarkUnapply old) ?es d1 = Inr d2"
    "\<And>k. db_get D d2 snark_prover_fees_cf k = (case map_of ?es k of None \<Rightarrow> db_get D d1 snark_prover_fees_cf k
      | Some fees \<Rightarrow> Some (Raw (to_be_bytes (sf_total (join_fees (known_fees (A k)) fees)))))" by blast
  have "db_get D d2 snark_prover_fees_cf pk = fee_value sf_total (more_fees (fees_of ss pk) (A pk))" if "prover_ok pk" for pk
    using d1(2) that unfolding more_fees_join[symmetric] d2(2) look
    by (simp add: all_time_values_def fee_value_def split: option.splits)
  then have "get_snark_prover_total_fees D F pk None d2 = Inr (map_option sf_total (more_fees (fees_of ss pk) (A pk)))" if "prover_ok pk" for pk
    using that by (cases "more_fees (fees_of ss pk) (A pk)")
      (simp_all add: get_snark_prover_total_fees_def all_time_fee_def get_u64_def fee_value_def u64_from_be_bytes_def unwrap_def word_of_be_to_be)
  then show ?thesis using d1(1) d2(1) by (simp add: update_snark_prover_fees_def Let_def)
qed

end

section \<open>Properties\<close>

text \<open>
  C7: applying a block adds, for every prover of its works, the prover's fees to the total and takes them into the
  largest and the smallest fee, for all time and for the block's epoch, whatever the order in which the hash map
  of new fees is iterated; other provers and epochs keep their fees, and the indices sorted by total, maximum and
  minimum hold one entry per prover, for its new fees.
\<close>

theorem snark_fees_accumulate:
  fixes D :: "('d, 'j) db_ops" and slot :: u32
  defines "e \<equiv> slot div MAINNET_EPOCH_SLOT_COUNT"
  assumes "key_value_db D" "holds_fees D d e {} A E" "\<forall>s\<in>set ss. length (sw_prover s) = PUBLIC_KEY_LEN" "\<And>es. mset (order es) = mset es"
  shows "\<exists>d'. update_snark_prover_fees D F order height slot ss SnarkApply d = Inr d' \<and>
    holds_fees D d' e {} (\<lambda>pk. more_fees (fees_of ss pk) (A pk)) (\<lambda>(x, pk). if x = e then more_fees (fees_of ss pk) (E (x, pk)) else E (x, pk)) \<and>
    (\<forall>pk. length pk = PUBLIC_KEY_LEN \<longrightarrow>
      get_snark_prover_total_fees D F pk None d' = Inr (map_option sf_total (more_fees (fees_of ss pk) (A pk))) \<and>
      get_snark_prover_max_fee D F pk None d' = Inr (map_option sf_max (more_fees (fees_of ss pk) (A pk))) \<and>
      get_snark_prover_min_fee D F pk None d' = Inr (map_option sf_min (more_fees (fees_of ss pk) (A pk))) \<and>
      get_snark_prover_epoch_fees D F pk (Some e) None d' = Inr (map_option sf_total (more_fees (fees_of ss pk) (E (e, pk)))))"
proof -
  obtain d' where d': "update_snark_prover_fees D F order height slot ss SnarkApply d = Inr d'"
    "holds_fees D d' e {} (\<lambda>pk. more_fees (fees_of ss pk) (A pk)) (\<lambda>(x, pk). if x = e then more_fees (fees_of ss pk) (E (x, pk)) else E (x, pk))"
    using key_value_db.apply_prover_fees[OF assms(2), of d slot A E ss order F height] assms(3-5) unfolding e_def prover_ok_def by auto
  then show ?thesis using key_value_db.get_fees_held[OF assms(2) d'(2)] by (simp add: prover_ok_def)
qed

definition example_works :: "snark_work_summary list" where
  "example_works = [\<lparr>sw_fee = 4, sw_prover = public_key_default\<rparr>, \<lparr>sw_fee = 7, sw_prover = public_key_default\<rparr>]"

lemma no_fees_held: "holds_fees assoc_ops [] e {} Map.empty Map.empty"
  by (simp add: holds_fees_def fees_at_def fee_value_def fee_index_def)

theorem snark_fees_accumulate_witness:
  "\<exists>d'. update_snark_prover_fees assoc_ops id_codec rev 3 8000 example_works SnarkApply [] = Inr d' \<and>
    get_snark_prover_total_fees assoc_ops id_codec public_key_default None d' = Inr (Some 11) \<and>
    get_snark_prover_max_fee assoc_ops id_codec public_key_default None d' = Inr (Some 7) \<and>
    get_snark_prover_min_fee assoc_ops id_codec public_key_default None d' = Inr (Some 4) \<and>
    get_snark_prover_epoch_fees assoc_ops id_codec public_key_default (Some 1) None d' = Inr (Some 11)"
proof -
  have "(8000 :: u32) div MAINNET_EPOCH_SLOT_COUNT = 1" by code_simp
  moreover have "more_fees (fees_of example_works public_key_default) None = Some \<lparr>sf_total = 11, sf_max = 7, sf_min = 4\<rparr>"
    by (simp add: more_fees_def fees_of_def example_works_def known_fees_def)
  ultimately show ?thesis
    using snark_fees_accumulate[OF assoc.key_value_db_axioms no_fees_held, of example_works rev id_codec 3 8000] example_prover_stored
    by (auto simp: example_works_def)
qed

text \<open>
  C38: taking a block off does not take its fees off: when the works of a block are unapplied, the all-time
  total of every prover changes as it does when they are applied, growing by the prover's fees in the block.
  The epoch history may hold any fees, under keys of a prover and a height.
\<close>

theorem unapply_adds_fees:
  assumes "key_value_db D" "holds_fees D d (slot div MAINNET_EPOCH_SLOT_COUNT) {} A E"
    "\<forall>s\<in>set ss. length (sw_prover s) = PUBLIC_KEY_LEN" "\<And>es. mset (order es) = mset es" "history_readable D F d"
  shows "\<exists>d'. update_snark_prover_fees D F order height slot ss SnarkUnapply d = Inr d' \<and>
    (\<forall>pk. length pk = PUBLIC_KEY_LEN \<longrightarrow> get_snark_prover_total_fees D F pk None d' =
      Inr (if pk \<in> sw_prover ` set ss
        then Some (sf_total (known_fees (A pk)) + (\<Sum>s\<leftarrow>filter (\<lambda>s. sw_prover s = pk) ss. sw_fee s))
        else map_option sf_total (A pk)))"
proof -
  have "map_option sf_total (more_fees (fees_of ss pk) (A pk)) = (if pk \<in> sw_prover ` set ss
      then Some (sf_total (known_fees (A pk)) + (\<Sum>s\<leftarrow>filter (\<lambda>s. sw_prover s = pk) ss. sw_fee s))
      else map_option sf_total (A pk))" for pk
    by (auto simp: more_fees_def fees_of_def filter_empty_conv)
  then show ?thesis
    using key_value_db.unapply_prover_fees[OF assms(1,2) _ assms(4,5), where ss = ss and height = height] assms(3)
    by (simp add: prover_ok_def)
qed

definition example_fee_history :: "snark_fees_data assoc_db" where
  "example_fee_history = [((snark_prover_fees_epoch_historical_cf, public_key_default @ to_be_bytes (1 :: u32)),
     json id_codec \<lparr>sf_total = 9, sf_max = 9, sf_min = 9\<rparr>)]"

theorem unapply_adds_fees_witness:
  "\<exists>d'. update_snark_prover_fees assoc_ops id_codec id 3 8000 [\<lparr>sw_fee = 4, sw_prover = public_key_default\<rparr>] SnarkUnapply
      example_fee_history = Inr d' \<and>
    get_snark_prover_total_fees assoc_ops id_codec public_key_default None d' = Inr (Some 4)"
proof -
  have held: "holds_fees assoc_ops example_fee_history e {} Map.empty Map.empty" for e
    by (simp add: holds_fees_def fees_at_def fee_value_def fee_index_def example_fee_history_def all_time_families_def
        epoch_families_def fee_cf_defs)
  have readable: "history_readable assoc_ops id_codec example_fee_history"
    using example_prover_stored(1)
    by (simp add: history_readable_def example_fee_history_def json_def id_codec_def get_block_epoch_def get_u32_def fee_cf_defs
        block_epoch_cf_def len_defs)
  show ?thesis
    using unapply_adds_fees[OF assoc.key_value_db_axioms held, where slot = 8000 and height = 3 and order = id and F = id_codec
        and ss = "[\<lparr>sw_fee = 4, sw_prover = public_key_default\<rparr>]"]
      readable example_prover_stored(1)
    by (auto simp: known_fees_def)
qed

end
