(* ===== verification/Signed_Commands.thy ===== *)
theory Signed_Commands
  imports Precomputed Store_Keys
begin

text \<open>
  Signed commands (\<open>command/signed/mod.rs\<close>): the command without its status, its accessors, and the forms
  that are stored with the data of the block.  \<open>H\<close> is the transaction hash (\<open>hash_signed_command\<close>: the binary
  encoding, base58 and Blake2b of a V1 command, an external program for V2); \<open>None\<close> is its error.
\<close>

section \<open>Accessors\<close>

text \<open>\<open>slice::get\<close>.\<close>

definition list_get :: "'a list \<Rightarrow> nat \<Rightarrow> 'a option" where
  "list_get xs i = (if i < length xs then Some (xs ! i) else None)"

datatype signed_command = ScV1 signed_command_v1 | ScV2 user_command_data

fun sc_fee :: "signed_command \<Rightarrow> u64" where
  "sc_fee (ScV1 c) = sc1_fee c"
| "sc_fee (ScV2 (SignedCommandData d)) = sc2_fee d"
| "sc_fee (ScV2 (ZkappCommandData d)) = fp_fee (zc_fee_payer d)"

fun sc_fee_payer_pk :: "signed_command \<Rightarrow> public_key" where
  "sc_fee_payer_pk (ScV1 c) = sc1_fee_payer_pk c"
| "sc_fee_payer_pk (ScV2 (SignedCommandData d)) = sc2_fee_payer_pk d"
| "sc_fee_payer_pk (ScV2 (ZkappCommandData d)) = fp_public_key (zc_fee_payer d)"

fun sc_nonce :: "signed_command \<Rightarrow> nonce" where
  "sc_nonce (ScV1 c) = sc1_nonce c"
| "sc_nonce (ScV2 (SignedCommandData d)) = sc2_nonce d"
| "sc_nonce (ScV2 (ZkappCommandData d)) = fp_nonce (zc_fee_payer d)"

fun sc_memo :: "signed_command \<Rightarrow> string run" where
  "sc_memo (ScV1 c) = decode_memo (sc1_memo c)"
| "sc_memo (ScV2 (SignedCommandData d)) = decode_memo (bytes_of_string (sc2_memo d))"
| "sc_memo (ScV2 (ZkappCommandData d)) = decode_memo (bytes_of_string (zc_memo d))"

fun sc_amount :: "signed_command \<Rightarrow> u64" where
  "sc_amount (ScV1 c) = (case sc1_body c of PaymentPayloadV1 _ _ amount \<Rightarrow> amount | SetDelegateV1 _ _ \<Rightarrow> 0)"
| "sc_amount (ScV2 (SignedCommandData d)) = (case sc2_body d of PaymentV2 _ amount \<Rightarrow> amount | StakeDelegationV2 _ \<Rightarrow> 0)"
| "sc_amount (ScV2 (ZkappCommandData _)) = 0"

fun sc_receiver_pk :: "signed_command \<Rightarrow> public_key list" where
  "sc_receiver_pk (ScV1 c) =
     (case sc1_body c of PaymentPayloadV1 _ receiver _ \<Rightarrow> [receiver] | SetDelegateV1 _ new_delegate \<Rightarrow> [new_delegate])"
| "sc_receiver_pk (ScV2 (SignedCommandData d)) =
     (case sc2_body d of PaymentV2 receiver _ \<Rightarrow> [receiver] | StakeDelegationV2 new_delegate \<Rightarrow> [new_delegate])"
| "sc_receiver_pk (ScV2 (ZkappCommandData d)) = map (\<lambda>u. aub_public_key (elt_body u)) (zc_account_updates d)"

fun sc_source_pk :: "signed_command \<Rightarrow> public_key" where
  "sc_source_pk (ScV1 c) = (case sc1_body c of PaymentPayloadV1 source _ _ \<Rightarrow> source | SetDelegateV1 delegator _ \<Rightarrow> delegator)"
| "sc_source_pk (ScV2 d) = sc_fee_payer_pk (ScV2 d)"

fun sc_signer :: "signed_command \<Rightarrow> public_key" where
  "sc_signer (ScV1 c) = sc1_signer c"
| "sc_signer (ScV2 (SignedCommandData d)) = sc2_signer d"
| "sc_signer (ScV2 (ZkappCommandData d)) = fp_public_key (zc_fee_payer d)"

definition sc_all_command_public_keys :: "signed_command \<Rightarrow> public_key list" where
  "sc_all_command_public_keys c = sc_receiver_pk c @ [sc_source_pk c, sc_fee_payer_pk c, sc_signer c]"

definition sc_contains_public_key :: "signed_command \<Rightarrow> public_key \<Rightarrow> bool" where
  "sc_contains_public_key c pk \<longleftrightarrow> pk \<in> set (sc_all_command_public_keys c)"

datatype command_type = PaymentType | DelegationType | ZkappType

text \<open>The kind tag of a V2 payload is the constructor of its body.\<close>

fun sc_kind :: "signed_command \<Rightarrow> command_type" where
  "sc_kind (ScV1 c) = (case sc1_body c of PaymentPayloadV1 _ _ _ \<Rightarrow> PaymentType | SetDelegateV1 _ _ \<Rightarrow> DelegationType)"
| "sc_kind (ScV2 (SignedCommandData d)) = (case sc2_body d of PaymentV2 _ _ \<Rightarrow> PaymentType | StakeDelegationV2 _ \<Rightarrow> DelegationType)"
| "sc_kind (ScV2 (ZkappCommandData _)) = ZkappType"

definition sc_is_delegation :: "signed_command \<Rightarrow> bool" where
  "sc_is_delegation c \<longleftrightarrow> sc_kind c = DelegationType"

section \<open>Conversions\<close>

fun signed_command_from :: "user_command_with_status \<Rightarrow> signed_command" where
  "signed_command_from (UcV1 c) = ScV1 (uc1_data c)"
| "signed_command_from (UcV2 c) = ScV2 (uc2_data c)"

definition uc_contains_public_key :: "user_command_with_status \<Rightarrow> public_key \<Rightarrow> bool" where
  "uc_contains_public_key c pk \<longleftrightarrow> pk \<in> set (sc_all_command_public_keys (signed_command_from c))"

record signed_command_with_creation_data =
  cc_signed_command :: signed_command
  cc_is_new_receiver_account :: bool

definition creation_data_from_precomputed :: "precomputed_block \<Rightarrow> signed_command_with_creation_data list run" where
  "creation_data_from_precomputed block =
     map_ok (map (\<lambda>u. \<lparr>cc_signed_command = signed_command_from u,
       cc_is_new_receiver_account = uc_receiver_account_creation_fee_paid u\<rparr>)) (commands block)"

definition command_from_creation_data :: "signed_command_with_creation_data \<Rightarrow> command run" where
  "command_from_creation_data value = (let signed = cc_signed_command value in
     case signed of
       ScV1 c \<Rightarrow> Inr (case sc1_body c of
         PaymentPayloadV1 source receiver amount \<Rightarrow>
           PaymentCmd \<lparr>pay_source = source, pay_nonce = sc_nonce signed, pay_amount = amount, pay_receiver = receiver,
             pay_is_new_receiver_account = cc_is_new_receiver_account value\<rparr>
       | SetDelegateV1 delegator new_delegate \<Rightarrow>
           DelegationCmd \<lparr>del_delegator = delegator, del_nonce = sc_nonce signed, del_delegate = new_delegate\<rparr>)
     | ScV2 (SignedCommandData d) \<Rightarrow> (case sc2_body d of
         PaymentV2 _ _ \<Rightarrow>
           map_ok (\<lambda>receiver. PaymentCmd \<lparr>pay_source = sc_fee_payer_pk signed, pay_nonce = sc_nonce signed,
               pay_amount = sc_amount signed, pay_receiver = receiver,
               pay_is_new_receiver_account = cc_is_new_receiver_account value\<rparr>)
             (unwrap (list_get (sc_receiver_pk signed) 0))
       | StakeDelegationV2 new_delegate \<Rightarrow>
           Inr (DelegationCmd \<lparr>del_delegator = sc_source_pk signed, del_nonce = sc_nonce signed, del_delegate = new_delegate\<rparr>))
     | ScV2 (ZkappCommandData d) \<Rightarrow> Inr (ZkappCmd d))"

record signed_command_with_data =
  sd_command :: signed_command
  sd_state_hash :: state_hash
  sd_status :: command_status_data
  sd_tx_hash :: txn_hash
  sd_blockchain_length :: u32
  sd_date_time :: u64
  sd_nonce :: nonce
  sd_global_slot_since_genesis :: u32

definition command_with_data_from :: "(signed_command \<Rightarrow> txn_hash option) \<Rightarrow> user_command_with_status \<Rightarrow> state_hash \<Rightarrow> u32 \<Rightarrow>
    u64 \<Rightarrow> u32 \<Rightarrow> signed_command_with_data run" where
  "command_with_data_from H user_cmd state_hash length_of_chain date_time global_slot =
     (let command = signed_command_from user_cmd in
      map_ok (\<lambda>tx_hash. \<lparr>sd_command = command, sd_state_hash = state_hash, sd_status = uc_status_data user_cmd,
          sd_tx_hash = tx_hash, sd_blockchain_length = length_of_chain, sd_date_time = date_time,
          sd_nonce = sc_nonce command, sd_global_slot_since_genesis = global_slot\<rparr>)
        (unwrap (H command)))"

definition block_command_with_data ::
    "(signed_command \<Rightarrow> txn_hash option) \<Rightarrow> precomputed_block \<Rightarrow> user_command_with_status \<Rightarrow> signed_command_with_data run" where
  "block_command_with_data H block cmd = command_with_data_from H cmd (state_hash_of block) (blockchain_length block)
     (timestamp block) (global_slot_since_genesis block)"

definition commands_with_data_from_precomputed ::
    "(signed_command \<Rightarrow> txn_hash option) \<Rightarrow> precomputed_block \<Rightarrow> signed_command_with_data list run" where
  "commands_with_data_from_precomputed H block = bind_ok (commands block) (traverse_ok (block_command_with_data H block))"

section \<open>Properties\<close>

text \<open>A signed command agrees with the command it was made from, but for the amount of a V1 command.\<close>

lemma signed_command_agrees:
  "sc_fee (signed_command_from c) = uc_fee c" "sc_fee_payer_pk (signed_command_from c) = uc_fee_payer_pk c"
  "sc_nonce (signed_command_from c) = uc_nonce c" "sc_memo (signed_command_from c) = uc_memo c"
  "sc_receiver_pk (signed_command_from c) = uc_receiver c" "sc_source_pk (signed_command_from c) = uc_sender c"
  "sc_signer (signed_command_from c) = uc_signer c"
  by (cases c; auto split: user_command_data.splits)+

lemma command_keys_agree: "set (sc_all_command_public_keys (signed_command_from c)) = command_keys c"
  by (auto simp: sc_all_command_public_keys_def command_keys_def signed_command_agrees)

lemma uc_contains_public_key_iff: "uc_contains_public_key c pk \<longleftrightarrow> pk \<in> command_keys c"
  by (simp add: uc_contains_public_key_def command_keys_agree)

lemma command_from_creation_data_agrees:
  "command_from_creation_data \<lparr>cc_signed_command = signed_command_from c,
     cc_is_new_receiver_account = uc_receiver_account_creation_fee_paid c\<rparr> = Inr (to_command c)"
  by (cases c) (auto simp: command_from_creation_data_def list_get_def unwrap_def Let_def split: user_command_data.splits signed_body_v2.splits signed_body_v1.splits)

end
