(* ===== verification/User_Command_Store.thy ===== *)
theory User_Command_Store
  imports Signed_Commands Username_Store Block_Counts
begin

text \<open>
  The user command store (\<open>command/store.rs\<close>, \<open>store/user_command_store_impl.rs\<close>): the commands of a block, of a
  transaction hash and of a public key, the blocks that contain a command, sorted indices and counts.  The
  codecs of its documents are a record; \<open>entries\<close> is the order in which a hash map of usernames is iterated.
\<close>

record 'j uc_codecs =
  block_commands_codec :: "(user_command_with_status list, 'j) codec"
  command_codec :: "(signed_command_with_data, 'j) codec"
  pk_commands_codec :: "(signed_command_with_data list, 'j) codec"
  hashes_codec :: "(state_hash list, 'j) codec"
  comparison_codec :: "(block_comparison, 'j) codec"
  usernames_codec :: "(username_entries, 'j) codec"

section \<open>Counts\<close>

definition TOTAL_NUM_USER_COMMANDS_KEY :: bytes where
  "TOTAL_NUM_USER_COMMANDS_KEY = ''total_num_user_commands''"

definition TOTAL_NUM_APPLIED_USER_COMMANDS_KEY :: bytes where
  "TOTAL_NUM_APPLIED_USER_COMMANDS_KEY = ''total_num_applied_user_commands_key''"

definition TOTAL_NUM_FAILED_USER_COMMANDS_KEY :: bytes where
  "TOTAL_NUM_FAILED_USER_COMMANDS_KEY = ''total_num_failed_user_commands_key''"

definition TOTAL_NUM_APPLIED_CANONICAL_USER_COMMANDS_KEY :: bytes where
  "TOTAL_NUM_APPLIED_CANONICAL_USER_COMMANDS_KEY = ''total_num_applied_canonical_user_commands_key''"

definition TOTAL_NUM_FAILED_CANONICAL_USER_COMMANDS_KEY :: bytes where
  "TOTAL_NUM_FAILED_CANONICAL_USER_COMMANDS_KEY = ''total_num_failed_canonical_user_commands_key''"

definition TOTAL_NUM_CANONICAL_USER_COMMANDS_KEY :: bytes where
  "TOTAL_NUM_CANONICAL_USER_COMMANDS_KEY = ''total_num_canonical_user_commands_key''"

definition get_pk_num_user_commands_blocks :: "('d, 'j) db_ops \<Rightarrow> public_key \<Rightarrow> 'd \<Rightarrow> u32 option run" where
  "get_pk_num_user_commands_blocks D pk d = get_u32 D user_commands_pk_num_cf pk d"

definition get_user_commands_epoch_count :: "('d, 'j) db_ops \<Rightarrow> u32 option \<Rightarrow> 'd \<Rightarrow> u32 run" where
  "get_user_commands_epoch_count D = epoch_only_count D user_commands_epoch_cf"

definition increment_user_commands_epoch_count :: "('d, 'j) db_ops \<Rightarrow> u32 \<Rightarrow> 'd \<Rightarrow> 'd run" where
  "increment_user_commands_epoch_count D epoch d =
     count_put D (get_user_commands_epoch_count D (Some epoch) d) user_commands_epoch_cf (Inr (to_be_bytes epoch)) d"

definition get_user_commands_total_count :: "('d, 'j) db_ops \<Rightarrow> 'd \<Rightarrow> u32 run" where
  "get_user_commands_total_count D d = get_count D DEFAULT_CF TOTAL_NUM_USER_COMMANDS_KEY d"

definition increment_user_commands_total_count :: "('d, 'j) db_ops \<Rightarrow> 'd \<Rightarrow> 'd run" where
  "increment_user_commands_total_count D d =
     count_put D (get_user_commands_total_count D d) DEFAULT_CF (Inr TOTAL_NUM_USER_COMMANDS_KEY) d"

definition get_user_commands_pk_epoch_count :: "('d, 'j) db_ops \<Rightarrow> public_key \<Rightarrow> u32 option \<Rightarrow> 'd \<Rightarrow> u32 run" where
  "get_user_commands_pk_epoch_count D = pk_epoch_count D user_commands_pk_epoch_cf"

definition increment_user_commands_pk_epoch_count :: "('d, 'j) db_ops \<Rightarrow> public_key \<Rightarrow> u32 \<Rightarrow> 'd \<Rightarrow> 'd run" where
  "increment_user_commands_pk_epoch_count D pk epoch d =
     count_put D (get_user_commands_pk_epoch_count D pk (Some epoch) d) user_commands_pk_epoch_cf (u32_prefix_key epoch pk) d"

definition get_user_commands_pk_total_count :: "('d, 'j) db_ops \<Rightarrow> public_key \<Rightarrow> 'd \<Rightarrow> u32 run" where
  "get_user_commands_pk_total_count D pk d = get_count D user_commands_pk_total_cf pk d"

definition increment_user_commands_pk_total_count :: "('d, 'j) db_ops \<Rightarrow> public_key \<Rightarrow> 'd \<Rightarrow> 'd run" where
  "increment_user_commands_pk_total_count D pk d =
     count_put D (get_user_commands_pk_total_count D pk d) user_commands_pk_total_cf (Inr pk) d"

definition set_block_user_commands_count_batch :: "state_hash \<Rightarrow> u32 \<Rightarrow> 'j batch \<Rightarrow> 'j batch" where
  "set_block_user_commands_count_batch state_hash n batch = batch_put block_user_command_counts_cf state_hash (raw_u32 n) batch"

definition get_block_user_commands_count :: "('d, 'j) db_ops \<Rightarrow> state_hash \<Rightarrow> 'd \<Rightarrow> u32 option run" where
  "get_block_user_commands_count D state_hash d = get_u32 D block_user_command_counts_cf state_hash d"

text \<open>The counts under fixed keys: one more, or fewer down to zero.\<close>

definition add_to_count :: "('d, 'j) db_ops \<Rightarrow> bytes \<Rightarrow> u32 \<Rightarrow> 'd \<Rightarrow> 'd run" where
  "add_to_count D key incr d = map_ok (\<lambda>old. db_put D DEFAULT_CF key (raw_u32 (old + incr)) d) (get_count D DEFAULT_CF key d)"

definition sub_from_count :: "('d, 'j) db_ops \<Rightarrow> bytes \<Rightarrow> u32 \<Rightarrow> 'd \<Rightarrow> 'd run" where
  "sub_from_count D key incr d = map_ok (\<lambda>old. db_put D DEFAULT_CF key (raw_u32 (sat_sub old incr)) d) (get_count D DEFAULT_CF key d)"

definition get_applied_user_commands_count :: "('d, 'j) db_ops \<Rightarrow> 'd \<Rightarrow> u32 run" where
  "get_applied_user_commands_count D d = get_count D DEFAULT_CF TOTAL_NUM_APPLIED_USER_COMMANDS_KEY d"

definition get_failed_user_commands_count :: "('d, 'j) db_ops \<Rightarrow> 'd \<Rightarrow> u32 run" where
  "get_failed_user_commands_count D d = get_count D DEFAULT_CF TOTAL_NUM_FAILED_USER_COMMANDS_KEY d"

definition increment_applied_user_commands_count :: "('d, 'j) db_ops \<Rightarrow> u32 \<Rightarrow> 'd \<Rightarrow> 'd run" where
  "increment_applied_user_commands_count D = add_to_count D TOTAL_NUM_APPLIED_USER_COMMANDS_KEY"

definition increment_failed_user_commands_count :: "('d, 'j) db_ops \<Rightarrow> u32 \<Rightarrow> 'd \<Rightarrow> 'd run" where
  "increment_failed_user_commands_count D = add_to_count D TOTAL_NUM_FAILED_USER_COMMANDS_KEY"

definition decrement_applied_user_commands_count :: "('d, 'j) db_ops \<Rightarrow> u32 \<Rightarrow> 'd \<Rightarrow> 'd run" where
  "decrement_applied_user_commands_count D = sub_from_count D TOTAL_NUM_APPLIED_USER_COMMANDS_KEY"

definition decrement_failed_user_commands_count :: "('d, 'j) db_ops \<Rightarrow> u32 \<Rightarrow> 'd \<Rightarrow> 'd run" where
  "decrement_failed_user_commands_count D = sub_from_count D TOTAL_NUM_FAILED_USER_COMMANDS_KEY"

definition get_canonical_user_commands_count :: "('d, 'j) db_ops \<Rightarrow> 'd \<Rightarrow> u32 run" where
  "get_canonical_user_commands_count D d = get_count D DEFAULT_CF TOTAL_NUM_CANONICAL_USER_COMMANDS_KEY d"

definition increment_canonical_user_commands_count :: "('d, 'j) db_ops \<Rightarrow> u32 \<Rightarrow> 'd \<Rightarrow> 'd run" where
  "increment_canonical_user_commands_count D = add_to_count D TOTAL_NUM_CANONICAL_USER_COMMANDS_KEY"

definition decrement_canonical_user_commands_count :: "('d, 'j) db_ops \<Rightarrow> u32 \<Rightarrow> 'd \<Rightarrow> 'd run" where
  "decrement_canonical_user_commands_count D = sub_from_count D TOTAL_NUM_CANONICAL_USER_COMMANDS_KEY"

definition get_applied_canonical_user_commands_count :: "('d, 'j) db_ops \<Rightarrow> 'd \<Rightarrow> u32 run" where
  "get_applied_canonical_user_commands_count D d = get_count D DEFAULT_CF TOTAL_NUM_APPLIED_CANONICAL_USER_COMMANDS_KEY d"

definition increment_applied_canonical_user_commands_count :: "('d, 'j) db_ops \<Rightarrow> u32 \<Rightarrow> 'd \<Rightarrow> 'd run" where
  "increment_applied_canonical_user_commands_count D = add_to_count D TOTAL_NUM_APPLIED_CANONICAL_USER_COMMANDS_KEY"

definition decrement_applied_canonical_user_commands_count :: "('d, 'j) db_ops \<Rightarrow> u32 \<Rightarrow> 'd \<Rightarrow> 'd run" where
  "decrement_applied_canonical_user_commands_count D = sub_from_count D TOTAL_NUM_APPLIED_CANONICAL_USER_COMMANDS_KEY"

definition get_failed_canonical_user_commands_count :: "('d, 'j) db_ops \<Rightarrow> 'd \<Rightarrow> u32 run" where
  "get_failed_canonical_user_commands_count D d = get_count D DEFAULT_CF TOTAL_NUM_FAILED_CANONICAL_USER_COMMANDS_KEY d"

definition increment_failed_canonical_user_commands_count :: "('d, 'j) db_ops \<Rightarrow> u32 \<Rightarrow> 'd \<Rightarrow> 'd run" where
  "increment_failed_canonical_user_commands_count D = add_to_count D TOTAL_NUM_FAILED_CANONICAL_USER_COMMANDS_KEY"

definition decrement_failed_canonical_user_commands_count :: "('d, 'j) db_ops \<Rightarrow> u32 \<Rightarrow> 'd \<Rightarrow> 'd run" where
  "decrement_failed_canonical_user_commands_count D = sub_from_count D TOTAL_NUM_FAILED_CANONICAL_USER_COMMANDS_KEY"

definition count_pk_command :: "('d, 'j) db_ops \<Rightarrow> u32 \<Rightarrow> public_key \<Rightarrow> 'd \<Rightarrow> 'd run" where
  "count_pk_command D epoch pk d =
     bind_ok (increment_user_commands_pk_epoch_count D pk epoch d) (increment_user_commands_pk_total_count D pk)"

definition increment_user_commands_counts :: "('d, 'j) db_ops \<Rightarrow> user_command_with_status \<Rightarrow> u32 \<Rightarrow> 'd \<Rightarrow> 'd run" where
  "increment_user_commands_counts D cmd epoch d =
     bind_ok (if uc_is_applied cmd then increment_applied_user_commands_count D 1 d
              else increment_failed_user_commands_count D 1 d) (\<lambda>d.
     let sender = uc_sender cmd in
     bind_ok (count_pk_command D epoch sender d) (\<lambda>d.
     bind_ok (fold_ok (\<lambda>receiver d. if sender \<noteq> receiver then count_pk_command D epoch receiver d else Inr d) (uc_receiver cmd) d) (\<lambda>d.
     bind_ok (increment_user_commands_epoch_count D epoch d) (increment_user_commands_total_count D))))"

section \<open>The blocks of a command and the commands of a block\<close>

definition get_user_command_state_hash :: "('d, 'j) db_ops \<Rightarrow> 'j uc_codecs \<Rightarrow> txn_hash \<Rightarrow> state_hash \<Rightarrow> 'd \<Rightarrow>
    signed_command_with_data option run" where
  "get_user_command_state_hash D C txn_hash state_hash d =
     map_ok (\<lambda>k. get_json D (command_codec C) user_commands_cf k d) (txn_block_key txn_hash state_hash)"

definition get_user_command_state_hashes :: "('d, 'j) db_ops \<Rightarrow> 'j uc_codecs \<Rightarrow> txn_hash \<Rightarrow> 'd \<Rightarrow> state_hash list option" where
  "get_user_command_state_hashes D C txn_hash d =
     get_json D (hashes_codec C) user_command_state_hashes_cf (txn_hash_inner txn_hash) d"

definition get_user_command :: "('d, 'j) db_ops \<Rightarrow> 'j uc_codecs \<Rightarrow> txn_hash \<Rightarrow> u32 \<Rightarrow> 'd \<Rightarrow> signed_command_with_data option run" where
  "get_user_command D C txn_hash index d =
     (case get_user_command_state_hashes D C txn_hash d of None \<Rightarrow> Inr None
      | Some blocks \<Rightarrow> bind_ok (unwrap (list_get blocks (unat index))) (\<lambda>h. get_user_command_state_hash D C txn_hash h d))"

text \<open>The blocks containing a command, those with a stored comparison, in the order of the comparisons.\<close>

definition containing_blocks :: "('d, 'j) db_ops \<Rightarrow> 'j uc_codecs \<Rightarrow> 'd \<Rightarrow> state_hash list \<Rightarrow> state_hash list" where
  "containing_blocks D C d blocks =
     map bc_state_hash (sort_by block_comparison_cmp
       (List.map_filter (\<lambda>h. get_block_comparison D (comparison_codec C) h d) blocks))"

definition set_user_command_state_hash_batch :: "('d, 'j) db_ops \<Rightarrow> 'j uc_codecs \<Rightarrow> state_hash \<Rightarrow> txn_hash \<Rightarrow> 'd \<Rightarrow>
    'j batch \<Rightarrow> 'j batch" where
  "set_user_command_state_hash_batch D C state_hash txn_hash d batch =
     (let blocks = containing_blocks D C d (unwrap_or (get_user_command_state_hashes D C txn_hash d) [] @ [state_hash]);
          batch = batch_put user_commands_num_containing_blocks_cf (txn_hash_inner txn_hash) (raw_u32 (word_of_nat (length blocks))) batch
      in batch_put user_command_state_hashes_cf (txn_hash_inner txn_hash) (json (hashes_codec C) blocks) batch)"

definition get_user_commands_num_containing_blocks :: "('d, 'j) db_ops \<Rightarrow> txn_hash \<Rightarrow> 'd \<Rightarrow> u32 option run" where
  "get_user_commands_num_containing_blocks D txn_hash d =
     get_u32 D user_commands_num_containing_blocks_cf (txn_hash_inner txn_hash) d"

definition set_block_user_commands_batch :: "'j uc_codecs \<Rightarrow> precomputed_block \<Rightarrow> 'j batch \<Rightarrow> 'j batch run" where
  "set_block_user_commands_batch C block batch =
     map_ok (\<lambda>cmds. batch_put user_commands_per_block_cf (state_hash_of block) (json (block_commands_codec C) cmds) batch)
       (commands block)"

definition get_block_user_commands :: "('d, 'j) db_ops \<Rightarrow> 'j uc_codecs \<Rightarrow> state_hash \<Rightarrow> 'd \<Rightarrow> user_command_with_status list option" where
  "get_block_user_commands D C state_hash d = get_json D (block_commands_codec C) user_commands_per_block_cf state_hash d"

section \<open>The commands of a public key\<close>

text \<open>Decimal digits, as \<open>format!\<close> writes a number.\<close>

fun decimal :: "nat \<Rightarrow> string" where
  "decimal n = (if n < 10 then [char_of (48 + n)] else decimal (n div 10) @ [char_of (48 + n mod 10)])"

declare decimal.simps [simp del]

definition COMMAND_KEY_PREFIX :: string where
  "COMMAND_KEY_PREFIX = ''user-''"

definition user_command_db_key_pk :: "public_key \<Rightarrow> u32 \<Rightarrow> bytes" where
  "user_command_db_key_pk pk n = COMMAND_KEY_PREFIX @ pk @ decimal (unat n)"

fun collect_pk_block_commands :: "('d, 'j) db_ops \<Rightarrow> 'j uc_codecs \<Rightarrow> public_key \<Rightarrow> 'd \<Rightarrow> nat list \<Rightarrow>
    signed_command_with_data list \<Rightarrow> signed_command_with_data list" where
  "collect_pk_block_commands D C pk d [] acc = acc"
| "collect_pk_block_commands D C pk d (m # ms) acc =
     (case get_json D (pk_commands_codec C) user_commands_pk_cf (user_command_db_key_pk pk (word_of_nat m)) d of
        Some cmds \<Rightarrow> collect_pk_block_commands D C pk d ms (acc @ cmds)
      | None \<Rightarrow> [])"

definition get_user_commands_for_public_key ::
    "('d, 'j) db_ops \<Rightarrow> 'j uc_codecs \<Rightarrow> public_key \<Rightarrow> 'd \<Rightarrow> signed_command_with_data list option run" where
  "get_user_commands_for_public_key D C pk d =
     map_ok (map_option (\<lambda>n. collect_pk_block_commands D C pk d [0..<unat n] [])) (get_pk_num_user_commands_blocks D pk d)"

text \<open>
  The commands of a key in the blocks between two blocks: the walk from the end block along parents takes as
  many blocks as the heights differ by, or stops at a block that is not stored.
\<close>

fun bounds_walk :: "('d, 'j) db_ops \<Rightarrow> (precomputed_block, 'j) codec \<Rightarrow> 'd \<Rightarrow> nat \<Rightarrow> state_hash \<Rightarrow> state_hash list \<Rightarrow> state_hash list run" where
  "bounds_walk D B d 0 prev_hash state_hashes = map_ok (\<lambda>_. state_hashes) (get_block D B prev_hash d)"
| "bounds_walk D B d (Suc num) prev_hash state_hashes =
     bind_ok (get_block D B prev_hash d) (\<lambda>b.
     case b of None \<Rightarrow> Inr state_hashes
     | Some (block, _) \<Rightarrow> bounds_walk D B d num (previous_state_hash block) (state_hashes @ [prev_hash]))"

definition get_user_commands_with_bounds :: "('d, 'j) db_ops \<Rightarrow> 'j uc_codecs \<Rightarrow> (precomputed_block, 'j) codec \<Rightarrow> public_key \<Rightarrow>
    state_hash \<Rightarrow> state_hash \<Rightarrow> 'd \<Rightarrow> signed_command_with_data list run" where
  "get_user_commands_with_bounds D C B pk start_state_hash end_state_hash d =
     bind_ok (get_block D B start_state_hash d) (\<lambda>start_block.
     bind_ok (get_block D B end_state_hash d) (\<lambda>end_block.
     case (start_block, end_block) of
       (Some (start_block, _), Some (end_block, _)) \<Rightarrow>
         let start_height = blockchain_length start_block; end_height = blockchain_length end_block in
         if end_height < start_height then Inr []
         else bind_ok (bounds_walk D B d (unat (end_height - start_height)) (previous_state_hash end_block) [state_hash_of end_block]) (\<lambda>state_hashes.
           map_ok (\<lambda>cmds. filter (\<lambda>c. sd_state_hash c \<in> set state_hashes) (unwrap_or cmds []))
             (get_user_commands_for_public_key D C pk d))
     | _ \<Rightarrow> Inr []))"

section \<open>Adding the commands of a block\<close>

definition index_command :: "precomputed_block \<Rightarrow> user_command_with_status \<Rightarrow> txn_hash \<Rightarrow> column_family \<Rightarrow> column_family \<Rightarrow>
    public_key \<Rightarrow> 'j batch \<Rightarrow> 'j batch run" where
  "index_command block cmd txn_hash height_cf slot_cf pk batch =
     bind_ok (pk_txn_sort_key pk (blockchain_length block) (uc_nonce cmd) txn_hash (state_hash_of block)) (\<lambda>k.
     let batch = batch_put height_cf k (Raw (to_be_bytes (uc_amount cmd))) batch in
     map_ok (\<lambda>k. batch_put slot_cf k (Raw (to_be_bytes (uc_amount cmd))) batch)
       (pk_txn_sort_key pk (global_slot_since_genesis block) (uc_nonce cmd) txn_hash (state_hash_of block)))"

definition add_user_command :: "('d, 'j) db_ops \<Rightarrow> 'j uc_codecs \<Rightarrow> (signed_command \<Rightarrow> txn_hash option) \<Rightarrow> precomputed_block \<Rightarrow>
    user_command_with_status \<Rightarrow> txn_hash \<Rightarrow> 'd \<times> 'j batch \<Rightarrow> ('d \<times> 'j batch) run" where
  "add_user_command D C H block cmd txn_hash s = (case s of (d, batch) \<Rightarrow>
     let h = state_hash_of block; slot = global_slot_since_genesis block in
     bind_ok (txn_block_key txn_hash h) (\<lambda>k.
     bind_ok (block_command_with_data H block cmd) (\<lambda>v.
     let batch = batch_put user_commands_cf k (json (command_codec C) v) batch;
         batch = set_user_command_state_hash_batch D C h txn_hash d batch in
     bind_ok (txn_sort_key slot txn_hash h) (\<lambda>k.
     let batch = batch_put user_commands_slot_sort_cf k (Raw []) batch in
     bind_ok (txn_sort_key (blockchain_length block) txn_hash h) (\<lambda>k.
     let batch = batch_put user_commands_height_sort_cf k (Raw []) batch in
     bind_ok (increment_user_commands_counts D cmd (epoch_count block) d) (\<lambda>d.
     let batch = batch_put user_commands_txn_hash_to_global_slot_cf (txn_hash_inner txn_hash) (raw_u32 slot) batch in
     bind_ok (index_command block cmd txn_hash txn_from_height_sort_cf txn_from_slot_sort_cf (uc_sender cmd) batch) (\<lambda>batch.
     map_ok (\<lambda>batch. (d, batch))
       (fold_ok (index_command block cmd txn_hash txn_to_height_sort_cf txn_to_slot_sort_cf) (uc_receiver cmd) batch))))))))"

text \<open>A command without a hash is an error: the counts so far stay and the batch is dropped.\<close>

fun add_user_command_loop :: "('d, 'j) db_ops \<Rightarrow> 'j uc_codecs \<Rightarrow> (signed_command \<Rightarrow> txn_hash option) \<Rightarrow> precomputed_block \<Rightarrow>
    user_command_with_status list \<Rightarrow> 'd \<times> 'j batch \<Rightarrow> ('d \<times> 'j batch option) run" where
  "add_user_command_loop D C H block [] (d, batch) = Inr (d, Some batch)"
| "add_user_command_loop D C H block (cmd # cmds) (d, batch) =
     (case H (signed_command_from cmd) of None \<Rightarrow> Inr (d, None)
      | Some txn_hash \<Rightarrow>
          bind_ok (add_user_command D C H block cmd txn_hash (d, batch)) (add_user_command_loop D C H block cmds))"

definition add_pk_commands :: "('d, 'j) db_ops \<Rightarrow> 'j uc_codecs \<Rightarrow> (signed_command \<Rightarrow> txn_hash option) \<Rightarrow> precomputed_block \<Rightarrow>
    user_command_with_status list \<Rightarrow> 'd \<Rightarrow> public_key \<Rightarrow> 'j batch \<Rightarrow> 'j batch run" where
  "add_pk_commands D C H block cmds d pk batch =
     bind_ok (get_pk_num_user_commands_blocks D pk d) (\<lambda>num. let n = unwrap_or num 0 in
     map_ok (\<lambda>block_pk_commands.
         if block_pk_commands \<noteq> [] then
           let batch = batch_put user_commands_pk_cf (user_command_db_key_pk pk n) (json (pk_commands_codec C) block_pk_commands) batch
           in batch_put user_commands_pk_num_cf pk (raw_u32 (n + 1)) batch
         else batch)
       (traverse_ok (block_command_with_data H block) (filter (\<lambda>c. uc_contains_public_key c pk) cmds)))"

definition add_user_commands_batch :: "('d, 'j) db_ops \<Rightarrow> 'j uc_codecs \<Rightarrow> (signed_command \<Rightarrow> txn_hash option) \<Rightarrow>
    ((public_key \<rightharpoonup> username) \<Rightarrow> username_entries) \<Rightarrow> precomputed_block \<Rightarrow> 'd \<Rightarrow> 'j batch \<Rightarrow> ('d \<times> 'j batch option) run" where
  "add_user_commands_batch D C H entries block d batch =
     (let h = state_hash_of block in
      bind_ok (commands block) (\<lambda>cmds.
      bind_ok (set_block_user_commands_batch C block batch) (\<lambda>batch.
      let batch = set_block_user_commands_count_batch h (word_of_nat (length cmds)) batch in
      bind_ok (username_updates block) (\<lambda>updates.
      let batch = set_block_username_updates_batch (usernames_codec C) h (entries updates) batch in
      bind_ok (add_user_command_loop D C H block cmds (d, batch)) (\<lambda>(d, batch).
      case batch of None \<Rightarrow> Inr (d, None)
      | Some batch \<Rightarrow>
          bind_ok (all_command_public_keys block) (\<lambda>pks.
          map_ok (\<lambda>batch. (d, Some batch)) (fold_ok (add_pk_commands D C H block cmds d) pks batch)))))))"

section \<open>Canonical commands\<close>

definition unapply_user_commands :: "('d, 'j) db_ops \<Rightarrow> 'j uc_codecs \<Rightarrow> block_update \<Rightarrow> 'd \<Rightarrow> 'd run" where
  "unapply_user_commands D C update d =
     (case get_block_user_commands D C (bu_state_hash update) d of None \<Rightarrow> Inr d
      | Some cmds \<Rightarrow>
          bind_ok (decrement_canonical_user_commands_count D (word_of_nat (length cmds)) d) (\<lambda>d.
          bind_ok (decrement_applied_canonical_user_commands_count D (word_of_nat (length (filter uc_is_applied cmds))) d)
            (decrement_failed_canonical_user_commands_count D (word_of_nat (length (filter (\<lambda>c. \<not> uc_is_applied c) cmds))))))"

definition apply_user_commands :: "('d, 'j) db_ops \<Rightarrow> 'j uc_codecs \<Rightarrow> block_update \<Rightarrow> 'd \<Rightarrow> 'd run" where
  "apply_user_commands D C update d =
     (case get_block_user_commands D C (bu_state_hash update) d of None \<Rightarrow> Inr d
      | Some cmds \<Rightarrow>
          bind_ok (increment_canonical_user_commands_count D (word_of_nat (length cmds)) d) (\<lambda>d.
          bind_ok (increment_applied_canonical_user_commands_count D (word_of_nat (length (filter uc_is_applied cmds))) d)
            (increment_failed_canonical_user_commands_count D (word_of_nat (length (filter (\<lambda>c. \<not> uc_is_applied c) cmds))))))"

definition update_user_commands :: "('d, 'j) db_ops \<Rightarrow> 'j uc_codecs \<Rightarrow> block_update db_update \<Rightarrow> 'd \<Rightarrow> 'd run" where
  "update_user_commands D C block d =
     bind_ok (fold_ok (unapply_user_commands D C) (du_unapply block) d) (fold_ok (apply_user_commands D C) (du_apply block))"

section \<open>The CSV file of a public key\<close>

text \<open>Transaction hashes are ordered by version, then as strings.\<close>

instantiation txn_hash :: linorder
begin

definition less_eq_txn_hash :: "txn_hash \<Rightarrow> txn_hash \<Rightarrow> bool" where
  "less_eq_txn_hash a b = (case (a, b) of
     (TxnV1 s, TxnV1 t) \<Rightarrow> s \<le> t | (TxnV1 _, TxnV2 _) \<Rightarrow> True | (TxnV2 _, TxnV1 _) \<Rightarrow> False | (TxnV2 s, TxnV2 t) \<Rightarrow> s \<le> t)"

definition less_txn_hash :: "txn_hash \<Rightarrow> txn_hash \<Rightarrow> bool" where
  "less_txn_hash a b \<longleftrightarrow> a \<le> b \<and> \<not> b \<le> (a :: txn_hash)"

instance
  by standard (auto simp: less_eq_txn_hash_def less_txn_hash_def split: txn_hash.splits)

end

fun txn_keys :: "public_key \<Rightarrow> bytes list \<Rightarrow> (u32 \<times> nonce \<times> txn_hash) list run" where
  "txn_keys pk [] = Inr []"
| "txn_keys pk (key # ks) =
     bind_ok (pk_key_prefix key) (\<lambda>txn_pk.
     if txn_pk \<noteq> pk then Inr []
     else bind_ok (pk_txn_sort_key_sort key) (\<lambda>height.
       bind_ok (pk_txn_sort_key_nonce key) (\<lambda>nonce.
       bind_ok (txn_hash_of_key key) (\<lambda>txn_hash.
       map_ok ((#) (height, nonce, txn_hash)) (txn_keys pk ks)))))"

fun csv_txns :: "('d, 'j) db_ops \<Rightarrow> 'j uc_codecs \<Rightarrow> 'd \<Rightarrow> (u32 \<times> nonce \<times> txn_hash) list \<Rightarrow> signed_command_with_data list option run" where
  "csv_txns D C d [] = Inr (Some [])"
| "csv_txns D C d ((_, _, txn_hash) # ks) =
     bind_ok (get_user_command D C txn_hash 0 d) (\<lambda>cmd.
     case cmd of None \<Rightarrow> Inr None | Some c \<Rightarrow> map_ok (map_option ((#) c)) (csv_txns D C d ks))"

text \<open>The commands written, in order; \<open>None\<close> is the error for a missing command.  The file itself is left out.\<close>

definition write_user_commands_csv ::
    "('d, 'j) db_ops \<Rightarrow> 'j uc_codecs \<Rightarrow> public_key \<Rightarrow> 'd \<Rightarrow> signed_command_with_data list option run" where
  "write_user_commands_csv D C pk d =
     bind_ok (pk_txn_sort_key_prefix pk (- 1)) (\<lambda>start.
     bind_ok (txn_keys pk (map fst (db_iterator D d txn_from_height_sort_cf (IterReverse start)))) (\<lambda>from_txns.
     bind_ok (txn_keys pk (map fst (db_iterator D d txn_to_height_sort_cf (IterReverse start)))) (\<lambda>to_txns.
     csv_txns D C d (rev (sort (from_txns @ to_txns))))))"

end
