(* ===== verification/User_Commands.thy ===== *)
theory User_Commands
  imports User_Command_Store Counters
begin

text \<open>
  What the user command store holds: the commands of a block, each command by its hash and block, the commands
  of a public key block by block, and the counts of canonical commands.
\<close>

section \<open>Keys\<close>

lemma char_of_digit: "k < 10 \<Longrightarrow> j < 10 \<Longrightarrow> char_of (48 + k) = (char_of (48 + j) :: char) \<longleftrightarrow> k = (j :: nat)"
  by (auto simp: char_of_eq_iff take_bit_eq_mod dest!: arg_cong[where f = "of_char :: char \<Rightarrow> nat"])

lemma decimal_inject: "decimal m = decimal n \<longleftrightarrow> m = n"
proof (induction m arbitrary: n rule: decimal.induct)
  case (1 m)
  have long: "decimal k \<noteq> []" for k by (simp add: decimal.simps[of k])
  show ?case
  proof (cases "m < 10"; cases "n < 10")
    assume "\<not> m < 10" "\<not> n < 10"
    then show ?thesis
      using 1[of "n div 10"] char_of_digit[of "m mod 10" "n mod 10"] by (auto simp: decimal.simps[of m] decimal.simps[of n]) (metis div_mult_mod_eq)
  qed (use long char_of_digit in \<open>auto simp: decimal.simps[of m] decimal.simps[of n] append_eq_Cons_conv Cons_eq_append_conv\<close>)
qed

lemma user_command_db_key_pk_inject:
  "length pk = PUBLIC_KEY_LEN \<Longrightarrow> length pk' = PUBLIC_KEY_LEN \<Longrightarrow>
     user_command_db_key_pk pk i = user_command_db_key_pk pk' j \<longleftrightarrow> pk = pk' \<and> i = j"
  by (auto simp: user_command_db_key_pk_def decimal_inject word_unat_eq_iff)

fun txn_bytes :: "txn_hash \<Rightarrow> bytes" where
  "txn_bytes (TxnV1 h) = h"
| "txn_bytes (TxnV2 h) = h @ [char_of (0 :: nat)]"

lemma starts_with_Cons: "starts_with s (c # p) \<Longrightarrow> \<exists>t. s = c # t"
  by (cases s) (auto simp: starts_with_def)

lemma txn_bytes_inject: "txn_hash_is_valid h \<Longrightarrow> txn_hash_is_valid h' \<Longrightarrow> txn_bytes h = txn_bytes h' \<longleftrightarrow> h = h'"
  by (cases h; cases h') (auto simp: txn_hash_is_valid_v1_def txn_hash_is_valid_v2_def dest!: starts_with_Cons)

lemma txn_hash_inner_inject: "txn_hash_is_valid h \<Longrightarrow> txn_hash_is_valid h' \<Longrightarrow> txn_hash_inner h = txn_hash_inner h' \<longleftrightarrow> h = h'"
  by (cases h; cases h') (auto simp: txn_hash_is_valid_v1_def txn_hash_is_valid_v2_def dest!: starts_with_Cons)

lemma right_pad_v2_valid: "txn_hash_is_valid h \<Longrightarrow> right_pad_v2 h = Inr (txn_bytes h)" "txn_hash_is_valid h \<Longrightarrow> length (txn_bytes h) = TXN_HASH_V1_LEN"
  by (cases h; simp add: txn_hash_is_valid_v1_def txn_hash_is_valid_v2_def copy_slice_def TXN_HASH_V1_LEN_def TXN_HASH_V2_LEN_def)+

lemma txn_keys_valid:
  assumes "txn_hash_is_valid txn" "length h = STATE_HASH_LEN"
  shows "txn_block_key txn h = Inr (txn_bytes txn @ h)" "txn_sort_key n txn h = Inr (to_be_bytes n @ txn_bytes txn @ h)"
    "length pk = PUBLIC_KEY_LEN \<Longrightarrow> pk_txn_sort_key pk n nonce txn h =
       Inr (pk @ to_be_bytes n @ to_be_bytes nonce @ txn_bytes txn @ h)"
  using assms right_pad_v2_valid[OF assms(1)] by (simp_all add: txn_block_key_def txn_sort_key_def pk_txn_sort_key_def)

section \<open>Counts\<close>

definition uc_count_cfs :: "column_family list" where
  "uc_count_cfs = [user_commands_pk_epoch_cf, user_commands_pk_total_cf, user_commands_epoch_cf]"

definition uc_count_keys :: "bytes list" where
  "uc_count_keys = [TOTAL_NUM_USER_COMMANDS_KEY, TOTAL_NUM_APPLIED_USER_COMMANDS_KEY, TOTAL_NUM_FAILED_USER_COMMANDS_KEY]"

lemmas uc_cf_defs = user_commands_pk_epoch_cf_def user_commands_pk_total_cf_def user_commands_epoch_cf_def DEFAULT_CF_def block_epoch_cf_def

lemmas uc_key_defs = TOTAL_NUM_USER_COMMANDS_KEY_def TOTAL_NUM_APPLIED_USER_COMMANDS_KEY_def TOTAL_NUM_FAILED_USER_COMMANDS_KEY_def
  BEST_TIP_STATE_HASH_KEY_def

text \<open>The counts are numbers and the best block has an epoch, so counting never panics.\<close>

definition countable :: "('d, 'j) db_ops \<Rightarrow> u32 \<Rightarrow> 'd \<Rightarrow> bool" where
  "countable D now d \<longleftrightarrow> counters D uc_count_cfs d \<and> (\<forall>k\<in>set uc_count_keys. \<exists>n. get_count D DEFAULT_CF k d = Inr n) \<and>
     get_current_epoch D d = Inr now"

context key_value_db
begin

lemma countable_family:
  assumes "countable D now d" "cf \<in> set uc_count_cfs"
  shows "countable D now (db_put D cf k (raw_u32 n) d)"
proof -
  have "cf \<noteq> DEFAULT_CF" "cf \<noteq> block_epoch_cf" using assms(2) by (auto simp: uc_count_cfs_def uc_cf_defs)
  then show ?thesis using assms(1) by (auto simp: countable_def intro: counters_put)
qed

lemma countable_key:
  assumes "countable D now d" "key \<in> set uc_count_keys"
  shows "countable D now (db_put D DEFAULT_CF key (raw_u32 n) d)"
proof -
  have "key \<noteq> BEST_TIP_STATE_HASH_KEY" "block_epoch_cf \<noteq> DEFAULT_CF"
    using assms(2) by (auto simp: uc_count_keys_def uc_key_defs block_epoch_cf_def DEFAULT_CF_def)
  then have "get_current_epoch D (db_put D DEFAULT_CF key (raw_u32 n) d) = get_current_epoch D d"
    by (simp add: get_current_epoch_def get_best_block_hash_def get_block_epoch_def get_hash_put cong: option.case_cong)
  then show ?thesis using assms(1) by (auto simp: countable_def intro: counters_put)
qed

lemma family_count:
  "countable D now d \<Longrightarrow> cf \<in> set uc_count_cfs \<Longrightarrow> \<exists>n. get_count D cf k d = Inr n"
  by (auto simp: countable_def counters_def)

lemma count_pk_command_counts:
  assumes "countable D now d" "length pk = PUBLIC_KEY_LEN"
  shows "\<exists>d'. count_pk_command D epoch pk d = Inr d' \<and> countable D now d' \<and> changes D uc_count_cfs d d'"
proof -
  let ?k = "to_be_bytes epoch @ pk"
  have cfs: "user_commands_pk_epoch_cf \<in> set uc_count_cfs" "user_commands_pk_total_cf \<in> set uc_count_cfs" by (simp_all add: uc_count_cfs_def)
  obtain n where n: "get_count D user_commands_pk_epoch_cf ?k d = Inr n" using family_count[OF assms(1) cfs(1)] by blast
  let ?d1 = "db_put D user_commands_pk_epoch_cf ?k (raw_u32 (n + 1)) d"
  note d1 = countable_family[OF assms(1) cfs(1), of ?k "n + 1"]
  obtain m where m: "get_count D user_commands_pk_total_cf pk ?d1 = Inr m" using family_count[OF d1 cfs(2)] by blast
  let ?d2 = "db_put D user_commands_pk_total_cf pk (raw_u32 (m + 1)) ?d1"
  have "increment_user_commands_pk_epoch_count D pk epoch d = Inr ?d1"
    using assms n by (simp add: increment_user_commands_pk_epoch_count_def get_user_commands_pk_epoch_count_def pk_epoch_count_def
        epoch_or_current_def countable_def u32_prefix_key_def count_put_def)
  moreover have "increment_user_commands_pk_total_count D pk ?d1 = Inr ?d2"
    using m by (simp add: increment_user_commands_pk_total_count_def get_user_commands_pk_total_count_def count_put_def del: get_count_put)
  ultimately show ?thesis
    using countable_family[OF d1 cfs(2)] changes_put[OF changes_put[OF changes_refl cfs(1)] cfs(2)] by (simp add: count_pk_command_def)
qed

lemma count_receivers:
  assumes "countable D now d" "\<forall>pk\<in>set pks. length pk = PUBLIC_KEY_LEN"
  shows "\<exists>d'. fold_ok (\<lambda>receiver d. if sender \<noteq> receiver then count_pk_command D epoch receiver d else Inr d) pks d = Inr d' \<and>
    countable D now d' \<and> changes D uc_count_cfs d d'"
  using assms
proof (induction pks arbitrary: d)
  case (Cons pk pks)
  obtain d1 where d1: "(if sender \<noteq> pk then count_pk_command D epoch pk d else Inr d) = Inr d1" "countable D now d1" "changes D uc_count_cfs d d1"
    using count_pk_command_counts[OF Cons.prems(1), of pk epoch] Cons.prems by (cases "sender = pk") auto
  show ?case using Cons.IH[OF d1(2)] Cons.prems(2) d1(1) changes_trans[OF d1(3)] by auto
qed simp

lemma add_to_count_key:
  assumes "countable D now d" "key \<in> set uc_count_keys"
  shows "\<exists>n. get_count D DEFAULT_CF key d = Inr n \<and> add_to_count D key i d = Inr (db_put D DEFAULT_CF key (raw_u32 (n + i)) d)"
  using assms by (auto simp: countable_def add_to_count_def)

lemma user_command_counted:
  assumes "countable D now d" "length (uc_sender c) = PUBLIC_KEY_LEN" "\<forall>pk\<in>set (uc_receiver c). length pk = PUBLIC_KEY_LEN"
    "get_user_commands_total_count D d = Inr t"
  shows "\<exists>d'. increment_user_commands_counts D c epoch d = Inr d' \<and> countable D now d' \<and>
    get_user_commands_total_count D d' = Inr (t + 1) \<and> changes D (DEFAULT_CF # uc_count_cfs) d d'"
proof -
  let ?key = "if uc_is_applied c then TOTAL_NUM_APPLIED_USER_COMMANDS_KEY else TOTAL_NUM_FAILED_USER_COMMANDS_KEY"
  have key: "?key \<in> set uc_count_keys" "TOTAL_NUM_USER_COMMANDS_KEY \<in> set uc_count_keys" "?key \<noteq> TOTAL_NUM_USER_COMMANDS_KEY"
    by (simp_all add: uc_count_keys_def uc_key_defs)
  obtain n where n: "add_to_count D ?key 1 d = Inr (db_put D DEFAULT_CF ?key (raw_u32 (n + 1)) d)"
    using add_to_count_key[OF assms(1) key(1)] by blast
  let ?d1 = "db_put D DEFAULT_CF ?key (raw_u32 (n + 1)) d"
  obtain d2 where d2: "count_pk_command D epoch (uc_sender c) ?d1 = Inr d2" "countable D now d2" "changes D uc_count_cfs ?d1 d2"
    using count_pk_command_counts[OF countable_key[OF assms(1) key(1)] assms(2)] by blast
  obtain d3 where d3: "fold_ok (\<lambda>receiver d. if uc_sender c \<noteq> receiver then count_pk_command D epoch receiver d else Inr d) (uc_receiver c) d2 = Inr d3"
    "countable D now d3" "changes D uc_count_cfs d2 d3"
    using count_receivers[OF d2(2) assms(3)] by blast
  have cf: "user_commands_epoch_cf \<in> set uc_count_cfs" "DEFAULT_CF \<notin> set uc_count_cfs" by (simp_all add: uc_count_cfs_def uc_cf_defs)
  obtain m where m: "get_count D user_commands_epoch_cf (to_be_bytes epoch) d3 = Inr m" using family_count[OF d3(2) cf(1)] by blast
  let ?d4 = "db_put D user_commands_epoch_cf (to_be_bytes epoch) (raw_u32 (m + 1)) d3"
  have ep: "increment_user_commands_epoch_count D epoch d3 = Inr ?d4"
    using m d3(2) by (simp add: increment_user_commands_epoch_count_def get_user_commands_epoch_count_def epoch_only_count_def
        epoch_or_current_def countable_def count_put_def)
  note c3 = changes_trans[OF d2(3) d3(3)]
  have t: "get_user_commands_total_count D ?d4 = Inr t"
    using assms(4) key(3) cf by (auto simp: get_user_commands_total_count_def changes_reads(2)[OF c3])
  let ?d5 = "db_put D DEFAULT_CF TOTAL_NUM_USER_COMMANDS_KEY (raw_u32 (t + 1)) ?d4"
  have "increment_user_commands_total_count D ?d4 = Inr ?d5" by (simp add: increment_user_commands_total_count_def t count_put_def)
  moreover have "(if uc_is_applied c then increment_applied_user_commands_count D 1 d else increment_failed_user_commands_count D 1 d) = Inr ?d1"
    using n by (simp add: increment_applied_user_commands_count_def increment_failed_user_commands_count_def split: if_splits)
  ultimately have "increment_user_commands_counts D c epoch d = Inr ?d5"
    using d2(1) d3(1) ep by (simp add: increment_user_commands_counts_def Let_def del: if_split)
  moreover have "countable D now ?d5" by (rule countable_key[OF countable_family[OF d3(2) cf(1)] key(2)])
  moreover have "changes D (DEFAULT_CF # uc_count_cfs) d ?d5"
  proof (rule changes_put[OF changes_put])
    show "changes D (DEFAULT_CF # uc_count_cfs) d d3"
      by (rule changes_trans[OF changes_put[OF changes_refl] changes_mono[OF c3]]) auto
  qed (use cf in simp_all)
  ultimately show ?thesis by (simp add: get_user_commands_total_count_def)
qed

end

lemma fold_command_keys: "fold (\<lambda>cmd keys. keys \<union> command_keys cmd) cs A = A \<union> (\<Union>c\<in>set cs. command_keys c)"
  by (induction cs arbitrary: A) auto

lemma command_keys_in: "c \<in> set cs \<Longrightarrow>
    command_keys c \<subseteq> set (sorted_list_of_set (fold (\<lambda>cmd keys. keys \<union> command_keys cmd) cs (consensus_public_keys b)))"
  unfolding fold_command_keys by (subst set_sorted_list_of_set) (auto simp: consensus_public_keys_def command_keys_def)

section \<open>Batches\<close>

context key_value_db
begin

lemma get_write_family: "db_get D (db_write D b d) cf k = db_get D (db_write D (filter (\<lambda>e. fst e = cf) b) d) cf k"
  by (induction b rule: rev_induct) (auto simp: db_write_snoc get_put)

lemma get_write_distinct:
  assumes "distinct (map key xs)" "x \<in> set xs"
  shows "db_get D (db_write D (map (\<lambda>x. (cf, key x, val x)) xs) d) cf (key x) = Some (val x)"
  using assms
proof (induction xs rule: rev_induct)
  case (snoc y xs)
  have "key x \<noteq> key y" if "x \<in> set xs" using snoc.prems(1) imageI[OF that, of key] by auto
  then show ?case using snoc by (auto simp: db_write_snoc get_put)
qed simp

lemma get_write_new:
  assumes "filter (\<lambda>e. fst e = cf) new = map (\<lambda>x. (cf, key x, val x)) xs" "distinct (map key xs)" "x \<in> set xs"
  shows "db_get D (db_write D (batch @ new) d) cf (key x) = Some (val x)"
  using get_write_distinct[OF assms(2,3), of cf val "db_write D batch d"] get_write_family[of new "db_write D batch d" cf "key x"] assms(1)
  by (simp add: db_write_append)

end

definition uc_batch_cfs :: "column_family list" where
  "uc_batch_cfs = [user_commands_cf, user_commands_num_containing_blocks_cf, user_command_state_hashes_cf,
     user_commands_slot_sort_cf, user_commands_height_sort_cf, user_commands_txn_hash_to_global_slot_cf,
     txn_from_height_sort_cf, txn_from_slot_sort_cf, txn_to_height_sort_cf, txn_to_slot_sort_cf]"

lemmas uc_batch_cf_defs = user_commands_cf_def user_commands_num_containing_blocks_cf_def user_command_state_hashes_cf_def
  user_commands_slot_sort_cf_def user_commands_height_sort_cf_def user_commands_txn_hash_to_global_slot_cf_def
  txn_from_height_sort_cf_def txn_from_slot_sort_cf_def txn_to_height_sort_cf_def txn_to_slot_sort_cf_def

text \<open>The stored form of a command whose hash is known.\<close>

definition stored_command :: "precomputed_block \<Rightarrow> (user_command_with_status \<Rightarrow> txn_hash) \<Rightarrow> user_command_with_status \<Rightarrow> signed_command_with_data" where
  "stored_command b T c = \<lparr>sd_command = signed_command_from c, sd_state_hash = state_hash_of b, sd_status = uc_status_data c,
     sd_tx_hash = T c, sd_blockchain_length = blockchain_length b, sd_date_time = timestamp b,
     sd_nonce = uc_nonce c, sd_global_slot_since_genesis = global_slot_since_genesis b\<rparr>"

lemma block_command_with_data_stored:
  "H (signed_command_from c) = Some (T c) \<Longrightarrow> block_command_with_data H b c = Inr (stored_command b T c)"
  by (simp add: block_command_with_data_def command_with_data_from_def stored_command_def unwrap_def signed_command_agrees)

lemma index_command_batch:
  assumes "txn_hash_is_valid txn" "length (state_hash_of b) = STATE_HASH_LEN" "length pk = PUBLIC_KEY_LEN"
  shows "\<exists>new. index_command b c txn hcf scf pk batch = Inr (batch @ new) \<and> fst ` set new \<subseteq> {hcf, scf}"
  by (simp add: index_command_def txn_keys_valid[OF assms(1,2)] assms(3) batch_put_def Let_def)

lemma index_commands_batch:
  assumes "txn_hash_is_valid txn" "length (state_hash_of b) = STATE_HASH_LEN" "\<forall>pk\<in>set pks. length pk = PUBLIC_KEY_LEN"
  shows "\<exists>new. fold_ok (index_command b c txn hcf scf) pks batch = Inr (batch @ new) \<and> fst ` set new \<subseteq> {hcf, scf}"
  using assms(3)
proof (induction pks arbitrary: batch)
  case (Cons pk pks)
  obtain new where new: "index_command b c txn hcf scf pk batch = Inr (batch @ new)" "fst ` set new \<subseteq> {hcf, scf}"
    using index_command_batch[OF assms(1,2)] Cons.prems by (metis list.set_intros(1))
  obtain new' where "fold_ok (index_command b c txn hcf scf) pks (batch @ new) = Inr ((batch @ new) @ new')" "fst ` set new' \<subseteq> {hcf, scf}"
    using Cons.IH[of "batch @ new"] Cons.prems by auto
  then show ?case using new by (intro exI[of _ "new @ new'"]) auto
qed simp

lemma no_entries: "cf \<notin> cfs \<Longrightarrow> fst ` set new \<subseteq> cfs \<Longrightarrow> filter (\<lambda>e. fst e = cf) new = []"
  by (auto simp: filter_empty_conv)

definition command_entry :: "'j uc_codecs \<Rightarrow> precomputed_block \<Rightarrow> (user_command_with_status \<Rightarrow> txn_hash) \<Rightarrow> user_command_with_status \<Rightarrow>
    column_family \<times> bytes \<times> 'j stored" where
  "command_entry C b T c = (user_commands_cf, txn_bytes (T c) @ state_hash_of b, json (command_codec C) (stored_command b T c))"

text \<open>The blocks of a command once the block is added.\<close>

definition blocks_with :: "('d, 'j) db_ops \<Rightarrow> 'j uc_codecs \<Rightarrow> precomputed_block \<Rightarrow> txn_hash \<Rightarrow> 'd \<Rightarrow> state_hash list" where
  "blocks_with D C b txn d = containing_blocks D C d (unwrap_or (get_user_command_state_hashes D C txn d) [] @ [state_hash_of b])"

definition blocks_entry :: "('d, 'j) db_ops \<Rightarrow> 'j uc_codecs \<Rightarrow> precomputed_block \<Rightarrow> (user_command_with_status \<Rightarrow> txn_hash) \<Rightarrow> 'd \<Rightarrow>
    user_command_with_status \<Rightarrow> column_family \<times> bytes \<times> 'j stored" where
  "blocks_entry D C b T d c = (user_command_state_hashes_cf, txn_hash_inner (T c), json (hashes_codec C) (blocks_with D C b (T c) d))"

lemma blocks_with_changes:
  "changes D cfs d e \<Longrightarrow> set cfs \<inter> {block_comparison_cf, user_command_state_hashes_cf} = {} \<Longrightarrow>
     blocks_with D C b txn e = blocks_with D C b txn d"
  by (simp add: blocks_with_def containing_blocks_def get_user_command_state_hashes_def get_block_comparison_def get_json_def changes_get)

context key_value_db
begin

lemma add_user_command_batch:
  assumes "H (signed_command_from c) = Some (T c)" "txn_hash_is_valid (T c)" "length (state_hash_of b) = STATE_HASH_LEN"
    "countable D now d" "\<forall>pk\<in>command_keys c. length pk = PUBLIC_KEY_LEN" "get_user_commands_total_count D d = Inr t"
  shows "\<exists>d' new. add_user_command D C H b c (T c) (d, batch) = Inr (d', batch @ new) \<and> countable D now d' \<and>
    get_user_commands_total_count D d' = Inr (t + 1) \<and> changes D (DEFAULT_CF # uc_count_cfs) d d' \<and> fst ` set new \<subseteq> set uc_batch_cfs \<and>
    filter (\<lambda>e. fst e = user_commands_cf) new = [command_entry C b T c] \<and>
    filter (\<lambda>e. fst e = user_command_state_hashes_cf) new = [blocks_entry D C b T d c]"
proof -
  have pks: "length (uc_sender c) = PUBLIC_KEY_LEN" "\<forall>pk\<in>set (uc_receiver c). length pk = PUBLIC_KEY_LEN"
    using assms(5) by (auto simp: command_keys_def)
  obtain d' where d': "increment_user_commands_counts D c (epoch_count b) d = Inr d'" "countable D now d'"
    "get_user_commands_total_count D d' = Inr (t + 1)" "changes D (DEFAULT_CF # uc_count_cfs) d d'"
    using user_command_counted[OF assms(4) pks assms(6)] by blast
  note keys = txn_keys_valid[OF assms(2,3)]
  let ?blocks = "blocks_with D C b (T c) d"
  let ?n1 = "[command_entry C b T c, (user_commands_num_containing_blocks_cf, txn_hash_inner (T c), raw_u32 (word_of_nat (length ?blocks))),
      blocks_entry D C b T d c,
      (user_commands_slot_sort_cf, to_be_bytes (global_slot_since_genesis b) @ txn_bytes (T c) @ state_hash_of b, Raw []),
      (user_commands_height_sort_cf, to_be_bytes (blockchain_length b) @ txn_bytes (T c) @ state_hash_of b, Raw []),
      (user_commands_txn_hash_to_global_slot_cf, txn_hash_inner (T c), raw_u32 (global_slot_since_genesis b))]"
  obtain n2 where n2: "index_command b c (T c) txn_from_height_sort_cf txn_from_slot_sort_cf (uc_sender c) (batch @ ?n1) = Inr ((batch @ ?n1) @ n2)"
      "fst ` set n2 \<subseteq> {txn_from_height_sort_cf, txn_from_slot_sort_cf}"
    using index_command_batch[OF assms(2,3) pks(1)] by blast
  obtain n3 where n3: "fold_ok (index_command b c (T c) txn_to_height_sort_cf txn_to_slot_sort_cf) (uc_receiver c) ((batch @ ?n1) @ n2) =
      Inr (((batch @ ?n1) @ n2) @ n3)" "fst ` set n3 \<subseteq> {txn_to_height_sort_cf, txn_to_slot_sort_cf}"
    using index_commands_batch[OF assms(2,3) pks(2)] by blast
  have "add_user_command D C H b c (T c) (d, batch) = Inr (d', batch @ ?n1 @ n2 @ n3)"
    using n2(1) n3(1) d'(1)
    by (simp add: add_user_command_def keys block_command_with_data_stored[of H c T, OF assms(1)] set_user_command_state_hash_batch_def Let_def
        batch_put_def command_entry_def blocks_entry_def blocks_with_def)
  moreover have "filter (\<lambda>e. fst e = cf) n2 = []" "filter (\<lambda>e. fst e = cf) n3 = []" if "cf = user_commands_cf \<or> cf = user_command_state_hashes_cf" for cf
    using no_entries[OF _ n2(2), of cf] no_entries[OF _ n3(2), of cf] that by (auto simp: uc_batch_cf_defs)
  moreover have "fst ` set (?n1 @ n2 @ n3) \<subseteq> set uc_batch_cfs"
    using n2(2) n3(2) by (auto simp: uc_batch_cfs_def command_entry_def blocks_entry_def)
  moreover have "user_commands_cf \<noteq> user_command_state_hashes_cf" "\<forall>cf\<in>set (drop 3 uc_batch_cfs). cf \<noteq> user_commands_cf \<and> cf \<noteq> user_command_state_hashes_cf"
    "user_commands_num_containing_blocks_cf \<noteq> user_commands_cf" "user_commands_num_containing_blocks_cf \<noteq> user_command_state_hashes_cf"
    by (simp_all add: uc_batch_cfs_def uc_batch_cf_defs)
  ultimately show ?thesis
    using d'(2-4) by (intro exI[of _ d'] exI[of _ "?n1 @ n2 @ n3"]) (auto simp: command_entry_def blocks_entry_def uc_batch_cfs_def)
qed

lemma add_user_commands_loop_batch:
  assumes "\<forall>c\<in>set cs. H (signed_command_from c) = Some (T c) \<and> txn_hash_is_valid (T c) \<and> (\<forall>pk\<in>command_keys c. length pk = PUBLIC_KEY_LEN)"
    "length (state_hash_of b) = STATE_HASH_LEN" "countable D now d" "get_user_commands_total_count D d = Inr t"
  shows "\<exists>d' new. add_user_command_loop D C H b cs (d, batch) = Inr (d', Some (batch @ new)) \<and>
    get_user_commands_total_count D d' = Inr (t + word_of_nat (length cs)) \<and> changes D (DEFAULT_CF # uc_count_cfs) d d' \<and>
    fst ` set new \<subseteq> set uc_batch_cfs \<and> filter (\<lambda>e. fst e = user_commands_cf) new = map (command_entry C b T) cs \<and>
    filter (\<lambda>e. fst e = user_command_state_hashes_cf) new = map (blocks_entry D C b T d) cs"
  using assms(1,3,4)
proof (induction cs arbitrary: d batch t)
  case (Cons c cs)
  obtain d1 new where d1: "add_user_command D C H b c (T c) (d, batch) = Inr (d1, batch @ new)" "countable D now d1"
    "get_user_commands_total_count D d1 = Inr (t + 1)" "changes D (DEFAULT_CF # uc_count_cfs) d d1" "fst ` set new \<subseteq> set uc_batch_cfs"
    "filter (\<lambda>e. fst e = user_commands_cf) new = [command_entry C b T c]"
    "filter (\<lambda>e. fst e = user_command_state_hashes_cf) new = [blocks_entry D C b T d c]"
    using add_user_command_batch[OF _ _ assms(2) Cons.prems(2) _ Cons.prems(3), of H c T C batch] Cons.prems(1) by auto
  obtain d2 new2 where d2: "add_user_command_loop D C H b cs (d1, batch @ new) = Inr (d2, Some ((batch @ new) @ new2))"
    "get_user_commands_total_count D d2 = Inr (t + 1 + word_of_nat (length cs))" "changes D (DEFAULT_CF # uc_count_cfs) d1 d2"
    "fst ` set new2 \<subseteq> set uc_batch_cfs" "filter (\<lambda>e. fst e = user_commands_cf) new2 = map (command_entry C b T) cs"
    "filter (\<lambda>e. fst e = user_command_state_hashes_cf) new2 = map (blocks_entry D C b T d1) cs"
    using Cons.IH[OF _ d1(2,3), of "batch @ new"] Cons.prems(1) by auto
  have "blocks_entry D C b T d1 = blocks_entry D C b T d"
    using blocks_with_changes[OF d1(4), of C b]
    by (auto simp: fun_eq_iff blocks_entry_def uc_count_cfs_def uc_cf_defs block_comparison_cf_def user_command_state_hashes_cf_def)
  then show ?case
    using d1 d2 changes_trans[OF d1(4) d2(3)] Cons.prems(1)
    by (intro exI[of _ d2] exI[of _ "new @ new2"]) (auto simp: add.assoc)
qed simp

end

section \<open>The commands of a public key\<close>

definition holds_uc_lists :: "('d, 'j) db_ops \<Rightarrow> 'j uc_codecs \<Rightarrow> 'd \<Rightarrow> (public_key \<Rightarrow> signed_command_with_data list list) \<Rightarrow> bool" where
  "holds_uc_lists D C d L \<longleftrightarrow> holds_lists D user_commands_pk_num_cf id user_commands_pk_cf user_command_db_key_pk
     (\<lambda>pk. length pk = PUBLIC_KEY_LEN) d (\<lambda>pk. map (json (pk_commands_codec C)) (L pk))"

sublocale key_value_db \<subseteq> pk_blocks: list_family D user_commands_pk_num_cf id user_commands_pk_cf user_command_db_key_pk
    "\<lambda>pk. length pk = PUBLIC_KEY_LEN"
  by unfold_locales (simp_all add: user_command_db_key_pk_inject user_commands_pk_num_cf_def user_commands_pk_cf_def)

definition pk_block_commands :: "precomputed_block \<Rightarrow> (user_command_with_status \<Rightarrow> txn_hash) \<Rightarrow> user_command_with_status list \<Rightarrow> public_key \<Rightarrow>
    signed_command_with_data list" where
  "pk_block_commands b T cs pk = map (stored_command b T) (filter (\<lambda>c. pk \<in> command_keys c) cs)"

definition pk_entries :: "'j uc_codecs \<Rightarrow> (public_key \<Rightarrow> signed_command_with_data list) \<Rightarrow> (public_key \<Rightarrow> signed_command_with_data list list) \<Rightarrow>
    public_key \<Rightarrow> (column_family \<times> bytes \<times> 'j stored) list" where
  "pk_entries C N L pk = (if N pk = [] then []
     else [(user_commands_pk_cf, user_command_db_key_pk pk (word_of_nat (length (L pk))), json (pk_commands_codec C) (N pk)),
       (user_commands_pk_num_cf, pk, raw_u32 (word_of_nat (Suc (length (L pk)))))])"

definition grow :: "'a list \<Rightarrow> 'a list list \<Rightarrow> 'a list list" where
  "grow new ls = (if new = [] then ls else ls @ [new])"

context key_value_db
begin

lemma holds_uc_count:
  "holds_uc_lists D C d L \<Longrightarrow> length pk = PUBLIC_KEY_LEN \<Longrightarrow>
     \<exists>n. get_pk_num_user_commands_blocks D pk d = Inr n \<and> unwrap_or n 0 = word_of_nat (length (L pk))"
  using pk_blocks.holds_lists_count[of d "\<lambda>pk. map (json (pk_commands_codec C)) (L pk)" pk]
  by (auto simp: holds_uc_lists_def get_pk_num_user_commands_blocks_def get_count_def run_simps)

lemma add_pk_commands_batch:
  assumes "\<forall>c\<in>set cs. H (signed_command_from c) = Some (T c)" "holds_uc_lists D C d L" "length pk = PUBLIC_KEY_LEN"
  shows "add_pk_commands D C H b cs d pk batch = Inr (batch @ pk_entries C (pk_block_commands b T cs) L pk)"
proof -
  obtain n where n: "get_pk_num_user_commands_blocks D pk d = Inr n" "unwrap_or n 0 = word_of_nat (length (L pk))"
    using holds_uc_count[OF assms(2,3)] by blast
  have w: "(word_of_nat (length (L pk)) + 1 :: u32) = word_of_nat (Suc (length (L pk)))" by simp
  have "traverse_ok (block_command_with_data H b) (filter (\<lambda>c. uc_contains_public_key c pk) cs) = Inr (pk_block_commands b T cs pk)"
    unfolding pk_block_commands_def uc_contains_public_key_iff
    by (rule traverse_ok_total) (use assms(1) in \<open>auto intro: block_command_with_data_stored\<close>)
  then show ?thesis by (simp add: add_pk_commands_def n pk_entries_def batch_put_def Let_def w del: of_nat_Suc)
qed

lemma add_all_pk_commands_batch:
  assumes "\<forall>c\<in>set cs. H (signed_command_from c) = Some (T c)" "holds_uc_lists D C d L" "\<forall>pk\<in>set pks. length pk = PUBLIC_KEY_LEN"
  shows "fold_ok (add_pk_commands D C H b cs d) pks batch = Inr (batch @ concat (map (pk_entries C (pk_block_commands b T cs) L) pks))"
  using assms(3) by (induction pks arbitrary: batch) (simp_all add: add_pk_commands_batch[OF assms(1,2)])

lemma pk_entries_written:
  assumes "holds_uc_lists D C e K" "K pk = L pk" "length pk = PUBLIC_KEY_LEN" "Suc (length (L pk)) < 2 ^ 32"
  shows "holds_uc_lists D C (db_write D (pk_entries C N L pk) e) (K(pk := grow (N pk) (K pk)))"
proof (cases "N pk = []")
  case False
  have K: "(\<lambda>q. map (json (pk_commands_codec C)) ((K(pk := grow (N pk) (K pk))) q)) =
      (\<lambda>q. map (json (pk_commands_codec C)) (K q))(pk := map (json (pk_commands_codec C)) (K pk) @ [json (pk_commands_codec C) (N pk)])"
    using False by (auto simp: grow_def)
  show ?thesis
    using pk_blocks.append_elems[OF assms(1)[unfolded holds_uc_lists_def] assms(3), of "[json (pk_commands_codec C) (N pk)]"] assms(2,4) False
    unfolding holds_uc_lists_def K by (simp add: pk_entries_def db_write_def del: of_nat_Suc)
qed (use assms(1) in \<open>simp add: pk_entries_def grow_def\<close>)

lemma all_pk_entries_written:
  assumes "holds_uc_lists D C e K" "distinct pks" "\<forall>pk\<in>set pks. K pk = L pk \<and> length pk = PUBLIC_KEY_LEN \<and> Suc (length (L pk)) < 2 ^ 32"
  shows "holds_uc_lists D C (db_write D (concat (map (pk_entries C N L) pks)) e) (\<lambda>pk. if pk \<in> set pks then grow (N pk) (K pk) else K pk)"
  using assms
proof (induction pks arbitrary: e K)
  case (Cons pk pks)
  let ?K = "K(pk := grow (N pk) (K pk))"
  have held: "holds_uc_lists D C (db_write D (pk_entries C N L pk) e) ?K" using pk_entries_written[OF Cons.prems(1)] Cons.prems(3) by simp
  have "\<forall>q\<in>set pks. ?K q = L q \<and> length q = PUBLIC_KEY_LEN \<and> Suc (length (L q)) < 2 ^ 32"
    using Cons.prems(2,3) by auto
  then have "holds_uc_lists D C (db_write D (concat (map (pk_entries C N L) pks)) (db_write D (pk_entries C N L pk) e))
      (\<lambda>q. if q \<in> set pks then grow (N q) (?K q) else ?K q)"
    using Cons.prems(2) by (intro Cons.IH[OF held]) simp_all
  moreover have "(\<lambda>q. if q \<in> set pks then grow (N q) (?K q) else ?K q) = (\<lambda>q. if q \<in> set (pk # pks) then grow (N q) (K q) else K q)"
    using Cons.prems(2) by (auto simp: fun_eq_iff)
  ultimately show ?case by (simp add: db_write_append)
qed simp

lemma collect_held:
  assumes "json_codec (pk_commands_codec C)" "holds_uc_lists D C d L" "length pk = PUBLIC_KEY_LEN" "n \<le> length (L pk)"
  shows "collect_pk_block_commands D C pk d [m..<n] acc = acc @ concat (drop m (take n (L pk)))"
proof (induction "n - m" arbitrary: m acc)
  case (Suc k)
  then have m: "m < n" by simp
  then have "db_get D d user_commands_pk_cf (user_command_db_key_pk pk (word_of_nat m)) = Some (json (pk_commands_codec C) (L pk ! m))"
    using assms(2-4) by (auto simp: holds_uc_lists_def holds_lists_def holds_list_def)
  moreover have "drop m (take n (L pk)) = L pk ! m # drop (Suc m) (take n (L pk))"
    using m assms(4) by (simp add: Cons_nth_drop_Suc[symmetric])
  ultimately show ?case
    using Suc(1)[of "Suc m"] Suc(2) m by (simp add: upt_conv_Cons get_json_def json_codec.parse_json_json[OF assms(1)])
qed simp

lemma get_user_commands_for_public_key_held:
  assumes "json_codec (pk_commands_codec C)" "holds_uc_lists D C d L" "length pk = PUBLIC_KEY_LEN" "L pk \<noteq> []"
  shows "get_user_commands_for_public_key D C pk d = Inr (Some (concat (L pk)))"
proof -
  have len: "length (L pk) < 2 ^ 32" using assms(2,3) by (auto simp: holds_uc_lists_def holds_lists_def holds_list_def)
  obtain n where n: "get_pk_num_user_commands_blocks D pk d = Inr n" "unwrap_or n 0 = word_of_nat (length (L pk))"
    using holds_uc_count[OF assms(2,3)] by blast
  have "n = Some (word_of_nat (length (L pk)))"
    using n(2) len assms(4) word_of_nat_u32_eq[of 0 "length (L pk)"] by (cases n) auto
  then show ?thesis
    using collect_held[OF assms(1-3), of "length (L pk)" 0 "[]"] n(1) len
    by (simp add: get_user_commands_for_public_key_def unat_word_of_nat_u32)
qed

text \<open>Reading after a batch: \<open>new\<close> holds the entries of the commands and then those of the public keys.\<close>

lemma commands_written:
  assumes "json_codec (command_codec C)" "json_codec (hashes_codec C)" "length (state_hash_of b) = STATE_HASH_LEN" "distinct (map T cs)"
    "\<forall>c\<in>set cs. txn_hash_is_valid (T c)" "c \<in> set cs"
    "filter (\<lambda>e. fst e = user_commands_cf) new = map (command_entry C b T) cs"
    "filter (\<lambda>e. fst e = user_command_state_hashes_cf) new = map (blocks_entry D C b T d) cs"
  shows "get_user_command_state_hash D C (T c) (state_hash_of b) (db_write D (batch @ new) d') = Inr (Some (stored_command b T c))"
    "get_user_command_state_hashes D C (T c) (db_write D (batch @ new) d') = Some (blocks_with D C b (T c) d)"
proof -
  have inj: "inj_on f (T ` set cs)" if "\<And>g h. txn_hash_is_valid g \<Longrightarrow> txn_hash_is_valid h \<Longrightarrow> f g = f h \<longleftrightarrow> g = h" for f :: "txn_hash \<Rightarrow> bytes"
    using that assms(5) by (auto simp: inj_on_def)
  have d1: "distinct (map (\<lambda>c. txn_bytes (T c) @ state_hash_of b) cs)"
    using inj[of "\<lambda>t. txn_bytes t @ state_hash_of b"] assms(4) txn_bytes_inject by (auto simp: distinct_map inj_on_def)
  have d2: "distinct (map (\<lambda>c. txn_hash_inner (T c)) cs)"
    using inj[of txn_hash_inner] assms(4) txn_hash_inner_inject by (auto simp: distinct_map inj_on_def)
  show "get_user_command_state_hash D C (T c) (state_hash_of b) (db_write D (batch @ new) d') = Inr (Some (stored_command b T c))"
    using get_write_new[OF assms(7)[unfolded command_entry_def] d1 assms(6)] txn_keys_valid(1)[OF _ assms(3)] assms(5,6)
    by (simp add: get_user_command_state_hash_def get_json_def json_codec.parse_json_json[OF assms(1)])
  show "get_user_command_state_hashes D C (T c) (db_write D (batch @ new) d') = Some (blocks_with D C b (T c) d)"
    using get_write_new[OF assms(8)[unfolded blocks_entry_def] d2 assms(6)]
    by (simp add: get_user_command_state_hashes_def get_json_def json_codec.parse_json_json[OF assms(2)])
qed

lemma pk_families_apart: "cf \<in> {user_commands_pk_num_cf, user_commands_pk_cf} \<Longrightarrow>
    cf \<notin> {user_commands_per_block_cf, block_user_command_counts_cf, usernames_per_block_cf} \<union> set uc_batch_cfs"
  by (auto simp: uc_batch_cfs_def uc_batch_cf_defs user_commands_pk_num_cf_def user_commands_pk_cf_def user_commands_per_block_cf_def
      block_user_command_counts_cf_def usernames_per_block_cf_def)

lemma block_commands_written:
  assumes "json_codec (block_commands_codec C)" "filter (\<lambda>e. fst e = user_commands_per_block_cf) new = []"
  shows "get_block_user_commands D C h (db_write D ((batch @ [(user_commands_per_block_cf, h, json (block_commands_codec C) cs),
    (block_user_command_counts_cf, k, v), (usernames_per_block_cf, k', v')]) @ new) d) = Some cs"
proof -
  have "db_get D (db_write D ((batch @ [(user_commands_per_block_cf, h, json (block_commands_codec C) cs),
    (block_user_command_counts_cf, k, v), (usernames_per_block_cf, k', v')]) @ new) d) user_commands_per_block_cf h = Some (json (block_commands_codec C) cs)"
    unfolding db_write_append get_write_family[of new] assms(2)
    by (simp add: db_write_def get_put user_commands_per_block_cf_def block_user_command_counts_cf_def usernames_per_block_cf_def)
  then show ?thesis by (simp add: get_block_user_commands_def get_json_def json_codec.parse_json_json[OF assms(1)])
qed

lemma user_commands_added:
  assumes "json_codec (block_commands_codec C)" "json_codec (command_codec C)" "json_codec (pk_commands_codec C)" "json_codec (hashes_codec C)"
    "length (state_hash_of b) = STATE_HASH_LEN" "commands b = Inr cs" "username_updates b = Inr names"
    "all_command_public_keys b = Inr pks" "\<forall>pk\<in>set pks. length pk = PUBLIC_KEY_LEN"
    "\<forall>c\<in>set cs. H (signed_command_from c) = Some (T c) \<and> txn_hash_is_valid (T c)" "distinct (map T cs)"
    "countable D now d" "get_user_commands_total_count D d = Inr t" "holds_uc_lists D C d L" "\<forall>pk. Suc (length (L pk)) < 2 ^ 32"
    "\<forall>e\<in>set batch. fst e \<notin> {user_commands_pk_num_cf, user_commands_pk_cf}"
  shows "\<exists>d' batch'. add_user_commands_batch D C H entries b d batch = Inr (d', Some batch') \<and>
    get_user_commands_total_count D d' = Inr (t + word_of_nat (length cs)) \<and>
    get_block_user_commands D C (state_hash_of b) (db_write D batch' d') = Some cs \<and>
    (\<forall>c\<in>set cs. get_user_command_state_hash D C (T c) (state_hash_of b) (db_write D batch' d') = Inr (Some (stored_command b T c)) \<and>
      get_user_command_state_hashes D C (T c) (db_write D batch' d') = Some (blocks_with D C b (T c) d)) \<and>
    holds_uc_lists D C (db_write D batch' d') (\<lambda>pk. grow (pk_block_commands b T cs pk) (L pk))"
proof -
  let ?h = "state_hash_of b" and ?N = "pk_block_commands b T cs"
  have pks: "distinct pks" "\<forall>c\<in>set cs. command_keys c \<subseteq> set pks"
    using assms(6,8) command_keys_in by (auto simp: all_command_public_keys_def)
  have keyed: "\<forall>c\<in>set cs. H (signed_command_from c) = Some (T c) \<and> txn_hash_is_valid (T c) \<and> (\<forall>pk\<in>command_keys c. length pk = PUBLIC_KEY_LEN)"
    using assms(9,10) pks(2) by blast
  define b1 where "b1 = batch @ [(user_commands_per_block_cf, ?h, json (block_commands_codec C) cs),
    (block_user_command_counts_cf, ?h, raw_u32 (word_of_nat (length cs))), (usernames_per_block_cf, ?h, json (usernames_codec C) (entries names))]"
  obtain d' new where d': "add_user_command_loop D C H b cs (d, b1) = Inr (d', Some (b1 @ new))"
    "get_user_commands_total_count D d' = Inr (t + word_of_nat (length cs))" "changes D (DEFAULT_CF # uc_count_cfs) d d'"
    "fst ` set new \<subseteq> set uc_batch_cfs" "filter (\<lambda>e. fst e = user_commands_cf) new = map (command_entry C b T) cs"
    "filter (\<lambda>e. fst e = user_command_state_hashes_cf) new = map (blocks_entry D C b T d) cs"
    using add_user_commands_loop_batch[OF keyed assms(5,12,13)] by blast
  let ?new = "new @ concat (map (pk_entries C ?N L) pks)"
  have held: "holds_uc_lists D C d' L"
    using assms(14) unfolding holds_uc_lists_def
    by (rule holds_lists_cong) (simp_all add: changes_get[OF d'(3)] uc_count_cfs_def uc_cf_defs user_commands_pk_num_cf_def user_commands_pk_cf_def)
  have tr: "\<forall>c\<in>set cs. H (signed_command_from c) = Some (T c)" using assms(10) by blast
  have run: "add_user_commands_batch D C H entries b d batch = Inr (d', Some (b1 @ ?new))"
    using add_all_pk_commands_batch[OF tr held assms(9), of b "b1 @ new"] d'(1)
    by (simp add: add_user_commands_batch_def assms(6-8) set_block_user_commands_batch_def set_block_user_commands_count_batch_def
        set_block_username_updates_batch_def batch_put_def b1_def Let_def)
  have fams: "fst ` set (concat (map (pk_entries C ?N L) pks)) \<subseteq> {user_commands_pk_cf, user_commands_pk_num_cf}"
    by (auto simp: pk_entries_def)
  have cfs: "cf \<notin> fst ` set batch \<Longrightarrow> cf \<notin> {user_commands_per_block_cf, block_user_command_counts_cf, usernames_per_block_cf} \<Longrightarrow>
      cf \<notin> set uc_batch_cfs \<Longrightarrow> db_get D (db_write D (b1 @ new) d') cf k = db_get D d' cf k" for cf k
    by (rule get_write_other) (use d'(4) in \<open>force simp: b1_def\<close>)
  have "holds_uc_lists D C (db_write D (b1 @ new) d') L"
    unfolding holds_uc_lists_def
    by (rule holds_lists_cong[OF held[unfolded holds_uc_lists_def]]; rule cfs) (use assms(16) pk_families_apart in auto)
  then have "holds_uc_lists D C (db_write D (b1 @ ?new) d') (\<lambda>pk. if pk \<in> set pks then grow (?N pk) (L pk) else L pk)"
    using all_pk_entries_written[OF _ pks(1), of C _ L L ?N] assms(9,15) by (simp add: db_write_append)
  moreover have "(\<lambda>pk. if pk \<in> set pks then grow (?N pk) (L pk) else L pk) = (\<lambda>pk. grow (?N pk) (L pk))"
    using pks(2) by (auto simp: fun_eq_iff grow_def pk_block_commands_def filter_empty_conv)
  moreover have other: "filter (\<lambda>e. fst e = cf) (concat (map (pk_entries C ?N L) pks)) = []" if "cf \<in> {user_commands_per_block_cf} \<union> set uc_batch_cfs" for cf
    by (rule no_entries[OF _ fams]) (use that pk_families_apart in auto)
  moreover have "filter (\<lambda>e. fst e = user_commands_per_block_cf) new = []"
    by (rule no_entries[OF _ d'(4)]) (simp add: uc_batch_cfs_def uc_batch_cf_defs user_commands_per_block_cf_def)
  then have "get_block_user_commands D C ?h (db_write D (b1 @ ?new) d') = Some cs"
    unfolding b1_def by (intro block_commands_written[OF assms(1)]) (simp add: other)
  moreover have "filter (\<lambda>e. fst e = user_commands_cf) ?new = map (command_entry C b T) cs"
    "filter (\<lambda>e. fst e = user_command_state_hashes_cf) ?new = map (blocks_entry D C b T d) cs"
    using d'(5,6) other by (simp_all add: uc_batch_cfs_def)
  ultimately show ?thesis using run d'(2) commands_written[OF assms(2,4,5,11) _ _, of _ ?new d b1 d'] assms(10) by simp
qed

end

section \<open>Canonical commands\<close>

definition canonical_command_counts :: "('d, 'j) db_ops \<Rightarrow> 'd \<Rightarrow> nat \<Rightarrow> nat \<Rightarrow> nat \<Rightarrow> bool" where
  "canonical_command_counts D d n a f \<longleftrightarrow> get_canonical_user_commands_count D d = Inr (word_of_nat n) \<and>
     get_applied_canonical_user_commands_count D d = Inr (word_of_nat a) \<and>
     get_failed_canonical_user_commands_count D d = Inr (word_of_nat f)"

abbreviation applied :: "user_command_with_status list \<Rightarrow> nat" where
  "applied cs \<equiv> length (filter uc_is_applied cs)"

abbreviation failed :: "user_command_with_status list \<Rightarrow> nat" where
  "failed cs \<equiv> length (filter (\<lambda>c. \<not> uc_is_applied c) cs)"

lemmas canonical_count_defs = canonical_command_counts_def get_canonical_user_commands_count_def get_applied_canonical_user_commands_count_def
  get_failed_canonical_user_commands_count_def TOTAL_NUM_CANONICAL_USER_COMMANDS_KEY_def
  TOTAL_NUM_APPLIED_CANONICAL_USER_COMMANDS_KEY_def TOTAL_NUM_FAILED_CANONICAL_USER_COMMANDS_KEY_def

context key_value_db
begin

lemma block_user_commands_default [simp]:
  "get_block_user_commands D C h (db_put D DEFAULT_CF k v d) = get_block_user_commands D C h d"
  by (simp add: get_block_user_commands_def get_json_def get_put DEFAULT_CF_def user_commands_per_block_cf_def)

lemma sat_sub_words: "m + k < 2 ^ 32 \<Longrightarrow> sat_sub (word_of_nat (m + k)) (word_of_nat k :: u32) = word_of_nat m"
  by (simp add: word_unat_eq_iff unat_sat_sub unat_word_of_nat_u32 del: of_nat_add)

lemma unapply_counts:
  assumes "get_block_user_commands D C (bu_state_hash u) d = Some cs"
    "canonical_command_counts D d (n + length cs) (a + applied cs) (f + failed cs)"
    "n + length cs < 2 ^ 32" "a + applied cs < 2 ^ 32" "f + failed cs < 2 ^ 32"
  shows "\<exists>d'. unapply_user_commands D C u d = Inr d' \<and> canonical_command_counts D d' n a f \<and>
    (\<forall>h. get_block_user_commands D C h d' = get_block_user_commands D C h d)"
  using assms(2) sat_sub_words[OF assms(3)] sat_sub_words[OF assms(4)] sat_sub_words[OF assms(5)]
  by (simp add: unapply_user_commands_def assms(1) decrement_canonical_user_commands_count_def
      decrement_applied_canonical_user_commands_count_def decrement_failed_canonical_user_commands_count_def sub_from_count_def
      canonical_count_defs del: of_nat_add)

lemma apply_counts:
  assumes "get_block_user_commands D C (bu_state_hash u) d = Some cs" "canonical_command_counts D d n a f"
  shows "\<exists>d'. apply_user_commands D C u d = Inr d' \<and> canonical_command_counts D d' (n + length cs) (a + applied cs) (f + failed cs) \<and>
    (\<forall>h. get_block_user_commands D C h d' = get_block_user_commands D C h d)"
  using assms(2)
  by (simp add: apply_user_commands_def assms(1) increment_canonical_user_commands_count_def
      increment_applied_canonical_user_commands_count_def increment_failed_canonical_user_commands_count_def add_to_count_def
      canonical_count_defs)

lemma unapply_all_counts:
  assumes "\<forall>u\<in>set us. get_block_user_commands D C (bu_state_hash u) d = Some (K u)"
    "canonical_command_counts D d (n + (\<Sum>u\<leftarrow>us. length (K u))) (a + (\<Sum>u\<leftarrow>us. applied (K u))) (f + (\<Sum>u\<leftarrow>us. failed (K u)))"
    "n + (\<Sum>u\<leftarrow>us. length (K u)) < 2 ^ 32" "a + (\<Sum>u\<leftarrow>us. applied (K u)) < 2 ^ 32" "f + (\<Sum>u\<leftarrow>us. failed (K u)) < 2 ^ 32"
  shows "\<exists>d'. fold_ok (unapply_user_commands D C) us d = Inr d' \<and> canonical_command_counts D d' n a f \<and>
    (\<forall>h. get_block_user_commands D C h d' = get_block_user_commands D C h d)"
  using assms
proof (induction us arbitrary: d)
  case (Cons u us)
  let ?n = "n + (\<Sum>u\<leftarrow>us. length (K u))" and ?a = "a + (\<Sum>u\<leftarrow>us. applied (K u))" and ?f = "f + (\<Sum>u\<leftarrow>us. failed (K u))"
  obtain d1 where d1: "unapply_user_commands D C u d = Inr d1" "canonical_command_counts D d1 ?n ?a ?f"
    "\<And>h. get_block_user_commands D C h d1 = get_block_user_commands D C h d"
    using unapply_counts[of C u d "K u" ?n ?a ?f] Cons.prems by (auto simp: ac_simps)
  show ?case using Cons.IH[OF _ d1(2)] Cons.prems d1 by auto
qed simp

lemma apply_all_counts:
  assumes "\<forall>u\<in>set us. get_block_user_commands D C (bu_state_hash u) d = Some (K u)" "canonical_command_counts D d n a f"
  shows "\<exists>d'. fold_ok (apply_user_commands D C) us d = Inr d' \<and>
    canonical_command_counts D d' (n + (\<Sum>u\<leftarrow>us. length (K u))) (a + (\<Sum>u\<leftarrow>us. applied (K u))) (f + (\<Sum>u\<leftarrow>us. failed (K u)))"
  using assms
proof (induction us arbitrary: d n a f)
  case (Cons u us)
  obtain d1 where d1: "apply_user_commands D C u d = Inr d1"
    "canonical_command_counts D d1 (n + length (K u)) (a + applied (K u)) (f + failed (K u))"
    "\<And>h. get_block_user_commands D C h d1 = get_block_user_commands D C h d"
    using apply_counts[of C u d "K u" n a f] Cons.prems by auto
  show ?case using Cons.IH[OF _ d1(2)] Cons.prems(1) d1(1,3) by (auto simp: add.assoc)
qed simp

end

section \<open>Properties of user commands\<close>

text \<open>
  C10: when the batch of a block is written, the block's commands are read back in order, each command is found by
  its hash in the block, its list of blocks is updated, and the commands that name a public key are read after those
  of earlier blocks; the total grows by their number.
\<close>

theorem user_commands_roundtrip:
  assumes "key_value_db D"
    "json_codec (block_commands_codec C)" "json_codec (command_codec C)" "json_codec (pk_commands_codec C)" "json_codec (hashes_codec C)"
    "length (state_hash_of b) = STATE_HASH_LEN" "commands b = Inr cs" "username_updates b = Inr names"
    "all_command_public_keys b = Inr pks" "\<forall>pk\<in>set pks. length pk = PUBLIC_KEY_LEN"
    "\<forall>c\<in>set cs. H (signed_command_from c) = Some (T c) \<and> txn_hash_is_valid (T c)" "distinct (map T cs)"
    "countable D now d" "get_user_commands_total_count D d = Inr t" "holds_uc_lists D C d L" "\<forall>pk. Suc (length (L pk)) < 2 ^ 32"
    "\<forall>e\<in>set batch. fst e \<notin> {user_commands_pk_num_cf, user_commands_pk_cf}"
  shows "\<exists>d' batch' e. add_user_commands_batch D C H entries b d batch = Inr (d', Some batch') \<and> e = db_write D batch' d' \<and>
    get_user_commands_total_count D d' = Inr (t + word_of_nat (length cs)) \<and>
    get_block_user_commands D C (state_hash_of b) e = Some cs \<and>
    (\<forall>c\<in>set cs. get_user_command_state_hash D C (T c) (state_hash_of b) e = Inr (Some (stored_command b T c)) \<and>
      get_user_command_state_hashes D C (T c) e = Some (blocks_with D C b (T c) d)) \<and>
    (\<forall>pk. length pk = PUBLIC_KEY_LEN \<and> (\<exists>c\<in>set cs. pk \<in> command_keys c) \<longrightarrow>
      get_user_commands_for_public_key D C pk e = Inr (Some (concat (L pk) @ pk_block_commands b T cs pk)))"
proof -
  obtain d' batch' where d': "add_user_commands_batch D C H entries b d batch = Inr (d', Some batch')"
    "get_user_commands_total_count D d' = Inr (t + word_of_nat (length cs))"
    "get_block_user_commands D C (state_hash_of b) (db_write D batch' d') = Some cs"
    "\<forall>c\<in>set cs. get_user_command_state_hash D C (T c) (state_hash_of b) (db_write D batch' d') = Inr (Some (stored_command b T c)) \<and>
      get_user_command_state_hashes D C (T c) (db_write D batch' d') = Some (blocks_with D C b (T c) d)"
    "holds_uc_lists D C (db_write D batch' d') (\<lambda>pk. grow (pk_block_commands b T cs pk) (L pk))"
    using key_value_db.user_commands_added[OF assms] by blast
  have "get_user_commands_for_public_key D C pk (db_write D batch' d') = Inr (Some (concat (L pk) @ pk_block_commands b T cs pk))"
    if "length pk = PUBLIC_KEY_LEN" "\<exists>c\<in>set cs. pk \<in> command_keys c" for pk
  proof -
    have "pk_block_commands b T cs pk \<noteq> []" using that(2) by (auto simp: pk_block_commands_def filter_empty_conv)
    then show ?thesis
      using key_value_db.get_user_commands_for_public_key_held[OF assms(1,4) d'(5) that(1)] by (simp add: grow_def)
  qed
  then show ?thesis using d'(1-4) by (intro exI[of _ d'] exI[of _ batch'] exI[of _ "db_write D batch' d'"]) simp
qed

text \<open>A V1 block with one payment of the default key to itself.\<close>

definition example_user_payment :: user_command_with_status where
  "example_user_payment = UcV1 (example_command\<lparr>uc1_data := \<lparr>sc1_signer = public_key_default, sc1_memo = [1, 0], sc1_fee = 10,
     sc1_fee_payer_pk = public_key_default, sc1_nonce = 3, sc1_body = PaymentPayloadV1 public_key_default public_key_default 30\<rparr>\<rparr>)"

definition example_payment_block :: precomputed_block where
  "example_payment_block = V1 \<lparr>b1_network = ''mainnet'', b1_state_hash = state_hash_default, b1_blockchain_length = 2,
     b1_protocol_state = example_state\<lparr>ps_consensus_state := (ps_consensus_state example_state)
       \<lparr>cs_coinbase_receiver := public_key_default, cs_block_creator := public_key_default,
        cs_block_stake_winner := public_key_default\<rparr>\<rparr>, b1_snarked_ledger_hash = ''j'',
     b1_pre_diff = \<lparr>d1_completed_works = [], d1_commands = [case example_user_payment of UcV1 c \<Rightarrow> c | UcV2 _ \<Rightarrow> example_command],
       d1_coinbase = CoinbaseCb None, d1_internal_command_balances = []\<rparr>,
     b1_post_diff = None\<rparr>"

datatype example_document =
    BlockDoc "user_command_with_status list"
  | CommandDoc signed_command_with_data
  | PkDoc "signed_command_with_data list"
  | HashesDoc "state_hash list"
  | ComparisonDoc block_comparison
  | NamesDoc username_entries

definition example_codecs :: "example_document uc_codecs" where
  "example_codecs = \<lparr>
     block_commands_codec = \<lparr>to_vec = BlockDoc, from_slice = (\<lambda>j. case j of BlockDoc x \<Rightarrow> Some x | _ \<Rightarrow> None)\<rparr>,
     command_codec = \<lparr>to_vec = CommandDoc, from_slice = (\<lambda>j. case j of CommandDoc x \<Rightarrow> Some x | _ \<Rightarrow> None)\<rparr>,
     pk_commands_codec = \<lparr>to_vec = PkDoc, from_slice = (\<lambda>j. case j of PkDoc x \<Rightarrow> Some x | _ \<Rightarrow> None)\<rparr>,
     hashes_codec = \<lparr>to_vec = HashesDoc, from_slice = (\<lambda>j. case j of HashesDoc x \<Rightarrow> Some x | _ \<Rightarrow> None)\<rparr>,
     comparison_codec = \<lparr>to_vec = ComparisonDoc, from_slice = (\<lambda>j. case j of ComparisonDoc x \<Rightarrow> Some x | _ \<Rightarrow> None)\<rparr>,
     usernames_codec = \<lparr>to_vec = NamesDoc, from_slice = (\<lambda>j. case j of NamesDoc x \<Rightarrow> Some x | _ \<Rightarrow> None)\<rparr>\<rparr>"

lemma example_codecs_json:
  "json_codec (block_commands_codec example_codecs)" "json_codec (command_codec example_codecs)"
  "json_codec (pk_commands_codec example_codecs)" "json_codec (hashes_codec example_codecs)"
  by (unfold_locales; simp add: example_codecs_def)+

definition example_txn :: txn_hash where
  "example_txn = TxnV2 ''5JBOGUSBOGUSBOGUSBOGUSBOGUSBOGUSBOGUSBOGUSBOGUSBOGUS''"

lemma example_payment_commands:
  "state_hash_of example_payment_block = state_hash_default" "commands example_payment_block = Inr [example_user_payment]"
  "all_command_public_keys example_payment_block = Inr [public_key_default]" "username_updates example_payment_block = Inr Map.empty"
  "txn_hash_is_valid example_txn" "command_keys example_user_payment = {public_key_default}"
  by (simp_all add: example_payment_block_def commands_def example_user_payment_def all_command_public_keys_def consensus_public_keys_def
      command_keys_def block_creator_def coinbase_receiver_def block_stake_winner_def consensus_state_of_def username_updates_def
      username_update_def uc_is_applied_def example_command_def decode_memo_def index_ok_def starts_with_def string_of_bytes_def
      NAME_SERVICE_MEMO_PREFIX_def example_txn_def txn_hash_is_valid_v2_def TXN_HASH_V2_LEN_def)

theorem user_commands_roundtrip_witness:
  "\<exists>d' batch' e. add_user_commands_batch assoc_ops example_codecs (\<lambda>_. Some example_txn) (\<lambda>_. []) example_payment_block [] [] =
      Inr (d', Some batch') \<and> e = db_write assoc_ops batch' d' \<and>
    get_user_commands_total_count assoc_ops d' = Inr 1 \<and>
    get_block_user_commands assoc_ops example_codecs state_hash_default e = Some [example_user_payment] \<and>
    get_user_commands_for_public_key assoc_ops example_codecs public_key_default e =
      Inr (Some [stored_command example_payment_block (\<lambda>_. example_txn) example_user_payment])"
proof -
  have "countable assoc_ops 0 []"
    by (simp add: countable_def counters_def get_count_def get_u32_def get_current_epoch_def get_best_block_hash_def get_hash_def)
  moreover have "get_user_commands_total_count assoc_ops [] = Inr 0" by (simp add: get_user_commands_total_count_def get_count_def get_u32_def)
  moreover have "holds_uc_lists assoc_ops example_codecs [] (\<lambda>_. [])"
    by (simp add: holds_uc_lists_def holds_lists_def holds_list_def get_count_def get_u32_def)
  moreover have "length state_hash_default = STATE_HASH_LEN" "length public_key_default = PUBLIC_KEY_LEN"
    by (simp_all add: state_hash_default_def public_key_default_def len_defs)
  ultimately show ?thesis
    using user_commands_roundtrip[OF assoc.key_value_db_axioms example_codecs_json, of example_payment_block "[example_user_payment]" Map.empty
        "[public_key_default]" "\<lambda>_. Some example_txn" "\<lambda>_. example_txn" 0 "[]" 0 "\<lambda>_. []" "[]" "\<lambda>_. []"]
    by (auto simp: example_payment_commands pk_block_commands_def)
qed

text \<open>
  C11: the counts of canonical commands, of applied and of failed ones, are the sums over the canonical blocks, and a
  change of the best chain keeps them so.
\<close>

theorem canonical_user_commands_counted:
  fixes D :: "('d, 'j) db_ops" and K :: "state_hash \<Rightarrow> user_command_with_status list"
  assumes "key_value_db D" "finite B" "distinct (map bu_state_hash us)" "bu_state_hash ` set us \<subseteq> B"
    "distinct (map bu_state_hash ws)" "bu_state_hash ` set ws \<inter> (B - bu_state_hash ` set us) = {}"
    "\<forall>u\<in>set (us @ ws). get_block_user_commands D C (bu_state_hash u) d = Some (K (bu_state_hash u))"
    "canonical_command_counts D d (\<Sum>h\<in>B. length (K h)) (\<Sum>h\<in>B. applied (K h)) (\<Sum>h\<in>B. failed (K h))" "(\<Sum>h\<in>B. length (K h)) < 2 ^ 32"
  defines "B' \<equiv> B - bu_state_hash ` set us \<union> bu_state_hash ` set ws"
  shows "\<exists>d'. update_user_commands D C \<lparr>du_apply = ws, du_unapply = us\<rparr> d = Inr d' \<and>
    canonical_command_counts D d' (\<Sum>h\<in>B'. length (K h)) (\<Sum>h\<in>B'. applied (K h)) (\<Sum>h\<in>B'. failed (K h))"
proof -
  let ?R = "B - bu_state_hash ` set us" and ?S = "\<lambda>g us. \<Sum>u\<leftarrow>us. g (K (bu_state_hash u))"
  have sum: "(\<Sum>h\<in>bu_state_hash ` set vs. g (K h)) = ?S g vs" if "distinct (map bu_state_hash vs)" for vs and g :: "_ \<Rightarrow> nat"
    using sum.distinct_set_conv_list[OF that, of "\<lambda>h. g (K h)"] by (simp add: comp_def)
  have B: "(\<Sum>h\<in>B. g (K h)) = (\<Sum>h\<in>?R. g (K h)) + ?S g us" for g :: "_ \<Rightarrow> nat"
    using sum.subset_diff[OF assms(4,2), of "\<lambda>h. g (K h)"] sum[OF assms(3)] by simp
  have W: "(\<Sum>h\<in>B'. g (K h)) = (\<Sum>h\<in>?R. g (K h)) + ?S g ws" for g :: "_ \<Rightarrow> nat"
    using sum.union_disjoint[of ?R "bu_state_hash ` set ws" "\<lambda>h. g (K h)"] assms(2,6) sum[OF assms(5)] by (simp add: B'_def Int_commute)
  note Bs = B[of length] B[of "\<lambda>cs. applied cs"] B[of "\<lambda>cs. failed cs"] and Ws = W[of length] W[of "\<lambda>cs. applied cs"] W[of "\<lambda>cs. failed cs"]
  have le: "(\<Sum>h\<in>B. g (K h)) < 2 ^ 32" if "\<And>cs. g cs \<le> length cs" for g
    using sum_mono[of B "\<lambda>h. g (K h)" "\<lambda>h. length (K h)"] that assms(9) by (meson le_less_trans)
  have bounds: "(\<Sum>h\<in>B. applied (K h)) < 2 ^ 32" "(\<Sum>h\<in>B. failed (K h)) < 2 ^ 32" by (rule le, simp)+
  obtain e where e: "fold_ok (unapply_user_commands D C) us d = Inr e"
      "canonical_command_counts D e (\<Sum>h\<in>?R. length (K h)) (\<Sum>h\<in>?R. applied (K h)) (\<Sum>h\<in>?R. failed (K h))"
      "\<And>h. get_block_user_commands D C h e = get_block_user_commands D C h d"
    using key_value_db.unapply_all_counts[OF assms(1), of us C d "\<lambda>u. K (bu_state_hash u)" "\<Sum>h\<in>?R. length (K h)"
        "\<Sum>h\<in>?R. applied (K h)" "\<Sum>h\<in>?R. failed (K h)"] assms(7-9) bounds unfolding Bs by auto
  show ?thesis
    using key_value_db.apply_all_counts[OF assms(1) _ e(2), of ws C "\<lambda>u. K (bu_state_hash u)"] assms(7) e(1,3)
    unfolding Ws by (simp add: update_user_commands_def)
qed

theorem canonical_user_commands_counted_witness:
  "\<exists>d'. update_user_commands assoc_ops example_codecs
      \<lparr>du_apply = [\<lparr>bu_state_hash = state_hash_default, bu_blockchain_length = 2, bu_global_slot_since_genesis = 2\<rparr>], du_unapply = []\<rparr>
      [((user_commands_per_block_cf, state_hash_default), json (block_commands_codec example_codecs) [example_user_payment])] = Inr d' \<and>
    canonical_command_counts assoc_ops d' 1 1 0"
  (is "\<exists>d'. update_user_commands _ _ _ ?d = _ \<and> _")
proof -
  have "get_block_user_commands assoc_ops example_codecs state_hash_default ?d = Some [example_user_payment]"
    by (simp add: get_block_user_commands_def get_json_def json_codec.parse_json_json[OF example_codecs_json(1)])
  moreover have "canonical_command_counts assoc_ops ?d 0 0 0"
    by (simp add: canonical_count_defs get_count_def get_u32_def DEFAULT_CF_def user_commands_per_block_cf_def)
  moreover have "uc_is_applied example_user_payment" by (simp add: example_user_payment_def uc_is_applied_def example_command_def)
  ultimately show ?thesis
    using canonical_user_commands_counted[OF assoc.key_value_db_axioms, of "{}" "[]"
        "[\<lparr>bu_state_hash = state_hash_default, bu_blockchain_length = 2, bu_global_slot_since_genesis = 2\<rparr>]"
        example_codecs ?d "\<lambda>_. [example_user_payment]"] by simp
qed

end
