(* ===== verification/Spec2Isabelle.thy ===== *)
theory Spec2Isabelle
  imports Internal_Commands Discovery Canonical_Ledger Indexer_Init Block_Reorgs Username_Store Best_Ledgers
    Internal_Command_Lists Snark_Fees User_Commands
begin

text \<open>
  \<^bold>\<open>The Mina indexer: ledgers, blocks, canonical chain discovery, the witness tree and the stores.\<close>

  The indexer reads precomputed blocks, derives from each a ledger diff, applies the diffs of the
  canonical chain to a ledger, and stores the blocks' commands.  Blocks near the tip live in the witness
  tree until they are canonical.  The theories follow the code under
  \<open>src/rust/src\<close>; definitions keep the names of the functions they translate.

  \<^bold>\<open>Conventions\<close> (\<open>Mina_Prelude\<close>).  \<open>u8\<close>, \<open>u32\<close>, \<open>u64\<close> are words: \<open>+\<close>, \<open>-\<close> and \<open>*\<close> wrap as in a release
  build, saturating operations are written out.  A panic is a value: \<open>'a run = panic + 'a\<close>, with
  \<open>bind_ok\<close>, \<open>map_ok\<close>, \<open>fold_ok\<close> and \<open>traverse_ok\<close>.  A \<open>HashMap\<close> or \<open>BTreeMap\<close> that is only looked up is a
  partial map; where the iteration order of a \<open>HashMap\<close> is observable it is an explicit parameter
  (\<open>hash_order\<close>) that permutes the entries.  A loop that may not end is a \<open>partial_function (option)\<close>,
  with \<open>None\<close> for not ending; there is no fuel.

  \<^bold>\<open>Parts\<close> (theory: source).
  \<^item> \<open>Base_Types\<close>: \<open>constants.rs\<close>, \<open>base/\<close>, \<open>ledger/hash.rs\<close>, \<open>ledger/token/\<close>.  Amounts, nonces, validated
    strings.
  \<^item> \<open>Block_Types\<close>, \<open>Commands\<close>, \<open>Precomputed\<close>: \<open>mina_blocks/\<close>, \<open>protocol/serialization_types/\<close>,
    \<open>command/mod.rs\<close>, \<open>block/precomputed/\<close>, \<open>block/post_hardfork/\<close>.  The data of V1 and V2 blocks and
    their accessors, the normalisation of commands, memos.
  \<^item> \<open>Account_Diffs\<close>, \<open>Coinbases\<close>, \<open>Ledger_Diffs\<close>: \<open>ledger/diff/\<close>, \<open>ledger/coinbase.rs\<close>.  From a block to
    its ledger diff: commands, account updates, coinbase, fee transfers, creation fees, expansion.
  \<^item> \<open>Accounts\<close>, \<open>Ledgers\<close>: \<open>ledger/account/mod.rs\<close>, \<open>ledger/mod.rs\<close>.  Applying and unapplying diffs.
  \<^item> \<open>Keyed_Stores\<close>: the interface both ledgers share.  The locale \<open>keyed_store\<close> says that a step
    replaces the value of one key, \<open>totalled_store\<close> adds balances; pointwise behaviour, totality and
    totals of whole diffs are proved there once and interpreted for \<open>ledger\<close>, \<open>token_ledger\<close> and for
    unapplying.
  \<^item> \<open>Block_Ledgers\<close>: a whole block applied to a ledger.
  \<^item> \<open>Internal_Commands\<close>: \<open>command/internal/mod.rs\<close>.  Internal commands and their stored form.
  \<^item> \<open>Blocks\<close>: \<open>block/mod.rs\<close>, \<open>chain/network.rs\<close>.  Block summaries, chain selection, file names.
  \<^item> \<open>Discovery\<close>: \<open>canonicity/canonical_chain_discovery.rs\<close>.
  \<^item> \<open>Id_Trees\<close>: the interface to the tree crate.  The record \<open>tree_ops\<close> holds the operations
    \<open>state/branch.rs\<close> calls, the locale \<open>id_tree\<close> their documented behaviour; the reference tree \<open>ref_ops\<close>
    satisfies it and evaluates the examples.
  \<^item> \<open>Branches\<close>, \<open>Branch_Merging\<close>, \<open>Branch_Pruning\<close>: \<open>state/branch.rs\<close>.  A branch is well formed
    (\<open>branch_inv\<close>) when the root is its only parentless node, heights count from it and each block names
    its parent; the lemmas inside \<open>id_tree\<close> show what every operation does to it.
  \<^item> \<open>Witness_Tree\<close>, \<open>Canonical_Ledger\<close>, \<open>Indexer_Init\<close>: \<open>state/mod.rs\<close>.  The indexer state, placing a
    block, best tip, canonical root, diffs and ledger; the first states.  \<open>extend_witness_tree\<close> is the
    middle part of \<open>add_block_to_witness_tree\<close>.  Writes to the database are a log; progress reports keep the
    remainder by the reporting frequency, which panics at zero, and leave out the messages.
  \<^item> \<open>Store_Keys\<close>: \<open>utility/store/\<close>, \<open>command/signed/txn_hash.rs\<close>.  The keys of the database and their parts.
  \<^item> \<open>Column_Families\<close>: \<open>store/mod.rs\<close>, \<open>store/column_families_impl.rs\<close>.  The families of the database.
  \<^item> \<open>Database\<close>: the interface to the key-value store.  The record \<open>db_ops\<close> holds reading, writing, deleting
    and iterating, the locale \<open>key_value_db\<close> their documented behaviour, \<open>json_codec\<close> that of JSON
    documents; an association list (\<open>assoc_ops\<close>) satisfies it and evaluates the examples.  A batch is a list
    of writes.
  \<^item> \<open>Counted_Lists\<close>: a list kept in the database as a count and its elements by index, the layout most
    stores share; the locale \<open>counted_list\<close> shows appending and dropping once.
  \<^item> \<open>Event_Store\<close>, \<open>Block_Store\<close>, \<open>Block_Lists\<close>: \<open>event/\<close>, \<open>store/event_store_impl.rs\<close>,
    \<open>store/block_store_impl.rs\<close>.  The event log; the properties of blocks, the blocks at a height, slot or
    public key and the slots with blocks.
  \<^item> \<open>Tallies\<close>, \<open>List_Families\<close>: counters kept in the database and families of lists, one per key; the
    predicate \<open>changes\<close> says which column families a step may change.  The locales \<open>tally\<close> and
    \<open>list_family\<close> are interpreted for every counter and every family of lists below.
  \<^item> \<open>Block_Counts\<close>, \<open>Canonicity_Store\<close>, \<open>Block_Reorgs\<close>: \<open>store/block_store_impl.rs\<close>,
    \<open>store/canonicity_store_impl.rs\<close>.  Production counts, the canonicity index, and the walk between two
    best tips with the update it gives.
  \<^item> \<open>Username_Store\<close>, \<open>Zkapp_Stores\<close>: \<open>store/username_store_impl.rs\<close>, \<open>store/zkapp_store_impl/\<close>.  The
    usernames of a key and the actions and events of a token account.
  \<^item> \<open>Best_Ledger_Store\<close>, \<open>Best_Ledgers\<close>: \<open>store/best_ledger_store_impl.rs\<close>.  The accounts of the best
    ledger, applying and unapplying blocks; \<open>holds_best\<close> relates the database to the accounts it holds.
  \<^item> \<open>Counters\<close>: well-formed counters, kept by the steps that change other families.
  \<^item> \<open>Internal_Command_Store\<close>, \<open>Internal_Command_Lists\<close>: \<open>store/internal_command_store_impl.rs\<close>, recording a
    canonical block (\<open>store/canonicity_store_impl.rs\<close>).  The internal commands of a block and of a key.
  \<^item> \<open>Signed_Commands\<close>, \<open>User_Command_Store\<close>, \<open>User_Commands\<close>: \<open>command/signed/mod.rs\<close>,
    \<open>store/user_command_store_impl.rs\<close>.  The user commands of a block, of a hash and of a key; the
    transaction hash \<open>H\<close> is a parameter.
  \<^item> \<open>Snark_Store\<close>, \<open>Snark_Works\<close>, \<open>Snark_Fees\<close>: \<open>snark_work/\<close>, \<open>store/snark_store_impl.rs\<close>.  The works of a block
    and of a prover, and the provers' fees.  The locale \<open>fee_table\<close> covers a table of fees with its sorted
    indices and is used for the all-time and the epoch table; \<open>holds_fees\<close> relates the database to the
    fees it holds.

  \<^bold>\<open>Parameters\<close>.  \<open>parse_amount\<close> (\<open>rust_decimal\<close>), \<open>blake2b\<close> and base64 (third-party crates) and \<open>prev\<close>
  (the parent hash read from a block file) are arguments of the definitions that use them, as are the
  tree operations \<open>T\<close>, the database \<open>D\<close>, its JSON codecs and the diffs stored in the database
  (\<open>stored_diff\<close>).  Errors of the database itself are left out.  \<open>slice::sort_by\<close> is a stable
  insertion sort; on comparators that are not total orders the standard library promises nothing, so
  the statements on sorted blocks ask for one genesis.

  \<^bold>\<open>What is shown\<close>.  A valid block is applied without a panic and moves the MINA supply by its coinbase
  only; a ledger diff acts pointwise; the fees of a block are credited in full and survive aggregation;
  unapplying restores a ledger under stated conditions, and two payments of one sender in a row never
  unapply; discovery, with a threshold and a reporting frequency other than zero, ends, partitions the
  block files and returns a parent-linked chain; chain selection is a strict total order on each side of
  the hard fork, and across it exactly the stated pairs of blocks are each better than the other; memos, displayed ledgers and file names round trip.  Blocks added to the
  witness tree in any order are all held exactly once per addition; a canonical update leaves the
  ledger of the best tip unchanged; merging and pruning act on branches as specified, with the exact
  condition under which pruning panics.
  The database orders balance keys by balance, keys split into their parts, every column family that is
  used is opened; the event log and the lists of blocks grow by exactly what is added.  A reorganisation
  to a tip at most one block higher turns the canonical index and counts of one chain into those of the
  other; usernames follow the chain; for diffs without actions the best ledger in the database follows the
  ledger in memory.  User commands and SNARK works are read back as they were added, internal commands with
  their fields but always as fee transfers, since the stored form does not say which they are.  The canonical
  counts of commands are their numbers, and a prover's fees are the total, maximum and minimum over the
  blocks applied.  Under stated conditions the stores fall short: a reorganisation to a tip two or more blocks
  higher leaves heights without a canonical block, accounts outlive their block, the actions of custom tokens
  panic, works of a second block at a height are missing from a prover's list, fees are added when a
  block is unapplied, and a genesis block is counted among the canonical blocks only.

  \<^bold>\<open>Not modelled\<close>.  The stores not named above and the pipeline that calls them (sync and replay), GraphQL
  and socket servers, the command line (I/O over third-party crates); serde and JSON conversions; the
  signer's curve arithmetic.
\<close>

end
